(* ===== verification/Prelude.thy ===== *)
theory Prelude
  imports Main "HOL-Library.Sublist"
begin

text \<open>
  What every component theory shares: the named collections of simplification rules, machine
  integer ranges, the SQL statements of the services as functions on tables (lists of rows with
  a primary key and CHECK constraints, as \<^verbatim>\<open>src/migrations\<close> declares them), the Redis
  key-value operations with expiry, gRPC status values, fault oracles for calls that leave the
  process, and reachability over a step relation.

  Conventions. A statement that PostgreSQL can refuse returns \<open>None\<close> for the refusal. Every call
  to a database, to Redis or to Kafka is also controlled by a fault oracle: a predicate on a
  datatype of call sites that says which of them fails on this run, so that every error return
  of the source is a branch of the model. Time is a number of nanoseconds (Go's
  \<^verbatim>\<open>time.Duration\<close> unit), passed as an argument where the source calls \<^verbatim>\<open>time.Now\<close> or
  SQL \<^verbatim>\<open>NOW()\<close>.
\<close>

section \<open>Named collections\<close>

named_theorems sql_simps \<open>characteristic equations of the table operations\<close>
named_theorems redis_simps \<open>characteristic equations of the key-value cache\<close>
named_theorems json_simps \<open>field lookup in JSON objects\<close>

section \<open>Base types\<close>

type_synonym time = int
type_synonym 'r tbl = "'r list"
type_synonym 's faults = "'s \<Rightarrow> bool"

abbreviation no_faults :: "'s faults" where
  "no_faults \<equiv> (\<lambda>_. False)"

definition second :: time where
  "second = 1000000000"

subsection \<open>Go's int64 and PostgreSQL's BIGINT\<close>

definition in_int64 :: "int \<Rightarrow> bool" where
  "in_int64 x \<longleftrightarrow> - (2 ^ 63) \<le> x \<and> x < 2 ^ 63"

definition wrap64 :: "int \<Rightarrow> int" where
  "wrap64 x = (x + 2 ^ 63) mod 2 ^ 64 - 2 ^ 63"

lemma wrap64_id [simp]: "in_int64 x \<Longrightarrow> wrap64 x = x"
  by (simp add: in_int64_def wrap64_def)

lemma wrap64_in [simp]: "in_int64 (wrap64 x)"
proof -
  have "0 \<le> (x + 2 ^ 63) mod 2 ^ 64" and "(x + 2 ^ 63) mod 2 ^ 64 < (2 ^ 64 :: int)"
    by simp_all
  then show ?thesis unfolding in_int64_def wrap64_def by simp
qed

lemma wrap64_wrap64 [simp]: "wrap64 (wrap64 x) = wrap64 x"
  by simp

section \<open>gRPC status\<close>

datatype codes = InvalidArgument | NotFound | FailedPrecondition | Internal | Unavailable

datatype grpc_status = Status (code: codes) (message: string)

section \<open>Errors as values\<close>

text \<open>
  A function of the source that returns a value and an error is a sum, \<open>Inl\<close> for the error.
  \<open>sbind\<close> is the \<^verbatim>\<open>if err != nil { return nil, ... }\<close> chain, \<open>guard_or\<close> an early
  return on a failed check, \<open>ok_or\<close> turns a refused statement into the error the source returns
  for it, and \<open>stmt\<close> is one statement under the fault oracle.
\<close>

definition sbind :: "'e + 'a \<Rightarrow> ('a \<Rightarrow> 'e + 'b) \<Rightarrow> 'e + 'b" where
  "sbind m f = (case m of Inl e \<Rightarrow> Inl e | Inr a \<Rightarrow> f a)"

definition guard_or :: "bool \<Rightarrow> 'e \<Rightarrow> 'e + unit" where
  "guard_or b e = (if b then Inr () else Inl e)"

definition ok_or :: "'a option \<Rightarrow> 'e \<Rightarrow> 'e + 'a" where
  "ok_or m e = (case m of None \<Rightarrow> Inl e | Some a \<Rightarrow> Inr a)"

definition stmt :: "'s faults \<Rightarrow> 's \<Rightarrow> 'a option \<Rightarrow> 'a option" where
  "stmt ft s m = (if ft s then None else m)"

lemma sbind_simps [simp]: "sbind (Inl e) f = Inl e" "sbind (Inr a) f = f a"
  by (simp_all add: sbind_def)

lemma sbind_eq_Inr [simp]: "sbind m f = Inr b \<longleftrightarrow> (\<exists>a. m = Inr a \<and> f a = Inr b)"
  by (cases m) auto

lemma sbind_eq_Inl: "sbind m f = Inl e \<longleftrightarrow> m = Inl e \<or> (\<exists>a. m = Inr a \<and> f a = Inl e)"
  by (cases m) auto

lemma guard_or_simps [simp]: "guard_or True e = Inr ()" "guard_or False e = Inl e"
  by (simp_all add: guard_or_def)

lemma guard_or_eq_Inr [simp]: "guard_or b e = Inr u \<longleftrightarrow> b"
  by (simp add: guard_or_def)

lemma guard_or_eq_Inl [simp]: "guard_or b e = Inl e' \<longleftrightarrow> \<not> b \<and> e' = e"
  by (auto simp: guard_or_def)

lemma ok_or_simps [simp]: "ok_or (Some a) e = Inr a" "ok_or None e = Inl e"
  by (simp_all add: ok_or_def)

lemma ok_or_eq_Inr [simp]: "ok_or m e = Inr a \<longleftrightarrow> m = Some a"
  by (cases m) auto

lemma ok_or_eq_Inl [simp]: "ok_or m e = Inl e' \<longleftrightarrow> m = None \<and> e' = e"
  by (cases m) auto

lemma stmt_eq_Some [simp]: "stmt ft s m = Some a \<longleftrightarrow> \<not> ft s \<and> m = Some a"
  by (simp add: stmt_def)

lemma stmt_eq_None [simp]: "stmt ft s m = None \<longleftrightarrow> ft s \<or> m = None"
  by (simp add: stmt_def)

lemma stmt_None [simp]: "stmt ft s None = None"
  by (simp add: stmt_def)

lemma stmt_no_faults [simp]: "stmt no_faults s m = m"
  by (simp add: stmt_def)

section \<open>SQL tables\<close>

text \<open>
  \<open>query_row\<close> is a \<^verbatim>\<open>SELECT ... WHERE\<close> read with \<^verbatim>\<open>QueryRow\<close> (\<open>None\<close> is
  \<^verbatim>\<open>pgx.ErrNoRows\<close>), \<open>update_rows\<close> an \<^verbatim>\<open>UPDATE ... SET ... WHERE\<close> that fails as a
  whole when a changed row violates a CHECK constraint or a column's range, \<open>insert_row\<close> an
  \<^verbatim>\<open>INSERT\<close> that fails on a duplicate key, a CHECK or a foreign key, and
  \<open>insert_nothing\<close> the same with \<^verbatim>\<open>ON CONFLICT DO NOTHING\<close>, and \<open>upsert_row\<close> with
  \<^verbatim>\<open>ON CONFLICT (key) DO UPDATE\<close>. PostgreSQL checks the CHECK constraints of the proposed
  row before it looks for a conflict, so a proposed row that violates one fails in all three.
\<close>

definition query_row :: "('r \<Rightarrow> bool) \<Rightarrow> 'r tbl \<Rightarrow> 'r option" where
  "query_row p t = find p t"

definition set_rows :: "('r \<Rightarrow> bool) \<Rightarrow> ('r \<Rightarrow> 'r) \<Rightarrow> 'r tbl \<Rightarrow> 'r tbl" where
  "set_rows p f t = map (\<lambda>r. if p r then f r else r) t"

definition update_rows ::
    "('r \<Rightarrow> bool) \<Rightarrow> ('r \<Rightarrow> bool) \<Rightarrow> ('r \<Rightarrow> 'r) \<Rightarrow> 'r tbl \<Rightarrow> 'r tbl option" where
  "update_rows chk p f t =
     (if list_all (\<lambda>r. p r \<longrightarrow> chk (f r)) t then Some (set_rows p f t) else None)"

definition insert_row ::
    "('r \<Rightarrow> 'k) \<Rightarrow> ('r \<Rightarrow> bool) \<Rightarrow> ('r \<Rightarrow> bool) \<Rightarrow> 'r \<Rightarrow> 'r tbl \<Rightarrow> 'r tbl option" where
  "insert_row key chk fk r t =
     (if chk r \<and> key r \<notin> set (map key t) \<and> fk r then Some (t @ [r]) else None)"

definition insert_nothing ::
    "('r \<Rightarrow> 'k) \<Rightarrow> ('r \<Rightarrow> bool) \<Rightarrow> ('r \<Rightarrow> bool) \<Rightarrow> 'r \<Rightarrow> 'r tbl \<Rightarrow> 'r tbl option" where
  "insert_nothing key chk fk r t =
     (if \<not> chk r then None
      else if key r \<in> set (map key t) then Some t
      else if fk r then Some (t @ [r]) else None)"

definition upsert_row ::
    "('r \<Rightarrow> 'k) \<Rightarrow> ('r \<Rightarrow> bool) \<Rightarrow> ('r \<Rightarrow> bool) \<Rightarrow> 'r \<Rightarrow> ('r \<Rightarrow> 'r) \<Rightarrow> 'r tbl \<Rightarrow> 'r tbl option"
  where
  "upsert_row key chk fk r f t =
     (if \<not> chk r then None
      else if key r \<in> set (map key t) then update_rows chk (\<lambda>x. key x = key r) f t
      else if fk r then Some (t @ [r]) else None)"

definition by_key :: "('r \<Rightarrow> 'k) \<Rightarrow> 'k \<Rightarrow> 'r tbl \<Rightarrow> 'r option" where
  "by_key key k t = query_row (\<lambda>r. key r = k) t"

definition table_ok :: "('r \<Rightarrow> 'k) \<Rightarrow> ('r \<Rightarrow> bool) \<Rightarrow> 'r tbl \<Rightarrow> bool" where
  "table_ok key chk t \<longleftrightarrow> distinct (map key t) \<and> list_all chk t"

subsection \<open>Characteristic equations\<close>

lemma find_append [simp]:
  "find p (xs @ ys) = (case find p xs of Some x \<Rightarrow> Some x | None \<Rightarrow> find p ys)"
  by (induction xs) auto

lemma by_key_Nil [sql_simps]: "by_key key k [] = None"
  by (simp add: by_key_def query_row_def)

lemma by_key_None_iff: "by_key key k t = None \<longleftrightarrow> k \<notin> key ` set t"
  by (auto simp: by_key_def query_row_def find_None_iff)

lemma by_key_SomeD: "by_key key k t = Some r \<Longrightarrow> r \<in> set t \<and> key r = k"
  by (auto simp: by_key_def query_row_def find_Some_iff)

lemma by_key_in_set:
  assumes "distinct (map key t)" "r \<in> set t"
  shows "by_key key (key r) t = Some r"
  using assms by (induction t) (auto simp: by_key_def query_row_def)

lemma by_key_append [sql_simps]:
  "by_key key k (t @ [r]) =
     (case by_key key k t of Some x \<Rightarrow> Some x | None \<Rightarrow> if key r = k then Some r else None)"
  by (auto simp: by_key_def query_row_def split: option.splits)

lemma by_key_set_rows [sql_simps]:
  assumes "\<And>r. key (f r) = key r"
  shows "by_key key k (set_rows (\<lambda>r. key r = j) f t) =
     (if k = j then map_option f (by_key key k t) else by_key key k t)"
  using assms by (induction t) (auto simp: by_key_def query_row_def set_rows_def)

lemma by_key_set_rows_guarded:
  assumes "\<And>r. key (f r) = key r"
  shows "by_key key k (set_rows p f t) =
     map_option (\<lambda>r. if p r then f r else r) (by_key key k t)"
  using assms by (induction t) (auto simp: by_key_def query_row_def set_rows_def)

lemma keys_set_rows [sql_simps]:
  assumes "\<And>r. key (f r) = key r"
  shows "map key (set_rows p f t) = map key t"
  using assms by (simp add: set_rows_def)

lemma length_set_rows [simp]: "length (set_rows p f t) = length t"
  by (simp add: set_rows_def)

lemma set_rows_none [simp]: "(\<And>r. r \<in> set t \<Longrightarrow> \<not> p r) \<Longrightarrow> set_rows p f t = t"
  by (induction t) (auto simp: set_rows_def)

lemma update_rows_SomeD:
  "update_rows chk p f t = Some t' \<Longrightarrow> t' = set_rows p f t \<and> list_all (\<lambda>r. p r \<longrightarrow> chk (f r)) t"
  by (auto simp: update_rows_def split: if_splits)

lemma insert_row_SomeD:
  "insert_row key chk fk r t = Some t' \<Longrightarrow>
     t' = t @ [r] \<and> chk r \<and> by_key key (key r) t = None \<and> fk r"
  by (auto simp: insert_row_def by_key_None_iff split: if_splits)

lemma insert_row_iff:
  "insert_row key chk fk r t = Some t' \<longleftrightarrow>
     chk r \<and> by_key key (key r) t = None \<and> fk r \<and> t' = t @ [r]"
  by (auto simp: insert_row_def by_key_None_iff)

lemma insert_nothing_SomeD:
  "insert_nothing key chk fk r t = Some t' \<Longrightarrow>
     (t' = t \<and> by_key key (key r) t \<noteq> None) \<or>
     (t' = t @ [r] \<and> chk r \<and> by_key key (key r) t = None \<and> fk r)"
  by (auto simp: insert_nothing_def by_key_None_iff split: if_splits)

subsection \<open>The primary key and the CHECK constraints survive every statement\<close>

lemma table_ok_Nil [simp]: "table_ok key chk []"
  by (simp add: table_ok_def)

lemma table_ok_set_rows:
  assumes "table_ok key chk t" "\<And>r. key (f r) = key r" "list_all (\<lambda>r. p r \<longrightarrow> chk (f r)) t"
  shows "table_ok key chk (set_rows p f t)"
proof -
  have "distinct (map key (set_rows p f t))"
    using assms(1,2) by (simp add: table_ok_def keys_set_rows)
  moreover have "list_all chk (set_rows p f t)"
    using assms(1,3) by (auto simp: table_ok_def list_all_iff set_rows_def)
  ultimately show ?thesis by (simp add: table_ok_def)
qed

lemma table_ok_update:
  assumes "table_ok key chk t" "update_rows chk p f t = Some t'" "\<And>r. key (f r) = key r"
  shows "table_ok key chk t'"
  using assms(1,3) update_rows_SomeD [OF assms(2)] by (auto intro: table_ok_set_rows)

lemma table_ok_insert:
  assumes "table_ok key chk t" "insert_row key chk fk r t = Some t'"
  shows "table_ok key chk t'"
  using assms(1) insert_row_SomeD [OF assms(2)] by (auto simp: table_ok_def by_key_None_iff)

lemma table_ok_insert_nothing:
  assumes "table_ok key chk t" "insert_nothing key chk fk r t = Some t'"
  shows "table_ok key chk t'"
  using assms(1) insert_nothing_SomeD [OF assms(2)] by (auto simp: table_ok_def by_key_None_iff)

lemma table_ok_upsert:
  assumes "table_ok key chk t" "upsert_row key chk fk r f t = Some t'" "\<And>r. key (f r) = key r"
  shows "table_ok key chk t'"
  using assms by (auto simp: upsert_row_def table_ok_def [of key chk "t @ [r]"] table_ok_def [of key chk t]
      split: if_splits intro: table_ok_update [of key chk t _ f])

lemma by_key_upsert:
  assumes "table_ok key chk t" "upsert_row key chk fk r f t = Some t'" "\<And>r. key (f r) = key r"
  shows "by_key key k t' =
     (if k = key r then Some (case by_key key k t of None \<Rightarrow> r | Some x \<Rightarrow> f x)
      else by_key key k t)"
proof (cases "by_key key (key r) t")
  case None
  with assms(2) have "t' = t @ [r]" by (auto simp: upsert_row_def by_key_None_iff split: if_splits)
  with None show ?thesis by (auto simp: by_key_append split: option.splits)
next
  case (Some x)
  then have "key r \<in> key ` set t" using by_key_SomeD [OF Some] by (metis imageI)
  then have "t' = set_rows (\<lambda>x. key x = key r) f t"
    using assms(2) by (auto simp: upsert_row_def dest: update_rows_SomeD split: if_splits)
  with Some assms(3) show ?thesis by (simp add: by_key_set_rows)
qed

lemma table_ok_chk: "table_ok key chk t \<Longrightarrow> by_key key k t = Some r \<Longrightarrow> chk r"
  by (auto simp: table_ok_def list_all_iff dest: by_key_SomeD)

lemma update_rows_by_key:
  assumes "table_ok key chk0 t" "by_key key k t = Some r"
  shows "update_rows chk (\<lambda>r. key r = k) f t =
     (if chk (f r) then Some (set_rows (\<lambda>r. key r = k) f t) else None)"
proof -
  have "list_all (\<lambda>x. key x = k \<longrightarrow> chk (f x)) t \<longleftrightarrow> chk (f r)"
    using assms by (auto simp: list_all_iff table_ok_def dest: by_key_SomeD by_key_in_set)
  then show ?thesis by (simp add: update_rows_def)
qed

lemma update_rows_no_match:
  "by_key key k t = None \<Longrightarrow> update_rows chk (\<lambda>r. key r = k) f t = Some t"
  by (force simp: update_rows_def list_all_iff by_key_None_iff intro: set_rows_none)

lemmas table_intros = table_ok_update table_ok_insert table_ok_insert_nothing table_ok_upsert

section \<open>Redis\<close>

text \<open>
  A Redis instance maps a key to a value with the instant at which it expires. \<open>redis_set\<close> is
  \<^verbatim>\<open>SET key value EX ttl\<close>, \<open>redis_expire\<close> is \<^verbatim>\<open>EXPIRE\<close> (no effect on a key that is
  gone). \<open>redis_evict\<close> is what an eviction policy such as allkeys-lru may do at any moment.
\<close>

type_synonym 'v redis = "string \<rightharpoonup> ('v \<times> time)"

definition redis_get :: "time \<Rightarrow> 'v redis \<Rightarrow> string \<Rightarrow> 'v option" where
  "redis_get now r k =
     (case r k of None \<Rightarrow> None | Some (v, e) \<Rightarrow> if now < e then Some v else None)"

definition redis_set :: "time \<Rightarrow> string \<Rightarrow> 'v \<Rightarrow> time \<Rightarrow> 'v redis \<Rightarrow> 'v redis" where
  "redis_set now k v ttl r = r(k \<mapsto> (v, now + ttl))"

definition redis_expire :: "time \<Rightarrow> string \<Rightarrow> time \<Rightarrow> 'v redis \<Rightarrow> 'v redis" where
  "redis_expire now k ttl r =
     (case redis_get now r k of None \<Rightarrow> r | Some v \<Rightarrow> r(k \<mapsto> (v, now + ttl)))"

definition redis_evict :: "string \<Rightarrow> 'v redis \<Rightarrow> 'v redis" where
  "redis_evict k r = r(k := None)"

lemma redis_get_set [redis_simps]:
  "redis_get now' (redis_set now k v ttl r) k' =
     (if k' = k then (if now' < now + ttl then Some v else None) else redis_get now' r k')"
  by (simp add: redis_get_def redis_set_def)

lemma redis_get_empty [redis_simps]: "redis_get now Map.empty k = None"
  by (simp add: redis_get_def)

lemma redis_get_evict [redis_simps]:
  "redis_get now (redis_evict k r) k' = (if k' = k then None else redis_get now r k')"
  by (simp add: redis_get_def redis_evict_def)

lemma redis_get_expire [redis_simps]:
  "redis_get now' (redis_expire now k ttl r) k' =
     (if k' = k \<and> redis_get now r k \<noteq> None
      then (if now' < now + ttl then redis_get now r k else None) else redis_get now' r k')"
  by (auto simp: redis_get_def redis_expire_def split: option.splits)

section \<open>Reachability\<close>

text \<open>The states a step relation reaches from a start state, and the invariant rule.\<close>

inductive reach :: "('s \<Rightarrow> 's \<Rightarrow> bool) \<Rightarrow> 's \<Rightarrow> 's \<Rightarrow> bool" for step :: "'s \<Rightarrow> 's \<Rightarrow> bool" where
  reach_refl [simp, intro]: "reach step s s"
| reach_step: "reach step s t \<Longrightarrow> step t u \<Longrightarrow> reach step s u"

lemma reach_trans: "reach step t u \<Longrightarrow> reach step s t \<Longrightarrow> reach step s u"
  by (induction rule: reach.induct) (auto intro: reach_step)

lemma reach_single: "step s t \<Longrightarrow> reach step s t"
  by (blast intro: reach_step)

lemma reach_invariant:
  assumes "reach step s t" "I s" "\<And>u v. I u \<Longrightarrow> step u v \<Longrightarrow> I v"
  shows "I t"
  using assms by (induction rule: reach.induct) auto

end
