(* ===== verification/GoStrings.thy ===== *)
theory GoStrings
  imports Prelude
begin

text \<open>
  The functions of Go's \<^verbatim>\<open>strings\<close>, \<^verbatim>\<open>strconv\<close>, \<^verbatim>\<open>fmt\<close> and \<^verbatim>\<open>time\<close>
  packages that the services call. A Go string is a sequence of bytes, here a list of characters
  (HOL's \<open>char\<close> has 256 values). \<^verbatim>\<open>ToLower\<close> and \<^verbatim>\<open>TrimSpace\<close> are given on ASCII text,
  which is what the feeds deliver in the fields they are applied to.

  Shown: decimal printing and parsing are inverse, \<^verbatim>\<open>Index\<close> finds the first occurrence,
  \<^verbatim>\<open>SplitN\<close> loses nothing, prefixes are stripped exactly, and an RFC 3339 timestamp that was
  formatted from an instant parses back to that instant.
\<close>

section \<open>strings\<close>

definition strings_HasPrefix :: "string \<Rightarrow> string \<Rightarrow> bool" where
  "strings_HasPrefix s p \<longleftrightarrow> take (length p) s = p"

definition strings_HasSuffix :: "string \<Rightarrow> string \<Rightarrow> bool" where
  "strings_HasSuffix s p \<longleftrightarrow> length p \<le> length s \<and> drop (length s - length p) s = p"

definition strings_TrimPrefix :: "string \<Rightarrow> string \<Rightarrow> string" where
  "strings_TrimPrefix s p = (if strings_HasPrefix s p then drop (length p) s else s)"

definition strings_TrimSuffix :: "string \<Rightarrow> string \<Rightarrow> string" where
  "strings_TrimSuffix s p = (if strings_HasSuffix s p then take (length s - length p) s else s)"

definition strings_TrimLeft :: "string \<Rightarrow> string \<Rightarrow> string" where
  "strings_TrimLeft s cutset = dropWhile (\<lambda>c. c \<in> set cutset) s"

definition is_space :: "char \<Rightarrow> bool" where
  "is_space c \<longleftrightarrow> (let n = of_char c :: nat in n = 32 \<or> (9 \<le> n \<and> n \<le> 13))"

definition strings_TrimSpace :: "string \<Rightarrow> string" where
  "strings_TrimSpace s = rev (dropWhile is_space (rev (dropWhile is_space s)))"

text \<open>\<^verbatim>\<open>strings.Index\<close>: the first position of \<open>sub\<close> in \<open>s\<close>, or -1.\<close>

fun strings_Index :: "string \<Rightarrow> string \<Rightarrow> int" where
  "strings_Index [] sub = (if sub = [] then 0 else - 1)"
| "strings_Index (c # s) sub =
     (if strings_HasPrefix (c # s) sub then 0
      else let i = strings_Index s sub in if i < 0 then - 1 else i + 1)"

fun strings_LastIndex :: "string \<Rightarrow> string \<Rightarrow> int" where
  "strings_LastIndex [] sub = (if sub = [] then 0 else - 1)"
| "strings_LastIndex (c # s) sub =
     (let i = strings_LastIndex s sub
      in if 0 \<le> i then i + 1 else if strings_HasPrefix (c # s) sub then 0 else - 1)"

text \<open>\<^verbatim>\<open>strings.SplitN(s, sep, 2)\<close> for a non-empty separator.\<close>

definition strings_SplitN2 :: "string \<Rightarrow> string \<Rightarrow> string list" where
  "strings_SplitN2 s sep =
     (let i = strings_Index s sep
      in if i < 0 then [s] else [take (nat i) s, drop (nat i + length sep) s])"

text \<open>\<^verbatim>\<open>strings.ReplaceAll\<close> for a non-empty \<open>old\<close>: \<open>k\<close> counts the characters of a match
  that are still to be skipped.\<close>

fun replace_from :: "nat \<Rightarrow> string \<Rightarrow> string \<Rightarrow> string \<Rightarrow> string" where
  "replace_from k [] old new = []"
| "replace_from (Suc k) (c # s) old new = replace_from k s old new"
| "replace_from 0 (c # s) old new =
     (if strings_HasPrefix (c # s) old then new @ replace_from (length old - 1) s old new
      else c # replace_from 0 s old new)"

definition strings_ReplaceAll :: "string \<Rightarrow> string \<Rightarrow> string \<Rightarrow> string" where
  "strings_ReplaceAll s old new = replace_from 0 s old new"

definition lower_char :: "char \<Rightarrow> char" where
  "lower_char c = (let n = of_char c :: nat in if 65 \<le> n \<and> n \<le> 90 then char_of (n + 32) else c)"

definition strings_ToLower :: "string \<Rightarrow> string" where
  "strings_ToLower s = map lower_char s"

lemma HasPrefix_append [simp]: "strings_HasPrefix (p @ s) p"
  by (simp add: strings_HasPrefix_def)

lemma HasPrefix_iff: "strings_HasPrefix s p \<longleftrightarrow> (\<exists>t. s = p @ t)"
  by (metis append_eq_conv_conj append_take_drop_id strings_HasPrefix_def)

lemma TrimPrefix_append [simp]: "strings_TrimPrefix (p @ s) p = s"
  by (simp add: strings_TrimPrefix_def)

lemma Index_ge: "- 1 \<le> strings_Index s sub"
  by (induction s sub rule: strings_Index.induct) (auto simp: Let_def)

lemma Index_le: "strings_Index s sub \<le> int (length s)"
  by (induction s sub rule: strings_Index.induct) (auto simp: Let_def)

lemma Index_sound: "0 \<le> strings_Index s sub \<Longrightarrow> strings_HasPrefix (drop (nat (strings_Index s sub)) s) sub"
proof (induction s sub rule: strings_Index.induct)
  case (2 c s sub)
  then show ?case
    by (cases "strings_HasPrefix (c # s) sub") (auto simp: Let_def nat_add_distrib split: if_splits)
qed (auto simp: strings_HasPrefix_def split: if_splits)

lemma Index_least:
  "strings_HasPrefix (drop k s) sub \<Longrightarrow> k \<le> length s \<Longrightarrow>
     0 \<le> strings_Index s sub \<and> strings_Index s sub \<le> int k"
proof (induction s sub arbitrary: k rule: strings_Index.induct)
  case (2 c s sub)
  then show ?case by (cases k) (fastforce simp: Let_def)+
qed (auto simp: strings_HasPrefix_def)

lemma SplitN2_join:
  "strings_SplitN2 s sep = [a, b] \<Longrightarrow> s = a @ sep @ b"
proof -
  assume "strings_SplitN2 s sep = [a, b]"
  then have i: "0 \<le> strings_Index s sep" and ab: "a = take (nat (strings_Index s sep)) s"
    "b = drop (nat (strings_Index s sep) + length sep) s"
    by (auto simp: strings_SplitN2_def Let_def split: if_splits)
  obtain t where "drop (nat (strings_Index s sep)) s = sep @ t"
    using Index_sound [OF i] by (auto simp: HasPrefix_iff)
  moreover from this have "b = t" unfolding ab
    by (metis append_eq_conv_conj drop_drop add.commute)
  ultimately show "s = a @ sep @ b" unfolding ab(1) by (metis append_take_drop_id)
qed

section \<open>strconv\<close>

definition digit :: "nat \<Rightarrow> char" where
  "digit d = char_of (48 + d)"

definition is_digit :: "char \<Rightarrow> bool" where
  "is_digit c \<longleftrightarrow> (let n = of_char c :: nat in 48 \<le> n \<and> n \<le> 57)"

definition digit_val :: "char \<Rightarrow> nat" where
  "digit_val c = of_char c - 48"

fun nat_digits :: "nat \<Rightarrow> string" where
  "nat_digits n = (if n < 10 then [digit n] else nat_digits (n div 10) @ [digit (n mod 10)])"

declare nat_digits.simps [simp del]

text \<open>\<^verbatim>\<open>fmt.Sprintf("%d", n)\<close>, which is \<^verbatim>\<open>strconv.Itoa\<close>.\<close>

definition itoa :: "int \<Rightarrow> string" where
  "itoa n = (if n < 0 then ''-'' @ nat_digits (nat (- n)) else nat_digits (nat n))"

definition digits_val :: "string \<Rightarrow> nat" where
  "digits_val s = foldl (\<lambda>a c. 10 * a + digit_val c) 0 s"

definition parse_nat :: "string \<Rightarrow> nat option" where
  "parse_nat s = (if s \<noteq> [] \<and> list_all is_digit s then Some (digits_val s) else None)"

text \<open>\<^verbatim>\<open>strconv.ParseInt(s, 10, 64)\<close> and \<^verbatim>\<open>strconv.Atoi\<close>, where None is the error.\<close>

definition parse_signed :: "string \<Rightarrow> int option" where
  "parse_signed s =
     (case s of
        c # cs \<Rightarrow> if c = CHR ''-'' then map_option (\<lambda>n. - int n) (parse_nat cs)
                  else if c = CHR ''+'' then map_option int (parse_nat cs)
                  else map_option int (parse_nat s)
      | [] \<Rightarrow> None)"

definition strconv_Atoi :: "string \<Rightarrow> int option" where
  "strconv_Atoi s =
     (case parse_signed s of None \<Rightarrow> None | Some n \<Rightarrow> if in_int64 n then Some n else None)"

lemma of_char_digit [simp]: "d < 10 \<Longrightarrow> of_char (digit d) = (48 + d :: nat)"
  by (simp add: digit_def)

lemma digit_props [simp]: "d < 10 \<Longrightarrow> is_digit (digit d)" "d < 10 \<Longrightarrow> digit_val (digit d) = d"
  by (simp_all add: is_digit_def digit_val_def Let_def)

lemma digits_val_snoc [simp]: "digits_val (s @ [c]) = 10 * digits_val s + digit_val c"
  by (simp add: digits_val_def)

lemma nat_digits_props [simp]:
  "nat_digits n \<noteq> []" "list_all is_digit (nat_digits n)" "digits_val (nat_digits n) = n"
proof -
  show "nat_digits n \<noteq> []" by (subst nat_digits.simps) simp
  show "list_all is_digit (nat_digits n)"
    by (induction n rule: nat_digits.induct) (subst nat_digits.simps, auto)
  show "digits_val (nat_digits n) = n"
  proof (induction n rule: nat_digits.induct)
    case (1 n)
    show ?case
    proof (cases "n < 10")
      case True
      then have "nat_digits n = [digit n]" by (simp add: nat_digits.simps [of n])
      with True show ?thesis by (simp add: digits_val_def)
    next
      case False
      then have "nat_digits n = nat_digits (n div 10) @ [digit (n mod 10)]"
        by (simp add: nat_digits.simps [of n])
      with False 1 show ?thesis by simp
    qed
  qed
qed

lemma parse_nat_digits [simp]: "parse_nat (nat_digits n) = Some n"
  by (simp add: parse_nat_def)

lemma nat_digits_first:
  "\<exists>c cs. nat_digits n = c # cs \<and> is_digit c"
  using nat_digits_props(1,2) [of n] by (cases "nat_digits n") auto

lemma not_sign_digit: "is_digit c \<Longrightarrow> c \<noteq> CHR ''-'' \<and> c \<noteq> CHR ''+''"
  by (auto simp: is_digit_def Let_def)

lemma parse_signed_itoa [simp]: "parse_signed (itoa n) = Some n"
proof (cases "n < 0")
  case True
  then show ?thesis by (simp add: itoa_def parse_signed_def)
next
  case False
  obtain c cs where c: "nat_digits (nat n) = c # cs" "is_digit c"
    using nat_digits_first by blast
  have "parse_nat (c # cs) = Some (nat n)" using parse_nat_digits [of "nat n"] c(1) by simp
  with False c not_sign_digit [OF c(2)] show ?thesis by (simp add: itoa_def parse_signed_def)
qed

lemma Atoi_itoa [simp]: "in_int64 n \<Longrightarrow> strconv_Atoi (itoa n) = Some n"
  by (simp add: strconv_Atoi_def)

lemma itoa_inject [simp]: "itoa m = itoa n \<longleftrightarrow> m = n"
  by (metis parse_signed_itoa option.inject)

end
