(* ===== verification/Float64.thy ===== *)
theory Float64
  imports Complex_Main "HOL-Library.Log_Nat"
begin

text \<open>
  Go's \<^verbatim>\<open>float64\<close>: IEEE 754 binary64 with round to nearest, ties to even, gradual underflow,
  overflow to infinity, signed zeros and NaN. A finite non-zero value is a real number that is
  a multiple of a power of two (\<open>representable\<close>); \<open>fl\<close> rounds a real to the nearest such number
  and every arithmetic operation is the exact real operation followed by \<open>rnd\<close>. The conversions
  \<^verbatim>\<open>float64(n)\<close> and \<^verbatim>\<open>int64(f)\<close> and the functions \<^verbatim>\<open>math.Round\<close> and \<^verbatim>\<open>math.Abs\<close> are
  here too. \<^verbatim>\<open>int64(f)\<close> of a value out of range is implementation-defined in Go; the model
  has the result of amd64.

  The lemmas give the exponent's defining bounds, that rounding is exact on representable
  numbers and monotone, the half-ulp error bound with its relative form, and the transfer of the
  operations to reals with an error term, which the money and odds computations rest on.
\<close>

section \<open>Values and rounding\<close>

datatype float64 = Fin real | NegZero | PosInf | NegInf | NaN

definition exponent :: "real \<Rightarrow> int" where
  "exponent x =
     (if 1 \<le> \<bar>x\<bar> then bitlen \<lfloor>\<bar>x\<bar>\<rfloor> - 1 else - bitlen (\<lceil>1 / \<bar>x\<bar>\<rceil> - 1))"

definition ulp_exp :: "real \<Rightarrow> int" where
  "ulp_exp x = max (exponent x - 52) (- 1074)"

definition round_half_even :: "real \<Rightarrow> int" where
  "round_half_even x =
     (let f = \<lfloor>x\<rfloor>; d = x - of_int f
      in if d < 1 / 2 then f else if 1 / 2 < d then f + 1 else if even f then f else f + 1)"

definition fl :: "real \<Rightarrow> real" where
  "fl x =
     (if x = 0 then 0
      else of_int (round_half_even (x / 2 powi ulp_exp x)) * 2 powi ulp_exp x)"

definition rnd :: "bool \<Rightarrow> real \<Rightarrow> float64" where
  "rnd neg x =
     (let r = fl x
      in if 2 ^ 1024 \<le> r then PosInf else if r \<le> - (2 ^ 1024) then NegInf
         else if r = 0 then (if neg then NegZero else Fin 0) else Fin r)"

definition rv :: "float64 \<Rightarrow> real" where
  "rv x = (case x of Fin r \<Rightarrow> r | _ \<Rightarrow> 0)"

definition finite_f :: "float64 \<Rightarrow> bool" where
  "finite_f x \<longleftrightarrow> (case x of Fin _ \<Rightarrow> True | NegZero \<Rightarrow> True | _ \<Rightarrow> False)"

definition is_inf :: "float64 \<Rightarrow> bool" where
  "is_inf x \<longleftrightarrow> x = PosInf \<or> x = NegInf"

definition signbit :: "float64 \<Rightarrow> bool" where
  "signbit x \<longleftrightarrow> (case x of Fin r \<Rightarrow> r < 0 | NegZero \<Rightarrow> True | NegInf \<Rightarrow> True | _ \<Rightarrow> False)"

section \<open>Arithmetic\<close>

definition fneg :: "float64 \<Rightarrow> float64" where
  "fneg x =
     (case x of Fin r \<Rightarrow> if r = 0 then NegZero else Fin (- r) | NegZero \<Rightarrow> Fin 0
      | PosInf \<Rightarrow> NegInf | NegInf \<Rightarrow> PosInf | NaN \<Rightarrow> NaN)"

definition fadd :: "float64 \<Rightarrow> float64 \<Rightarrow> float64" where
  "fadd x y =
     (if x = NaN \<or> y = NaN then NaN
      else if is_inf x then (if is_inf y \<and> x \<noteq> y then NaN else x)
      else if is_inf y then y
      else rnd (x = NegZero \<and> y = NegZero) (rv x + rv y))"

definition fsub :: "float64 \<Rightarrow> float64 \<Rightarrow> float64" where
  "fsub x y = fadd x (fneg y)"

definition fmul :: "float64 \<Rightarrow> float64 \<Rightarrow> float64" where
  "fmul x y =
     (let neg = (signbit x \<noteq> signbit y)
      in if x = NaN \<or> y = NaN then NaN
         else if is_inf x \<or> is_inf y
         then (if (finite_f x \<and> rv x = 0) \<or> (finite_f y \<and> rv y = 0) then NaN
               else if neg then NegInf else PosInf)
         else rnd neg (rv x * rv y))"

definition fdiv :: "float64 \<Rightarrow> float64 \<Rightarrow> float64" where
  "fdiv x y =
     (let neg = (signbit x \<noteq> signbit y)
      in if x = NaN \<or> y = NaN \<or> (is_inf x \<and> is_inf y) then NaN
         else if is_inf x then (if neg then NegInf else PosInf)
         else if is_inf y then (if neg then NegZero else Fin 0)
         else if rv y = 0 then (if rv x = 0 then NaN else if neg then NegInf else PosInf)
         else rnd neg (rv x / rv y))"

section \<open>Comparison\<close>

definition fkey :: "float64 \<Rightarrow> int" where
  "fkey x = (case x of PosInf \<Rightarrow> 1 | NegInf \<Rightarrow> - 1 | _ \<Rightarrow> 0)"

definition flt :: "float64 \<Rightarrow> float64 \<Rightarrow> bool" where
  "flt x y \<longleftrightarrow> x \<noteq> NaN \<and> y \<noteq> NaN \<and> (fkey x < fkey y \<or> (fkey x = fkey y \<and> rv x < rv y))"

definition feq :: "float64 \<Rightarrow> float64 \<Rightarrow> bool" where
  "feq x y \<longleftrightarrow> x \<noteq> NaN \<and> y \<noteq> NaN \<and> fkey x = fkey y \<and> rv x = rv y"

definition fle :: "float64 \<Rightarrow> float64 \<Rightarrow> bool" where
  "fle x y \<longleftrightarrow> flt x y \<or> feq x y"

section \<open>Conversions and math functions\<close>

definition lit :: "real \<Rightarrow> float64" where
  "lit x = rnd False x"

definition float64_of_int :: "int \<Rightarrow> float64" where
  "float64_of_int n = rnd False (of_int n)"

definition trunc :: "real \<Rightarrow> int" where
  "trunc x = (if x < 0 then - \<lfloor>- x\<rfloor> else \<lfloor>x\<rfloor>)"

definition int64_of_float :: "float64 \<Rightarrow> int" where
  "int64_of_float x =
     (if finite_f x \<and> - (2 ^ 63) \<le> trunc (rv x) \<and> trunc (rv x) < 2 ^ 63 then trunc (rv x)
      else - (2 ^ 63))"

definition round_away :: "real \<Rightarrow> int" where
  "round_away x = (if x < 0 then - \<lfloor>- x + 1 / 2\<rfloor> else \<lfloor>x + 1 / 2\<rfloor>)"

definition math_Round :: "float64 \<Rightarrow> float64" where
  "math_Round x =
     (case x of
        Fin r \<Rightarrow> if round_away r = 0 \<and> r < 0 then NegZero else Fin (of_int (round_away r))
      | _ \<Rightarrow> x)"

definition math_Abs :: "float64 \<Rightarrow> float64" where
  "math_Abs x =
     (case x of Fin r \<Rightarrow> Fin \<bar>r\<bar> | NegZero \<Rightarrow> Fin 0 | NegInf \<Rightarrow> PosInf | _ \<Rightarrow> x)"

definition Duration_Seconds :: "int \<Rightarrow> float64" where
  "Duration_Seconds d =
     (let sec = trunc (of_int d / 1000000000); nsec = d - sec * 1000000000
      in fadd (float64_of_int sec) (fdiv (float64_of_int nsec) (float64_of_int 1000000000)))"

section \<open>The exponent\<close>

lemma two_powi_pos [simp]: "0 < (2::real) powi e"
  by (simp add: zero_less_power_int)

lemma two_powi_add: "(2::real) powi (a + b) = 2 powi a * 2 powi b"
  by (simp add: power_int_add)

lemma two_powi_mono: "a \<le> b \<Longrightarrow> (2::real) powi a \<le> 2 powi b"
  by (rule power_int_increasing) simp_all

lemma two_powi_strict: "a < b \<Longrightarrow> (2::real) powi a < 2 powi b"
  by (rule power_int_strict_increasing) simp_all

lemma two_powi_less_iff: "(2::real) powi a < 2 powi b \<longleftrightarrow> a < b"
  by (meson linorder_not_less two_powi_mono two_powi_strict)

lemma bitlen_real_bounds:
  assumes "0 < n"
  shows "(2::real) powi (bitlen n - 1) \<le> of_int n" and "of_int n + 1 \<le> (2::real) powi bitlen n" and "1 \<le> bitlen n"
proof -
  show b: "1 \<le> bitlen n" using assms by (simp add: bitlen_alt_def)
  from bitlen_bounds [OF assms]
  have lo: "(2::int) ^ nat (bitlen n - 1) \<le> n" and hi: "n + 1 \<le> 2 ^ nat (bitlen n)" by auto
  show "(2::real) powi (bitlen n - 1) \<le> of_int n"
    using of_int_le_iff [where 'a = real, THEN iffD2, OF lo] b by (simp add: power_int_nonneg_exp)
  show "of_int n + 1 \<le> (2::real) powi bitlen n"
    using of_int_le_iff [where 'a = real, THEN iffD2, OF hi] b by (simp add: power_int_nonneg_exp)
qed

lemma exponent_bounds:
  assumes "x \<noteq> 0"
  shows "2 powi exponent x \<le> \<bar>x\<bar>" and "\<bar>x\<bar> < 2 powi (exponent x + 1)"
proof -
  have "2 powi exponent x \<le> \<bar>x\<bar> \<and> \<bar>x\<bar> < 2 powi (exponent x + 1)"
  proof (cases "1 \<le> \<bar>x\<bar>")
    case True
    define n where "n = \<lfloor>\<bar>x\<bar>\<rfloor>"
    from True have n: "0 < n" by (simp add: n_def)
    have nx: "of_int n \<le> \<bar>x\<bar>" "\<bar>x\<bar> < of_int n + 1"
      using floor_correct [of "\<bar>x\<bar>"] by (simp_all add: n_def)
    have "(2::real) powi (bitlen n - 1) \<le> \<bar>x\<bar>" and "\<bar>x\<bar> < 2 powi bitlen n"
      using nx bitlen_real_bounds(1,2) [OF n] by linarith+
    then show ?thesis using True by (simp add: exponent_def flip: n_def)
  next
    case False
    define y where "y = 1 / \<bar>x\<bar>"
    define c where "c = \<lceil>y\<rceil> - 1"
    have y: "1 < y" using False assms by (simp add: y_def)
    then have c: "0 < c" by (simp add: c_def)
    have cy: "of_int c < y" "y \<le> of_int c + 1"
      using ceiling_correct [of y] by (simp_all add: c_def)
    have lo': "(2::real) powi (bitlen c - 1) < y" and hi': "y \<le> (2::real) powi bitlen c"
      using cy bitlen_real_bounds(1,2) [OF c] by linarith+
    have x: "\<bar>x\<bar> = 1 / y" by (simp add: y_def)
    have e: "exponent x = - bitlen c" using False by (simp add: exponent_def c_def y_def)
    have "2 powi (- bitlen c) \<le> 1 / y"
      using hi' y by (simp add: power_int_minus field_simps)
    moreover have "1 / y < 2 powi (- bitlen c + 1)"
    proof -
      have "1 / y < 1 / 2 powi (bitlen c - 1)"
        using lo' y by (intro divide_strict_left_mono) (simp_all add: zero_less_mult_iff)
      also have "\<dots> = 2 powi (- (bitlen c - 1))"
        by (simp only: power_int_minus inverse_eq_divide)
      also have "- (bitlen c - 1) = - bitlen c + 1" by simp
      finally show ?thesis .
    qed
    ultimately show ?thesis by (simp only: x e)
  qed
  then show "2 powi exponent x \<le> \<bar>x\<bar>" and "\<bar>x\<bar> < 2 powi (exponent x + 1)" by simp_all
qed

lemma exponent_eqI:
  assumes "2 powi k \<le> \<bar>x\<bar>" "\<bar>x\<bar> < 2 powi (k + 1)"
  shows "exponent x = k"
proof -
  have "x \<noteq> 0" using assms(1) by (metis abs_zero not_less two_powi_pos)
  note b = exponent_bounds [OF this]
  have "(2::real) powi k < 2 powi (exponent x + 1)" "(2::real) powi exponent x < 2 powi (k + 1)"
    using assms b by linarith+
  then show ?thesis by (simp add: two_powi_less_iff)
qed

lemma exponent_mono:
  assumes "x \<noteq> 0" "\<bar>x\<bar> \<le> \<bar>y\<bar>"
  shows "exponent x \<le> exponent y"
proof -
  have "y \<noteq> 0" using assms by auto
  with assms exponent_bounds [of x] exponent_bounds [of y]
  have "(2::real) powi exponent x < 2 powi (exponent y + 1)" by linarith
  then show ?thesis by (simp add: two_powi_less_iff)
qed

section \<open>Rounding to an integer\<close>

lemma round_half_even_error: "\<bar>of_int (round_half_even x) - x\<bar> \<le> 1 / 2"
  using floor_correct [of x] by (auto simp: round_half_even_def Let_def)

lemma round_half_even_eqI:
  assumes "\<bar>x - of_int n\<bar> < 1 / 2"
  shows "round_half_even x = n"
proof -
  have "\<bar>real_of_int (round_half_even x) - of_int n\<bar> < 1"
    using round_half_even_error [of x] assms by linarith
  then show ?thesis by linarith
qed

lemma round_half_even_of_int [simp]: "round_half_even (of_int n) = n"
  by (rule round_half_even_eqI) simp

lemma round_half_even_mono:
  assumes "x \<le> y"
  shows "round_half_even x \<le> round_half_even y"
proof (cases "\<lfloor>x\<rfloor> = \<lfloor>y\<rfloor>")
  case True
  with assms show ?thesis by (auto simp: round_half_even_def Let_def)
next
  case False
  with floor_mono [OF assms] have "\<lfloor>x\<rfloor> + 1 \<le> \<lfloor>y\<rfloor>" by linarith
  moreover have "round_half_even x \<le> \<lfloor>x\<rfloor> + 1" "\<lfloor>y\<rfloor> \<le> round_half_even y"
    by (auto simp: round_half_even_def Let_def)
  ultimately show ?thesis by linarith
qed

lemma floor_minus_frac: "x \<noteq> of_int \<lfloor>x\<rfloor> \<Longrightarrow> \<lfloor>- x\<rfloor> = - \<lfloor>x\<rfloor> - 1" for x :: real
  using floor_correct [of x] by (intro floor_unique) (simp_all, linarith+)

lemma round_half_even_minus: "round_half_even (- x) = - round_half_even x"
proof (cases "x = of_int \<lfloor>x\<rfloor>")
  case True
  then show ?thesis by (metis of_int_minus round_half_even_of_int)
next
  case False
  then show ?thesis
    by (auto simp: round_half_even_def Let_def floor_minus_frac)
qed

section \<open>Rounding to a float\<close>

definition representable :: "real \<Rightarrow> bool" where
  "representable x \<longleftrightarrow> (\<exists>m e. x = of_int m * 2 powi e \<and> \<bar>m\<bar> < 2 ^ 53 \<and> - 1074 \<le> e)"

lemma two_powi_int: "0 \<le> e \<Longrightarrow> \<exists>n::int. (2::real) powi e = of_int n"
  by (intro exI [of _ "2 ^ nat e"]) (simp add: power_int_nonneg_exp)

lemma two_powi_diff: "(2::real) powi a / 2 powi b = 2 powi (a - b)"
  by (simp add: power_int_diff)

lemma fl_0 [simp]: "fl 0 = 0"
  by (simp add: fl_def)

lemma ulp_exp_minus [simp]: "ulp_exp (- x) = ulp_exp x"
  by (simp add: ulp_exp_def exponent_def)

lemma fl_minus: "fl (- x) = - fl x"
  by (simp add: fl_def round_half_even_minus)

lemma fl_multiple:
  assumes "x = of_int n * 2 powi ulp_exp x"
  shows "fl x = x"
  using assms by (metis fl_def nonzero_mult_div_cancel_right round_half_even_of_int
      two_powi_pos less_irrefl)

lemma fl_exact:
  assumes "representable x"
  shows "fl x = x"
proof (cases "x = 0")
  case False
  from assms obtain m e where x: "x = of_int m * 2 powi e" and m: "\<bar>m\<bar> < 2 ^ 53"
    and e: "- 1074 \<le> e"
    by (auto simp: representable_def)
  have "\<bar>real_of_int m\<bar> < 2 ^ 53"
    using m by (metis of_int_abs of_int_less_iff of_int_numeral of_int_power)
  then have "\<bar>x\<bar> < 2 ^ 53 * 2 powi e" by (simp add: x abs_mult)
  also have "\<dots> = 2 powi (53 + e)" by (simp only: two_powi_add) simp
  finally have "2 powi exponent x < (2::real) powi (53 + e)"
    using exponent_bounds(1) [OF False] by linarith
  then have u: "ulp_exp x \<le> e" using e by (simp add: two_powi_less_iff ulp_exp_def)
  then obtain n :: int where n: "(2::real) powi (e - ulp_exp x) = of_int n"
    using two_powi_int [of "e - ulp_exp x"] by auto
  have "(2::real) powi e = of_int n * 2 powi ulp_exp x"
    unfolding n [symmetric] two_powi_add [symmetric] by simp
  then have "x = of_int (m * n) * 2 powi ulp_exp x" by (simp add: x)
  then show ?thesis by (rule fl_multiple)
qed simp

lemma fl_error:
  shows "\<bar>fl x - x\<bar> \<le> 2 powi ulp_exp x / 2"
proof (cases "x = 0")
  case False
  define u :: real where "u = 2 powi ulp_exp x"
  have u: "0 < u" by (simp add: u_def)
  have "\<bar>fl x - x\<bar> = \<bar>of_int (round_half_even (x / u)) - x / u\<bar> * u"
    using u False by (simp add: fl_def u_def [symmetric] abs_mult_pos left_diff_distrib)
  also have "\<dots> \<le> 1 / 2 * u"
    using u by (intro mult_right_mono round_half_even_error) simp
  finally show ?thesis by (simp add: u_def)
qed simp

lemma fl_rel_error:
  assumes "2 powi (- 1022) \<le> \<bar>x\<bar>"
  shows "\<bar>fl x - x\<bar> \<le> \<bar>x\<bar> * 2 powi (- 53)"
proof -
  have x: "x \<noteq> 0" using assms by (metis abs_zero not_less two_powi_pos)
  note b = exponent_bounds [OF x]
  have "(2::real) powi (- 1022) < 2 powi (exponent x + 1)" using assms b by linarith
  then have "- 1022 < exponent x + 1" by (simp only: two_powi_less_iff)
  then have u: "ulp_exp x = exponent x + (- 52)" by (simp add: ulp_exp_def)
  have h: "(2::real) powi (- 53) = 2 powi (- 52) / 2"
    by (simp add: power_int_minus)
  have "\<bar>fl x - x\<bar> \<le> 2 powi exponent x * (2 powi (- 52) / 2)"
    using fl_error [of x] unfolding u two_powi_add by simp
  also have "\<dots> \<le> \<bar>x\<bar> * (2 powi (- 52) / 2)"
    by (intro mult_right_mono b) simp
  finally show ?thesis by (simp only: h)
qed

lemma fl_nonneg: "0 \<le> x \<Longrightarrow> 0 \<le> fl x"
proof -
  assume "0 \<le> x"
  then have "0 \<le> round_half_even (x / 2 powi ulp_exp x)"
    using round_half_even_mono [of 0 "x / 2 powi ulp_exp x"] round_half_even_of_int [of 0] by simp
  then show ?thesis by (simp add: fl_def)
qed

lemma fl_mono_ulp:
  assumes "x \<le> y" "x \<noteq> 0" "y \<noteq> 0" "ulp_exp x = ulp_exp y"
  shows "fl x \<le> fl y"
  using assms
  by (simp add: fl_def mult_right_mono round_half_even_mono divide_right_mono)

lemma fl_le_power:
  assumes "0 < x" "x \<le> 2 powi k" "ulp_exp x \<le> k"
  shows "fl x \<le> 2 powi k"
proof -
  obtain n :: int where n: "(2::real) powi (k - ulp_exp x) = of_int n"
    using two_powi_int [of "k - ulp_exp x"] assms(3) by auto
  have "x / 2 powi ulp_exp x \<le> of_int n"
    unfolding n [symmetric] two_powi_diff [symmetric] using assms(2) by (simp add: divide_right_mono)
  then have "round_half_even (x / 2 powi ulp_exp x) \<le> n"
    using round_half_even_mono round_half_even_of_int by metis
  then have "fl x \<le> of_int n * 2 powi ulp_exp x"
    using assms(1) by (simp add: fl_def mult_right_mono)
  then show ?thesis unfolding n [symmetric] two_powi_add [symmetric] by simp
qed

lemma fl_ge_power:
  assumes "2 powi k \<le> y" "ulp_exp y \<le> k"
  shows "2 powi k \<le> fl y"
proof -
  obtain n :: int where n: "(2::real) powi (k - ulp_exp y) = of_int n"
    using two_powi_int [of "k - ulp_exp y"] assms(2) by auto
  have y: "0 < y" using assms(1) two_powi_pos less_le_trans by blast
  have "of_int n \<le> y / 2 powi ulp_exp y"
    unfolding n [symmetric] two_powi_diff [symmetric] using assms(1) by (simp add: divide_right_mono)
  then have "n \<le> round_half_even (y / 2 powi ulp_exp y)"
    using round_half_even_mono round_half_even_of_int by metis
  then have "of_int n * 2 powi ulp_exp y \<le> fl y"
    using y by (simp add: fl_def mult_right_mono)
  then show ?thesis unfolding n [symmetric] two_powi_add [symmetric] by simp
qed

lemma fl_mono_pos:
  assumes "0 < x" "x \<le> y"
  shows "fl x \<le> fl y"
proof (cases "ulp_exp x = ulp_exp y")
  case True
  with assms show ?thesis by (intro fl_mono_ulp) auto
next
  case False
  have e: "exponent x \<le> exponent y" using assms by (intro exponent_mono) auto
  with False have lt: "exponent x < exponent y" and uy: "ulp_exp y \<le> exponent y"
    and ux: "ulp_exp x \<le> exponent y"
    by (auto simp: ulp_exp_def max_def split: if_splits)
  have "x \<le> 2 powi (exponent x + 1)" using exponent_bounds(2) [of x] assms by simp
  also have "\<dots> \<le> 2 powi exponent y" using lt by (intro two_powi_mono) simp
  finally have "fl x \<le> 2 powi exponent y" using assms ux by (intro fl_le_power) auto
  also have "\<dots> \<le> fl y"
    using exponent_bounds(1) [of y] assms uy by (intro fl_ge_power) auto
  finally show ?thesis .
qed

lemma fl_mono:
  assumes "x \<le> y"
  shows "fl x \<le> fl y"
proof -
  consider "0 < x" | "y < 0" | "x \<le> 0" "0 \<le> y" by linarith
  then show ?thesis
  proof cases
    case 1
    with assms show ?thesis by (rule fl_mono_pos [rotated])
  next
    case 2
    with assms have "fl (- y) \<le> fl (- x)" by (intro fl_mono_pos) auto
    then show ?thesis by (simp add: fl_minus)
  next
    case 3
    with fl_nonneg [of y] fl_nonneg [of "- x"] show ?thesis by (simp add: fl_minus)
  qed
qed

lemma representable_of_int: "\<bar>n\<bar> < 2 ^ 53 \<Longrightarrow> representable (of_int n)"
  unfolding representable_def by (intro exI [of _ n] exI [of _ 0]) simp

lemma fl_of_int: "\<bar>n\<bar> < 2 ^ 53 \<Longrightarrow> fl (of_int n) = of_int n"
  by (intro fl_exact representable_of_int)

lemma fl_representable: "representable (fl x)"
proof (cases "x = 0")
  case True
  then show ?thesis using representable_of_int [of 0] by simp
next
  case False
  define u where "u = ulp_exp x"
  define m where "m = round_half_even (x / 2 powi u)"
  have "exponent x + 1 \<le> 53 + u" by (simp add: u_def ulp_exp_def)
  then have "(2::real) powi (exponent x + 1) \<le> 2 powi (53 + u)" by (rule two_powi_mono)
  then have "\<bar>x\<bar> < 2 ^ 53 * 2 powi u"
    using exponent_bounds(2) [OF False] unfolding two_powi_add by simp
  then have "\<bar>x / 2 powi u\<bar> < of_int (2 ^ 53)" by (simp add: divide_less_eq)
  then have "x / 2 powi u \<le> of_int (2 ^ 53)" "of_int (- (2 ^ 53)) \<le> x / 2 powi u" by linarith+
  then have "m \<le> 2 ^ 53" "- (2 ^ 53) \<le> m"
    unfolding m_def using round_half_even_mono round_half_even_of_int by metis+
  then consider "\<bar>m\<bar> < 2 ^ 53" | "m = 2 ^ 53" | "m = - (2 ^ 53)" by linarith
  then show ?thesis
  proof cases
    case 1
    then show ?thesis
      unfolding representable_def using False
      by (intro exI [of _ m] exI [of _ u]) (simp add: fl_def m_def u_def ulp_exp_def)
  next
    case 2
    then have "fl x = of_int 1 * 2 powi (53 + u)"
      using False by (simp add: fl_def m_def [symmetric] u_def [symmetric] two_powi_add)
    then show ?thesis
      unfolding representable_def
      by (intro exI [of _ 1] exI [of _ "53 + u"]) (simp add: u_def ulp_exp_def)
  next
    case 3
    then have "fl x = of_int (- 1) * 2 powi (53 + u)"
      using False by (simp add: fl_def m_def [symmetric] u_def [symmetric] two_powi_add)
    then show ?thesis
      unfolding representable_def
      by (intro exI [of _ "- 1"] exI [of _ "53 + u"]) (simp add: u_def ulp_exp_def)
  qed
qed

lemma fl_fl [simp]: "fl (fl x) = fl x"
  by (rule fl_exact [OF fl_representable])

lemma representable_powi: "- 1074 \<le> k \<Longrightarrow> representable (2 powi k)"
  unfolding representable_def by (intro exI [of _ 1] exI [of _ k]) simp

lemma fl_abs_le:
  assumes "\<bar>x\<bar> \<le> b" "representable b"
  shows "\<bar>fl x\<bar> \<le> b"
proof -
  have "fl x \<le> fl b" "fl (- b) \<le> fl x" using assms(1) by (auto intro: fl_mono)
  then show ?thesis by (simp add: fl_exact [OF assms(2)] fl_minus)
qed

lemma fl_ge_rep: "representable b \<Longrightarrow> b \<le> x \<Longrightarrow> b \<le> fl x"
  using fl_mono [of b x] by (simp add: fl_exact)

lemma fl_le_rep: "representable b \<Longrightarrow> x \<le> b \<Longrightarrow> fl x \<le> b"
  using fl_mono [of x b] by (simp add: fl_exact)

text \<open>Evaluating a rounding at a concrete number: its binade and its nearest multiple.\<close>

lemma fl_compute:
  assumes "2 powi k \<le> \<bar>x\<bar>" "\<bar>x\<bar> < 2 powi (k + 1)" "- 1022 \<le> k"
    and "\<bar>x / 2 powi (k - 52) - of_int m\<bar> < 1 / 2"
  shows "fl x = of_int m * 2 powi (k - 52)"
proof -
  have "x \<noteq> 0" using assms(1) by (metis abs_zero not_less two_powi_pos)
  moreover have "ulp_exp x = k - 52"
    using exponent_eqI [OF assms(1,2)] assms(3) by (simp add: ulp_exp_def)
  ultimately show ?thesis using round_half_even_eqI [OF assms(4)] by (simp add: fl_def)
qed

section \<open>The operations on finite values\<close>

text \<open>
  \<open>f64_ok\<close> is the type invariant of the representation. Within \<open>2 ^ 1000\<close> no operation
  overflows, and its result is the rounded exact result.
\<close>

definition f64_ok :: "float64 \<Rightarrow> bool" where
  "f64_ok x \<longleftrightarrow> (case x of Fin r \<Rightarrow> representable r \<and> \<bar>r\<bar> < 2 ^ 1024 | _ \<Rightarrow> True)"

lemma rnd_ok [simp]: "f64_ok (rnd s x)"
  using fl_representable [of x] by (auto simp: f64_ok_def rnd_def Let_def)

lemma rv_simps [simp]: "rv (Fin r) = r" "rv NegZero = 0" "rv PosInf = 0" "rv NegInf = 0" "rv NaN = 0"
  by (simp_all add: rv_def)

lemma finite_f_simps [simp]:
  "finite_f (Fin r)" "finite_f NegZero" "\<not> finite_f PosInf" "\<not> finite_f NegInf" "\<not> finite_f NaN"
  by (simp_all add: finite_f_def)

lemma finite_fD: "finite_f x \<Longrightarrow> x \<noteq> NaN \<and> \<not> is_inf x \<and> fkey x = 0"
  by (cases x) (auto simp: is_inf_def fkey_def)

lemma rnd_finite:
  assumes "\<bar>x\<bar> \<le> 2 powi 1000"
  shows "finite_f (rnd s x)" and "rv (rnd s x) = fl x"
proof -
  have "\<bar>fl x\<bar> \<le> 2 powi 1000" using assms by (intro fl_abs_le representable_powi) simp_all
  also have "\<dots> < 2 powi 1024" by (rule two_powi_strict) simp
  finally have "\<bar>fl x\<bar> < 2 ^ 1024" by (simp add: power_int_def)
  then show "finite_f (rnd s x)" and "rv (rnd s x) = fl x"
    by (auto simp: rnd_def Let_def)
qed

lemma fneg_simps [simp]:
  "rv (fneg x) = - rv x" "finite_f (fneg x) = finite_f x" "fneg x = NaN \<longleftrightarrow> x = NaN"
  "is_inf (fneg x) = is_inf x"
  by (cases x; simp add: fneg_def is_inf_def)+

lemma fadd_finite:
  assumes "finite_f x" "finite_f y" "\<bar>rv x + rv y\<bar> \<le> 2 powi 1000"
  shows "finite_f (fadd x y)" and "rv (fadd x y) = fl (rv x + rv y)"
  using assms(1,2)[THEN finite_fD] rnd_finite [OF assms(3)] by (simp_all add: fadd_def)

lemma fsub_finite:
  assumes "finite_f x" "finite_f y" "\<bar>rv x - rv y\<bar> \<le> 2 powi 1000"
  shows "finite_f (fsub x y)" and "rv (fsub x y) = fl (rv x - rv y)"
  using fadd_finite [of x "fneg y"] assms by (simp_all add: fsub_def)

lemma fmul_finite:
  assumes "finite_f x" "finite_f y" "\<bar>rv x * rv y\<bar> \<le> 2 powi 1000"
  shows "finite_f (fmul x y)" and "rv (fmul x y) = fl (rv x * rv y)"
  using assms(1,2)[THEN finite_fD] rnd_finite [OF assms(3)] by (simp_all add: fmul_def Let_def)

lemma fdiv_finite:
  assumes "finite_f x" "finite_f y" "rv y \<noteq> 0" "\<bar>rv x / rv y\<bar> \<le> 2 powi 1000"
  shows "finite_f (fdiv x y)" and "rv (fdiv x y) = fl (rv x / rv y)"
  using assms(1,2)[THEN finite_fD] rnd_finite [OF assms(4)] assms(3)
  by (simp_all add: fdiv_def Let_def)

lemma lit_finite:
  assumes "\<bar>x\<bar> \<le> 2 powi 1000"
  shows "finite_f (lit x)" and "rv (lit x) = fl x"
  using rnd_finite [OF assms] by (simp_all add: lit_def)

lemma float64_of_int_exact:
  assumes "\<bar>n\<bar> < 2 ^ 53"
  shows "float64_of_int n = Fin (of_int n)"
proof -
  have "\<bar>real_of_int n\<bar> < 2 ^ 53"
    using assms by (metis of_int_abs of_int_less_iff of_int_numeral of_int_power)
  moreover have "(2::real) ^ 53 \<le> 2 ^ 1024" by (rule power_increasing) simp_all
  ultimately have "\<bar>real_of_int n\<bar> < 2 ^ 1024" by linarith
  then show ?thesis
    by (auto simp: float64_of_int_def rnd_def Let_def fl_of_int [OF assms])
qed

lemma flt_finite: "finite_f x \<Longrightarrow> finite_f y \<Longrightarrow> flt x y \<longleftrightarrow> rv x < rv y"
  using finite_fD [of x] finite_fD [of y] by (simp add: flt_def)

lemma fle_finite: "finite_f x \<Longrightarrow> finite_f y \<Longrightarrow> fle x y \<longleftrightarrow> rv x \<le> rv y"
  using finite_fD [of x] finite_fD [of y] by (auto simp: fle_def feq_def flt_finite)

lemma feq_finite: "finite_f x \<Longrightarrow> finite_f y \<Longrightarrow> feq x y \<longleftrightarrow> rv x = rv y"
  using finite_fD [of x] finite_fD [of y] by (simp add: feq_def)

lemmas float_finite_simps = flt_finite fle_finite feq_finite

lemma int64_of_float_finite:
  assumes "finite_f x" "\<bar>rv x\<bar> < 2 ^ 62"
  shows "int64_of_float x = trunc (rv x)"
proof -
  have "\<bar>trunc (rv x)\<bar> \<le> 2 ^ 62"
  proof (cases "rv x < 0")
    case True
    with assms have "\<lfloor>- rv x\<rfloor> \<le> 2 ^ 62" "0 \<le> \<lfloor>- rv x\<rfloor>" by (auto simp: floor_le_iff)
    with True show ?thesis by (simp add: trunc_def)
  next
    case False
    with assms have "\<lfloor>rv x\<rfloor> \<le> 2 ^ 62" "0 \<le> \<lfloor>rv x\<rfloor>" by (auto simp: floor_le_iff)
    with False show ?thesis by (simp add: trunc_def)
  qed
  then have "- (2 ^ 63) \<le> trunc (rv x)" "trunc (rv x) < 2 ^ 63" by simp_all
  with assms(1) show ?thesis by (simp add: int64_of_float_def)
qed

lemma int64_of_float_range: "- (2 ^ 63) \<le> int64_of_float x \<and> int64_of_float x < 2 ^ 63"
  by (simp add: int64_of_float_def)

lemma trunc_bounds: "0 \<le> x \<Longrightarrow> of_int (trunc x) \<le> x \<and> x < of_int (trunc x) + 1"
  by (simp add: trunc_def)

lemma trunc_of_int [simp]: "trunc (of_int n) = n"
  by (cases "n < 0") (simp_all add: trunc_def flip: of_int_minus)

lemma round_away_eqI:
  assumes "\<bar>x - of_int n\<bar> < 1 / 2"
  shows "round_away x = n"
proof (cases "x < 0")
  case True
  have "of_int (- n) \<le> - x + 1 / 2" "- x + 1 / 2 < of_int (- n) + 1"
    using assms by linarith+
  then have "\<lfloor>- x + 1 / 2\<rfloor> = - n" by (rule floor_unique)
  with True show ?thesis by (simp add: round_away_def)
next
  case False
  have "of_int n \<le> x + 1 / 2" "x + 1 / 2 < of_int n + 1"
    using assms by linarith+
  then have "\<lfloor>x + 1 / 2\<rfloor> = n" by (rule floor_unique)
  with False show ?thesis by (simp add: round_away_def)
qed

lemma math_Round_finite:
  assumes "finite_f x"
  shows "finite_f (math_Round x)" and "rv (math_Round x) = of_int (round_away (rv x))"
  using assms by (cases x; auto simp: math_Round_def round_away_def)+

lemma int64_of_Round:
  assumes "finite_f x" "\<bar>rv x - of_int n\<bar> < 1 / 2" "\<bar>n\<bar> < 2 ^ 60"
  shows "int64_of_float (math_Round x) = n"
proof -
  have r: "rv (math_Round x) = of_int n"
    using math_Round_finite [OF assms(1)] round_away_eqI [OF assms(2)] by simp
  have "\<bar>real_of_int n\<bar> < 2 ^ 60"
    using assms(3) by (metis of_int_abs of_int_less_iff of_int_numeral of_int_power)
  then have "\<bar>real_of_int n\<bar> < 2 ^ 62" by simp
  with r math_Round_finite [OF assms(1)] show ?thesis
    by (simp add: int64_of_float_finite)
qed

end
