(* ===== verification/Kafka.thy ===== *)
theory Kafka
  imports Json
begin

text \<open>
  What the services share about Kafka. A producer appends to a topic's log. A consumer group
  handler runs \<^verbatim>\<open>ConsumeClaim\<close>, the loop that four services write in the same way: handle
  the message, log and skip it on an error, mark and commit its offset otherwise. What the Kafka
  client does on a commit is a parameter (\<open>commit\<close>, on a session state of type \<open>'c\<close>).

  The locale \<open>consumer\<close> is the contract of a handler (it keeps an invariant), \<open>idempotent_consumer\<close>
  extends it with the contract at-least-once delivery needs: handling a message again, later, has
  no further effect on what the service observes. The lemmas about the loop are proved there once
  and reached through the interpretations on the handlers.
\<close>

record ConsumerMessage =
  Topic :: string
  Offset :: int
  Value :: payload
  Headers :: "(string \<times> string) list"

record ProducerMessage =
  pm_Topic :: string
  pm_Key :: string
  pm_Value :: json
  pm_Headers :: "(string \<times> string) list"

text \<open>\<open>handle m s\<close> returns whether the handler returned nil, and the state after it.\<close>

type_synonym 's handler = "ConsumerMessage \<Rightarrow> 's \<Rightarrow> bool \<times> 's"

fun consume_claim :: "'s handler \<Rightarrow> (int \<Rightarrow> 'c \<Rightarrow> 'c) \<Rightarrow> ConsumerMessage list \<Rightarrow> 's \<times> 'c \<Rightarrow> 's \<times> 'c" where
  "consume_claim handle commit [] sc = sc"
| "consume_claim handle commit (m # ms) (s, c) =
     (case handle m s of (ok, s') \<Rightarrow>
        consume_claim handle commit ms (s', if ok then commit (Offset m) c else c))"

lemma consume_claim_append:
  "consume_claim handle commit (ms @ ms') sc = consume_claim handle commit ms' (consume_claim handle commit ms sc)"
proof (induction ms arbitrary: sc)
  case (Cons m ms)
  then show ?case by (cases sc) (simp split: prod.splits)
qed simp

lemma consume_claim_state:
  "fst (consume_claim handle commit ms (s, c)) = foldl (\<lambda>s m. snd (handle m s)) s ms"
  by (induction ms arbitrary: s c) (simp_all split: prod.splits)

section \<open>The contract of a handler\<close>

text \<open>\<open>handle e\<close> is the handler in an environment (the time, the identifiers it draws, what fails),
  which is a new one at each delivery; \<open>ev\<close> chooses them.\<close>

locale consumer =
  fixes handle :: "'e \<Rightarrow> 's handler" and inv :: "'s \<Rightarrow> bool"
  assumes handle_inv: "inv s \<Longrightarrow> inv (snd (handle e m s))"
begin

lemma claim_inv: "inv s \<Longrightarrow> inv (fst (consume_claim (\<lambda>m. handle (ev m) m) commit ms (s, c)))"
proof (induction ms arbitrary: s c)
  case (Cons m ms)
  obtain ok s' where h: "handle (ev m) m s = (ok, s')" by fastforce
  then have "inv s'" using handle_inv [of s "ev m" m] Cons.prems by simp
  with Cons.IH show ?case by (simp add: h)
qed simp

end

text \<open>
  \<open>view\<close> is what clients of the service can observe; \<open>effect_in m s\<close> says that the message's effect
  is in the state; \<open>good\<close> is the well-formedness the producers guarantee.
\<close>

locale idempotent_consumer = consumer handle inv
  for handle :: "'e \<Rightarrow> 's handler" and inv :: "'s \<Rightarrow> bool" +
  fixes view :: "'s \<Rightarrow> 'v" and effect_in :: "ConsumerMessage \<Rightarrow> 's \<Rightarrow> bool" and good :: "ConsumerMessage \<Rightarrow> bool"
  assumes handle_done: "inv s \<Longrightarrow> good m \<Longrightarrow> handle e m s = (True, s') \<Longrightarrow> effect_in m s'"
    and effect_stays: "inv s \<Longrightarrow> effect_in m s \<Longrightarrow> effect_in m (snd (handle e m' s))"
    and handle_again: "inv s \<Longrightarrow> good m \<Longrightarrow> effect_in m s \<Longrightarrow> view (snd (handle e m s)) = view s"
begin

lemma effect_stays_claim:
  "inv s \<Longrightarrow> effect_in m s \<Longrightarrow> effect_in m (fst (consume_claim (\<lambda>m. handle (ev m) m) commit ms (s, c)))"
proof (induction ms arbitrary: s c)
  case (Cons m' ms)
  obtain ok s' where h: "handle (ev m') m' s = (ok, s')" by fastforce
  then have "inv s'" "effect_in m s'"
    using handle_inv [of s "ev m'" m'] effect_stays [of s m "ev m'" m'] Cons.prems by simp_all
  with Cons.IH show ?case by (simp add: h)
qed simp

text \<open>Redelivery of a message that was handled, after any other messages, is not observable.\<close>

lemma redelivery:
  assumes "inv s" "good m" "handle e m s = (True, s1)"
    and "s2 = fst (consume_claim (\<lambda>m. handle (ev m) m) commit ms (s1, c))"
  shows "view (snd (handle e' m s2)) = view s2"
proof -
  have "inv s1" using handle_inv [OF assms(1), of e m] assms(3) by simp
  then have "inv s2" "effect_in m s2"
    using handle_done [OF assms(1-3)] by (simp_all add: assms(4) claim_inv effect_stays_claim)
  then show ?thesis using assms(2) by (intro handle_again)
qed

end

section \<open>Commits\<close>

text \<open>A message whose handling failed is not retried once a later message of the claim has been
  committed: if committing an offset moves the group past it, the group is then past both.\<close>

lemma claim_commits:
  assumes mono: "\<And>off c. committed c \<le> committed (commit off c)"
    and past: "\<And>off c. off < committed (commit off c)"
    and ok: "fst (handle m s')" and s': "s' = fst (consume_claim handle commit ms (s, c))"
  shows "Offset m < committed (snd (consume_claim handle commit (ms @ [m]) (s, c)))"
proof -
  obtain c' where "consume_claim handle commit ms (s, c) = (s', c')" using s' by (metis prod.collapse)
  then show ?thesis using ok past by (auto simp: consume_claim_append split: prod.splits)
qed

section \<open>The loop of a consumer group\<close>

text \<open>
  \<^verbatim>\<open>Run\<close> of a consumer calls \<^verbatim>\<open>Consume\<close> until the context is cancelled. A call joins the group, is
  given the partition from the committed position on, and ends with a rebalance, an error or the
  cancellation after some messages; then the next call starts again from the position the broker
  has. A \<open>group_call\<close> is one call: how many messages the claim delivers, the environment of each
  handling, after how many of them the last commit reached the broker, whether Consume returns an
  error, and what the two tests of \<^verbatim>\<open>ctx.Err\<close> find. Committing and positions are the client's:
  \<open>commit_documented\<close> says that marking and committing an offset moves the position past it and never
  back.
\<close>

record 'e group_call =
  gc_length :: nat
  gc_env :: "ConsumerMessage \<Rightarrow> 'e"
  gc_kept :: nat
  gc_err :: bool
  gc_cancelled :: bool
  gc_cancelled_after :: bool

text \<open>\<open>cg_trace\<close> is a history variable: the deliveries, with the result of the handler.\<close>

record ('s, 'c) group_state =
  cg_state :: 's
  cg_commit :: 'c
  cg_trace :: "(ConsumerMessage \<times> bool) list"

definition commit_documented :: "(int \<Rightarrow> 'c \<Rightarrow> 'c) \<Rightarrow> ('c \<Rightarrow> int) \<Rightarrow> bool" where
  "commit_documented commit position \<longleftrightarrow> (\<forall>off c. position (commit off c) = max (position c) (off + 1))"

fun claim_trace :: "'s handler \<Rightarrow> ConsumerMessage list \<Rightarrow> 's \<Rightarrow> (ConsumerMessage \<times> bool) list" where
  "claim_trace handle [] s = []"
| "claim_trace handle (m # ms) s = (case handle m s of (ok, s') \<Rightarrow> (m, ok) # claim_trace handle ms s')"

definition Consume :: "('e \<Rightarrow> 's handler) \<Rightarrow> (int \<Rightarrow> 'c \<Rightarrow> 'c) \<Rightarrow> ('c \<Rightarrow> int) \<Rightarrow> ConsumerMessage list \<Rightarrow> 'e group_call \<Rightarrow>
    ('s, 'c) group_state \<Rightarrow> ('s, 'c) group_state" where
  "Consume handle commit position msgs call g =
     (let h = (\<lambda>m. handle (gc_env call m) m);
          ms = take (gc_length call) (drop (nat (position (cg_commit g))) msgs)
      in \<lparr>cg_state = fst (consume_claim h commit ms (cg_state g, cg_commit g)),
          cg_commit = snd (consume_claim h commit (take (gc_kept call) ms) (cg_state g, cg_commit g)),
          cg_trace = cg_trace g @ claim_trace h ms (cg_state g)\<rparr>)"

text \<open>The result is whether the loop has returned nil.\<close>

fun run_group :: "('e \<Rightarrow> 's handler) \<Rightarrow> (int \<Rightarrow> 'c \<Rightarrow> 'c) \<Rightarrow> ('c \<Rightarrow> int) \<Rightarrow> ConsumerMessage list \<Rightarrow> 'e group_call list \<Rightarrow>
    ('s, 'c) group_state \<Rightarrow> bool \<times> ('s, 'c) group_state" where
  "run_group handle commit position msgs [] g = (False, g)"
| "run_group handle commit position msgs (call # calls) g =
     (let g' = Consume handle commit position msgs call g
      in if gc_err call \<and> gc_cancelled call then (True, g')
         else if gc_cancelled_after call then (True, g')
         else run_group handle commit position msgs calls g')"

definition log_offsets :: "ConsumerMessage list \<Rightarrow> bool" where
  "log_offsets msgs \<longleftrightarrow> (\<forall>i < length msgs. Offset (msgs ! i) = int i)"

lemma run_group_invariant:
  assumes "I g" "\<And>g call. I g \<Longrightarrow> I (Consume handle commit position msgs call g)"
  shows "I (snd (run_group handle commit position msgs calls g))"
  using assms(1) by (induction calls arbitrary: g) (simp_all add: Let_def assms(2))

lemma claim_trace_messages: "map fst (claim_trace h ms s) = ms"
  by (induction ms arbitrary: s) (simp_all split: prod.splits)

lemma claim_position_mono:
  assumes "commit_documented commit position"
  shows "position c \<le> position (snd (consume_claim h commit ms (s, c)))"
proof (induction ms arbitrary: s c)
  case (Cons m ms)
  obtain ok s' where h: "h m s = (ok, s')" by fastforce
  show ?case using Cons.IH [of "if ok then commit (Offset m) c else c" s'] assms by (simp add: h commit_documented_def split: if_splits)
qed simp

text \<open>After a claim the position is where it was, or just past a message handled without error.\<close>

lemma claim_position_cases:
  assumes "commit_documented commit position"
  shows "position (snd (consume_claim h commit ms (s, c))) = position c \<or>
    (\<exists>m. (m, True) \<in> set (claim_trace h ms s) \<and> position (snd (consume_claim h commit ms (s, c))) = Offset m + 1)"
proof (induction ms arbitrary: s c)
  case (Cons m ms)
  obtain ok s' where h: "h m s = (ok, s')" by fastforce
  show ?case using Cons.IH [of s' "if ok then commit (Offset m) c else c"] assms by (auto simp: h commit_documented_def max_def split: if_splits)
qed simp

lemma claim_trace_take: "claim_trace h (take k ms) s = take k (claim_trace h ms s)"
  by (induction ms arbitrary: s k) (auto simp: take_Cons split: prod.splits nat.splits)

text \<open>What has been delivered: everything below the position, and the message before it was handled.\<close>

definition group_covers :: "('c \<Rightarrow> int) \<Rightarrow> ConsumerMessage list \<Rightarrow> int \<Rightarrow> ('s, 'c) group_state \<Rightarrow> bool" where
  "group_covers position msgs p g \<longleftrightarrow> p \<le> position (cg_commit g) \<and>
     (\<forall>i. p \<le> int i \<and> int i < position (cg_commit g) \<longrightarrow> i < length msgs \<and> msgs ! i \<in> fst ` set (cg_trace g)) \<and>
     (position (cg_commit g) \<noteq> p \<longrightarrow> (msgs ! nat (position (cg_commit g) - 1), True) \<in> set (cg_trace g))"

lemma Consume_covers:
  assumes "commit_documented commit position" "log_offsets msgs" "0 \<le> p" "group_covers position msgs p g"
  shows "group_covers position msgs p (Consume handle commit position msgs call g)"
proof -
  define h where "h = (\<lambda>m. handle (gc_env call m) m)"
  define q where "q = position (cg_commit g)"
  define ms where "ms = take (gc_length call) (drop (nat q) msgs)"
  define c' where "c' = snd (consume_claim h commit (take (gc_kept call) ms) (cg_state g, cg_commit g))"
  define tr where "tr = claim_trace h ms (cg_state g)"
  have g': "cg_commit (Consume handle commit position msgs call g) = c'" "cg_trace (Consume handle commit position msgs call g) = cg_trace g @ tr"
    by (simp_all add: Consume_def Let_def h_def q_def ms_def c'_def tr_def)
  have pq: "p \<le> q" and old: "\<And>i. p \<le> int i \<Longrightarrow> int i < q \<Longrightarrow> i < length msgs \<and> msgs ! i \<in> fst ` set (cg_trace g)"
    and last: "q \<noteq> p \<Longrightarrow> (msgs ! nat (q - 1), True) \<in> set (cg_trace g)"
    using assms(4) by (auto simp: group_covers_def q_def)
  have q: "q \<le> position c'" unfolding c'_def q_def by (rule claim_position_mono [OF assms(1)])
  have deliv: "fst ` set tr = set ms" by (metis claim_trace_messages list.set_map tr_def)
  from claim_position_cases [OF assms(1), of h "take (gc_kept call) ms" "cg_state g" "cg_commit g"]
  consider "position c' = q" | m where "(m, True) \<in> set tr" "position c' = Offset m + 1"
    by (auto simp: c'_def q_def tr_def claim_trace_take dest: in_set_takeD)
  then show ?thesis
  proof cases
    case 1
    then show ?thesis using pq old last by (auto simp: group_covers_def g')
  next
    case (2 m)
    then have "m \<in> set ms" using deliv by force
    then obtain k where k: "k < length ms" "m = ms ! k" by (metis in_set_conv_nth)
    then have idx: "nat q + k < length msgs" "m = msgs ! (nat q + k)" by (auto simp: ms_def)
    then have pos: "position c' = int (nat q + k) + 1" using 2(2) assms(2) by (simp add: log_offsets_def)
    have "i < length msgs \<and> msgs ! i \<in> fst ` set (cg_trace g @ tr)" if i: "p \<le> int i" "int i < position c'" for i
    proof (cases "int i < q")
      case False
      then have "i - nat q < length ms" "ms ! (i - nat q) = msgs ! i" using i pos k(1) pq assms(3) by (auto simp: ms_def)
      then have "msgs ! i \<in> set ms" by (metis nth_mem)
      moreover have "i \<le> nat q + k" using i(2) pos by linarith
      ultimately show ?thesis using deliv idx(1) by auto
    qed (use old i in auto)
    moreover have "nat (position c' - 1) = nat q + k" using pos by linarith
    ultimately show ?thesis using pq q 2(1) idx by (auto simp: group_covers_def g')
  qed
qed

text \<open>At least once: over any number of calls the committed position only grows, every message below
  it has been delivered, and the message just before it was handled without error.\<close>

lemma run_group_covers:
  assumes "commit_documented commit position" "log_offsets msgs" "0 \<le> position (cg_commit g)" "cg_trace g = []"
  shows "group_covers position msgs (position (cg_commit g)) (snd (run_group handle commit position msgs calls g))"
proof (rule run_group_invariant)
  show "group_covers position msgs (position (cg_commit g)) g" using assms(4) by (simp add: group_covers_def)
qed (rule Consume_covers [OF assms(1-3)])

context consumer begin

lemma group_inv: "inv (cg_state g) \<Longrightarrow> inv (cg_state (snd (run_group handle commit position msgs calls g)))"
  by (rule run_group_invariant) (auto simp: Consume_def Let_def intro: claim_inv)

end

context idempotent_consumer begin

lemma claim_done:
  "inv s \<Longrightarrow> (m, True) \<in> set (claim_trace (\<lambda>m. handle (ev m) m) ms s) \<Longrightarrow> good m \<Longrightarrow>
   effect_in m (fst (consume_claim (\<lambda>m. handle (ev m) m) commit ms (s, c)))"
proof (induction ms arbitrary: s c)
  case (Cons m' ms)
  obtain ok s' where h: "handle (ev m') m' s = (ok, s')" by fastforce
  have i: "inv s'" using handle_inv [of s "ev m'" m'] Cons.prems(1) h by simp
  from Cons.prems(2) consider "m = m'" "ok" | "(m, True) \<in> set (claim_trace (\<lambda>m. handle (ev m) m) ms s')" by (auto simp: h)
  then show ?case
  proof cases
    case 1
    then have "effect_in m s'" using handle_done [OF Cons.prems(1,3)] h by simp
    then show ?thesis by (simp add: h effect_stays_claim [OF i])
  qed (use Cons.IH [OF i _ Cons.prems(3)] in \<open>simp add: h\<close>)
qed simp

text \<open>No effect is lost: over any number of calls, a message that was once handled without error has
  its effect in the state, whatever was delivered again afterwards.\<close>

lemma group_effects:
  fixes g :: "('s, 'c) group_state"
  assumes "inv (cg_state g)" "cg_trace g = []"
  shows "\<forall>m. (m, True) \<in> set (cg_trace (snd (run_group handle commit position msgs calls g))) \<longrightarrow> good m \<longrightarrow>
    effect_in m (cg_state (snd (run_group handle commit position msgs calls g)))"
proof -
  have "inv (cg_state g') \<and> (\<forall>m. (m, True) \<in> set (cg_trace g') \<longrightarrow> good m \<longrightarrow> effect_in m (cg_state g'))"
    if "g' = snd (run_group handle commit position msgs calls g)" for g'
    unfolding that
  proof (rule run_group_invariant)
    fix g :: "('s, 'c) group_state" and call :: "'e group_call"
    assume "inv (cg_state g) \<and> (\<forall>m. (m, True) \<in> set (cg_trace g) \<longrightarrow> good m \<longrightarrow> effect_in m (cg_state g))"
    then show "inv (cg_state (Consume handle commit position msgs call g)) \<and>
        (\<forall>m. (m, True) \<in> set (cg_trace (Consume handle commit position msgs call g)) \<longrightarrow> good m \<longrightarrow>
          effect_in m (cg_state (Consume handle commit position msgs call g)))"
      by (auto simp: Consume_def Let_def intro: claim_inv claim_done effect_stays_claim)
  qed (use assms in simp)
  then show ?thesis by blast
qed

end

end
