(* ===== verification/GoTime.thy ===== *)
theory GoTime
  imports GoStrings
begin

text \<open>
  RFC 3339 timestamps: \<^verbatim>\<open>t.UTC().Format(time.RFC3339Nano)\<close>, the same with whole seconds
  (\<^verbatim>\<open>time.RFC3339\<close>), and \<^verbatim>\<open>time.Parse\<close> with these layouts. An instant is a number of
  nanoseconds since the Unix epoch; formatting is given for the years from 1 on. Parsing accepts
  what Go accepts: one or two digits of hours, a fraction of any length of which nine digits
  count, \<^verbatim>\<open>Z\<close> or a numeric offset.

  Shown: every instant of the years 1 to 9999 survives formatting and parsing.
\<close>

section \<open>The proleptic Gregorian calendar\<close>

text \<open>Days before the year that follows \<open>y\<close> years after the year 1.\<close>

definition days_before_year :: "nat \<Rightarrow> nat" where
  "days_before_year y = 365 * y + y div 4 - y div 100 + y div 400"

definition is_leap :: "nat \<Rightarrow> bool" where
  "is_leap year \<longleftrightarrow> year mod 4 = 0 \<and> (year mod 100 \<noteq> 0 \<or> year mod 400 = 0)"

definition month_starts :: "bool \<Rightarrow> nat list" where
  "month_starts leap =
     (if leap then [0, 31, 60, 91, 121, 152, 182, 213, 244, 274, 305, 335]
      else [0, 31, 59, 90, 120, 151, 181, 212, 243, 273, 304, 334])"

definition month_days :: "bool \<Rightarrow> nat list" where
  "month_days leap = [31, if leap then 29 else 28, 31, 30, 31, 30, 31, 31, 30, 31, 30, 31]"

definition unix_epoch_days :: int where
  "unix_epoch_days = 719162"

lemma days_before_year_ge: "365 * y \<le> days_before_year y"
  by (simp add: days_before_year_def)

function year_from :: "nat \<Rightarrow> nat \<Rightarrow> nat" where
  "year_from y d = (if days_before_year (y + 1) \<le> d then year_from (y + 1) d else y)"
  by pat_completeness auto
termination
proof (relation "measure (\<lambda>(y, d). d - y)")
  fix y d :: nat
  assume "days_before_year (y + 1) \<le> d"
  then have "y < d" using days_before_year_ge [of "y + 1"] by simp
  then show "((y + 1, d), (y, d)) \<in> measure (\<lambda>(y, d). d - y)" by simp
qed simp

declare year_from.simps [simp del]

text \<open>Year, month and day of the month of a day counted from the first of January of the year 1.\<close>

definition civil :: "nat \<Rightarrow> nat \<times> nat \<times> nat" where
  "civil d =
     (let y = year_from (d div 366) d; r = d - days_before_year y; ms = month_starts (is_leap (y + 1));
          m = length (filter (\<lambda>c. c \<le> r) ms)
      in (y + 1, m, r - ms ! (m - 1) + 1))"

definition day_number :: "nat \<Rightarrow> nat \<Rightarrow> nat \<Rightarrow> int" where
  "day_number year month day =
     (if year = 0 then - 366 else int (days_before_year (year - 1))) +
     int (month_starts (is_leap year) ! (month - 1)) + int (day - 1)"

section \<open>Formatting\<close>

fun pad :: "nat \<Rightarrow> nat \<Rightarrow> string" where
  "pad 0 n = []"
| "pad (Suc k) n = pad k (n div 10) @ [digit (n mod 10)]"

definition fraction :: "nat \<Rightarrow> string" where
  "fraction ns =
     (let ds = rev (dropWhile (\<lambda>c. c = CHR ''0'') (rev (pad 9 ns)))
      in if ds = [] then [] else ''.'' @ ds)"

definition format_rfc3339 :: "bool \<Rightarrow> time \<Rightarrow> string" where
  "format_rfc3339 nano t =
     (let secs = t div second; ns = nat (t mod second);
          (y, m, d) = civil (nat (secs div 86400 + unix_epoch_days)); sod = nat (secs mod 86400)
      in pad 4 y @ ''-'' @ pad 2 m @ ''-'' @ pad 2 d @ ''T'' @ pad 2 (sod div 3600) @ '':'' @
         pad 2 (sod div 60 mod 60) @ '':'' @ pad 2 (sod mod 60) @
         (if nano then fraction ns else []) @ ''Z'')"

section \<open>Parsing\<close>

definition take_num :: "nat \<Rightarrow> string \<Rightarrow> (nat \<times> string) option" where
  "take_num k s =
     (if k \<le> length s \<and> list_all is_digit (take k s)
      then Some (digits_val (take k s), drop k s) else None)"

text \<open>The layout element \<^verbatim>\<open>15\<close>: two digits, or one.\<close>

definition take_hour :: "string \<Rightarrow> (nat \<times> string) option" where
  "take_hour s = (case take_num 2 s of Some r \<Rightarrow> Some r | None \<Rightarrow> take_num 1 s)"

definition take_lit :: "char \<Rightarrow> string \<Rightarrow> string option" where
  "take_lit c s = (case s of x # xs \<Rightarrow> if x = c then Some xs else None | [] \<Rightarrow> None)"

definition take_fraction :: "string \<Rightarrow> nat \<times> string" where
  "take_fraction s =
     (case s of
        c # d # cs \<Rightarrow>
          if (c = CHR ''.'' \<or> c = CHR '','') \<and> is_digit d
          then let ds = takeWhile is_digit (d # cs); nine = take 9 (ds @ replicate 9 (CHR ''0''))
               in (digits_val nine, dropWhile is_digit (d # cs))
          else (0, s)
      | _ \<Rightarrow> (0, s))"

definition take_zone :: "string \<Rightarrow> int option" where
  "take_zone s =
     (case s of
        [] \<Rightarrow> None
      | c # cs \<Rightarrow>
          if c = CHR ''Z'' then (if cs = [] then Some 0 else None)
          else if c = CHR ''+'' \<or> c = CHR ''-''
          then Option.bind (take_num 2 cs) (\<lambda>(h, s1).
               Option.bind (take_lit (CHR '':'') s1) (\<lambda>s2.
               Option.bind (take_num 2 s2) (\<lambda>(m, s3).
               if s3 = [] \<and> h \<le> 24 \<and> m < 60
               then Some ((if c = CHR ''-'' then - 1 else 1) * int (h * 3600 + m * 60)) else None)))
          else None)"

definition parse_rfc3339 :: "string \<Rightarrow> time option" where
  "parse_rfc3339 s =
     Option.bind (take_num 4 s) (\<lambda>(y, s).
     Option.bind (take_lit (CHR ''-'') s) (\<lambda>s.
     Option.bind (take_num 2 s) (\<lambda>(mo, s).
     Option.bind (take_lit (CHR ''-'') s) (\<lambda>s.
     Option.bind (take_num 2 s) (\<lambda>(d, s).
     Option.bind (take_lit (CHR ''T'') s) (\<lambda>s.
     Option.bind (take_hour s) (\<lambda>(h, s).
     Option.bind (take_lit (CHR '':'') s) (\<lambda>s.
     Option.bind (take_num 2 s) (\<lambda>(mi, s).
     Option.bind (take_lit (CHR '':'') s) (\<lambda>s.
     Option.bind (take_num 2 s) (\<lambda>(sec, s).
     let (ns, s) = take_fraction s in
     Option.bind (take_zone s) (\<lambda>off.
     if 1 \<le> mo \<and> mo \<le> 12 \<and> 1 \<le> d \<and> d \<le> month_days (is_leap y) ! (mo - 1) \<and> h < 24 \<and> mi < 60 \<and>
        sec < 60
     then Some (((day_number y mo d - unix_epoch_days) * 86400 + int (h * 3600 + mi * 60 + sec)
                 - off) * second + int ns)
     else None))))))))))))"

section \<open>The calendar round trip\<close>

lemma year_from_bounds:
  assumes "days_before_year y \<le> d"
  shows "days_before_year (year_from y d) \<le> d \<and> d < days_before_year (year_from y d + 1)"
  using assms by (induction y d rule: year_from.induct) (metis not_le year_from.simps)

lemma days_before_year_estimate: "days_before_year (d div 366) \<le> d"
proof -
  have "days_before_year y \<le> 366 * y" for y by (simp add: days_before_year_def)
  from this [of "d div 366"] show ?thesis by linarith
qed

lemma year_length:
  "days_before_year (y + 1) = days_before_year y + (if is_leap (y + 1) then 366 else 365)"
proof -
  define c4 c100 c400 where "c4 \<longleftrightarrow> (y + 1) mod 4 = 0" and "c100 \<longleftrightarrow> (y + 1) mod 100 = 0"
    and "c400 \<longleftrightarrow> (y + 1) mod 400 = 0"
  have a: "(y + 1) div 4 = y div 4 + (if c4 then 1 else 0)"
    "(y + 1) div 100 = y div 100 + (if c100 then 1 else 0)"
    "(y + 1) div 400 = y div 400 + (if c400 then 1 else 0)"
    by (simp_all add: div_Suc c4_def c100_def c400_def)
  have b: "c100 \<Longrightarrow> c4" "c400 \<Longrightarrow> c100"
    unfolding c4_def c100_def c400_def mod_eq_0_iff_dvd by (erule dvd_trans [rotated], simp)+
  have le: "y div 100 \<le> y div 4" by (rule div_le_mono2) simp_all
  have leap: "is_leap (y + 1) \<longleftrightarrow> c4 \<and> (\<not> c100 \<or> c400)"
    unfolding is_leap_def c4_def c100_def c400_def ..
  have "365 * (y + 1) + (p + (if c4 then 1 else 0)) - (q + (if c100 then 1 else 0)) +
      (r + (if c400 then 1 else 0)) =
    365 * y + p - q + r + (if c4 \<and> (\<not> c100 \<or> c400) then 366 else 365)" if qp: "q \<le> p" for p q r :: nat
  proof -
    obtain t where "p = q + t" using le_Suc_ex [OF qp] by blast
    then show ?thesis using b by (cases c4; cases c100; cases c400; simp)
  qed
  from this [OF le] show ?thesis unfolding days_before_year_def leap a .
qed

lemma month_split:
  assumes "r < (if leap then 366 else 365)"
  defines "m \<equiv> length (filter (\<lambda>c. c \<le> r) (month_starts leap))"
  shows "1 \<le> m \<and> m \<le> 12 \<and> month_starts leap ! (m - 1) \<le> r \<and>
    r - month_starts leap ! (m - 1) + 1 \<le> month_days leap ! (m - 1)"
  unfolding m_def month_starts_def month_days_def using assms(1)
  by (cases leap) (auto split: if_splits)

lemma civil_day_number:
  assumes "civil d = (y, m, dd)"
  shows "day_number y m dd = int d" "1 \<le> m" "m \<le> 12" "1 \<le> dd" "dd \<le> month_days (is_leap y) ! (m - 1)" "1 \<le> y"
proof -
  define Y where "Y = year_from (d div 366) d"
  define r where "r = d - days_before_year Y"
  have Y: "days_before_year Y \<le> d" "d < days_before_year (Y + 1)"
    using year_from_bounds [OF days_before_year_estimate, of d] by (simp_all add: Y_def)
  then have "r < (if is_leap (Y + 1) then 366 else 365)"
    using year_length [of Y] by (auto simp: r_def split: if_splits)
  note ms = month_split [OF this]
  have civ: "y = Y + 1" "m = length (filter (\<lambda>c. c \<le> r) (month_starts (is_leap y)))"
    "dd = r - month_starts (is_leap y) ! (m - 1) + 1"
    using assms by (auto simp: civil_def Let_def Y_def r_def)
  show "1 \<le> m" "m \<le> 12" "1 \<le> dd" "dd \<le> month_days (is_leap y) ! (m - 1)" "1 \<le> y"
    using ms civ by simp_all
  have "d = days_before_year Y + r" using Y(1) by (simp add: r_def)
  then show "day_number y m dd = int d"
    using ms civ by (simp add: day_number_def)
qed

section \<open>The textual round trip\<close>

lemma length_pad [simp]: "length (pad k n) = k"
  by (induction k arbitrary: n) auto

lemma pad_digits [simp]: "list_all is_digit (pad k n)"
  by (induction k arbitrary: n) auto

lemma pad_val: "n < 10 ^ k \<Longrightarrow> digits_val (pad k n) = n"
proof (induction k arbitrary: n)
  case (Suc k)
  then have "n div 10 < 10 ^ k" by (simp add: less_mult_imp_div_less mult.commute)
  with Suc.IH show ?case by simp
qed (simp add: digits_val_def)

lemma take_num_pad [simp]: "n < 10 ^ k \<Longrightarrow> take_num k (pad k n @ s) = Some (n, s)"
  by (simp add: take_num_def pad_val)

lemma take_lit_simps [simp]: "take_lit c (c # s) = Some s"
  by (simp add: take_lit_def)

lemma take_hour_pad [simp]: "n < 100 \<Longrightarrow> take_hour (pad 2 n @ s) = Some (n, s)"
  by (simp add: take_hour_def)

lemma take_zone_Z [simp]: "take_zone ''Z'' = Some 0"
  by (simp add: take_zone_def)

lemma strip_zeros:
  fixes s :: string
  defines "ds \<equiv> rev (dropWhile (\<lambda>c. c = CHR ''0'') (rev s))"
  shows "s = ds @ replicate (length s - length ds) (CHR ''0'')"
proof -
  have "rev s = takeWhile (\<lambda>c. c = CHR ''0'') (rev s) @ rev ds" by (simp add: ds_def)
  then have "s = ds @ rev (takeWhile (\<lambda>c. c = CHR ''0'') (rev s))"
    by (metis rev_append rev_rev_ident)
  moreover obtain k where "takeWhile (\<lambda>c. c = CHR ''0'') (rev s) = replicate k (CHR ''0'')"
    using replicate_length_same [of "takeWhile (\<lambda>c. c = CHR ''0'') (rev s)" "CHR ''0''"]
    by (metis (full_types) set_takeWhileD)
  ultimately have s: "s = ds @ replicate k (CHR ''0'')" by simp
  then have "length s = length (ds @ replicate k (CHR ''0''))" by (rule arg_cong)
  then have "length s - length ds = k" by simp
  with s show ?thesis by metis
qed

lemma digits_val_zeros: "digits_val (replicate k (CHR ''0'')) = 0"
  by (induction k) (simp_all add: digits_val_def digit_val_def)

lemma take_fraction_fraction:
  assumes "ns < 10 ^ 9"
  shows "take_fraction (fraction ns @ ''Z'') = (ns, ''Z'')"
proof -
  define ds where "ds = rev (dropWhile (\<lambda>c. c = CHR ''0'') (rev (pad 9 ns)))"
  have p: "pad 9 ns = ds @ replicate (9 - length ds) (CHR ''0'')"
    using strip_zeros [of "pad 9 ns"] by (simp add: ds_def)
  then have "list_all is_digit ds" and len: "length ds \<le> 9"
    using pad_digits [of 9 ns] length_pad [of 9 ns] by (metis list_all_append, metis length_append le_add1)
  have v: "digits_val (pad 9 ns) = ns" using assms by (rule pad_val)
  have fr: "fraction ns = (if ds = [] then [] else ''.'' @ ds)"
    by (simp only: fraction_def ds_def Let_def)
  show ?thesis
  proof (cases ds)
    case Nil
    then have "digits_val (pad 9 ns) = 0" using p by (simp add: digits_val_zeros)
    then have "ns = 0" using v by simp
    moreover have "fraction ns @ ''Z'' = ''Z''" using fr Nil by simp
    ultimately show ?thesis by (simp only: take_fraction_def) simp
  next
    case (Cons d cs)
    have "\<not> is_digit (CHR ''Z'')" by (simp add: is_digit_def)
    then have tw: "takeWhile is_digit (ds @ ''Z'') = ds" "dropWhile is_digit (ds @ ''Z'') = ''Z''"
      using \<open>list_all is_digit ds\<close> by (auto simp: list_all_iff takeWhile_append2 dropWhile_append2)
    have "take 9 (ds @ replicate 9 (CHR ''0'')) = pad 9 ns"
      using len by (subst p) (simp add: min_def)
    with v tw Cons \<open>list_all is_digit ds\<close> show ?thesis
      by (simp add: fr take_fraction_def Let_def del: takeWhile.simps dropWhile.simps)
  qed
qed

text \<open>The first instant after the year 9999.\<close>

definition year_10000 :: time where
  "year_10000 = (int (days_before_year 9999) - unix_epoch_days) * 86400 * second"

lemma year_bound: "d < days_before_year 9999 \<Longrightarrow> civil d = (y, m, dd) \<Longrightarrow> y < 10000"
proof -
  assume d: "d < days_before_year 9999" and "civil d = (y, m, dd)"
  then have y: "y = year_from (d div 366) d + 1" by (simp add: civil_def Let_def)
  have "days_before_year (year_from (d div 366) d) \<le> d"
    using year_from_bounds [OF days_before_year_estimate] by blast
  moreover have "days_before_year a \<le> days_before_year b" if "a \<le> b" for a b
    using that by (induction rule: dec_induct) (simp_all add: year_length [simplified])
  ultimately show "y < 10000" using d y by (metis add.commute leI less_le_not_le nat_arith.suc1
      not_less_eq order.strict_trans1 plus_1_eq_Suc numeral_nat)
qed

lemma month_days_le: "1 \<le> m \<Longrightarrow> m \<le> 12 \<Longrightarrow> month_days leap ! (m - 1) \<le> 31"
  by (auto simp: month_days_def nth_Cons' split: if_splits)

lemma sod_split: "sod div 3600 * 3600 + sod div 60 mod 60 * 60 + sod mod 60 = (sod :: nat)"
proof -
  have "sod div 3600 = sod div 60 div 60" by (simp add: div_mult2_eq [symmetric])
  moreover have "sod div 60 * 60 + sod mod 60 = sod"
    "sod div 60 div 60 * 60 + sod div 60 mod 60 = sod div 60" by simp_all
  ultimately show ?thesis by linarith
qed

lemma timestamp_roundtrip_both:
  assumes "- unix_epoch_days * 86400 * second \<le> t" "t < year_10000"
  shows "parse_rfc3339 (format_rfc3339 True t) = Some t \<and>
    parse_rfc3339 (format_rfc3339 False t) = Some (t div second * second)"
proof -
  define secs where "secs = t div second"
  define d where "d = nat (secs div 86400 + unix_epoch_days)"
  define sod where "sod = nat (secs mod 86400)"
  define ns where "ns = nat (t mod second)"
  obtain y m dd where c: "civil d = (y, m, dd)" by (metis prod_cases3)
  note day = civil_day_number [OF c]
  have lo: "0 \<le> secs div 86400 + unix_epoch_days"
    using assms(1) by (simp add: secs_def second_def zdiv_zmult2_eq [symmetric] unix_epoch_days_def)
  have "secs div 86400 + unix_epoch_days < int (days_before_year 9999)"
    using assms(2) by (simp add: secs_def second_def zdiv_zmult2_eq [symmetric] year_10000_def)
  then have hi: "d < days_before_year 9999" using lo by (simp add: d_def nat_less_iff)
  have d: "int d = secs div 86400 + unix_epoch_days" using lo by (simp add: d_def)
  have y: "y < 10 ^ 4" using year_bound [OF hi c] by simp
  have md: "m < 10 ^ 2" "dd < 10 ^ 2"
    using day(3,5) month_days_le [OF day(2,3), of "is_leap y"] by simp_all
  have t: "sod < 86400" "int sod = secs mod 86400" by (simp_all add: sod_def)
  have h: "sod div 3600 < 24" "sod div 3600 * 3600 + sod div 60 mod 60 * 60 + sod mod 60 = sod"
    using t(1) by (simp_all add: sod_split)
  have n: "ns < 10 ^ 9" "int ns = t mod second" by (simp_all add: ns_def second_def)
  have eq: "int d - unix_epoch_days = secs div 86400" using d by simp
  have s: "(secs div 86400 * 86400 + int sod) * second + int ns = t"
    "(secs div 86400 * 86400 + int sod) * second = secs * second"
    using t(2) n(2) by (simp_all add: secs_def)
  have f: "format_rfc3339 nano t = pad 4 y @ ''-'' @ pad 2 m @ ''-'' @ pad 2 dd @ ''T'' @
      pad 2 (sod div 3600) @ '':'' @ pad 2 (sod div 60 mod 60) @ '':'' @ pad 2 (sod mod 60) @
      (if nano then fraction ns else []) @ ''Z''" for nano
    by (simp only: format_rfc3339_def Let_def c split_conv secs_def [symmetric] d_def [symmetric]
        sod_def [symmetric] ns_def [symmetric])
  have b: "sod div 60 mod 60 < 60" "sod mod 60 < 60" by simp_all
  have b2: "sod div 60 mod 60 < 100" "sod mod 60 < 100" "sod div 3600 < 100" using b h(1) by linarith+
  have fin: "(int d - unix_epoch_days) * 86400 + int (sod div 3600 * 3600 + sod div 60 mod 60 * 60 + sod mod 60)
      = secs div 86400 * 86400 + int sod" unfolding h(2) eq ..
  have tail: "parse_rfc3339 (format_rfc3339 nano t) =
      Some (((secs div 86400 * 86400 + int sod) - 0) * second + int (fst (take_fraction ((if nano then fraction ns else []) @ ''Z''))))"
    if "snd (take_fraction ((if nano then fraction ns else []) @ ''Z'')) = ''Z''" for nano
    using y md b b2 h(1) day that unfolding f parse_rfc3339_def fin [symmetric]
    by (simp add: split_beta)
  have z: "take_fraction ''Z'' = (0, ''Z'')" by (simp add: take_fraction_def)
  show ?thesis
    using tail [of True] tail [of False] take_fraction_fraction [OF n(1)] z s by (simp add: secs_def)
qed

lemma timestamp_roundtrip:
  "- unix_epoch_days * 86400 * second \<le> t \<Longrightarrow> t < year_10000 \<Longrightarrow> parse_rfc3339 (format_rfc3339 True t) = Some t"
  using timestamp_roundtrip_both by blast

text \<open>Timestamps survive the wire: an instant of the years 1 to 9999 formatted as RFC 3339
  with nanoseconds parses back to the same instant, and formatted with whole seconds it parses
  back to the instant rounded down to the second.\<close>

theorem rfc3339_roundtrip:
  assumes "- unix_epoch_days * 86400 * second \<le> t" "t < year_10000"
  shows "parse_rfc3339 (format_rfc3339 True t) = Some t \<and>
    parse_rfc3339 (format_rfc3339 False t) = Some (t div second * second)"
  using assms by (rule timestamp_roundtrip_both)

theorem rfc3339_roundtrip_witness:
  "parse_rfc3339 (format_rfc3339 True 1772323200123000000) = Some 1772323200123000000 \<and>
   parse_rfc3339 (format_rfc3339 False 1772323200123000000) = Some 1772323200000000000"
proof -
  have "- unix_epoch_days * 86400 * second \<le> 1772323200123000000"
    "(1772323200123000000 :: int) < year_10000"
    "(1772323200123000000 :: int) div second * second = 1772323200000000000"
    by (simp_all add: unix_epoch_days_def second_def year_10000_def days_before_year_def)
  then show ?thesis
    using rfc3339_roundtrip [of 1772323200123000000] by metis
qed

end
