(* ===== verification/MarketEvents.thy ===== *)
theory MarketEvents
  imports Kafka GoTime
begin

text \<open>
  The ingestion service of \<^verbatim>\<open>src/internal/marketdata/ingestion.go\<close> and the dispatch of
  \<^verbatim>\<open>composite_normaliser.go\<close>: the canonical event that all downstream services consume, its
  JSON form in both directions, the loop that normalises what a feed delivers, and publishing. A
  normaliser is a function from a raw event to a list of canonical events or an error; the
  concrete ones are in the theories of the providers. A raw event's data is a payload.

  \<open>struct_field\<close> lists describe how \<^verbatim>\<open>json.Marshal\<close> writes a struct: the key, whether
  \<^verbatim>\<open>omitempty\<close> leaves it out, and the value (None when the value cannot be marshalled).
\<close>

section \<open>Struct fields in JSON\<close>

type_synonym struct_field = "string \<times> bool \<times> json option"

fun marshal_fields :: "struct_field list \<Rightarrow> (string \<times> json) list option" where
  "marshal_fields [] = Some []"
| "marshal_fields ((k, omit, v) # fs) =
     (if omit then marshal_fields fs
      else case v of None \<Rightarrow> None | Some j \<Rightarrow> map_option ((#) (k, j)) (marshal_fields fs))"

definition marshal_struct :: "struct_field list \<Rightarrow> json option" where
  "marshal_struct fs = map_option JObj (marshal_fields fs)"

definition str_field :: "string \<Rightarrow> string \<Rightarrow> struct_field" where
  "str_field k s = (k, False, Some (JStr s))"

definition str_omit :: "string \<Rightarrow> string \<Rightarrow> struct_field" where
  "str_omit k s = (k, s = [], Some (JStr s))"

definition int_omit :: "string \<Rightarrow> int \<Rightarrow> struct_field" where
  "int_omit k n = (k, n = 0, Some (JInt n))"

definition bool_omit :: "string \<Rightarrow> bool \<Rightarrow> struct_field" where
  "bool_omit k b = (k, \<not> b, Some (JBool b))"

text \<open>\<^verbatim>\<open>omitempty\<close> compares a float with zero, so negative zero is left out too.\<close>

definition float_omit :: "string \<Rightarrow> float64 \<Rightarrow> struct_field" where
  "float_omit k x = (k, feq x (Fin 0), enc_float64 x)"

lemmas struct_field_defs = str_field_def str_omit_def int_omit_def bool_omit_def float_omit_def

lemma decode_absent:
  "\<forall>p \<in> set kvs. \<not> fold_eq (fst p) n \<Longrightarrow> decode_field dec n d kvs = Some d"
  by (induction kvs) auto

lemma marshal_keys:
  "marshal_fields fs = Some kvs \<Longrightarrow> (k, v) \<in> set kvs \<Longrightarrow> k \<in> fst ` set fs"
  by (induction fs arbitrary: kvs) (auto split: if_splits option.splits)

text \<open>Marshalling then decoding a struct with distinct keys gives each field back.\<close>

lemma decode_marshal:
  assumes "marshal_fields fs = Some kvs" "distinct (map (strings_ToLower \<circ> fst) fs)" "(n, omit, Some j) \<in> set fs"
    and "if omit then x = d else j \<noteq> JNull \<and> dec j = Some x"
  shows "decode_field dec n d kvs = Some x"
  using assms(1-3)
proof (induction fs arbitrary: kvs)
  case (Cons f fs)
  obtain k om v where f: "f = (k, om, v)" by (cases f)
  obtain kvs' where kvs': "marshal_fields fs = Some kvs'"
    "kvs = (if om then kvs' else (k, the v) # kvs')" "\<not> om \<longrightarrow> v \<noteq> None"
    using Cons.prems(1) by (auto simp: f split: if_splits option.splits)
  show ?case
  proof (cases "(n, omit, Some j) \<in> set fs")
    case True
    then have "strings_ToLower k \<noteq> strings_ToLower n" using Cons.prems(2) by (force simp: f)
    moreover have "decode_field dec n d kvs' = Some x" using Cons.IH [OF kvs'(1)] Cons.prems(2) True by simp
    ultimately show ?thesis by (simp add: kvs'(2) fold_eq_def)
  next
    case False
    then have fn: "k = n" "om = omit" "v = Some j" using Cons.prems(3) by (auto simp: f)
    have rest: "decode_field dec n y kvs' = Some y" for y
    proof (intro decode_absent ballI)
      fix p assume "p \<in> set kvs'"
      then have "fst p \<in> fst ` set fs" using marshal_keys [OF kvs'(1), of "fst p" "snd p"] by simp
      then obtain f' where "fst p = fst f'" "f' \<in> set fs" by (rule imageE)
      then have "strings_ToLower (fst p) \<in> (\<lambda>a. strings_ToLower (fst a)) ` set fs"
        by (intro image_eqI [of _ _ f']) simp_all
      moreover have "strings_ToLower n \<notin> (\<lambda>a. strings_ToLower (fst a)) ` set fs"
        using Cons.prems(2) by (simp add: f fn comp_def)
      ultimately show "\<not> fold_eq (fst p) n" by (metis fold_eq_def)
    qed
    then show ?thesis using assms(4) by (auto simp: kvs'(2) fn split: option.splits)
  qed
qed simp

section \<open>The canonical event\<close>

record NormalisedMarketEvent =
  ne_EventType :: string
  ne_ProviderID :: string
  ne_SportID :: string
  ne_EventID :: string
  ne_MarketID :: string
  ne_SelectionID :: string
  ne_SportName :: string
  ne_CompetitionID :: string
  ne_CompetitionName :: string
  ne_Country :: string
  ne_EventName :: string
  ne_StartsAt :: string
  ne_EventStatus :: string
  ne_MarketName :: string
  ne_MarketType :: string
  ne_MarketStatus :: string
  ne_TargetValue :: float64
  ne_IsMain :: bool
  ne_ClosesAt :: string
  ne_SelectionName :: string
  ne_SelActive :: bool
  ne_SelTargetValue :: float64
  ne_FeedProbability :: float64
  ne_HomeScore :: int
  ne_AwayScore :: int
  ne_GamePeriod :: string
  ne_GameClock :: string
  ne_OddsDecimal :: float64
  ne_OddsAmerican :: int
  ne_WinningSelectionID :: string
  ne_PublishedAt :: string
  ne_SourceOffset :: string

definition zero_event :: NormalisedMarketEvent where
  "zero_event = \<lparr>ne_EventType = [], ne_ProviderID = [], ne_SportID = [], ne_EventID = [],
     ne_MarketID = [], ne_SelectionID = [], ne_SportName = [], ne_CompetitionID = [],
     ne_CompetitionName = [], ne_Country = [], ne_EventName = [], ne_StartsAt = [],
     ne_EventStatus = [], ne_MarketName = [], ne_MarketType = [], ne_MarketStatus = [],
     ne_TargetValue = Fin 0, ne_IsMain = False, ne_ClosesAt = [], ne_SelectionName = [],
     ne_SelActive = False, ne_SelTargetValue = Fin 0, ne_FeedProbability = Fin 0, ne_HomeScore = 0,
     ne_AwayScore = 0, ne_GamePeriod = [], ne_GameClock = [], ne_OddsDecimal = Fin 0,
     ne_OddsAmerican = 0, ne_WinningSelectionID = [], ne_PublishedAt = [], ne_SourceOffset = []\<rparr>"

definition event_fields :: "NormalisedMarketEvent \<Rightarrow> struct_field list" where
  "event_fields e =
     [str_field ''event_type'' (ne_EventType e), str_field ''provider_id'' (ne_ProviderID e),
      str_field ''sport_id'' (ne_SportID e), str_field ''event_id'' (ne_EventID e),
      str_field ''market_id'' (ne_MarketID e), str_omit ''selection_id'' (ne_SelectionID e),
      str_omit ''sport_name'' (ne_SportName e), str_omit ''competition_id'' (ne_CompetitionID e),
      str_omit ''competition_name'' (ne_CompetitionName e), str_omit ''country'' (ne_Country e),
      str_omit ''event_name'' (ne_EventName e), str_omit ''starts_at'' (ne_StartsAt e),
      str_omit ''event_status'' (ne_EventStatus e), str_omit ''market_name'' (ne_MarketName e),
      str_omit ''market_type'' (ne_MarketType e), str_omit ''market_status'' (ne_MarketStatus e),
      float_omit ''target_value'' (ne_TargetValue e), bool_omit ''is_main'' (ne_IsMain e),
      str_omit ''closes_at'' (ne_ClosesAt e), str_omit ''selection_name'' (ne_SelectionName e),
      bool_omit ''sel_active'' (ne_SelActive e), float_omit ''sel_target_value'' (ne_SelTargetValue e),
      float_omit ''feed_probability'' (ne_FeedProbability e), int_omit ''home_score'' (ne_HomeScore e),
      int_omit ''away_score'' (ne_AwayScore e), str_omit ''game_period'' (ne_GamePeriod e),
      str_omit ''game_clock'' (ne_GameClock e), float_omit ''odds_decimal'' (ne_OddsDecimal e),
      int_omit ''odds_american'' (ne_OddsAmerican e), str_omit ''winning_selection_id'' (ne_WinningSelectionID e),
      str_field ''published_at'' (ne_PublishedAt e), str_omit ''source_offset'' (ne_SourceOffset e)]"

definition marshal_event :: "NormalisedMarketEvent \<Rightarrow> json option" where
  "marshal_event e = marshal_struct (event_fields e)"

definition decode_event :: "payload \<Rightarrow> NormalisedMarketEvent option" where
  "decode_event p =
     Option.bind (dec_object p) (\<lambda>kvs.
     Option.bind (decode_field dec_string ''event_type'' ([]) kvs) (\<lambda>vEventType.
     Option.bind (decode_field dec_string ''provider_id'' ([]) kvs) (\<lambda>vProviderID.
     Option.bind (decode_field dec_string ''sport_id'' ([]) kvs) (\<lambda>vSportID.
     Option.bind (decode_field dec_string ''event_id'' ([]) kvs) (\<lambda>vEventID.
     Option.bind (decode_field dec_string ''market_id'' ([]) kvs) (\<lambda>vMarketID.
     Option.bind (decode_field dec_string ''selection_id'' ([]) kvs) (\<lambda>vSelectionID.
     Option.bind (decode_field dec_string ''sport_name'' ([]) kvs) (\<lambda>vSportName.
     Option.bind (decode_field dec_string ''competition_id'' ([]) kvs) (\<lambda>vCompetitionID.
     Option.bind (decode_field dec_string ''competition_name'' ([]) kvs) (\<lambda>vCompetitionName.
     Option.bind (decode_field dec_string ''country'' ([]) kvs) (\<lambda>vCountry.
     Option.bind (decode_field dec_string ''event_name'' ([]) kvs) (\<lambda>vEventName.
     Option.bind (decode_field dec_string ''starts_at'' ([]) kvs) (\<lambda>vStartsAt.
     Option.bind (decode_field dec_string ''event_status'' ([]) kvs) (\<lambda>vEventStatus.
     Option.bind (decode_field dec_string ''market_name'' ([]) kvs) (\<lambda>vMarketName.
     Option.bind (decode_field dec_string ''market_type'' ([]) kvs) (\<lambda>vMarketType.
     Option.bind (decode_field dec_string ''market_status'' ([]) kvs) (\<lambda>vMarketStatus.
     Option.bind (decode_field dec_float64 ''target_value'' (Fin 0) kvs) (\<lambda>vTargetValue.
     Option.bind (decode_field dec_bool ''is_main'' (False) kvs) (\<lambda>vIsMain.
     Option.bind (decode_field dec_string ''closes_at'' ([]) kvs) (\<lambda>vClosesAt.
     Option.bind (decode_field dec_string ''selection_name'' ([]) kvs) (\<lambda>vSelectionName.
     Option.bind (decode_field dec_bool ''sel_active'' (False) kvs) (\<lambda>vSelActive.
     Option.bind (decode_field dec_float64 ''sel_target_value'' (Fin 0) kvs) (\<lambda>vSelTargetValue.
     Option.bind (decode_field dec_float64 ''feed_probability'' (Fin 0) kvs) (\<lambda>vFeedProbability.
     Option.bind (decode_field dec_int64 ''home_score'' (0) kvs) (\<lambda>vHomeScore.
     Option.bind (decode_field dec_int64 ''away_score'' (0) kvs) (\<lambda>vAwayScore.
     Option.bind (decode_field dec_string ''game_period'' ([]) kvs) (\<lambda>vGamePeriod.
     Option.bind (decode_field dec_string ''game_clock'' ([]) kvs) (\<lambda>vGameClock.
     Option.bind (decode_field dec_float64 ''odds_decimal'' (Fin 0) kvs) (\<lambda>vOddsDecimal.
     Option.bind (decode_field dec_int64 ''odds_american'' (0) kvs) (\<lambda>vOddsAmerican.
     Option.bind (decode_field dec_string ''winning_selection_id'' ([]) kvs) (\<lambda>vWinningSelectionID.
     Option.bind (decode_field dec_string ''published_at'' ([]) kvs) (\<lambda>vPublishedAt.
     Option.bind (decode_field dec_string ''source_offset'' ([]) kvs) (\<lambda>vSourceOffset.
     Some \<lparr>ne_EventType = vEventType, ne_ProviderID = vProviderID, ne_SportID = vSportID, ne_EventID = vEventID,
       ne_MarketID = vMarketID, ne_SelectionID = vSelectionID, ne_SportName = vSportName, ne_CompetitionID = vCompetitionID,
       ne_CompetitionName = vCompetitionName, ne_Country = vCountry, ne_EventName = vEventName, ne_StartsAt = vStartsAt,
       ne_EventStatus = vEventStatus, ne_MarketName = vMarketName, ne_MarketType = vMarketType, ne_MarketStatus = vMarketStatus,
       ne_TargetValue = vTargetValue, ne_IsMain = vIsMain, ne_ClosesAt = vClosesAt, ne_SelectionName = vSelectionName,
       ne_SelActive = vSelActive, ne_SelTargetValue = vSelTargetValue, ne_FeedProbability = vFeedProbability, ne_HomeScore = vHomeScore,
       ne_AwayScore = vAwayScore, ne_GamePeriod = vGamePeriod, ne_GameClock = vGameClock, ne_OddsDecimal = vOddsDecimal,
       ne_OddsAmerican = vOddsAmerican, ne_WinningSelectionID = vWinningSelectionID, ne_PublishedAt = vPublishedAt, ne_SourceOffset = vSourceOffset\<rparr>)))))))))))))))))))))))))))))))))"

section \<open>Round trip\<close>

definition plain_float :: "float64 \<Rightarrow> bool" where
  "plain_float x \<longleftrightarrow> is_float64 x \<and> finite_f x \<and> x \<noteq> NegZero"

definition event_ok :: "NormalisedMarketEvent \<Rightarrow> bool" where
  "event_ok e \<longleftrightarrow> in_int64 (ne_HomeScore e) \<and> in_int64 (ne_AwayScore e) \<and> in_int64 (ne_OddsAmerican e) \<and>
     plain_float (ne_TargetValue e) \<and> plain_float (ne_SelTargetValue e) \<and> plain_float (ne_FeedProbability e) \<and>
     plain_float (ne_OddsDecimal e)"

lemma plain_float_enc: "plain_float x \<Longrightarrow> \<exists>j. enc_float64 x = Some j \<and> j \<noteq> JNull \<and> dec_float64 j = Some x"
proof -
  assume x: "plain_float x"
  then obtain j where j: "enc_float64 x = Some j" using enc_float64_total [of x] by (auto simp: plain_float_def)
  have d: "dec_float64 j = Some x" using float64_json_roundtrip [OF _ j] x by (simp add: plain_float_def)
  then have "j \<noteq> JNull" by (auto simp: dec_float64_def)
  with j d show ?thesis by blast
qed

lemma plain_float_zero: "plain_float x \<Longrightarrow> feq x (Fin 0) \<Longrightarrow> x = Fin 0"
  by (cases x) (auto simp: plain_float_def feq_def)

lemma decode_marshalled:
  assumes "marshal_fields fs = Some kvs" "distinct (map (strings_ToLower \<circ> fst) fs)"
  shows "str_field n s \<in> set fs \<Longrightarrow> decode_field dec_string n [] kvs = Some s"
    and "str_omit n s \<in> set fs \<Longrightarrow> decode_field dec_string n [] kvs = Some s"
    and "bool_omit n b \<in> set fs \<Longrightarrow> decode_field dec_bool n False kvs = Some b"
    and "int_omit n i \<in> set fs \<Longrightarrow> in_int64 i \<Longrightarrow> decode_field dec_int64 n 0 kvs = Some i"
    and "float_omit n x \<in> set fs \<Longrightarrow> plain_float x \<Longrightarrow> decode_field dec_float64 n (Fin 0) kvs = Some x"
proof -
  note rt = decode_marshal [OF assms]
  show "str_field n s \<in> set fs \<Longrightarrow> decode_field dec_string n [] kvs = Some s"
    by (rule rt [of n False "JStr s"]) (simp_all add: struct_field_defs json_simps)
  show "str_omit n s \<in> set fs \<Longrightarrow> decode_field dec_string n [] kvs = Some s"
    by (rule rt [of n "s = []" "JStr s"]) (simp_all add: struct_field_defs json_simps)
  show "bool_omit n b \<in> set fs \<Longrightarrow> decode_field dec_bool n False kvs = Some b"
    by (rule rt [of n "\<not> b" "JBool b"]) (simp_all add: struct_field_defs json_simps)
  show "int_omit n i \<in> set fs \<Longrightarrow> in_int64 i \<Longrightarrow> decode_field dec_int64 n 0 kvs = Some i"
    by (rule rt [of n "i = 0" "JInt i"]) (simp_all add: struct_field_defs json_simps)
  assume x: "float_omit n x \<in> set fs" "plain_float x"
  then obtain j where j: "enc_float64 x = Some j" "j \<noteq> JNull" "dec_float64 j = Some x" using plain_float_enc by blast
  show "decode_field dec_float64 n (Fin 0) kvs = Some x"
    by (rule rt [of n "feq x (Fin 0)" j]) (use x j plain_float_zero in \<open>auto simp: struct_field_defs\<close>)
qed

lemma marshal_fields_total: "(\<And>k om. (k, om, None) \<in> set fs \<Longrightarrow> om) \<Longrightarrow> \<exists>kvs. marshal_fields fs = Some kvs"
proof (induction fs)
  case (Cons f fs)
  then obtain kvs where kvs: "marshal_fields fs = Some kvs" by (auto simp: list.set_intros)
  obtain k om v where f: "f = (k, om, v)" by (cases f)
  have "v = None \<longrightarrow> om" using Cons.prems [of k om] by (auto simp: f)
  then show ?case using kvs by (auto simp: f split: option.splits)
qed simp

lemma marshal_fields_None: "(k, False, None) \<in> set fs \<Longrightarrow> marshal_fields fs = None"
  by (induction fs) (auto split: option.splits)

definition event_keys :: "string list" where
  "event_keys = map fst (event_fields zero_event)"

lemma event_keys_lower: "distinct (map strings_ToLower event_keys)"
  unfolding event_keys_def by code_simp

lemma event_fields_distinct: "distinct (map (strings_ToLower \<circ> fst) (event_fields e))"
proof -
  have "map fst (event_fields e) = event_keys"
    by (simp add: event_keys_def event_fields_def struct_field_defs)
  then show ?thesis using event_keys_lower by (metis map_map)
qed

lemma marshal_event_total:
  assumes "event_ok e"
  shows "\<exists>kvs. marshal_fields (event_fields e) = Some kvs"
proof -
  have "None \<noteq> enc_float64 x" if "plain_float x" for x using plain_float_enc [OF that] by auto
  then show ?thesis
    using assms by (intro marshal_fields_total) (auto simp: event_fields_def struct_field_defs event_ok_def)
qed

text \<open>C11. Consumers see what the ingestion service published: marshalling a canonical event whose
  numbers are finite and in range and decoding the result gives the event back in all of its 32
  fields, although empty fields are left out of the JSON.\<close>

theorem event_roundtrip:
  assumes "event_ok e"
  shows "decode_event (marshal_event e) = Some e"
proof -
  obtain kvs where kvs: "marshal_fields (event_fields e) = Some kvs" using marshal_event_total [OF assms] by blast
  note rt = decode_marshalled [OF kvs event_fields_distinct]
  have "dec_object (marshal_event e) = Some kvs"
    by (simp add: marshal_event_def marshal_struct_def kvs dec_object_def)
  moreover have fields:
    "decode_field dec_string ''event_type'' [] kvs = Some (ne_EventType e)"
    "decode_field dec_string ''provider_id'' [] kvs = Some (ne_ProviderID e)"
    "decode_field dec_string ''sport_id'' [] kvs = Some (ne_SportID e)"
    "decode_field dec_string ''event_id'' [] kvs = Some (ne_EventID e)"
    "decode_field dec_string ''market_id'' [] kvs = Some (ne_MarketID e)"
    "decode_field dec_string ''selection_id'' [] kvs = Some (ne_SelectionID e)"
    "decode_field dec_string ''sport_name'' [] kvs = Some (ne_SportName e)"
    "decode_field dec_string ''competition_id'' [] kvs = Some (ne_CompetitionID e)"
    "decode_field dec_string ''competition_name'' [] kvs = Some (ne_CompetitionName e)"
    "decode_field dec_string ''country'' [] kvs = Some (ne_Country e)"
    "decode_field dec_string ''event_name'' [] kvs = Some (ne_EventName e)"
    "decode_field dec_string ''starts_at'' [] kvs = Some (ne_StartsAt e)"
    "decode_field dec_string ''event_status'' [] kvs = Some (ne_EventStatus e)"
    "decode_field dec_string ''market_name'' [] kvs = Some (ne_MarketName e)"
    "decode_field dec_string ''market_type'' [] kvs = Some (ne_MarketType e)"
    "decode_field dec_string ''market_status'' [] kvs = Some (ne_MarketStatus e)"
    "decode_field dec_float64 ''target_value'' (Fin 0) kvs = Some (ne_TargetValue e)"
    "decode_field dec_bool ''is_main'' False kvs = Some (ne_IsMain e)"
    "decode_field dec_string ''closes_at'' [] kvs = Some (ne_ClosesAt e)"
    "decode_field dec_string ''selection_name'' [] kvs = Some (ne_SelectionName e)"
    "decode_field dec_bool ''sel_active'' False kvs = Some (ne_SelActive e)"
    "decode_field dec_float64 ''sel_target_value'' (Fin 0) kvs = Some (ne_SelTargetValue e)"
    "decode_field dec_float64 ''feed_probability'' (Fin 0) kvs = Some (ne_FeedProbability e)"
    "decode_field dec_int64 ''home_score'' 0 kvs = Some (ne_HomeScore e)"
    "decode_field dec_int64 ''away_score'' 0 kvs = Some (ne_AwayScore e)"
    "decode_field dec_string ''game_period'' [] kvs = Some (ne_GamePeriod e)"
    "decode_field dec_string ''game_clock'' [] kvs = Some (ne_GameClock e)"
    "decode_field dec_float64 ''odds_decimal'' (Fin 0) kvs = Some (ne_OddsDecimal e)"
    "decode_field dec_int64 ''odds_american'' 0 kvs = Some (ne_OddsAmerican e)"
    "decode_field dec_string ''winning_selection_id'' [] kvs = Some (ne_WinningSelectionID e)"
    "decode_field dec_string ''published_at'' [] kvs = Some (ne_PublishedAt e)"
    "decode_field dec_string ''source_offset'' [] kvs = Some (ne_SourceOffset e)"
    using assms unfolding event_ok_def by (simp_all add: rt event_fields_def)
  ultimately show ?thesis by (simp add: decode_event_def)
qed

theorem event_roundtrip_witness:
  "decode_event (marshal_event (zero_event\<lparr>ne_EventType := ''game.state'', ne_HomeScore := 7\<rparr>)) =
     Some (zero_event\<lparr>ne_EventType := ''game.state'', ne_HomeScore := 7\<rparr>)"
proof -
  have "plain_float (Fin 0)" by (simp add: plain_float_def is_float64_def)
  then show ?thesis by (intro event_roundtrip) (simp add: event_ok_def zero_event_def in_int64_def)
qed

section \<open>Normalisers\<close>

record RawProviderEvent =
  rp_ProviderID :: string
  rp_Data :: payload
  rp_ReceivedAt :: time

text \<open>The first argument is what \<^verbatim>\<open>time.Now\<close> returns in the call; None is the error.\<close>

type_synonym normaliser = "time \<Rightarrow> RawProviderEvent \<Rightarrow> NormalisedMarketEvent list option"

definition CompositeNormaliser :: "(string \<rightharpoonup> normaliser) \<Rightarrow> normaliser" where
  "CompositeNormaliser normalisers now raw =
     (case normalisers (rp_ProviderID raw) of None \<Rightarrow> None | Some n \<Rightarrow> n now raw)"

definition SportradarNormaliser :: normaliser where
  "SportradarNormaliser now raw =
     Option.bind (dec_object (rp_Data raw)) (\<lambda>kvs.
     Option.bind (decode_field dec_string ''type'' [] kvs) (\<lambda>ty.
     Option.bind (decode_field dec_string ''market_id'' [] kvs) (\<lambda>m.
     Some [zero_event\<lparr>ne_EventType := ty, ne_ProviderID := rp_ProviderID raw, ne_MarketID := m\<rparr>])))"

section \<open>Publishing\<close>

datatype publish_call = SendEvent | SendEventAck

definition event_message :: "NormalisedMarketEvent \<Rightarrow> json \<Rightarrow> ProducerMessage" where
  "event_message e data =
     \<lparr>pm_Topic = ''market-data-normalised'', pm_Key = (if ne_MarketID e = [] then ne_EventID e else ne_MarketID e),
      pm_Value = data, pm_Headers = []\<rparr>"

text \<open>The result is whether publish returned nil, and the topic's log.\<close>

definition ingestion_publish ::
    "publish_call faults \<Rightarrow> time \<Rightarrow> NormalisedMarketEvent \<Rightarrow> ProducerMessage list \<Rightarrow> bool \<times> ProducerMessage list" where
  "ingestion_publish ft now event kafka =
     (let event' = event\<lparr>ne_PublishedAt := format_rfc3339 True now\<rparr>
      in case marshal_event event' of
           None \<Rightarrow> (False, kafka)
         | Some data \<Rightarrow>
             if ft SendEvent then (False, kafka)
             else (\<not> ft SendEventAck, kafka @ [event_message event' data]))"

text \<open>One delivery of a feed: the raw event, the instant of Normalise, and for each canonical event
  the instant and the faults of its publish.\<close>

record delivery =
  dl_raw :: RawProviderEvent
  dl_now :: time
  dl_pub :: "nat \<Rightarrow> time \<times> publish_call faults"

definition publish_events :: "(nat \<Rightarrow> time \<times> publish_call faults) \<Rightarrow> NormalisedMarketEvent list \<Rightarrow>
    ProducerMessage list \<Rightarrow> ProducerMessage list" where
  "publish_events pub es kafka =
     foldl (\<lambda>kafka (i, e). snd (ingestion_publish (snd (pub i)) (fst (pub i)) e kafka)) kafka (enumerate 0 es)"

text \<open>\<^verbatim>\<open>consumeFeed\<close> over what the channel delivers until it is closed; a feed whose Subscribe
  fails delivers nothing.\<close>

fun consumeFeed :: "normaliser \<Rightarrow> delivery list \<Rightarrow> ProducerMessage list \<Rightarrow> ProducerMessage list" where
  "consumeFeed normalise [] kafka = kafka"
| "consumeFeed normalise (d # ds) kafka =
     consumeFeed normalise ds
       (case normalise (dl_now d) (dl_raw d) of None \<Rightarrow> kafka | Some es \<Rightarrow> publish_events (dl_pub d) es kafka)"

section \<open>The contract of a normaliser\<close>

text \<open>
  A normaliser emits only events that are \<open>good\<close>, a property that does not depend on the time of
  publishing. Then every message that a feed behind it produces carries a good event.
\<close>

definition carries :: "(NormalisedMarketEvent \<Rightarrow> bool) \<Rightarrow> ProducerMessage \<Rightarrow> bool" where
  "carries good msg \<longleftrightarrow> pm_Topic msg = ''market-data-normalised'' \<and>
     (\<exists>e. good e \<and> marshal_event e = Some (pm_Value msg) \<and> pm_Key msg = (if ne_MarketID e = [] then ne_EventID e else ne_MarketID e))"

locale normaliser_contract =
  fixes normalise :: normaliser and good :: "NormalisedMarketEvent \<Rightarrow> bool"
  assumes norm_good: "normalise now raw = Some es \<Longrightarrow> e \<in> set es \<Longrightarrow> good e"
    and good_published: "good e \<Longrightarrow> good (e\<lparr>ne_PublishedAt := t\<rparr>)"
begin

lemma publish_carries:
  assumes "good e" "\<forall>m \<in> set kafka. carries good m"
  shows "\<forall>m \<in> set (snd (ingestion_publish ft now e kafka)). carries good m"
proof (cases "marshal_event (e\<lparr>ne_PublishedAt := format_rfc3339 True now\<rparr>)")
  case (Some data)
  then have "carries good (event_message (e\<lparr>ne_PublishedAt := format_rfc3339 True now\<rparr>) data)"
    using good_published [OF assms(1)] unfolding carries_def event_message_def
    by (intro conjI exI [of _ "e\<lparr>ne_PublishedAt := format_rfc3339 True now\<rparr>"]) simp_all
  then show ?thesis using assms(2) Some by (auto simp: ingestion_publish_def Let_def)
qed (use assms in \<open>simp add: ingestion_publish_def Let_def\<close>)

lemma publish_events_carries:
  assumes "\<forall>e \<in> set es. good e" "\<forall>m \<in> set kafka. carries good m"
  shows "\<forall>m \<in> set (publish_events pub es kafka). carries good m"
proof -
  have "\<forall>m \<in> set (foldl (\<lambda>kafka (i, e). snd (ingestion_publish (snd (pub i)) (fst (pub i)) e kafka)) kafka (enumerate k es)).
      carries good m" for k
    using assms
  proof (induction es arbitrary: k kafka)
    case (Cons e es)
    have "\<forall>m \<in> set (snd (ingestion_publish (snd (pub k)) (fst (pub k)) e kafka)). carries good m"
      using Cons.prems by (intro publish_carries) simp_all
    then show ?case using Cons.IH [of "snd (ingestion_publish (snd (pub k)) (fst (pub k)) e kafka)" "Suc k"] Cons.prems
      by (simp add: enumerate_simps(2))
  qed simp
  then show ?thesis by (simp add: publish_events_def)
qed

lemma feed_carries:
  "\<forall>m \<in> set kafka. carries good m \<Longrightarrow> \<forall>m \<in> set (consumeFeed normalise ds kafka). carries good m"
proof (induction ds arbitrary: kafka)
  case (Cons d ds)
  show ?case
  proof (cases "normalise (dl_now d) (dl_raw d)")
    case None
    then show ?thesis using Cons by simp
  next
    case (Some es)
    then have "\<forall>m \<in> set (publish_events (dl_pub d) es kafka). carries good m"
      using norm_good Cons.prems by (intro publish_events_carries) auto
    then show ?thesis using Cons.IH Some by simp
  qed
qed simp

end

text \<open>The dispatch over normalisers that meet a contract meets it too.\<close>

lemma composite_contract:
  assumes "\<And>p n. ns p = Some n \<Longrightarrow> normaliser_contract n good" "\<And>e t. good e \<Longrightarrow> good (e\<lparr>ne_PublishedAt := t\<rparr>)"
  shows "normaliser_contract (CompositeNormaliser ns) good"
proof
  show "good e" if "CompositeNormaliser ns now raw = Some es" "e \<in> set es" for now raw es e
    using that assms(1) by (auto simp: CompositeNormaliser_def dest: normaliser_contract.norm_good split: option.splits)
qed (rule assms(2))

section \<open>Nested values\<close>

text \<open>Struct- and slice-valued fields. A null element of a slice leaves the zero value. A slice
  is a list: a nil slice and an empty one are not distinguished (they decode alike).\<close>

definition dec_struct :: "((string \<times> json) list \<Rightarrow> 'a option) \<Rightarrow> json \<Rightarrow> 'a option" where
  "dec_struct f v = (case v of JObj kvs \<Rightarrow> f kvs | _ \<Rightarrow> None)"

definition dec_slice :: "(json \<Rightarrow> 'a option) \<Rightarrow> 'a \<Rightarrow> json \<Rightarrow> 'a list option" where
  "dec_slice dec zero v =
     (case v of JArr vs \<Rightarrow> dec_list (\<lambda>v. if v = JNull then Some zero else dec v) vs | _ \<Rightarrow> None)"

fun marshal_list :: "('a \<Rightarrow> json option) \<Rightarrow> 'a list \<Rightarrow> json list option" where
  "marshal_list f [] = Some []"
| "marshal_list f (x # xs) =
     (case f x of None \<Rightarrow> None | Some j \<Rightarrow> map_option ((#) j) (marshal_list f xs))"

definition marshal_slice :: "('a \<Rightarrow> json option) \<Rightarrow> 'a list \<Rightarrow> json option" where
  "marshal_slice f xs = map_option JArr (marshal_list f xs)"

definition int_field :: "string \<Rightarrow> int \<Rightarrow> struct_field" where
  "int_field k n = (k, False, Some (JInt n))"

definition bool_field :: "string \<Rightarrow> bool \<Rightarrow> struct_field" where
  "bool_field k b = (k, False, Some (JBool b))"

definition val_field :: "string \<Rightarrow> json option \<Rightarrow> struct_field" where
  "val_field k v = (k, False, v)"

lemmas field_defs = struct_field_defs int_field_def bool_field_def val_field_def

lemma slice_roundtrip:
  assumes "\<And>x. x \<in> set xs \<Longrightarrow> \<exists>j. f x = Some j \<and> j \<noteq> JNull \<and> dec j = Some x"
  shows "\<exists>j. marshal_slice f xs = Some j \<and> j \<noteq> JNull \<and> dec_slice dec z j = Some xs"
proof -
  have "\<exists>js. marshal_list f xs = Some js \<and> dec_list (\<lambda>v. if v = JNull then Some z else dec v) js = Some xs"
    using assms
  proof (induction xs)
    case (Cons x xs)
    from Cons.IH Cons.prems obtain js where js: "marshal_list f xs = Some js"
      "dec_list (\<lambda>v. if v = JNull then Some z else dec v) js = Some xs" by (auto simp: list.set_intros)
    from Cons.prems [of x] obtain j where "f x = Some j" "j \<noteq> JNull" "dec j = Some x" by auto
    with js show ?case by simp
  qed simp
  then show ?thesis by (auto simp: marshal_slice_def dec_slice_def)
qed

text \<open>A struct whose fields can all be marshalled gives each of them back.\<close>

lemma decode_field_of:
  assumes "marshal_fields fs = Some kvs" "distinct (map (strings_ToLower \<circ> fst) fs)"
  shows "int_field n i \<in> set fs \<Longrightarrow> in_int64 i \<Longrightarrow> decode_field dec_int64 n 0 kvs = Some i"
    and "bool_field n b \<in> set fs \<Longrightarrow> decode_field dec_bool n False kvs = Some b"
    and "val_field n (Some j) \<in> set fs \<Longrightarrow> j \<noteq> JNull \<Longrightarrow> dec j = Some x \<Longrightarrow> decode_field dec n d kvs = Some x"
proof -
  note rt = decode_marshal [OF assms]
  show "int_field n i \<in> set fs \<Longrightarrow> in_int64 i \<Longrightarrow> decode_field dec_int64 n 0 kvs = Some i"
    by (rule rt [of n False "JInt i"]) (simp_all add: field_defs json_simps)
  show "bool_field n b \<in> set fs \<Longrightarrow> decode_field dec_bool n False kvs = Some b"
    by (rule rt [of n False "JBool b"]) (simp_all add: field_defs json_simps)
  show "val_field n (Some j) \<in> set fs \<Longrightarrow> j \<noteq> JNull \<Longrightarrow> dec j = Some x \<Longrightarrow> decode_field dec n d kvs = Some x"
    by (rule rt [of n False j]) (simp_all add: field_defs)
qed

lemma marshal_struct_SomeD: "marshal_struct fs = Some j \<Longrightarrow> \<exists>kvs. marshal_fields fs = Some kvs \<and> j = JObj kvs"
  by (auto simp: marshal_struct_def)

end
