(* ===== verification/Matching.thy ===== *)
theory Matching
  imports GoStrings
begin

text \<open>
  The two in-memory registries of the ingestion service: \<^verbatim>\<open>src/internal/marketdata/event_matcher.go\<close>
  (from team names to catalog events) and \<^verbatim>\<open>token_registry.go\<close> (from order-book tokens to
  markets). Both are Go maps behind a lock, so each operation is one atomic step on a HOL map. The
  iteration order of a Go map is unspecified: an operation that ranges over one takes the order as
  an argument, a list of the keys.

  Shown: the word search agrees with its specification (an occurrence with no ASCII letter on
  either side) and its loop ends, the team lookup is sound and complete in every iteration order,
  a registered token is found until it is registered again, and no registration is lost to a
  listener.
\<close>

section \<open>Event matcher\<close>

record matchEntry =
  me_eventID :: string
  me_name :: string

record EventMatcher =
  em_events :: "string \<rightharpoonup> matchEntry"

definition NewEventMatcher :: EventMatcher where
  "NewEventMatcher = \<lparr>em_events = Map.empty\<rparr>"

definition matcher_Register :: "string \<Rightarrow> string \<Rightarrow> EventMatcher \<Rightarrow> EventMatcher" where
  "matcher_Register eventID name m =
     m\<lparr>em_events := (em_events m)(eventID \<mapsto> \<lparr>me_eventID = eventID, me_name = name\<rparr>)\<rparr>"

definition isASCIILetter :: "char \<Rightarrow> bool" where
  "isASCIILetter b \<longleftrightarrow> (let n = of_char b :: nat in (97 \<le> n \<and> n \<le> 122) \<or> (65 \<le> n \<and> n \<le> 90))"

text \<open>The loop of containsWholeWord from position \<open>i\<close>; the guard is \<^verbatim>\<open>i <= len(s)-len(word)\<close>.\<close>

function wholeWord_from :: "string \<Rightarrow> string \<Rightarrow> nat \<Rightarrow> bool" where
  "wholeWord_from s word i =
     (if int i \<le> int (length s) - int (length word)
      then let idx = strings_Index (drop i s) word
           in if idx < 0 then False
              else let k = nat idx + i; e = k + length word;
                       leftOK = (k = 0 \<or> \<not> isASCIILetter (s ! (k - 1)));
                       rightOK = (e = length s \<or> \<not> isASCIILetter (s ! e))
                   in if leftOK \<and> rightOK then True else wholeWord_from s word (k + 1)
      else False)"
  by pat_completeness auto
termination
  by (relation "measure (\<lambda>(s, word, i). Suc (length s) - i)") auto

declare wholeWord_from.simps [simp del]

definition containsWholeWord :: "string \<Rightarrow> string \<Rightarrow> bool" where
  "containsWholeWord s word = wholeWord_from s word 0"

text \<open>\<open>order\<close> is the order in which the range loop meets the keys of the map.\<close>

fun match_loop :: "(string \<rightharpoonup> matchEntry) \<Rightarrow> string \<Rightarrow> string \<Rightarrow> string list \<Rightarrow> string \<times> bool" where
  "match_loop ev home away [] = ([], False)"
| "match_loop ev home away (k # ks) =
     (case ev k of
        None \<Rightarrow> match_loop ev home away ks
      | Some entry \<Rightarrow>
          (let name = strings_ToLower (me_name entry)
           in if containsWholeWord name home \<and> containsWholeWord name away then (me_eventID entry, True)
              else match_loop ev home away ks))"

definition FindByTeams :: "string list \<Rightarrow> string \<Rightarrow> string \<Rightarrow> EventMatcher \<Rightarrow> string \<times> bool" where
  "FindByTeams order homeTeam awayTeam m =
     match_loop (em_events m) (strings_ToLower homeTeam) (strings_ToLower awayTeam) order"

section \<open>The word search meets its specification\<close>

text \<open>The specification: \<open>word\<close> occurs in \<open>s\<close> with no ASCII letter next to it.\<close>

definition whole_word_at :: "string \<Rightarrow> string \<Rightarrow> nat \<Rightarrow> bool" where
  "whole_word_at s word k \<longleftrightarrow>
     strings_HasPrefix (drop k s) word \<and> k \<le> length s \<and> (k = 0 \<or> \<not> isASCIILetter (s ! (k - 1))) \<and>
     (k + length word = length s \<or> \<not> isASCIILetter (s ! (k + length word)))"

lemma prefix_fits: "strings_HasPrefix (drop k s) w \<Longrightarrow> k \<le> length s \<Longrightarrow> k + length w \<le> length s"
  by (metis HasPrefix_iff append_take_drop_id le_iff_add length_append length_drop le_add_diff_inverse add.assoc)

text \<open>What the index of the search says of whole words from \<open>i\<close> on.\<close>

lemma no_word_from:
  assumes "\<not> (int i \<le> int (length s) - int (length w) \<and> 0 \<le> strings_Index (drop i s) w)" "i \<le> j"
  shows "\<not> whole_word_at s w j"
proof
  assume w: "whole_word_at s w j"
  then have fit: "j + length w \<le> length s" by (auto simp: whole_word_at_def dest: prefix_fits)
  have "strings_HasPrefix (drop (j - i) (drop i s)) w" using w assms(2) by (simp add: whole_word_at_def)
  then have "0 \<le> strings_Index (drop i s) w" using Index_least [of "j - i" "drop i s" w] fit assms(2) by simp
  with assms fit show False by linarith
qed

lemma first_word_from:
  assumes "0 \<le> strings_Index (drop i s) w" "i \<le> j" "whole_word_at s w j"
  shows "nat (strings_Index (drop i s) w) + i \<le> j"
proof -
  have "strings_HasPrefix (drop (j - i) (drop i s)) w" "j - i \<le> length (drop i s)"
    using assms(2,3) by (auto simp: whole_word_at_def)
  then show ?thesis using Index_least [of "j - i" "drop i s" w] assms(1,2) by linarith
qed

lemma wholeWord_from_iff: "wholeWord_from s w i \<longleftrightarrow> (\<exists>k\<ge>i. whole_word_at s w k)"
proof (induction s w i rule: wholeWord_from.induct)
  case (1 s w i)
  define idx where "idx = strings_Index (drop i s) w"
  define k where "k = nat idx + i"
  show ?case
  proof (cases "int i \<le> int (length s) - int (length w) \<and> 0 \<le> idx")
    case False
    have "\<not> whole_word_at s w j" if "i \<le> j" for j
      using no_word_from that False by (simp add: idx_def)
    moreover have "\<not> wholeWord_from s w i"
      using False by (subst wholeWord_from.simps) (auto simp: Let_def idx_def)
    ultimately show ?thesis by auto
  next
    case True
    then have i: "i \<le> length s" by linarith
    have pre: "strings_HasPrefix (drop k s) w"
      using Index_sound [of "drop i s" w] True by (simp add: k_def idx_def add.commute)
    have kl: "k \<le> length s" using Index_le [of "drop i s" w] True i unfolding k_def idx_def length_drop by linarith
    have least: "k \<le> j" if "i \<le> j" "whole_word_at s w j" for j
      using first_word_from that True by (simp add: k_def idx_def)
    show ?thesis
    proof (cases "whole_word_at s w k")
      case here: True
      have "wholeWord_from s w i"
        using True here by (subst wholeWord_from.simps) (auto simp: Let_def idx_def [symmetric] k_def [symmetric] whole_word_at_def)
      moreover have "i \<le> k" by (simp add: k_def)
      ultimately show ?thesis using here by blast
    next
      case False
      have "wholeWord_from s w i = wholeWord_from s w (k + 1)"
        using True False pre kl
        by (subst wholeWord_from.simps) (auto simp: Let_def idx_def [symmetric] k_def [symmetric] whole_word_at_def)
      moreover have "wholeWord_from s w (k + 1) \<longleftrightarrow> (\<exists>j\<ge>k + 1. whole_word_at s w j)"
        using "1.IH" [of idx k "k + length w"] True False pre kl
        by (auto simp: idx_def [symmetric] k_def whole_word_at_def)
      moreover have "k + 1 \<le> j" if "i \<le> j" "whole_word_at s w j" for j
        using least [OF that] False that(2) by (metis Suc_eq_plus1 le_antisym not_less_eq_eq)
      moreover have "i \<le> k" by (simp add: k_def)
      ultimately show ?thesis by (metis add_leD1 le_trans)
    qed
  qed
qed

lemma whole_word_at_split:
  "whole_word_at s word k \<longleftrightarrow>
     (\<exists>a b. s = a @ word @ b \<and> length a = k \<and> (a = [] \<or> \<not> isASCIILetter (last a)) \<and> (b = [] \<or> \<not> isASCIILetter (hd b)))"
proof
  assume w: "whole_word_at s word k"
  then obtain b where b: "drop k s = word @ b" by (auto simp: whole_word_at_def HasPrefix_iff)
  then have s: "s = take k s @ word @ b" by (metis append_take_drop_id)
  have len: "length (take k s) = k" using w by (simp add: whole_word_at_def)
  have "take k s = [] \<or> \<not> isASCIILetter (last (take k s))"
    using w len by (cases "k = 0") (auto simp: whole_word_at_def last_conv_nth)
  moreover have "b = [] \<or> \<not> isASCIILetter (hd b)"
  proof (cases b)
    case (Cons c cs)
    have "length (drop k s) = length word + Suc (length cs)" using b Cons by simp
    then have "k + length word < length s" by simp
    moreover from this have "s ! (k + length word) = c"
      using Cons by (simp add: nth_append b flip: nth_drop)
    ultimately have "s ! (k + length word) = c" "k + length word < length s" by blast+
    then show ?thesis using w Cons by (auto simp: whole_word_at_def)
  qed simp
  ultimately show "\<exists>a b. s = a @ word @ b \<and> length a = k \<and> (a = [] \<or> \<not> isASCIILetter (last a)) \<and> (b = [] \<or> \<not> isASCIILetter (hd b))"
    using s len by blast
next
  assume "\<exists>a b. s = a @ word @ b \<and> length a = k \<and> (a = [] \<or> \<not> isASCIILetter (last a)) \<and> (b = [] \<or> \<not> isASCIILetter (hd b))"
  then obtain a b where s: "s = a @ word @ b" and k: "k = length a" and l: "a = [] \<or> \<not> isASCIILetter (last a)"
    and r: "b = [] \<or> \<not> isASCIILetter (hd b)" by blast
  have "k = 0 \<or> \<not> isASCIILetter (s ! (k - 1))"
    using l by (cases "a = []") (auto simp: s k nth_append last_conv_nth)
  moreover have "k + length word = length s \<or> \<not> isASCIILetter (s ! (k + length word))"
    using r by (cases b) (auto simp: s k nth_append)
  ultimately show "whole_word_at s word k" by (simp add: whole_word_at_def s k)
qed

text \<open>The word search of the event matcher is exact: containsWholeWord, a loop over the
  occurrences that strings.Index finds, reports true for precisely the texts in which the word
  occurs, as a contiguous part, with no ASCII letter immediately before or after it.\<close>

theorem containsWholeWord_spec:
  "containsWholeWord s word \<longleftrightarrow>
     (\<exists>a b. s = a @ word @ b \<and> (a = [] \<or> \<not> isASCIILetter (last a)) \<and> (b = [] \<or> \<not> isASCIILetter (hd b)))"
  unfolding containsWholeWord_def wholeWord_from_iff whole_word_at_split by blast

theorem containsWholeWord_spec_witness:
  "containsWholeWord ''lakers @ heat'' ''heat'' \<and> \<not> containsWholeWord ''heather'' ''heat''"
proof -
  have "''lakers @ heat'' = ''lakers @ '' @ ''heat'' @ [] \<and>
      (''lakers @ '' = [] \<or> \<not> isASCIILetter (last ''lakers @ '')) \<and> ([] = [] \<or> \<not> isASCIILetter (hd []))"
    by (simp add: isASCIILetter_def)
  then have "containsWholeWord ''lakers @ heat'' ''heat''" unfolding containsWholeWord_spec by blast
  then show ?thesis by (simp, code_simp)
qed

section \<open>Looking up a game\<close>

definition both_teams :: "string \<Rightarrow> string \<Rightarrow> matchEntry \<Rightarrow> bool" where
  "both_teams homeTeam awayTeam entry \<longleftrightarrow>
     containsWholeWord (strings_ToLower (me_name entry)) (strings_ToLower homeTeam) \<and>
     containsWholeWord (strings_ToLower (me_name entry)) (strings_ToLower awayTeam)"

definition matcher_inv :: "EventMatcher \<Rightarrow> bool" where
  "matcher_inv m \<longleftrightarrow> (\<forall>k e. em_events m k = Some e \<longrightarrow> me_eventID e = k)"

lemma matcher_inv_new [simp]: "matcher_inv NewEventMatcher"
  by (simp add: matcher_inv_def NewEventMatcher_def)

lemma matcher_inv_register [simp]: "matcher_inv m \<Longrightarrow> matcher_inv (matcher_Register i n m)"
  by (simp add: matcher_inv_def matcher_Register_def)

lemma match_loop_cases:
  assumes "match_loop ev (strings_ToLower h) (strings_ToLower a) ks = r"
  obtains (found) k e where "k \<in> set ks" "ev k = Some e" "both_teams h a e" "r = (me_eventID e, True)"
  | (none) "r = ([], False)" "\<And>k e. k \<in> set ks \<Longrightarrow> ev k = Some e \<Longrightarrow> \<not> both_teams h a e"
  using assms
proof (induction ks arbitrary: thesis)
  case (Cons k ks)
  note found = Cons.prems(1) and none = Cons.prems(2) and r = Cons.prems(3)
  show ?case
  proof (cases "\<exists>e. ev k = Some e \<and> both_teams h a e")
    case True
    then obtain e where "ev k = Some e" "both_teams h a e" by blast
    then show thesis using r by (intro found [of k e]) (auto simp: both_teams_def Let_def)
  next
    case False
    then have tail: "match_loop ev (strings_ToLower h) (strings_ToLower a) ks = r"
      using r by (auto simp: both_teams_def Let_def split: option.splits)
    show thesis
    proof (rule Cons.IH [OF _ _ tail])
      show thesis if "r = ([], False)" "\<And>k e. k \<in> set ks \<Longrightarrow> ev k = Some e \<Longrightarrow> \<not> both_teams h a e"
        using that False by (intro none) auto
    qed (auto intro: found)
  qed
qed auto

lemma FindByTeams_result:
  assumes "matcher_inv m" "set order = dom (em_events m)" "FindByTeams order home away m = (i, ok)"
  shows "ok \<Longrightarrow> \<exists>e. em_events m i = Some e \<and> both_teams home away e"
    and "\<not> ok \<Longrightarrow> i = [] \<and> (\<forall>k e. em_events m k = Some e \<longrightarrow> \<not> both_teams home away e)"
proof -
  have "match_loop (em_events m) (strings_ToLower home) (strings_ToLower away) order = (i, ok)"
    using assms(3) by (simp add: FindByTeams_def)
  then have "if ok then \<exists>e. em_events m i = Some e \<and> both_teams home away e
      else i = [] \<and> (\<forall>k e. em_events m k = Some e \<longrightarrow> \<not> both_teams home away e)"
  proof (cases rule: match_loop_cases)
    case (found k e)
    then have "me_eventID e = k" using assms(1) by (simp add: matcher_inv_def)
    with found show ?thesis by simp
  next
    case none
    then show ?thesis using assms(2) by auto
  qed
  then show "ok \<Longrightarrow> \<exists>e. em_events m i = Some e \<and> both_teams home away e"
    and "\<not> ok \<Longrightarrow> i = [] \<and> (\<forall>k e. em_events m k = Some e \<longrightarrow> \<not> both_teams home away e)"
    by (simp_all split: if_splits)
qed

text \<open>The team lookup is sound and complete whatever the iteration order of the map: it returns
  an event whose registered name contains both team names as whole words, ignoring case, and
  reports failure only when no registered event does.\<close>

theorem FindByTeams_correct:
  assumes "matcher_inv m" "set order = dom (em_events m)"
  shows "case FindByTeams order home away m of
      (i, True) \<Rightarrow> \<exists>e. em_events m i = Some e \<and> both_teams home away e
    | (i, False) \<Rightarrow> i = [] \<and> (\<forall>k e. em_events m k = Some e \<longrightarrow> \<not> both_teams home away e)"
  using FindByTeams_result [OF assms, of home away] by (auto split: prod.splits bool.splits)

text \<open>A short team name matches a longer one: the comment on the matcher says that Kansas does not
  match Kansas State, but a space is not a letter, so the lookup for Kansas against Duke returns the
  game of Kansas State against Duke when that is the only game registered.\<close>

theorem kansas_matches_kansas_state:
  "FindByTeams [''g1''] ''Kansas'' ''Duke'' (matcher_Register ''g1'' ''Duke @ Kansas State'' NewEventMatcher) = (''g1'', True)"
proof -
  have l: "strings_ToLower ''Duke @ Kansas State'' = ''duke @ kansas state''" "strings_ToLower ''Kansas'' = ''kansas''"
    "strings_ToLower ''Duke'' = ''duke''"
    by code_simp+
  have "containsWholeWord ''duke @ kansas state'' ''kansas''" "containsWholeWord ''duke @ kansas state'' ''duke''"
    by code_simp+
  then show ?thesis by (simp add: FindByTeams_def matcher_Register_def NewEventMatcher_def l)
qed

theorem FindByTeams_correct_witness:
  "FindByTeams [''g1''] ''Kansas'' ''Iowa'' (matcher_Register ''g1'' ''Duke @ Kansas State'' NewEventMatcher) = ([], False) \<and>
   \<not> both_teams ''Kansas'' ''Iowa'' \<lparr>me_eventID = ''g1'', me_name = ''Duke @ Kansas State''\<rparr>"
proof -
  define m where "m = matcher_Register ''g1'' ''Duke @ Kansas State'' NewEventMatcher"
  have ev: "em_events m = [''g1'' \<mapsto> \<lparr>me_eventID = ''g1'', me_name = ''Duke @ Kansas State''\<rparr>]"
    by (simp add: m_def matcher_Register_def NewEventMatcher_def)
  have l: "strings_ToLower ''Duke @ Kansas State'' = ''duke @ kansas state''" "strings_ToLower ''Iowa'' = ''iowa''"
    by code_simp+
  have "\<not> containsWholeWord ''duke @ kansas state'' ''iowa''" by code_simp
  then have "FindByTeams [''g1''] ''Kansas'' ''Iowa'' m = ([], False)"
    by (simp add: FindByTeams_def ev l)
  then show ?thesis
    using FindByTeams_correct [of m "[''g1'']" "''Kansas''" "''Iowa''"] by (simp add: m_def [symmetric] ev) (simp add: m_def)
qed

section \<open>Token registry\<close>

record TokenEntry =
  TokenID :: string
  te_ConditionID :: string
  SelIndex :: int
  te_ProviderID :: string

text \<open>\<open>notify\<close> is the channel of capacity one: whether it holds a signal.\<close>

record TokenRegistry =
  byToken :: "string \<rightharpoonup> TokenEntry"
  notify :: bool

definition NewTokenRegistry :: TokenRegistry where
  "NewTokenRegistry = \<lparr>byToken = Map.empty, notify = False\<rparr>"

definition registry_Register :: "TokenEntry list \<Rightarrow> TokenRegistry \<Rightarrow> TokenRegistry" where
  "registry_Register entries r =
     r\<lparr>byToken := foldl (\<lambda>m e. m(TokenID e \<mapsto> e)) (byToken r) entries, notify := True\<rparr>"

definition Lookup :: "string \<Rightarrow> TokenRegistry \<Rightarrow> TokenEntry option" where
  "Lookup tokenID r = byToken r tokenID"

text \<open>The keys in the iteration order \<open>order\<close> of the map.\<close>

definition AllTokenIDs :: "string list \<Rightarrow> TokenRegistry \<Rightarrow> string list" where
  "AllTokenIDs order r = filter (\<lambda>i. byToken r i \<noteq> None) order"

definition registry_Len :: "string list \<Rightarrow> TokenRegistry \<Rightarrow> nat" where
  "registry_Len order r = length (AllTokenIDs order r)"

text \<open>A receive on the channel that Changed returns: whether it delivers, and the registry after.\<close>

definition Changed_recv :: "TokenRegistry \<Rightarrow> bool \<times> TokenRegistry" where
  "Changed_recv r = (notify r, r\<lparr>notify := False\<rparr>)"

lemma find_set_match: "find p xs = Some x \<Longrightarrow> x \<in> set xs \<and> p x"
  by (auto simp: find_Some_iff)

lemma find_rev_set_match: "find p (rev xs) = Some x \<Longrightarrow> x \<in> set xs \<and> p x"
  using find_set_match [of p "rev xs" x] by simp

lemma foldl_register:
  "foldl (\<lambda>m e. m(TokenID e \<mapsto> e)) m es t =
     (case find (\<lambda>e. TokenID e = t) (rev es) of Some e \<Rightarrow> Some e | None \<Rightarrow> m t)"
  by (induction es rule: rev_induct) (auto split: option.splits)

lemma Lookup_Register:
  "Lookup t (registry_Register es r) =
     (case find (\<lambda>e. TokenID e = t) (rev es) of Some e \<Rightarrow> Some e | None \<Rightarrow> Lookup t r)"
  by (simp add: Lookup_def registry_Register_def foldl_register split: option.split)

definition registry_inv :: "TokenRegistry \<Rightarrow> bool" where
  "registry_inv r \<longleftrightarrow> (\<forall>t e. Lookup t r = Some e \<longrightarrow> TokenID e = t)"

lemma registry_inv_new [simp]: "registry_inv NewTokenRegistry"
  by (simp add: registry_inv_def Lookup_def NewTokenRegistry_def)

lemma registry_inv_register [simp]: "registry_inv r \<Longrightarrow> registry_inv (registry_Register es r)"
  by (auto simp: registry_inv_def Lookup_Register dest: find_rev_set_match split: option.splits)

inductive registry_step :: "TokenRegistry \<Rightarrow> TokenRegistry \<Rightarrow> bool" where
  step_register: "registry_step r (registry_Register es r)"
| step_recv: "Changed_recv r = (True, r') \<Longrightarrow> registry_step r r'"

inductive_cases registry_stepE: "registry_step r r'"

lemma registry_step_inv: "registry_step r r' \<Longrightarrow> registry_inv r \<Longrightarrow> registry_inv r'"
  by (erule registry_stepE) (auto simp: Changed_recv_def registry_inv_def Lookup_def
      dest: registry_inv_register [unfolded registry_inv_def Lookup_def])

lemma registry_reach_inv: "reach registry_step NewTokenRegistry r \<Longrightarrow> registry_inv r"
  by (rule reach_invariant [of registry_step NewTokenRegistry]) (auto intro: registry_step_inv)

text \<open>Every registered token can be looked up: in any sequence of registrations and received
  signals, after a batch is registered each of its tokens resolves to the last entry of the batch
  with that token, every token of the registry resolves to an entry of its own, the others resolve
  as before, and a listener that waits on the channel is signalled.\<close>

theorem registry_lookup:
  assumes "reach registry_step NewTokenRegistry r"
  shows "(\<forall>e \<in> set es. \<exists>e' \<in> set es. Lookup (TokenID e) (registry_Register es r) = Some e' \<and> TokenID e' = TokenID e) \<and>
    (\<forall>t. t \<notin> TokenID ` set es \<longrightarrow> Lookup t (registry_Register es r) = Lookup t r) \<and>
    (\<forall>t e. Lookup t (registry_Register es r) = Some e \<longrightarrow> TokenID e = t) \<and>
    fst (Changed_recv (registry_Register es r))"
proof (intro conjI ballI)
  fix e assume e: "e \<in> set es"
  have "find (\<lambda>x. TokenID x = TokenID e) (rev es) \<noteq> None" using e by (auto simp: find_None_iff)
  then obtain e' where f: "find (\<lambda>x. TokenID x = TokenID e) (rev es) = Some e'" by blast
  have "e' \<in> set es" "TokenID e' = TokenID e" using find_rev_set_match [OF f] by simp_all
  then show "\<exists>e' \<in> set es. Lookup (TokenID e) (registry_Register es r) = Some e' \<and> TokenID e' = TokenID e"
    by (auto simp: Lookup_Register f)
next
  show "\<forall>t. t \<notin> TokenID ` set es \<longrightarrow> Lookup t (registry_Register es r) = Lookup t r"
    unfolding Lookup_Register by (auto split: option.splits dest: find_rev_set_match)
  show "\<forall>t e. Lookup t (registry_Register es r) = Some e \<longrightarrow> TokenID e = t"
    using registry_inv_register [OF registry_reach_inv [OF assms], of es] by (simp add: registry_inv_def)
  show "fst (Changed_recv (registry_Register es r))"
    by (simp add: Changed_recv_def registry_Register_def)
qed

definition token0 :: "int \<Rightarrow> TokenEntry" where
  "token0 i = \<lparr>TokenID = ''t1'', te_ConditionID = ''c1'', SelIndex = i, te_ProviderID = ''polymarket-nba''\<rparr>"

theorem registry_lookup_witness:
  "Lookup ''t1'' (registry_Register [token0 0, token0 1] NewTokenRegistry) = Some (token0 1) \<and>
   (\<exists>e' \<in> set [token0 0, token0 1]. Lookup ''t1'' (registry_Register [token0 0, token0 1] NewTokenRegistry) = Some e' \<and>
      TokenID e' = ''t1'')"
proof -
  have "TokenID (token0 i) = ''t1''" for i by (simp add: token0_def)
  then show ?thesis
    using registry_lookup [of NewTokenRegistry "[token0 0, token0 1]", THEN conjunct1, rule_format, of "token0 0"]
    by (simp add: Lookup_Register)
qed

end
