(* ===== verification/ScoreFeeds.thy ===== *)
theory ScoreFeeds
  imports MarketEvents Matching
begin

text \<open>
  The score providers of \<^verbatim>\<open>src/internal/marketdata\<close>: the NBA scoreboard
  (\<^verbatim>\<open>nba_score_feed.go\<close>, \<^verbatim>\<open>nba_score_normaliser.go\<close>), the ESPN scoreboards of NCAA
  basketball and the NHL (\<^verbatim>\<open>ncaab_score_*.go\<close>, \<^verbatim>\<open>nhl_score_*.go\<close>) and the Polymarket
  sports socket (\<^verbatim>\<open>polymarket_score_*.go\<close>). A feed fetches a scoreboard, matches each started
  game to a catalog event and emits raw events; a normaliser turns them into game.state events.
  An HTTP response is a parameter. A poll stops where the context is cancelled: \<open>n\<close> is the number
  of sends that happen before that.
\<close>

section \<open>Library functions\<close>

text \<open>The value that \<^verbatim>\<open>strconv.Atoi\<close> returns when its error is ignored.\<close>

definition atoi_value :: "string \<Rightarrow> int" where
  "atoi_value s =
     (case parse_signed s of None \<Rightarrow> 0
      | Some n \<Rightarrow> if n < - (2 ^ 63) then - (2 ^ 63) else if 2 ^ 63 \<le> n then 2 ^ 63 - 1 else n)"

datatype http_result = HttpError | HttpResponse int payload

definition http_ok :: "http_result \<Rightarrow> payload option" where
  "http_ok r = (case r of HttpError \<Rightarrow> None | HttpResponse status body \<Rightarrow> if status = 200 then Some body else None)"

section \<open>NBA\<close>

record NBATeam =
  TeamTricode :: string
  TeamName :: string
  nt_Score :: int

record NBAGame =
  GameStatus :: int
  GameStatusText :: string
  ng_Period :: int
  ng_GameClock :: string
  ng_HomeTeam :: NBATeam
  ng_AwayTeam :: NBATeam

record NBAScoreRaw =
  nr_EventID :: string
  nr_Game :: NBAGame

definition zero_NBATeam :: NBATeam where
  "zero_NBATeam = \<lparr>TeamTricode = [], TeamName = [], nt_Score = 0\<rparr>"

definition zero_NBAGame :: NBAGame where
  "zero_NBAGame = \<lparr>GameStatus = 0, GameStatusText = [], ng_Period = 0, ng_GameClock = [],
     ng_HomeTeam = zero_NBATeam, ng_AwayTeam = zero_NBATeam\<rparr>"

definition decode_NBATeam :: "(string \<times> json) list \<Rightarrow> NBATeam option" where
  "decode_NBATeam kvs =
     Option.bind (decode_field dec_string ''teamTricode'' [] kvs) (\<lambda>tri.
     Option.bind (decode_field dec_string ''teamName'' [] kvs) (\<lambda>nm.
     Option.bind (decode_field dec_int64 ''score'' 0 kvs) (\<lambda>sc.
     Some \<lparr>TeamTricode = tri, TeamName = nm, nt_Score = sc\<rparr>)))"

definition decode_NBAGame :: "(string \<times> json) list \<Rightarrow> NBAGame option" where
  "decode_NBAGame kvs =
     Option.bind (decode_field dec_int64 ''gameStatus'' 0 kvs) (\<lambda>st.
     Option.bind (decode_field dec_string ''gameStatusText'' [] kvs) (\<lambda>tx.
     Option.bind (decode_field dec_int64 ''period'' 0 kvs) (\<lambda>p.
     Option.bind (decode_field dec_string ''gameClock'' [] kvs) (\<lambda>cl.
     Option.bind (decode_field (dec_struct decode_NBATeam) ''homeTeam'' zero_NBATeam kvs) (\<lambda>h.
     Option.bind (decode_field (dec_struct decode_NBATeam) ''awayTeam'' zero_NBATeam kvs) (\<lambda>a.
     Some \<lparr>GameStatus = st, GameStatusText = tx, ng_Period = p, ng_GameClock = cl, ng_HomeTeam = h, ng_AwayTeam = a\<rparr>))))))"

definition decode_NBAScoreRaw :: "payload \<Rightarrow> NBAScoreRaw option" where
  "decode_NBAScoreRaw p =
     Option.bind (dec_object p) (\<lambda>kvs.
     Option.bind (decode_field dec_string ''event_id'' [] kvs) (\<lambda>e.
     Option.bind (decode_field (dec_struct decode_NBAGame) ''game'' zero_NBAGame kvs) (\<lambda>g.
     Some \<lparr>nr_EventID = e, nr_Game = g\<rparr>)))"

definition NBATeam_fields :: "NBATeam \<Rightarrow> struct_field list" where
  "NBATeam_fields t = [str_field ''teamTricode'' (TeamTricode t), str_field ''teamName'' (TeamName t),
     int_field ''score'' (nt_Score t)]"

definition NBAGame_fields :: "NBAGame \<Rightarrow> struct_field list" where
  "NBAGame_fields g =
     [int_field ''gameStatus'' (GameStatus g), str_field ''gameStatusText'' (GameStatusText g),
      int_field ''period'' (ng_Period g), str_field ''gameClock'' (ng_GameClock g),
      val_field ''homeTeam'' (marshal_struct (NBATeam_fields (ng_HomeTeam g))),
      val_field ''awayTeam'' (marshal_struct (NBATeam_fields (ng_AwayTeam g)))]"

definition marshal_NBAScoreRaw :: "NBAScoreRaw \<Rightarrow> json option" where
  "marshal_NBAScoreRaw r =
     marshal_struct [str_field ''event_id'' (nr_EventID r), val_field ''game'' (marshal_struct (NBAGame_fields (nr_Game r)))]"

definition nba_fetchScoreboard :: "http_result \<Rightarrow> NBAGame list option" where
  "nba_fetchScoreboard resp =
     Option.bind (http_ok resp) (\<lambda>body.
     Option.bind (dec_object body) (\<lambda>kvs.
     decode_field (dec_struct (\<lambda>sb. decode_field (dec_slice (dec_struct decode_NBAGame) zero_NBAGame) ''games'' [] sb))
       ''scoreboard'' [] kvs))"

text \<open>What one game contributes to a poll; \<open>ord\<close> gives the iteration order of the matcher's map.\<close>

definition nba_game_event ::
    "(NBAGame \<Rightarrow> string list) \<Rightarrow> EventMatcher \<Rightarrow> time \<Rightarrow> NBAGame \<Rightarrow> RawProviderEvent option" where
  "nba_game_event ord m now game =
     (if GameStatus game = 1 then None
      else case FindByTeams (ord game) (TeamName (ng_HomeTeam game)) (TeamName (ng_AwayTeam game)) m of
        (eventID, ok) \<Rightarrow>
          if \<not> ok then None
          else map_option (\<lambda>data. \<lparr>rp_ProviderID = ''nba-scores'', rp_Data = Some data, rp_ReceivedAt = now\<rparr>)
                 (marshal_NBAScoreRaw \<lparr>nr_EventID = eventID, nr_Game = game\<rparr>))"

text \<open>The matcher is read once per game, so \<open>m\<close> gives what it holds when a game is looked up: other feeds
  may register events during a poll.\<close>

definition nba_poll :: "(NBAGame \<Rightarrow> string list) \<Rightarrow> (NBAGame \<Rightarrow> EventMatcher) \<Rightarrow> time \<Rightarrow> http_result \<Rightarrow> nat \<Rightarrow> RawProviderEvent list" where
  "nba_poll ord m now resp n =
     (case nba_fetchScoreboard resp of None \<Rightarrow> [] | Some games \<Rightarrow> take n (List.map_filter (\<lambda>g. nba_game_event ord (m g) now g) games))"

definition formatPeriod :: "NBAGame \<Rightarrow> string" where
  "formatPeriod game =
     (if GameStatus game = 3
      then if 4 < ng_Period game then ''FINAL/OT'' @ itoa (ng_Period game - 4) else ''FINAL''
      else if ng_Period game \<le> 4 then ''Q'' @ itoa (ng_Period game) else ''OT'' @ itoa (ng_Period game - 4))"

definition clock_seconds :: "string \<Rightarrow> string" where
  "clock_seconds part =
     (let dot = strings_Index part ''.'';
          sec = (if 0 \<le> dot then take (nat dot) part else part);
          sec = (if length sec = 1 then ''0'' @ sec else sec)
      in if sec = [] then ''00'' else sec)"

definition formatClock :: "NBAGame \<Rightarrow> string" where
  "formatClock game =
     (if GameStatus game = 3 then []
      else if ng_GameClock game = [] \<or> ng_GameClock game = ''PT00M00.00S'' then []
      else let s = strings_TrimSuffix (strings_TrimPrefix (ng_GameClock game) ''PT'') ''S''
           in case strings_SplitN2 s ''M'' of
                [p0, p1] \<Rightarrow>
                  (let mn = strings_TrimLeft p0 ''0''; mn = (if mn = [] then ''0'' else mn)
                   in mn @ '':'' @ clock_seconds p1)
              | _ \<Rightarrow> ng_GameClock game)"

definition NBAScoreNormaliser :: normaliser where
  "NBAScoreNormaliser now raw =
     (case decode_NBAScoreRaw (rp_Data raw) of
        None \<Rightarrow> None
      | Some r \<Rightarrow>
          Some [zero_event\<lparr>ne_EventType := ''game.state'', ne_ProviderID := ''nba-scores'', ne_EventID := nr_EventID r,
            ne_EventStatus := (if GameStatus (nr_Game r) = 3 then ''FINISHED'' else ''LIVE''),
            ne_HomeScore := nt_Score (ng_HomeTeam (nr_Game r)), ne_AwayScore := nt_Score (ng_AwayTeam (nr_Game r)),
            ne_GamePeriod := formatPeriod (nr_Game r), ne_GameClock := formatClock (nr_Game r)\<rparr>])"

section \<open>ESPN scoreboards\<close>

record competitor =
  cp_HomeAway :: string
  cp_DisplayName :: string
  cp_Location :: string
  cp_Score :: string

record ESPNGame =
  es_DisplayClock :: string
  es_Period :: int
  es_State :: string
  es_Completed :: bool
  es_Competitions :: "competitor list list"

record ESPNScoreRaw =
  er_EventID :: string
  er_Game :: ESPNGame

definition zero_competitor :: competitor where
  "zero_competitor = \<lparr>cp_HomeAway = [], cp_DisplayName = [], cp_Location = [], cp_Score = []\<rparr>"

definition zero_ESPNGame :: ESPNGame where
  "zero_ESPNGame = \<lparr>es_DisplayClock = [], es_Period = 0, es_State = [], es_Completed = False, es_Competitions = []\<rparr>"

definition decode_team :: "(string \<times> json) list \<Rightarrow> (string \<times> string) option" where
  "decode_team kvs =
     Option.bind (decode_field dec_string ''displayName'' [] kvs) (\<lambda>d.
     Option.bind (decode_field dec_string ''location'' [] kvs) (\<lambda>l. Some (d, l)))"

definition decode_competitor :: "(string \<times> json) list \<Rightarrow> competitor option" where
  "decode_competitor kvs =
     Option.bind (decode_field dec_string ''homeAway'' [] kvs) (\<lambda>h.
     Option.bind (decode_field (dec_struct decode_team) ''team'' ([], []) kvs) (\<lambda>(d, l).
     Option.bind (decode_field dec_string ''score'' [] kvs) (\<lambda>sc.
     Some \<lparr>cp_HomeAway = h, cp_DisplayName = d, cp_Location = l, cp_Score = sc\<rparr>)))"

definition decode_competition :: "(string \<times> json) list \<Rightarrow> competitor list option" where
  "decode_competition kvs = decode_field (dec_slice (dec_struct decode_competitor) zero_competitor) ''competitors'' [] kvs"

definition decode_status_type :: "(string \<times> json) list \<Rightarrow> (string \<times> bool) option" where
  "decode_status_type kvs =
     Option.bind (decode_field dec_string ''state'' [] kvs) (\<lambda>s.
     Option.bind (decode_field dec_bool ''completed'' False kvs) (\<lambda>c. Some (s, c)))"

definition decode_status :: "(string \<times> json) list \<Rightarrow> (string \<times> int \<times> string \<times> bool) option" where
  "decode_status kvs =
     Option.bind (decode_field dec_string ''displayClock'' [] kvs) (\<lambda>d.
     Option.bind (decode_field dec_int64 ''period'' 0 kvs) (\<lambda>p.
     Option.bind (decode_field (dec_struct decode_status_type) ''type'' ([], False) kvs) (\<lambda>(s, c). Some (d, p, s, c))))"

definition decode_ESPNGame :: "(string \<times> json) list \<Rightarrow> ESPNGame option" where
  "decode_ESPNGame kvs =
     Option.bind (decode_field (dec_struct decode_status) ''status'' ([], 0, [], False) kvs) (\<lambda>(d, p, s, c).
     Option.bind (decode_field (dec_slice (dec_struct decode_competition) []) ''competitions'' [] kvs) (\<lambda>cs.
     Some \<lparr>es_DisplayClock = d, es_Period = p, es_State = s, es_Completed = c, es_Competitions = cs\<rparr>))"

definition decode_ESPNScoreRaw :: "payload \<Rightarrow> ESPNScoreRaw option" where
  "decode_ESPNScoreRaw p =
     Option.bind (dec_object p) (\<lambda>kvs.
     Option.bind (decode_field dec_string ''event_id'' [] kvs) (\<lambda>e.
     Option.bind (decode_field (dec_struct decode_ESPNGame) ''game'' zero_ESPNGame kvs) (\<lambda>g.
     Some \<lparr>er_EventID = e, er_Game = g\<rparr>)))"

definition competitor_fields :: "competitor \<Rightarrow> struct_field list" where
  "competitor_fields c = [str_field ''homeAway'' (cp_HomeAway c),
     val_field ''team'' (marshal_struct [str_field ''displayName'' (cp_DisplayName c), str_field ''location'' (cp_Location c)]),
     str_field ''score'' (cp_Score c)]"

definition ESPNGame_fields :: "ESPNGame \<Rightarrow> struct_field list" where
  "ESPNGame_fields g =
     [val_field ''status'' (marshal_struct [str_field ''displayClock'' (es_DisplayClock g), int_field ''period'' (es_Period g),
        val_field ''type'' (marshal_struct [str_field ''state'' (es_State g), bool_field ''completed'' (es_Completed g)])]),
      val_field ''competitions'' (marshal_slice (\<lambda>cs. marshal_struct
        [val_field ''competitors'' (marshal_slice (\<lambda>c. marshal_struct (competitor_fields c)) cs)]) (es_Competitions g))]"

definition marshal_ESPNScoreRaw :: "ESPNScoreRaw \<Rightarrow> json option" where
  "marshal_ESPNScoreRaw r =
     marshal_struct [str_field ''event_id'' (er_EventID r), val_field ''game'' (marshal_struct (ESPNGame_fields (er_Game r)))]"

text \<open>The loop over the competitors that keeps one value for the home side and one for the other.\<close>

definition home_away :: "(competitor \<Rightarrow> 'a) \<Rightarrow> 'a \<Rightarrow> competitor list \<Rightarrow> 'a \<times> 'a" where
  "home_away f z cs = foldl (\<lambda>(h, a) c. if cp_HomeAway c = ''home'' then (f c, a) else (h, f c)) (z, z) cs"

definition espn_teams_ok :: "ESPNGame \<Rightarrow> bool" where
  "espn_teams_ok g \<longleftrightarrow> \<not> (es_Competitions g = [] \<or> length (hd (es_Competitions g)) < 2)"

definition espn_scores :: "ESPNGame \<Rightarrow> int \<times> int" where
  "espn_scores g = home_away (\<lambda>c. atoi_value (cp_Score c)) 0 (hd (es_Competitions g))"

definition fetchURL :: "http_result \<Rightarrow> ESPNGame list option" where
  "fetchURL resp =
     Option.bind (http_ok resp) (\<lambda>body.
     Option.bind (dec_object body) (\<lambda>kvs.
     decode_field (dec_slice (dec_struct decode_ESPNGame) zero_ESPNGame) ''events'' [] kvs))"

definition nhlTeamName :: "string \<Rightarrow> string \<Rightarrow> string" where
  "nhlTeamName location displayName =
     (if location \<noteq> [] \<and> strings_HasPrefix displayName (location @ '' '') then drop (length location + 1) displayName
      else displayName)"

definition ncaabTeamName :: "string \<Rightarrow> string \<Rightarrow> string" where
  "ncaabTeamName location displayName =
     (if location \<noteq> [] then location
      else let idx = strings_LastIndex displayName '' '' in if 0 < idx then take (nat idx) displayName else displayName)"

definition gameDedupeKey :: "ESPNGame \<Rightarrow> string" where
  "gameDedupeKey g =
     (if \<not> espn_teams_ok g then []
      else case home_away cp_DisplayName [] (hd (es_Competitions g)) of (home, away) \<Rightarrow> away @ ''@'' @ home)"

text \<open>The seen set is a list of keys; the games of a URL that fails are skipped.\<close>

definition add_game :: "ESPNGame list \<times> string list \<Rightarrow> ESPNGame \<Rightarrow> ESPNGame list \<times> string list" where
  "add_game acc g =
     (case acc of (all, seen) \<Rightarrow>
        let key = gameDedupeKey g in if key \<in> set seen then (all, seen) else (all @ [g], key # seen))"

definition ncaab_fetchScoreboard :: "http_result list \<Rightarrow> ESPNGame list option" where
  "ncaab_fetchScoreboard resps =
     (case foldl (\<lambda>acc resp. case fetchURL resp of None \<Rightarrow> acc | Some games \<Rightarrow> foldl add_game acc games) ([], []) resps of
        (all, seen) \<Rightarrow> if all = [] \<and> seen = [] then None else Some all)"

definition espn_game_event :: "string \<Rightarrow> (string \<Rightarrow> string \<Rightarrow> string) \<Rightarrow> (ESPNGame \<Rightarrow> string list) \<Rightarrow> EventMatcher \<Rightarrow>
    time \<Rightarrow> ESPNGame \<Rightarrow> RawProviderEvent option" where
  "espn_game_event provider teamName ord m now game =
     (if es_State game = ''pre'' then None
      else if \<not> espn_teams_ok game then None
      else case home_away (\<lambda>c. teamName (cp_Location c) (cp_DisplayName c)) [] (hd (es_Competitions game)) of
        (homeTeam, awayTeam) \<Rightarrow>
          (case FindByTeams (ord game) homeTeam awayTeam m of
             (eventID, ok) \<Rightarrow>
               if \<not> ok then None
               else map_option (\<lambda>data. \<lparr>rp_ProviderID = provider, rp_Data = Some data, rp_ReceivedAt = now\<rparr>)
                      (marshal_ESPNScoreRaw \<lparr>er_EventID = eventID, er_Game = game\<rparr>)))"

definition ncaab_poll :: "(ESPNGame \<Rightarrow> string list) \<Rightarrow> (ESPNGame \<Rightarrow> EventMatcher) \<Rightarrow> time \<Rightarrow> http_result list \<Rightarrow> nat \<Rightarrow> RawProviderEvent list" where
  "ncaab_poll ord m now resps n =
     (case ncaab_fetchScoreboard resps of None \<Rightarrow> []
      | Some games \<Rightarrow> take n (List.map_filter (\<lambda>g. espn_game_event ''ncaab-scores'' ncaabTeamName ord (m g) now g) games))"

definition nhl_poll :: "(ESPNGame \<Rightarrow> string list) \<Rightarrow> (ESPNGame \<Rightarrow> EventMatcher) \<Rightarrow> time \<Rightarrow> http_result \<Rightarrow> nat \<Rightarrow> RawProviderEvent list" where
  "nhl_poll ord m now resp n =
     (case fetchURL resp of None \<Rightarrow> []
      | Some games \<Rightarrow> take n (List.map_filter (\<lambda>g. espn_game_event ''nhl-scores'' nhlTeamName ord (m g) now g) games))"

definition formatNHLPeriod :: "ESPNGame \<Rightarrow> string" where
  "formatNHLPeriod game =
     (let period = es_Period game
      in if es_Completed game
         then if period = 4 then ''FINAL/OT'' else if period = 5 then ''FINAL/SO'' else ''FINAL''
         else if period = 1 then ''P1'' else if period = 2 then ''P2'' else if period = 3 then ''P3''
         else if period = 4 then ''OT'' else ''SO'')"

definition formatNHLClock :: "ESPNGame \<Rightarrow> string" where
  "formatNHLClock game = (if es_Completed game then [] else es_DisplayClock game)"

definition formatNCAABPeriod :: "ESPNGame \<Rightarrow> string" where
  "formatNCAABPeriod game =
     (let period = es_Period game
      in if es_Completed game
         then if 2 < period then ''FINAL/OT'' @ itoa (wrap64 (period - 2)) else ''FINAL''
         else if period = 1 then ''1H'' else if period = 2 then ''2H'' else ''OT'' @ itoa (wrap64 (period - 2)))"

definition formatNCAABClock :: "ESPNGame \<Rightarrow> string" where
  "formatNCAABClock game = (if es_Completed game then [] else es_DisplayClock game)"

definition espn_normalise :: "string \<Rightarrow> (ESPNGame \<Rightarrow> string) \<Rightarrow> (ESPNGame \<Rightarrow> string) \<Rightarrow> normaliser" where
  "espn_normalise provider period clock now raw =
     (case decode_ESPNScoreRaw (rp_Data raw) of
        None \<Rightarrow> None
      | Some r \<Rightarrow>
          if \<not> espn_teams_ok (er_Game r) then None
          else case espn_scores (er_Game r) of (homeScore, awayScore) \<Rightarrow>
            Some [zero_event\<lparr>ne_EventType := ''game.state'', ne_ProviderID := provider, ne_EventID := er_EventID r,
              ne_EventStatus := (if es_Completed (er_Game r) then ''FINISHED'' else ''LIVE''),
              ne_HomeScore := homeScore, ne_AwayScore := awayScore,
              ne_GamePeriod := period (er_Game r), ne_GameClock := clock (er_Game r)\<rparr>])"

definition NHLScoreNormaliser :: normaliser where
  "NHLScoreNormaliser = espn_normalise ''nhl-scores'' formatNHLPeriod formatNHLClock"

definition NCAABScoreNormaliser :: normaliser where
  "NCAABScoreNormaliser = espn_normalise ''ncaab-scores'' formatNCAABPeriod formatNCAABClock"

section \<open>Polymarket scores\<close>

record SportResult =
  sr_GameID :: int
  sr_League :: string
  sr_Slug :: string
  sr_HomeTeam :: string
  sr_AwayTeam :: string
  sr_Status :: string
  sr_Score :: string
  sr_Period :: string
  sr_Elapsed :: string
  sr_Live :: bool
  sr_Ended :: bool

record PolymarketScoreRaw =
  ps_EventID :: string
  ps_Result :: SportResult

definition supportedLeagues :: "string list" where
  "supportedLeagues = [''nba'', ''cbb'', ''nhl'']"

definition zero_SportResult :: SportResult where
  "zero_SportResult = \<lparr>sr_GameID = 0, sr_League = [], sr_Slug = [], sr_HomeTeam = [], sr_AwayTeam = [], sr_Status = [],
     sr_Score = [], sr_Period = [], sr_Elapsed = [], sr_Live = False, sr_Ended = False\<rparr>"

definition decode_SportResult :: "(string \<times> json) list \<Rightarrow> SportResult option" where
  "decode_SportResult kvs =
     Option.bind (decode_field dec_int64 ''gameId'' 0 kvs) (\<lambda>g.
     Option.bind (decode_field dec_string ''leagueAbbreviation'' [] kvs) (\<lambda>l.
     Option.bind (decode_field dec_string ''slug'' [] kvs) (\<lambda>sl.
     Option.bind (decode_field dec_string ''homeTeam'' [] kvs) (\<lambda>h.
     Option.bind (decode_field dec_string ''awayTeam'' [] kvs) (\<lambda>a.
     Option.bind (decode_field dec_string ''status'' [] kvs) (\<lambda>st.
     Option.bind (decode_field dec_string ''score'' [] kvs) (\<lambda>sc.
     Option.bind (decode_field dec_string ''period'' [] kvs) (\<lambda>p.
     Option.bind (decode_field dec_string ''elapsed'' [] kvs) (\<lambda>el.
     Option.bind (decode_field dec_bool ''live'' False kvs) (\<lambda>li.
     Option.bind (decode_field dec_bool ''ended'' False kvs) (\<lambda>en.
     Some \<lparr>sr_GameID = g, sr_League = l, sr_Slug = sl, sr_HomeTeam = h, sr_AwayTeam = a, sr_Status = st, sr_Score = sc,
       sr_Period = p, sr_Elapsed = el, sr_Live = li, sr_Ended = en\<rparr>)))))))))))"

definition SportResult_fields :: "SportResult \<Rightarrow> struct_field list" where
  "SportResult_fields r =
     [int_field ''gameId'' (sr_GameID r), str_field ''leagueAbbreviation'' (sr_League r), str_field ''slug'' (sr_Slug r),
      str_field ''homeTeam'' (sr_HomeTeam r), str_field ''awayTeam'' (sr_AwayTeam r), str_field ''status'' (sr_Status r),
      str_field ''score'' (sr_Score r), str_field ''period'' (sr_Period r), str_field ''elapsed'' (sr_Elapsed r),
      bool_field ''live'' (sr_Live r), bool_field ''ended'' (sr_Ended r)]"

definition marshal_PolymarketScoreRaw :: "PolymarketScoreRaw \<Rightarrow> json option" where
  "marshal_PolymarketScoreRaw r =
     marshal_struct [str_field ''event_id'' (ps_EventID r), val_field ''result'' (marshal_struct (SportResult_fields (ps_Result r)))]"

definition decode_PolymarketScoreRaw :: "payload \<Rightarrow> PolymarketScoreRaw option" where
  "decode_PolymarketScoreRaw p =
     Option.bind (dec_object p) (\<lambda>kvs.
     Option.bind (decode_field dec_string ''event_id'' [] kvs) (\<lambda>e.
     Option.bind (decode_field (dec_struct decode_SportResult) ''result'' zero_SportResult kvs) (\<lambda>r.
     Some \<lparr>ps_EventID = e, ps_Result = r\<rparr>)))"

text \<open>A text message of a socket: its bytes, and what they are as JSON.\<close>

record ws_message =
  ws_text :: string
  ws_json :: payload

text \<open>A buffered channel is the list of what it holds; a send with a default case drops the value
  when the buffer is full.\<close>

definition try_send :: "nat \<Rightarrow> 'a \<Rightarrow> 'a list \<Rightarrow> 'a list" where
  "try_send cap x ch = (if length ch < cap then ch @ [x] else ch)"

record score_socket =
  ss_ch :: "RawProviderEvent list"
  ss_pongs :: nat

definition score_handleMessage ::
    "string list \<Rightarrow> EventMatcher \<Rightarrow> time \<Rightarrow> bool \<Rightarrow> ws_message \<Rightarrow> score_socket \<Rightarrow> score_socket" where
  "score_handleMessage order m now pong_fails msg st =
     (if ws_text msg = ''ping'' then (if pong_fails then st else st\<lparr>ss_pongs := ss_pongs st + 1\<rparr>)
      else case Option.bind (dec_object (ws_json msg)) decode_SportResult of
        None \<Rightarrow> st
      | Some result \<Rightarrow>
          if sr_League result \<notin> set supportedLeagues then st
          else case FindByTeams order (sr_HomeTeam result) (sr_AwayTeam result) m of
            (eventID, ok) \<Rightarrow>
              if \<not> ok then st
              else case marshal_PolymarketScoreRaw \<lparr>ps_EventID = eventID, ps_Result = result\<rparr> of
                None \<Rightarrow> st
              | Some data \<Rightarrow>
                  st\<lparr>ss_ch := try_send 64 \<lparr>rp_ProviderID = ''polymarket-scores'', rp_Data = Some data, rp_ReceivedAt = now\<rparr> (ss_ch st)\<rparr>)"

definition parseScore :: "string \<Rightarrow> int \<times> int" where
  "parseScore s =
     (case strings_SplitN2 s ''-'' of
        [home, away] \<Rightarrow> (atoi_value (strings_TrimSpace home), atoi_value (strings_TrimSpace away))
      | _ \<Rightarrow> (0, 0))"

definition PolymarketScoreNormaliser :: normaliser where
  "PolymarketScoreNormaliser now raw =
     (case decode_PolymarketScoreRaw (rp_Data raw) of
        None \<Rightarrow> None
      | Some r \<Rightarrow>
          (case parseScore (sr_Score (ps_Result r)) of (homeScore, awayScore) \<Rightarrow>
            Some [zero_event\<lparr>ne_EventType := ''game.state'', ne_ProviderID := ''polymarket-scores'', ne_EventID := ps_EventID r,
              ne_EventStatus := (if sr_Ended (ps_Result r) then ''FINISHED''
                                 else if \<not> sr_Live (ps_Result r) then ''SCHEDULED'' else ''LIVE''),
              ne_HomeScore := homeScore, ne_AwayScore := awayScore,
              ne_GamePeriod := sr_Period (ps_Result r), ne_GameClock := sr_Elapsed (ps_Result r)\<rparr>]))"

section \<open>Reconnecting\<close>

text \<open>The waits of the loop in \<^verbatim>\<open>run\<close>, which both socket feeds have: the backoff after \<open>k\<close> lost
  connections, whether or not a connection was established in between.\<close>

definition scoreMaxBackoff :: time where
  "scoreMaxBackoff = 60 * second"

definition next_backoff :: "time \<Rightarrow> time" where
  "next_backoff backoff = (let b = backoff * 2 in if scoreMaxBackoff < b then scoreMaxBackoff else b)"

primrec backoff_after :: "nat \<Rightarrow> time" where
  "backoff_after 0 = second"
| "backoff_after (Suc k) = next_backoff (backoff_after k)"

section \<open>What the normalisers promise\<close>

text \<open>A game.state event that the catalog can store: a status of the schema and no catalog fields.\<close>

definition game_state_ok :: "NormalisedMarketEvent \<Rightarrow> bool" where
  "game_state_ok e \<longleftrightarrow> ne_EventType e = ''game.state'' \<and>
     ne_EventStatus e \<in> {''SCHEDULED'', ''LIVE'', ''FINISHED''} \<and> in_int64 (ne_HomeScore e) \<and> in_int64 (ne_AwayScore e) \<and>
     ne_EventName e = [] \<and> ne_MarketName e = [] \<and> ne_MarketStatus e = [] \<and> ne_MarketType e = [] \<and> ne_FeedProbability e = Fin 0"

lemma atoi_value_range [simp]: "in_int64 (atoi_value s)"
  by (simp add: atoi_value_def in_int64_def split: option.splits)

lemma game_state_ok_published: "game_state_ok e \<Longrightarrow> game_state_ok (e\<lparr>ne_PublishedAt := t\<rparr>)"
  by (simp add: game_state_ok_def)

lemma home_away_inv: "(\<And>c. P (f c)) \<Longrightarrow> P z \<Longrightarrow> P (fst (home_away f z cs)) \<and> P (snd (home_away f z cs))"
proof (induction cs rule: rev_induct)
  case (snoc c cs)
  then show ?case by (auto simp: home_away_def split: prod.splits)
qed (simp add: home_away_def)

lemma dec_int64_in: "dec_int64 v = Some n \<Longrightarrow> in_int64 n"
  by (auto simp: dec_int64_def split: json.splits if_splits)

lemma decode_int64_in: "decode_field dec_int64 k d kvs = Some n \<Longrightarrow> in_int64 d \<Longrightarrow> in_int64 n"
  by (induction dec_int64 k d kvs rule: decode_field.induct) (auto split: if_splits option.splits dest: dec_int64_in)

lemma decode_field_inv:
  "decode_field dec k d kvs = Some x \<Longrightarrow> P d \<Longrightarrow> (\<And>v y. dec v = Some y \<Longrightarrow> P y) \<Longrightarrow> P x"
  by (induction dec k d kvs rule: decode_field.induct) (auto split: if_splits option.splits)

lemma decode_NBATeam_score: "decode_NBATeam kvs = Some t \<Longrightarrow> in_int64 (nt_Score t)"
  by (auto simp: decode_NBATeam_def bind_eq_Some_conv in_int64_def dest!: decode_int64_in)

lemma decode_team_field: "decode_field (dec_struct decode_NBATeam) k zero_NBATeam kvs = Some t \<Longrightarrow> in_int64 (nt_Score t)"
  by (erule decode_field_inv)
    (auto simp: zero_NBATeam_def in_int64_def dec_struct_def dest: decode_NBATeam_score split: json.splits)

lemma decode_NBAGame_scores:
  "decode_NBAGame kvs = Some g \<Longrightarrow> in_int64 (nt_Score (ng_HomeTeam g)) \<and> in_int64 (nt_Score (ng_AwayTeam g))"
  by (auto simp: decode_NBAGame_def bind_eq_Some_conv dest: decode_team_field)

lemma decode_game_field:
  "decode_field (dec_struct decode_NBAGame) k zero_NBAGame kvs = Some g \<Longrightarrow>
     in_int64 (nt_Score (ng_HomeTeam g)) \<and> in_int64 (nt_Score (ng_AwayTeam g))"
  by (erule decode_field_inv)
    (auto simp: zero_NBAGame_def zero_NBATeam_def in_int64_def dec_struct_def dest: decode_NBAGame_scores [unfolded in_int64_def]
      split: json.splits)

interpretation nba: normaliser_contract NBAScoreNormaliser game_state_ok
proof
  show "game_state_ok e" if "NBAScoreNormaliser now raw = Some es" "e \<in> set es" for now raw es e
    using that by (auto simp: NBAScoreNormaliser_def game_state_ok_def zero_event_def decode_NBAScoreRaw_def bind_eq_Some_conv
        split: option.splits dest: decode_game_field)
qed (rule game_state_ok_published)

lemma espn_contract: "normaliser_contract (espn_normalise provider period clock) game_state_ok"
proof
  show "game_state_ok e" if "espn_normalise provider period clock now raw = Some es" "e \<in> set es" for now raw es e
  proof -
    have "in_int64 (fst (espn_scores g)) \<and> in_int64 (snd (espn_scores g))" for g
      unfolding espn_scores_def by (rule home_away_inv) (simp_all add: in_int64_def [of 0])
    then show ?thesis
      using that by (auto simp: espn_normalise_def game_state_ok_def zero_event_def split: option.splits if_splits prod.splits)
        (metis fst_conv snd_conv)+
  qed
qed (rule game_state_ok_published)

interpretation nhl: normaliser_contract NHLScoreNormaliser game_state_ok
  unfolding NHLScoreNormaliser_def by (rule espn_contract)

interpretation ncaab: normaliser_contract NCAABScoreNormaliser game_state_ok
  unfolding NCAABScoreNormaliser_def by (rule espn_contract)

interpretation pm_scores: normaliser_contract PolymarketScoreNormaliser game_state_ok
proof
  show "game_state_ok e" if "PolymarketScoreNormaliser now raw = Some es" "e \<in> set es" for now raw es e
  proof -
    have "in_int64 (fst (parseScore s)) \<and> in_int64 (snd (parseScore s))" for s
      by (simp add: parseScore_def in_int64_def [of 0] split: list.splits)
    then show ?thesis
      using that by (auto simp: PolymarketScoreNormaliser_def game_state_ok_def zero_event_def split: option.splits if_splits prod.splits)
        (metis fst_conv snd_conv)+
  qed
qed (rule game_state_ok_published)

section \<open>From the scoreboard to the canonical event\<close>

lemma NBATeam_roundtrip:
  assumes "in_int64 (nt_Score t)"
  shows "\<exists>j. marshal_struct (NBATeam_fields t) = Some j \<and> j \<noteq> JNull \<and> dec_struct decode_NBATeam j = Some t"
proof -
  obtain kvs where kvs: "marshal_fields (NBATeam_fields t) = Some kvs"
    by (auto simp: NBATeam_fields_def field_defs)
  have d: "distinct (map (strings_ToLower \<circ> fst) (NBATeam_fields t))"
    by (simp add: NBATeam_fields_def field_defs strings_ToLower_def lower_char_def)
  note rt = decode_marshalled [OF kvs d] decode_field_of [OF kvs d]
  have "decode_field dec_string ''teamTricode'' [] kvs = Some (TeamTricode t)"
    "decode_field dec_string ''teamName'' [] kvs = Some (TeamName t)" "decode_field dec_int64 ''score'' 0 kvs = Some (nt_Score t)"
    using assms by (simp_all add: rt NBATeam_fields_def)
  then have "decode_NBATeam kvs = Some t" by (simp add: decode_NBATeam_def)
  then show ?thesis by (simp add: marshal_struct_def kvs dec_struct_def)
qed

definition nba_game_ok :: "NBAGame \<Rightarrow> bool" where
  "nba_game_ok g \<longleftrightarrow> in_int64 (GameStatus g) \<and> in_int64 (ng_Period g) \<and> in_int64 (nt_Score (ng_HomeTeam g)) \<and>
     in_int64 (nt_Score (ng_AwayTeam g))"

lemma NBAGame_roundtrip:
  assumes "nba_game_ok g"
  shows "\<exists>j. marshal_struct (NBAGame_fields g) = Some j \<and> j \<noteq> JNull \<and> dec_struct decode_NBAGame j = Some g"
proof -
  obtain h where h: "marshal_struct (NBATeam_fields (ng_HomeTeam g)) = Some h" "h \<noteq> JNull"
    "dec_struct decode_NBATeam h = Some (ng_HomeTeam g)"
    using NBATeam_roundtrip [of "ng_HomeTeam g"] assms by (auto simp: nba_game_ok_def)
  obtain a where a: "marshal_struct (NBATeam_fields (ng_AwayTeam g)) = Some a" "a \<noteq> JNull"
    "dec_struct decode_NBATeam a = Some (ng_AwayTeam g)"
    using NBATeam_roundtrip [of "ng_AwayTeam g"] assms by (auto simp: nba_game_ok_def)
  obtain kvs where kvs: "marshal_fields (NBAGame_fields g) = Some kvs"
    by (auto simp: NBAGame_fields_def field_defs h a)
  have d: "distinct (map (strings_ToLower \<circ> fst) (NBAGame_fields g))"
    by (simp add: NBAGame_fields_def field_defs strings_ToLower_def lower_char_def)
  note rt = decode_marshalled [OF kvs d] decode_field_of [OF kvs d]
  have "decode_field dec_int64 ''gameStatus'' 0 kvs = Some (GameStatus g)"
    "decode_field dec_string ''gameStatusText'' [] kvs = Some (GameStatusText g)"
    "decode_field dec_int64 ''period'' 0 kvs = Some (ng_Period g)"
    "decode_field dec_string ''gameClock'' [] kvs = Some (ng_GameClock g)"
    using assms by (simp_all add: rt(1-7) NBAGame_fields_def nba_game_ok_def)
  moreover have "decode_field (dec_struct decode_NBATeam) ''homeTeam'' zero_NBATeam kvs = Some (ng_HomeTeam g)"
    by (rule rt(8) [of _ h]) (simp_all add: NBAGame_fields_def h)
  moreover have "decode_field (dec_struct decode_NBATeam) ''awayTeam'' zero_NBATeam kvs = Some (ng_AwayTeam g)"
    by (rule rt(8) [of _ a]) (simp_all add: NBAGame_fields_def a)
  ultimately have "decode_NBAGame kvs = Some g" by (simp add: decode_NBAGame_def)
  then show ?thesis by (simp add: marshal_struct_def kvs dec_struct_def)
qed

lemma NBAScoreRaw_roundtrip:
  assumes "nba_game_ok (nr_Game r)"
  shows "\<exists>j. marshal_NBAScoreRaw r = Some j \<and> decode_NBAScoreRaw (Some j) = Some r"
proof -
  obtain j where j: "marshal_struct (NBAGame_fields (nr_Game r)) = Some j" "j \<noteq> JNull"
    "dec_struct decode_NBAGame j = Some (nr_Game r)"
    using NBAGame_roundtrip [OF assms] by blast
  define fs where "fs = [str_field ''event_id'' (nr_EventID r), val_field ''game'' (Some j)]"
  obtain kvs where kvs: "marshal_fields fs = Some kvs" by (auto simp: fs_def field_defs)
  have d: "distinct (map (strings_ToLower \<circ> fst) fs)"
    by (simp add: fs_def field_defs strings_ToLower_def lower_char_def)
  note rt = decode_marshalled [OF kvs d] decode_field_of [OF kvs d]
  have "decode_field dec_string ''event_id'' [] kvs = Some (nr_EventID r)" by (simp_all add: rt(1) fs_def)
  moreover have "decode_field (dec_struct decode_NBAGame) ''game'' zero_NBAGame kvs = Some (nr_Game r)"
    by (rule rt(8) [of _ j]) (simp_all add: fs_def j)
  ultimately have "decode_NBAScoreRaw (Some (JObj kvs)) = Some r"
    by (simp add: decode_NBAScoreRaw_def dec_object_def)
  moreover have "marshal_NBAScoreRaw r = Some (JObj kvs)"
    using kvs unfolding marshal_NBAScoreRaw_def j(1) fs_def by (simp add: marshal_struct_def)
  ultimately show ?thesis by blast
qed

lemma decode_slice_inv:
  assumes "dec_slice dec z v = Some xs" "P z" "\<And>v x. dec v = Some x \<Longrightarrow> P x"
  shows "\<forall>x \<in> set xs. P x"
proof -
  have "dec_list (\<lambda>v. if v = JNull then Some z else dec v) vs = Some ys \<Longrightarrow> \<forall>x \<in> set ys. P x" for vs ys
    by (induction vs arbitrary: ys) (auto split: option.splits if_splits intro: assms(2,3))
  then show ?thesis using assms(1) by (auto simp: dec_slice_def split: json.splits)
qed

lemma decode_NBAGame_ok: "decode_NBAGame kvs = Some g \<Longrightarrow> nba_game_ok g"
  using decode_NBAGame_scores [of kvs g]
  by (auto simp: nba_game_ok_def decode_NBAGame_def bind_eq_Some_conv in_int64_def [of 0] dest!: decode_int64_in)

lemma nba_fetch_ok:
  assumes "nba_fetchScoreboard resp = Some games"
  shows "\<forall>g \<in> set games. nba_game_ok g"
proof -
  have z: "nba_game_ok zero_NBAGame" by (simp add: nba_game_ok_def zero_NBAGame_def zero_NBATeam_def in_int64_def)
  have sl: "\<forall>g \<in> set gs. nba_game_ok g" if "dec_slice (dec_struct decode_NBAGame) zero_NBAGame v = Some gs" for v gs
    using that z by (rule decode_slice_inv) (auto simp: dec_struct_def split: json.splits intro: decode_NBAGame_ok)
  have "\<forall>g \<in> set gs. nba_game_ok g"
    if "decode_field (dec_slice (dec_struct decode_NBAGame) zero_NBAGame) ''games'' [] sb = Some gs" for sb gs
    using that by (rule decode_field_inv) (auto dest: sl)
  note st = this
  obtain kvs where "decode_field (dec_struct (\<lambda>sb. decode_field (dec_slice (dec_struct decode_NBAGame) zero_NBAGame) ''games'' [] sb))
      ''scoreboard'' [] kvs = Some games"
    using assms by (auto simp: nba_fetchScoreboard_def bind_eq_Some_conv)
  then show ?thesis
    by (rule decode_field_inv) (auto simp: dec_struct_def split: json.splits dest: st)
qed

text \<open>C12. A live score reaches the right event: every raw event of an NBA poll normalises to one
  game.state event whose scores, period and clock are those of a started game of the scoreboard and
  whose event is registered, when the game is looked up, under a name with both of its teams, and every such event is admissible
  to the catalog.\<close>

theorem nba_poll_normalises:
  assumes "\<And>g. matcher_inv (m g)" "\<And>g. set (ord g) = dom (em_events (m g))" "raw \<in> set (nba_poll ord m now resp n)"
  shows "\<exists>games g entry e. nba_fetchScoreboard resp = Some games \<and> g \<in> set games \<and> GameStatus g \<noteq> 1 \<and>
    em_events (m g) (ne_EventID e) = Some entry \<and> both_teams (TeamName (ng_HomeTeam g)) (TeamName (ng_AwayTeam g)) entry \<and>
    NBAScoreNormaliser now' raw = Some [e] \<and> ne_HomeScore e = nt_Score (ng_HomeTeam g) \<and>
    ne_AwayScore e = nt_Score (ng_AwayTeam g) \<and> ne_EventStatus e = (if GameStatus g = 3 then ''FINISHED'' else ''LIVE'') \<and>
    ne_GamePeriod e = formatPeriod g \<and> ne_GameClock e = formatClock g \<and> game_state_ok e"
proof -
  obtain games where games: "nba_fetchScoreboard resp = Some games"
    using assms(3) by (cases "nba_fetchScoreboard resp") (auto simp: nba_poll_def)
  then obtain g where g: "nba_fetchScoreboard resp = Some games" "g \<in> set games" "nba_game_event ord (m g) now g = Some raw"
    using assms(3) by (auto simp: nba_poll_def map_filter_def dest!: in_set_takeD)
  obtain i where i: "GameStatus g \<noteq> 1" "FindByTeams (ord g) (TeamName (ng_HomeTeam g)) (TeamName (ng_AwayTeam g)) (m g) = (i, True)"
    and raw: "\<exists>j. marshal_NBAScoreRaw \<lparr>nr_EventID = i, nr_Game = g\<rparr> = Some j \<and> rp_Data raw = Some j"
    using g(3) by (auto simp: nba_game_event_def split: if_splits prod.splits)
  obtain entry where entry: "em_events (m g) i = Some entry" "both_teams (TeamName (ng_HomeTeam g)) (TeamName (ng_AwayTeam g)) entry"
    using FindByTeams_result [OF assms(1,2) i(2)] by blast
  have "nba_game_ok g" using nba_fetch_ok [OF g(1)] g(2) by blast
  then have "decode_NBAScoreRaw (rp_Data raw) = Some \<lparr>nr_EventID = i, nr_Game = g\<rparr>"
    using NBAScoreRaw_roundtrip [of "\<lparr>nr_EventID = i, nr_Game = g\<rparr>"] raw by auto
  then obtain e where e: "NBAScoreNormaliser now' raw = Some [e]" "ne_EventID e = i" "ne_HomeScore e = nt_Score (ng_HomeTeam g)"
    "ne_AwayScore e = nt_Score (ng_AwayTeam g)" "ne_EventStatus e = (if GameStatus g = 3 then ''FINISHED'' else ''LIVE'')"
    "ne_GamePeriod e = formatPeriod g" "ne_GameClock e = formatClock g"
    by (simp add: NBAScoreNormaliser_def)
  moreover have "game_state_ok e" using nba.norm_good [OF e(1)] by simp
  ultimately show ?thesis using g(1,2) i(1) entry by blast
qed

section \<open>Deduplication across the scoreboards\<close>

definition seen_inv :: "ESPNGame list \<Rightarrow> ESPNGame list \<times> string list \<Rightarrow> bool" where
  "seen_inv fetched acc \<longleftrightarrow> distinct (map gameDedupeKey (fst acc)) \<and> set (snd acc) = gameDedupeKey ` set (fst acc) \<and>
     set (fst acc) \<subseteq> set fetched \<and> gameDedupeKey ` set fetched = gameDedupeKey ` set (fst acc)"

lemma add_game_inv: "seen_inv fetched acc \<Longrightarrow> seen_inv (fetched @ [g]) (add_game acc g)"
  by (cases acc) (auto simp: seen_inv_def add_game_def Let_def)

lemma add_games_inv: "seen_inv fetched acc \<Longrightarrow> seen_inv (fetched @ gs) (foldl add_game acc gs)"
proof (induction gs arbitrary: fetched acc)
  case (Cons g gs)
  then show ?case using Cons.IH [OF add_game_inv [OF Cons.prems, of g]] by simp
qed simp

definition fetched_games :: "http_result list \<Rightarrow> ESPNGame list" where
  "fetched_games resps = concat (List.map_filter fetchURL resps)"

lemma fetch_all_inv:
  "seen_inv fetched acc \<Longrightarrow> seen_inv (fetched @ fetched_games resps)
     (foldl (\<lambda>acc resp. case fetchURL resp of None \<Rightarrow> acc | Some games \<Rightarrow> foldl add_game acc games) acc resps)"
proof (induction resps arbitrary: fetched acc)
  case (Cons r rs)
  show ?case
  proof (cases "fetchURL r")
    case (Some gs)
    then show ?thesis using Cons.IH [OF add_games_inv [OF Cons.prems, of gs]] by (simp add: fetched_games_def map_filter_simps)
  qed (use Cons in \<open>simp add: fetched_games_def map_filter_simps\<close>)
qed (simp add: fetched_games_def map_filter_simps)

text \<open>The college scoreboards are merged without duplicates and without loss: the games that
  fetchScoreboard returns come from the responses that succeeded, no two of them have the same pair
  of teams, and every fetched game is represented by one with its pair of teams; it fails exactly
  when no response delivered a game, also when all of them succeeded.\<close>

theorem ncaab_fetch_dedupes:
  "case ncaab_fetchScoreboard resps of
     None \<Rightarrow> fetched_games resps = []
   | Some games \<Rightarrow> fetched_games resps \<noteq> [] \<and> set games \<subseteq> set (fetched_games resps) \<and>
       distinct (map gameDedupeKey games) \<and> gameDedupeKey ` set games = gameDedupeKey ` set (fetched_games resps)"
proof -
  have "seen_inv ([] @ fetched_games resps) (foldl (\<lambda>acc resp. case fetchURL resp of None \<Rightarrow> acc
      | Some games \<Rightarrow> foldl add_game acc games) ([], []) resps)"
    by (rule fetch_all_inv) (simp add: seen_inv_def)
  then show ?thesis
    by (auto simp: ncaab_fetchScoreboard_def seen_inv_def split: prod.splits)
qed

section \<open>Formats\<close>

lemma Index_char_absent: "c \<notin> set a \<Longrightarrow> strings_Index (a @ c # b) [c] = int (length a)"
  by (induction a) (auto simp: strings_HasPrefix_def Let_def)

lemma SplitN2_char: "c \<notin> set a \<Longrightarrow> strings_SplitN2 (a @ c # b) [c] = [a, b]"
  by (simp add: strings_SplitN2_def Index_char_absent)

lemma is_digit_not: "is_digit c \<Longrightarrow> c \<noteq> CHR ''-'' \<and> c \<noteq> CHR ''M'' \<and> c \<noteq> CHR ''.'' \<and> \<not> is_space c"
  by (auto simp: is_digit_def is_space_def Let_def)

lemma nat_digits_all: "c \<in> set (nat_digits n) \<Longrightarrow> is_digit c"
  using nat_digits_props(2) [of n] by (simp add: list_all_iff)

lemma TrimSpace_no_space: "(\<And>c. c \<in> set s \<Longrightarrow> \<not> is_space c) \<Longrightarrow> strings_TrimSpace s = s"
proof -
  assume a: "\<And>c. c \<in> set s \<Longrightarrow> \<not> is_space c"
  then have "dropWhile is_space t = t" if "set t \<subseteq> set s" for t
    using that by (cases t) auto
  then show ?thesis by (simp add: strings_TrimSpace_def)
qed

lemma itoa_no_space: "c \<in> set (itoa n) \<Longrightarrow> \<not> is_space c"
  using nat_digits_all is_digit_not by (fastforce simp: itoa_def is_space_def split: if_splits)

lemma atoi_value_itoa [simp]: "in_int64 n \<Longrightarrow> atoi_value (itoa n) = n"
  by (simp add: atoi_value_def in_int64_def)

text \<open>A score that is printed as home-away parses back: for scores of at least zero (and in fact
  any away score in range) parseScore inverts the format.\<close>

theorem parseScore_roundtrip:
  assumes "0 \<le> home" "in_int64 home" "in_int64 away"
  shows "parseScore (itoa home @ ''-'' @ itoa away) = (home, away)"
proof -
  have "CHR ''-'' \<notin> set (itoa home)"
    using assms(1) nat_digits_all is_digit_not by (fastforce simp: itoa_def)
  then have "strings_SplitN2 (itoa home @ ''-'' @ itoa away) ''-'' = [itoa home, itoa away]"
    by (simp add: SplitN2_char)
  then show ?thesis using assms(2,3) by (simp add: parseScore_def TrimSpace_no_space itoa_no_space)
qed

theorem parseScore_roundtrip_witness: "parseScore (itoa 3 @ ''-'' @ itoa 16) = (3, 16)"
  by (rule parseScore_roundtrip) (simp_all add: in_int64_def)

lemma backoff_after_eq: "backoff_after k = min (2 ^ k * second) (60 * second)"
  by (induction k) (auto simp: next_backoff_def scoreMaxBackoff_def Let_def second_def)

definition nba_body :: payload where
  "nba_body = Some (JObj [(''scoreboard'', JObj [(''games'', JArr [JObj
     [(''gameStatus'', JInt 2), (''period'', JInt 4), (''gameClock'', JStr ''PT05M04.00S''),
      (''homeTeam'', JObj [(''teamName'', JStr ''Celtics''), (''score'', JInt 99)]),
      (''awayTeam'', JObj [(''teamName'', JStr ''Cavaliers''), (''score'', JInt 97)])]])])])"

definition matcher0 :: EventMatcher where
  "matcher0 = matcher_Register ''g1'' ''Cavaliers @ Celtics'' NewEventMatcher"

lemma nba_poll0: "nba_poll (\<lambda>_. [''g1'']) (\<lambda>_. matcher0) 5 (HttpResponse 200 nba_body) 9 \<noteq> []"
  by code_simp

theorem nba_poll_normalises_witness:
  "\<exists>raw e. raw \<in> set (nba_poll (\<lambda>_. [''g1'']) (\<lambda>_. matcher0) 5 (HttpResponse 200 nba_body) 9) \<and>
     NBAScoreNormaliser 6 raw = Some [e] \<and> game_state_ok e"
proof -
  obtain raw where raw: "raw \<in> set (nba_poll (\<lambda>_. [''g1'']) (\<lambda>_. matcher0) 5 (HttpResponse 200 nba_body) 9)"
    using nba_poll0 by (meson list.set_sel(1))
  have "matcher_inv matcher0" "set [''g1''] = dom (em_events matcher0)"
    by (simp_all add: matcher0_def) (simp add: matcher_Register_def NewEventMatcher_def)
  then show ?thesis using nba_poll_normalises [OF _ _ raw, of 6] raw by blast
qed

end
