(* ===== verification/Polymarket.thy ===== *)
theory Polymarket
  imports ScoreFeeds
begin

text \<open>
  The Polymarket provider: \<^verbatim>\<open>src/internal/polymarket/client.go\<close> (the API types and the paged
  fetch), \<^verbatim>\<open>src/internal/marketdata/polymarket_normaliser.go\<close> and
  \<^verbatim>\<open>politics_normaliser.go\<close> (from an API event to catalog.upsert and price.update events),
  \<^verbatim>\<open>polymarket_feed.go\<close> (the poll that fills the matcher and the token registry),
  \<^verbatim>\<open>polymarket_price_feed.go\<close> and \<^verbatim>\<open>polymarket_ws_price_normaliser.go\<close> (the order-book
  socket). The fields outcomes, outcomePrices and clobTokenIds hold JSON text: \<open>json_text\<close>, the
  syntax of encoding/json, is a parameter. \<^verbatim>\<open>strconv.ParseFloat\<close> is given for decimal
  literals, inf and nan (hexadecimal literals are not modelled).
\<close>

section \<open>Library functions\<close>

definition parse_mantissa :: "string \<Rightarrow> string \<times> string \<times> string" where
  "parse_mantissa s =
     (let ds = takeWhile is_digit s; r = dropWhile is_digit s
      in case r of c # r' \<Rightarrow> if c = CHR ''.'' then (ds, takeWhile is_digit r', dropWhile is_digit r') else (ds, [], r)
         | [] \<Rightarrow> (ds, [], []))"

definition parse_exponent :: "string \<Rightarrow> int option" where
  "parse_exponent s =
     (case s of [] \<Rightarrow> Some 0 | c # cs \<Rightarrow> if c = CHR ''e'' \<or> c = CHR ''E'' then parse_signed cs else None)"

definition parse_decimal :: "bool \<Rightarrow> string \<Rightarrow> float64 option" where
  "parse_decimal neg s =
     (case parse_mantissa s of (a, b, r) \<Rightarrow>
        if a = [] \<and> b = [] then None
        else map_option (\<lambda>e. rnd neg ((if neg then - 1 else 1) * real (digits_val (a @ b)) * 10 powi (e - int (length b))))
               (parse_exponent r))"

definition is_inf_name :: "string \<Rightarrow> bool" where
  "is_inf_name s \<longleftrightarrow> strings_ToLower s \<in> {''inf'', ''infinity''}"

text \<open>The value that \<^verbatim>\<open>strconv.ParseFloat(s, 64)\<close> returns when its error is ignored.\<close>

definition ParseFloat_value :: "string \<Rightarrow> float64" where
  "ParseFloat_value s =
     (case s of
        [] \<Rightarrow> Fin 0
      | c # cs \<Rightarrow>
          if c = CHR ''-'' then (if is_inf_name cs then NegInf else case parse_decimal True cs of None \<Rightarrow> Fin 0 | Some x \<Rightarrow> x)
          else if c = CHR ''+'' then (if is_inf_name cs then PosInf else case parse_decimal False cs of None \<Rightarrow> Fin 0 | Some x \<Rightarrow> x)
          else if is_inf_name s then PosInf else if strings_ToLower s = ''nan'' then NaN
          else case parse_decimal False s of None \<Rightarrow> Fin 0 | Some x \<Rightarrow> x)"

text \<open>\<^verbatim>\<open>fmt.Sprintf("%.1f", x)\<close>.\<close>

definition fmt_1f :: "float64 \<Rightarrow> string" where
  "fmt_1f x =
     (case x of
        Fin r \<Rightarrow> (let n = nat (round_half_even (\<bar>r\<bar> * 10))
                  in (if r < 0 then ''-'' else []) @ nat_digits (n div 10) @ ''.'' @ [digit (n mod 10)])
      | NegZero \<Rightarrow> ''-0.0'' | PosInf \<Rightarrow> ''+Inf'' | NegInf \<Rightarrow> ''-Inf'' | NaN \<Rightarrow> ''NaN'')"

definition zone_hh :: "string \<Rightarrow> int option" where
  "zone_hh s =
     (case s of c # cs \<Rightarrow>
        if c = CHR ''+'' \<or> c = CHR ''-''
        then Option.bind (take_num 2 cs) (\<lambda>(h, r).
          if r = [] \<and> h \<le> 24 then Some ((if c = CHR ''-'' then - 1 else 1) * int (h * 3600)) else None)
        else None
      | [] \<Rightarrow> None)"

definition zone_hhmm :: "string \<Rightarrow> int option" where
  "zone_hhmm s = (if s = ''Z'' then None else take_zone s)"

definition zone_Z :: "string \<Rightarrow> int option" where
  "zone_Z s = (if s = ''Z'' then Some 0 else None)"

text \<open>\<^verbatim>\<open>time.Parse\<close> with a layout of date, separator, time and a zone.\<close>

definition time_Parse :: "char \<Rightarrow> (string \<Rightarrow> int option) \<Rightarrow> string \<Rightarrow> time option" where
  "time_Parse sep zone s =
     Option.bind (take_num 4 s) (\<lambda>(y, s).
     Option.bind (take_lit (CHR ''-'') s) (\<lambda>s.
     Option.bind (take_num 2 s) (\<lambda>(mo, s).
     Option.bind (take_lit (CHR ''-'') s) (\<lambda>s.
     Option.bind (take_num 2 s) (\<lambda>(d, s).
     Option.bind (take_lit sep s) (\<lambda>s.
     Option.bind (take_hour s) (\<lambda>(h, s).
     Option.bind (take_lit (CHR '':'') s) (\<lambda>s.
     Option.bind (take_num 2 s) (\<lambda>(mi, s).
     Option.bind (take_lit (CHR '':'') s) (\<lambda>s.
     Option.bind (take_num 2 s) (\<lambda>(sec, s).
     let (ns, s) = take_fraction s in
     Option.bind (zone s) (\<lambda>off.
     if 1 \<le> mo \<and> mo \<le> 12 \<and> 1 \<le> d \<and> d \<le> month_days (is_leap y) ! (mo - 1) \<and> h < 24 \<and> mi < 60 \<and> sec < 60
     then Some (((day_number y mo d - unix_epoch_days) * 86400 + int (h * 3600 + mi * 60 + sec) - off) * second + int ns)
     else None))))))))))))"

lemma time_Parse_rfc3339: "time_Parse (CHR ''T'') take_zone = parse_rfc3339"
  by (rule ext) (simp add: time_Parse_def parse_rfc3339_def)

fun first_some :: "('a \<Rightarrow> 'b option) list \<Rightarrow> 'a \<Rightarrow> 'b option" where
  "first_some [] x = None"
| "first_some (f # fs) x = (case f x of Some y \<Rightarrow> Some y | None \<Rightarrow> first_some fs x)"

section \<open>API types\<close>

record pm_Market =
  mk_ID :: string
  ConditionID :: string
  Question :: string
  mk_Slug :: string
  GroupItemTitle :: "string option"
  SportsMarketType :: string
  Line :: "float64 option"
  Outcomes :: string
  OutcomePrices :: string
  ClobTokenIDs :: string
  GameStartTime :: string
  EndDate :: string
  mk_Active :: bool
  mk_Closed :: bool

record pm_Event =
  ev_ID :: string
  ev_Slug :: string
  Title :: string
  ev_Active :: bool
  ev_Closed :: bool
  Markets :: "pm_Market list"

definition zero_Market :: pm_Market where
  "zero_Market = \<lparr>mk_ID = [], ConditionID = [], Question = [], mk_Slug = [], GroupItemTitle = None, SportsMarketType = [],
     Line = None, Outcomes = [], OutcomePrices = [], ClobTokenIDs = [], GameStartTime = [], EndDate = [],
     mk_Active = False, mk_Closed = False\<rparr>"

definition zero_Event :: pm_Event where
  "zero_Event = \<lparr>ev_ID = [], ev_Slug = [], Title = [], ev_Active = False, ev_Closed = False, Markets = []\<rparr>"

text \<open>A pointer field: null sets it to nil.\<close>

fun decode_ptr :: "(json \<Rightarrow> 'a option) \<Rightarrow> string \<Rightarrow> 'a option \<Rightarrow> (string \<times> json) list \<Rightarrow> 'a option option" where
  "decode_ptr dec n d [] = Some d"
| "decode_ptr dec n d ((k, v) # kvs) =
     (if fold_eq k n
      then if v = JNull then decode_ptr dec n None kvs
           else case dec v of None \<Rightarrow> None | Some x \<Rightarrow> decode_ptr dec n (Some x) kvs
      else decode_ptr dec n d kvs)"

definition decode_Market :: "(string \<times> json) list \<Rightarrow> pm_Market option" where
  "decode_Market kvs =
     Option.bind (decode_field dec_string ''id'' [] kvs) (\<lambda>i.
     Option.bind (decode_field dec_string ''conditionId'' [] kvs) (\<lambda>c.
     Option.bind (decode_field dec_string ''question'' [] kvs) (\<lambda>q.
     Option.bind (decode_field dec_string ''slug'' [] kvs) (\<lambda>sl.
     Option.bind (decode_ptr dec_string ''groupItemTitle'' None kvs) (\<lambda>g.
     Option.bind (decode_field dec_string ''sportsMarketType'' [] kvs) (\<lambda>ty.
     Option.bind (decode_ptr dec_float64 ''line'' None kvs) (\<lambda>l.
     Option.bind (decode_field dec_string ''outcomes'' [] kvs) (\<lambda>ou.
     Option.bind (decode_field dec_string ''outcomePrices'' [] kvs) (\<lambda>pr.
     Option.bind (decode_field dec_string ''clobTokenIds'' [] kvs) (\<lambda>tk.
     Option.bind (decode_field dec_string ''gameStartTime'' [] kvs) (\<lambda>gs.
     Option.bind (decode_field dec_string ''endDate'' [] kvs) (\<lambda>ed.
     Option.bind (decode_field dec_bool ''active'' False kvs) (\<lambda>ac.
     Option.bind (decode_field dec_bool ''closed'' False kvs) (\<lambda>cl.
     Some \<lparr>mk_ID = i, ConditionID = c, Question = q, mk_Slug = sl, GroupItemTitle = g, SportsMarketType = ty, Line = l,
       Outcomes = ou, OutcomePrices = pr, ClobTokenIDs = tk, GameStartTime = gs, EndDate = ed, mk_Active = ac,
       mk_Closed = cl\<rparr>))))))))))))))"

definition decode_Event :: "(string \<times> json) list \<Rightarrow> pm_Event option" where
  "decode_Event kvs =
     Option.bind (decode_field dec_string ''id'' [] kvs) (\<lambda>i.
     Option.bind (decode_field dec_string ''slug'' [] kvs) (\<lambda>sl.
     Option.bind (decode_field dec_string ''title'' [] kvs) (\<lambda>t.
     Option.bind (decode_field dec_bool ''active'' False kvs) (\<lambda>ac.
     Option.bind (decode_field dec_bool ''closed'' False kvs) (\<lambda>cl.
     Option.bind (decode_field (dec_slice (dec_struct decode_Market) zero_Market) ''markets'' [] kvs) (\<lambda>ms.
     Some \<lparr>ev_ID = i, ev_Slug = sl, Title = t, ev_Active = ac, ev_Closed = cl, Markets = ms\<rparr>))))))"

definition ptr_field :: "string \<Rightarrow> ('a \<Rightarrow> json option) \<Rightarrow> 'a option \<Rightarrow> struct_field" where
  "ptr_field k enc p = (k, False, case p of None \<Rightarrow> Some JNull | Some x \<Rightarrow> enc x)"

definition Market_fields :: "pm_Market \<Rightarrow> struct_field list" where
  "Market_fields m =
     [str_field ''id'' (mk_ID m), str_field ''conditionId'' (ConditionID m), str_field ''question'' (Question m),
      str_field ''slug'' (mk_Slug m), ptr_field ''groupItemTitle'' (\<lambda>s. Some (JStr s)) (GroupItemTitle m),
      str_field ''sportsMarketType'' (SportsMarketType m), ptr_field ''line'' enc_float64 (Line m),
      str_field ''outcomes'' (Outcomes m), str_field ''outcomePrices'' (OutcomePrices m),
      str_field ''clobTokenIds'' (ClobTokenIDs m), str_field ''gameStartTime'' (GameStartTime m),
      str_field ''endDate'' (EndDate m), bool_field ''active'' (mk_Active m), bool_field ''closed'' (mk_Closed m)]"

definition marshal_Event :: "pm_Event \<Rightarrow> json option" where
  "marshal_Event e =
     marshal_struct [str_field ''id'' (ev_ID e), str_field ''slug'' (ev_Slug e), str_field ''title'' (Title e),
       bool_field ''active'' (ev_Active e), bool_field ''closed'' (ev_Closed e),
       val_field ''markets'' (marshal_slice (\<lambda>m. marshal_struct (Market_fields m)) (Markets e))]"

text \<open>Decoding JSON text into a slice of strings.\<close>

definition unmarshal_strings :: "(string \<Rightarrow> payload) \<Rightarrow> string \<Rightarrow> string list option" where
  "unmarshal_strings json_text s =
     (case json_text s of None \<Rightarrow> None | Some JNull \<Rightarrow> Some [] | Some v \<Rightarrow> dec_slice dec_string [] v)"

definition ParseOutcomes :: "(string \<Rightarrow> payload) \<Rightarrow> pm_Market \<Rightarrow> string list option" where
  "ParseOutcomes json_text m = unmarshal_strings json_text (Outcomes m)"

definition ParseClobTokenIDs :: "(string \<Rightarrow> payload) \<Rightarrow> pm_Market \<Rightarrow> string list option" where
  "ParseClobTokenIDs json_text m = unmarshal_strings json_text (ClobTokenIDs m)"

definition ParseOutcomePrices :: "(string \<Rightarrow> payload) \<Rightarrow> pm_Market \<Rightarrow> string list option" where
  "ParseOutcomePrices json_text m = unmarshal_strings json_text (OutcomePrices m)"

definition pm_Name :: "pm_Market \<Rightarrow> string" where
  "pm_Name m = (case GroupItemTitle m of Some t \<Rightarrow> if t \<noteq> [] then t else Question m | None \<Rightarrow> Question m)"

section \<open>The paged fetch\<close>

text \<open>\<open>get\<close> gives the response to the request for an offset. The result is None when the loop does
  not return, \<open>Inl\<close> for an error.\<close>

definition decode_page :: "http_result \<Rightarrow> pm_Event list option" where
  "decode_page resp =
     (case http_ok resp of
        None \<Rightarrow> None | Some None \<Rightarrow> None
      | Some (Some v) \<Rightarrow> if v = JNull then Some [] else dec_slice (dec_struct decode_Event) zero_Event v)"

definition page_limit :: nat where
  "page_limit = 100"

partial_function (option) fetch_loop ::
    "(int \<Rightarrow> http_result) \<Rightarrow> int \<Rightarrow> pm_Event list \<Rightarrow> (unit + pm_Event list) option" where
  "fetch_loop get offset all =
     (case decode_page (get offset) of
        None \<Rightarrow> Some (Inl ())
      | Some page \<Rightarrow>
          if length page < page_limit then Some (Inr (all @ page))
          else fetch_loop get (offset + int page_limit) (all @ page))"

definition FetchEvents :: "(int \<Rightarrow> http_result) \<Rightarrow> (unit + pm_Event list) option" where
  "FetchEvents get = fetch_loop get 0 []"

section \<open>The sports normaliser\<close>

definition lookAheadDays :: int where
  "lookAheadDays = 14"

definition hour :: time where
  "hour = 3600 * second"

definition allowedTypes :: "string \<Rightarrow> string option" where
  "allowedTypes ty =
     (if ty = ''moneyline'' then Some ''ML'' else if ty = ''spreads'' then Some ''SPREAD''
      else if ty = ''totals'' then Some ''TOTAL'' else None)"

record PolymarketNormaliser =
  n_sportID :: string
  n_sportName :: string
  n_competitionID :: string
  n_competitionName :: string

record selRow =
  sel_name :: string
  sel_targetValue :: float64
  sel_prob :: float64

definition clampProb :: "float64 \<Rightarrow> float64" where
  "clampProb p = (if flt (lit (98 / 100)) p \<or> flt p (lit (2 / 100)) then Fin 0 else p)"

definition absLine :: "float64 option \<Rightarrow> float64" where
  "absLine line = (case line of None \<Rightarrow> Fin 0 | Some l \<Rightarrow> math_Abs l)"

definition derefLine :: "float64 option \<Rightarrow> float64" where
  "derefLine line = (case line of None \<Rightarrow> Fin 0 | Some l \<Rightarrow> l)"

definition formatLineSign :: "float64 \<Rightarrow> string" where
  "formatLineSign v = (if fle (Fin 0) v then ''+'' @ fmt_1f v else fmt_1f v)"

definition buildMarketName :: "string \<Rightarrow> string \<Rightarrow> float64 option \<Rightarrow> string \<Rightarrow> string" where
  "buildMarketName gameTitle marketType line fallback =
     (if marketType = ''SPREAD'' then gameTitle @ '' Spread '' @ formatLineSign (derefLine line)
      else if marketType = ''TOTAL'' then gameTitle @ '' Total '' @ fmt_1f (absLine line)
      else fallback)"

text \<open>The loop over the separators that breaks at the first one the title has.\<close>

fun split_title :: "string list \<Rightarrow> string \<Rightarrow> string \<times> string \<Rightarrow> string \<times> string" where
  "split_title [] title t = t"
| "split_title (sep # seps) title t =
     (case strings_SplitN2 title sep of [a, b] \<Rightarrow> (a, b) | _ \<Rightarrow> split_title seps title t)"

text \<open>The callers have checked that there are two outcomes and two prices.\<close>

definition buildSelections :: "string \<Rightarrow> string \<Rightarrow> string list \<Rightarrow> string list \<Rightarrow> float64 option \<Rightarrow> selRow list" where
  "buildSelections marketType gameTitle outcomes prices line =
     (let p0 = clampProb (ParseFloat_value (prices ! 0)); p1 = clampProb (ParseFloat_value (prices ! 1))
      in if marketType = ''SPREAD''
         then let l = derefLine line;
                  (t0, t1) = split_title ['' vs. '', '' vs '', '' @ '', ''@''] gameTitle (outcomes ! 0, outcomes ! 1)
              in [\<lparr>sel_name = t0 @ '' '' @ formatLineSign l, sel_targetValue = l, sel_prob = p0\<rparr>,
                  \<lparr>sel_name = t1 @ '' '' @ formatLineSign (fneg l), sel_targetValue = fneg l, sel_prob = p1\<rparr>]
         else if marketType = ''TOTAL''
         then let l = absLine line
              in [\<lparr>sel_name = ''Over '' @ fmt_1f l, sel_targetValue = l, sel_prob = p0\<rparr>,
                  \<lparr>sel_name = ''Under '' @ fmt_1f l, sel_targetValue = fneg l, sel_prob = p1\<rparr>]
         else [\<lparr>sel_name = outcomes ! 0, sel_targetValue = Fin 0, sel_prob = p0\<rparr>,
               \<lparr>sel_name = outcomes ! 1, sel_targetValue = Fin 0, sel_prob = p1\<rparr>])"

definition max_prob :: "string list \<Rightarrow> float64" where
  "max_prob prices = foldl (\<lambda>mx ps. let p = ParseFloat_value ps in if flt mx p then p else mx) (Fin 0) prices"

definition MaxFloat64 :: float64 where
  "MaxFloat64 = Fin ((2 - 2 powi (- 52)) * 2 ^ 1023)"

definition main_dist :: "(string \<Rightarrow> payload) \<Rightarrow> pm_Market \<Rightarrow> float64 option" where
  "main_dist json_text m =
     (case ParseOutcomePrices json_text m of
        None \<Rightarrow> None
      | Some prices \<Rightarrow> if length prices < 2 then None else Some (math_Abs (fsub (max_prob prices) (Fin (1 / 2)))))"

definition best_of_group :: "(string \<Rightarrow> payload) \<Rightarrow> pm_Market list \<Rightarrow> string \<times> float64" where
  "best_of_group json_text grp =
     foldl (\<lambda>(bestID, bestDist) m.
       case main_dist json_text m of None \<Rightarrow> (bestID, bestDist)
       | Some dst \<Rightarrow> if flt dst bestDist then (ConditionID m, dst) else (bestID, bestDist)) ([], MaxFloat64) grp"

definition of_type :: "string \<Rightarrow> pm_Market list \<Rightarrow> pm_Market list" where
  "of_type ty markets = filter (\<lambda>m. allowedTypes (SportsMarketType m) = Some ty) markets"

text \<open>The map from condition ids to true, as the list of its keys.\<close>

definition computeIsMain :: "(string \<Rightarrow> payload) \<Rightarrow> pm_Market list \<Rightarrow> string list" where
  "computeIsMain json_text markets =
     map ConditionID (of_type ''ML'' markets) @
     concat (map (\<lambda>mtype.
       let grp = of_type mtype markets
       in if grp = [] then [] else let bestID = fst (best_of_group json_text grp) in if bestID \<noteq> [] then [bestID] else [])
       [''SPREAD'', ''TOTAL''])"

definition game_layouts :: "(string \<Rightarrow> time option) list" where
  "game_layouts = [time_Parse (CHR '' '') zone_hh, time_Parse (CHR '' '') zone_hhmm, time_Parse (CHR ''T'') zone_Z,
     time_Parse (CHR ''T'') zone_hhmm]"

fun gameStartTime :: "pm_Market list \<Rightarrow> time option" where
  "gameStartTime [] = None"
| "gameStartTime (m # ms) =
     (if GameStartTime m = [] then gameStartTime ms
      else case first_some game_layouts (GameStartTime m) of Some t \<Rightarrow> Some t | None \<Rightarrow> gameStartTime ms)"

definition sel_id :: "pm_Market \<Rightarrow> nat \<Rightarrow> string" where
  "sel_id m i = ConditionID m @ ''-'' @ itoa (int i)"

definition price_update :: "pm_Market \<Rightarrow> NormalisedMarketEvent" where
  "price_update m = zero_event\<lparr>ne_EventType := ''price.update'', ne_ProviderID := ''polymarket'', ne_MarketID := ConditionID m\<rparr>"

definition allowed_markets :: "pm_Market list \<Rightarrow> pm_Market list" where
  "allowed_markets ms = filter (\<lambda>m. allowedTypes (SportsMarketType m) \<noteq> None \<and> \<not> mk_Closed m \<and> mk_Active m) ms"

text \<open>The events of one market: one catalog.upsert per selection, none when its outcomes or prices
  do not parse into two each.\<close>

definition market_upserts :: "(string \<Rightarrow> payload) \<Rightarrow> PolymarketNormaliser \<Rightarrow> pm_Event \<Rightarrow> string \<Rightarrow> string \<Rightarrow>
    string list \<Rightarrow> pm_Market \<Rightarrow> NormalisedMarketEvent list" where
  "market_upserts json_text n ev eventStatus startsAtStr isMainMap m =
     (case ParseOutcomes json_text m of None \<Rightarrow> []
      | Some outcomes \<Rightarrow>
          (case ParseOutcomePrices json_text m of None \<Rightarrow> []
           | Some prices \<Rightarrow>
               if length outcomes \<noteq> 2 \<or> length prices \<noteq> 2 then []
               else let ourType = the (allowedTypes (SportsMarketType m));
                        marketName = buildMarketName (Title ev) ourType (Line m) (pm_Name m);
                        sels = buildSelections ourType (Title ev) outcomes prices (Line m);
                        targetValue = (if sels \<noteq> [] then sel_targetValue (sels ! 0) else Fin 0)
                    in map (\<lambda>(i, sel). zero_event\<lparr>
                         ne_EventType := ''catalog.upsert'', ne_ProviderID := ''polymarket'', ne_SportID := n_sportID n,
                         ne_SportName := n_sportName n, ne_CompetitionID := n_competitionID n,
                         ne_CompetitionName := n_competitionName n, ne_Country := ''US'', ne_EventID := ev_ID ev,
                         ne_EventName := strings_ReplaceAll (Title ev) '' vs. '' '' @ '', ne_StartsAt := startsAtStr,
                         ne_EventStatus := eventStatus, ne_MarketID := ConditionID m, ne_MarketName := marketName,
                         ne_MarketType := ourType, ne_MarketStatus := ''OPEN'', ne_TargetValue := targetValue,
                         ne_IsMain := (ConditionID m \<in> set isMainMap), ne_ClosesAt := startsAtStr,
                         ne_SelectionID := sel_id m i, ne_SelectionName := sel_name sel, ne_SelActive := True,
                         ne_SelTargetValue := sel_targetValue sel, ne_FeedProbability := sel_prob sel\<rparr>) (enumerate 0 sels)))"

definition Polymarket_Normalise :: "(string \<Rightarrow> payload) \<Rightarrow> PolymarketNormaliser \<Rightarrow> normaliser" where
  "Polymarket_Normalise json_text n now raw =
     (case Option.bind (dec_object (rp_Data raw)) decode_Event of
        None \<Rightarrow> None
      | Some ev \<Rightarrow>
          (case gameStartTime (Markets ev) of
             None \<Rightarrow> None
           | Some startTime \<Rightarrow>
               if startTime < now - 6 * hour \<or> now + lookAheadDays * 24 * hour < startTime then Some []
               else let eventStatus = (if startTime \<le> now then ''LIVE'' else ''SCHEDULED'');
                        startsAtStr = format_rfc3339 False startTime;
                        allowed = allowed_markets (Markets ev);
                        isMainMap = computeIsMain json_text allowed
                    in Some (concat (map (market_upserts json_text n ev eventStatus startsAtStr isMainMap) allowed) @
                         map price_update allowed)))"

section \<open>The politics normaliser\<close>

record PoliticsNormaliser = PolymarketNormaliser +
  n_country :: string

definition year_9999 :: time where
  "year_9999 = (day_number 9999 1 1 - unix_epoch_days) * 86400 * second"

definition zero_Time :: time where
  "zero_Time = - unix_epoch_days * 86400 * second"

definition parseEndDate :: "string \<Rightarrow> time option" where
  "parseEndDate s = first_some [parse_rfc3339, time_Parse (CHR ''T'') zone_Z, time_Parse (CHR ''T'') zone_hhmm] s"

text \<open>The loop that keeps the earliest end before \<open>earliest\<close> together with its market.\<close>

definition soonest_end :: "pm_Market list \<Rightarrow> time \<times> pm_Market option" where
  "soonest_end ms =
     foldl (\<lambda>(soonest, best) m.
       case parseEndDate (EndDate m) of None \<Rightarrow> (soonest, best)
       | Some t \<Rightarrow> if t < soonest then (t, Some m) else (soonest, best)) (year_9999, None) ms"

definition findEarliestEnd :: "pm_Market list \<Rightarrow> time" where
  "findEarliestEnd ms = (case soonest_end ms of (earliest, None) \<Rightarrow> zero_Time | (earliest, Some m) \<Rightarrow> earliest)"

definition binary_upserts :: "(string \<Rightarrow> payload) \<Rightarrow> PoliticsNormaliser \<Rightarrow> pm_Event \<Rightarrow> string \<Rightarrow> string \<Rightarrow>
    pm_Market \<Rightarrow> NormalisedMarketEvent list" where
  "binary_upserts json_text n ev startsAtStr mainConditionID m =
     (case ParseOutcomePrices json_text m of None \<Rightarrow> []
      | Some prices \<Rightarrow>
          if length prices < 2 then []
          else let p0 = clampProb (ParseFloat_value (prices ! 0)); p1 = clampProb (ParseFloat_value (prices ! 1));
                   closesAt = (case parseEndDate (EndDate m) of None \<Rightarrow> [] | Some t \<Rightarrow> format_rfc3339 False t)
               in map (\<lambda>(i, selName, prob). zero_event\<lparr>
                    ne_EventType := ''catalog.upsert'', ne_ProviderID := ''polymarket'', ne_SportID := n_sportID n,
                    ne_SportName := n_sportName n, ne_CompetitionID := n_competitionID n,
                    ne_CompetitionName := n_competitionName n, ne_Country := n_country n, ne_EventID := ev_ID ev,
                    ne_EventName := Title ev, ne_StartsAt := startsAtStr, ne_EventStatus := ''SCHEDULED'',
                    ne_MarketID := ConditionID m, ne_MarketName := Question m, ne_MarketType := ''BINARY'',
                    ne_MarketStatus := ''OPEN'', ne_TargetValue := Fin 0, ne_IsMain := (ConditionID m = mainConditionID),
                    ne_ClosesAt := closesAt, ne_SelectionID := sel_id m i, ne_SelectionName := selName,
                    ne_SelActive := True, ne_SelTargetValue := Fin 0, ne_FeedProbability := prob\<rparr>)
                  [(0, ''Yes'', p0), (1, ''No'', p1)])"

definition open_binary :: "pm_Market list \<Rightarrow> pm_Market list" where
  "open_binary ms = filter (\<lambda>m. \<not> (mk_Closed m \<or> \<not> mk_Active m \<or> SportsMarketType m \<noteq> [])) ms"

definition Politics_Normalise :: "(string \<Rightarrow> payload) \<Rightarrow> PoliticsNormaliser \<Rightarrow> normaliser" where
  "Politics_Normalise json_text n now raw =
     (case Option.bind (dec_object (rp_Data raw)) decode_Event of
        None \<Rightarrow> None
      | Some ev \<Rightarrow>
          (let open_ms = open_binary (Markets ev); earliestEnd = findEarliestEnd open_ms
           in if open_ms = [] then Some []
              else if earliestEnd = zero_Time then Some []
              else if now + lookAheadDays * 24 * hour < earliestEnd then Some []
              else let mainConditionID = (case snd (soonest_end open_ms) of None \<Rightarrow> [] | Some m \<Rightarrow> ConditionID m)
                   in Some (concat (map (binary_upserts json_text n ev (format_rfc3339 False earliestEnd) mainConditionID) open_ms) @
                        map price_update open_ms)))"

section \<open>The polling feed\<close>

record PolymarketFeed =
  pf_eventMatcher :: bool
  pf_tokenRegistry :: bool
  pf_providerID :: string
  pf_slugPrefix :: string
  pf_tagID :: int
  pf_binaryMode :: bool

definition hasSportsMarkets :: "pm_Market list \<Rightarrow> bool" where
  "hasSportsMarkets markets \<longleftrightarrow> (\<exists>m \<in> set markets. allowedTypes (SportsMarketType m) \<noteq> None)"

definition hasBinaryMarkets :: "pm_Market list \<Rightarrow> bool" where
  "hasBinaryMarkets markets \<longleftrightarrow> (\<exists>m \<in> set markets. \<not> mk_Closed m \<and> mk_Active m \<and> SportsMarketType m = [])"

definition feed_accepts :: "PolymarketFeed \<Rightarrow> pm_Event \<Rightarrow> bool" where
  "feed_accepts f ev \<longleftrightarrow>
     \<not> (ev_Closed ev \<or> \<not> ev_Active ev) \<and> \<not> (pf_slugPrefix f \<noteq> [] \<and> \<not> strings_HasPrefix (ev_Slug ev) (pf_slugPrefix f)) \<and>
     (if pf_binaryMode f then hasBinaryMarkets (Markets ev) else hasSportsMarkets (Markets ev))"

definition market_tokens :: "(string \<Rightarrow> payload) \<Rightarrow> string \<Rightarrow> pm_Market \<Rightarrow> TokenEntry list" where
  "market_tokens json_text providerID m =
     (case ParseClobTokenIDs json_text m of None \<Rightarrow> []
      | Some tokenIDs \<Rightarrow> map (\<lambda>(i, tid). \<lparr>TokenID = tid, te_ConditionID = ConditionID m, SelIndex = int i,
          te_ProviderID = providerID\<rparr>) (enumerate 0 tokenIDs))"

definition register_tokens :: "(string \<Rightarrow> payload) \<Rightarrow> string \<Rightarrow> pm_Market list \<Rightarrow> TokenRegistry \<Rightarrow> TokenRegistry" where
  "register_tokens json_text providerID ms r =
     foldl (\<lambda>r m. let es = market_tokens json_text providerID m in if es = [] then r else registry_Register es r) r ms"

text \<open>The state the feeds share, and what the poll has sent. A feed that was built without a matcher
  or a registry leaves it alone. \<open>n\<close> sends happen before the context is cancelled.\<close>

record feed_state =
  fs_matcher :: EventMatcher
  fs_registry :: TokenRegistry

fun poll_events :: "(string \<Rightarrow> payload) \<Rightarrow> PolymarketFeed \<Rightarrow> time \<Rightarrow> nat \<Rightarrow> pm_Event list \<Rightarrow> feed_state \<Rightarrow>
    RawProviderEvent list \<times> feed_state" where
  "poll_events json_text f now n [] st = ([], st)"
| "poll_events json_text f now n (ev # evs) st =
     (if \<not> feed_accepts f ev then poll_events json_text f now n evs st
      else case marshal_Event ev of
        None \<Rightarrow> poll_events json_text f now n evs st
      | Some data \<Rightarrow>
          (let st1 = (if pf_eventMatcher f
                      then st\<lparr>fs_matcher := matcher_Register (ev_ID ev) (strings_ReplaceAll (Title ev) '' vs. '' '' @ '') (fs_matcher st)\<rparr>
                      else st);
               st2 = (if pf_tokenRegistry f
                      then st1\<lparr>fs_registry := register_tokens json_text (pf_providerID f) (Markets ev) (fs_registry st1)\<rparr>
                      else st1)
           in case n of 0 \<Rightarrow> ([], st2)
              | Suc n' \<Rightarrow>
                  (case poll_events json_text f now n' evs st2 of
                     (sent, st') \<Rightarrow>
                       (\<lparr>rp_ProviderID = pf_providerID f, rp_Data = Some data, rp_ReceivedAt = now\<rparr> # sent, st'))))"

text \<open>None: the fetch does not return.\<close>

definition feed_poll :: "(string \<Rightarrow> payload) \<Rightarrow> PolymarketFeed \<Rightarrow> time \<Rightarrow> nat \<Rightarrow> (int \<Rightarrow> http_result) \<Rightarrow> feed_state \<Rightarrow>
    (RawProviderEvent list \<times> feed_state) option" where
  "feed_poll json_text f now n get st =
     map_option (\<lambda>r. case r of Inl _ \<Rightarrow> ([], st) | Inr events \<Rightarrow> poll_events json_text f now n events st) (FetchEvents get)"

section \<open>The order-book feed\<close>

record clobWSEvent =
  cw_EventType :: string
  AssetID :: string
  cw_Price :: string

record wsPriceRaw =
  wp_ConditionID :: string
  wp_SelIndex :: int
  wp_Price :: string
  wp_ProviderID :: string

definition decode_clobWSEvent :: "(string \<times> json) list \<Rightarrow> clobWSEvent option" where
  "decode_clobWSEvent kvs =
     Option.bind (decode_field dec_string ''event_type'' [] kvs) (\<lambda>t.
     Option.bind (decode_field dec_string ''asset_id'' [] kvs) (\<lambda>a.
     Option.bind (decode_field dec_string ''price'' [] kvs) (\<lambda>p.
     Some \<lparr>cw_EventType = t, AssetID = a, cw_Price = p\<rparr>)))"

definition zero_clobWSEvent :: clobWSEvent where
  "zero_clobWSEvent = \<lparr>cw_EventType = [], AssetID = [], cw_Price = []\<rparr>"

definition decode_clob :: "ws_message \<Rightarrow> clobWSEvent list option" where
  "decode_clob msg =
     (if ws_text msg \<noteq> [] \<and> hd (ws_text msg) = CHR ''[''
      then Option.bind (ws_json msg) (dec_slice (dec_struct decode_clobWSEvent) zero_clobWSEvent)
      else map_option (\<lambda>e. [e]) (Option.bind (dec_object (ws_json msg)) decode_clobWSEvent))"

definition marshal_wsPriceRaw :: "wsPriceRaw \<Rightarrow> json option" where
  "marshal_wsPriceRaw r =
     marshal_struct [str_field ''condition_id'' (wp_ConditionID r), int_field ''sel_index'' (wp_SelIndex r),
       str_field ''price'' (wp_Price r), str_field ''provider_id'' (wp_ProviderID r)]"

definition decode_wsPriceRaw :: "payload \<Rightarrow> wsPriceRaw option" where
  "decode_wsPriceRaw p =
     Option.bind (dec_object p) (\<lambda>kvs.
     Option.bind (decode_field dec_string ''condition_id'' [] kvs) (\<lambda>c.
     Option.bind (decode_field dec_int64 ''sel_index'' 0 kvs) (\<lambda>i.
     Option.bind (decode_field dec_string ''price'' [] kvs) (\<lambda>pr.
     Option.bind (decode_field dec_string ''provider_id'' [] kvs) (\<lambda>pv.
     Some \<lparr>wp_ConditionID = c, wp_SelIndex = i, wp_Price = pr, wp_ProviderID = pv\<rparr>)))))"

definition price_event :: "TokenRegistry \<Rightarrow> clobWSEvent \<Rightarrow> wsPriceRaw option" where
  "price_event r ev =
     (if cw_EventType ev \<noteq> ''price_change'' then None
      else if AssetID ev = [] \<or> cw_Price ev = [] then None
      else map_option (\<lambda>entry. \<lparr>wp_ConditionID = te_ConditionID entry, wp_SelIndex = SelIndex entry,
             wp_Price = cw_Price ev, wp_ProviderID = te_ProviderID entry\<rparr>) (Lookup (AssetID ev) r))"

definition price_handleMessage :: "TokenRegistry \<Rightarrow> time \<Rightarrow> ws_message \<Rightarrow> RawProviderEvent list \<Rightarrow> RawProviderEvent list" where
  "price_handleMessage r now msg ch =
     (if ws_text msg = ''PONG'' then ch
      else case decode_clob msg of
        None \<Rightarrow> ch
      | Some evs \<Rightarrow>
          foldl (\<lambda>ch ev. case Option.bind (price_event r ev) marshal_wsPriceRaw of
             None \<Rightarrow> ch
           | Some data \<Rightarrow> try_send 128 \<lparr>rp_ProviderID = ''polymarket-ws-price'', rp_Data = Some data, rp_ReceivedAt = now\<rparr> ch)
           ch evs)"

text \<open>The subscriptions of a connection: the messages written to the socket, and the tokens the
  feed believes to be subscribed. \<open>order\<close> is the iteration order of the registry's map and \<open>order2\<close>
  that of the subscribed map; a failed write leaves no message.\<close>

datatype clob_msg = Subscribe "string list" | Unsubscribe "string list"

record clob_conn =
  cc_written :: "clob_msg list"
  cc_subscribed :: "string set"

definition handleRegistryChange ::
    "string list \<Rightarrow> string list \<Rightarrow> bool \<Rightarrow> bool \<Rightarrow> TokenRegistry \<Rightarrow> clob_conn \<Rightarrow> clob_conn" where
  "handleRegistryChange order order2 sub_fails unsub_fails r c =
     (let current = AllTokenIDs order r;
          toSub = filter (\<lambda>i. i \<notin> cc_subscribed c) current;
          subscribed = cc_subscribed c \<union> set toSub;
          toUnsub = filter (\<lambda>i. i \<in> subscribed \<and> i \<notin> set current) order2
      in \<lparr>cc_written = cc_written c @ (if toSub \<noteq> [] \<and> \<not> sub_fails then [Subscribe toSub] else []) @
            (if toUnsub \<noteq> [] \<and> \<not> unsub_fails then [Unsubscribe toUnsub] else []),
          cc_subscribed = subscribed - set toUnsub\<rparr>)"

text \<open>The start of a connection: the subscription to all known tokens, whose failure closes it.\<close>

definition clob_connect :: "string list \<Rightarrow> TokenRegistry \<Rightarrow> clob_conn" where
  "clob_connect order r =
     (let tokenIDs = AllTokenIDs order r in \<lparr>cc_written = [Subscribe tokenIDs], cc_subscribed = set tokenIDs\<rparr>)"

definition WSPriceNormaliser :: normaliser where
  "WSPriceNormaliser now raw =
     (case decode_wsPriceRaw (rp_Data raw) of
        None \<Rightarrow> None
      | Some p \<Rightarrow> Some [zero_event\<lparr>ne_EventType := ''price.update'', ne_ProviderID := ''polymarket'', ne_MarketID := wp_ConditionID p\<rparr>])"

section \<open>Termination of the paged fetch\<close>

definition full_page :: "http_result \<Rightarrow> bool" where
  "full_page resp \<longleftrightarrow> (\<exists>page. decode_page resp = Some page \<and> page_limit \<le> length page)"

definition pages :: "(int \<Rightarrow> http_result) \<Rightarrow> int \<Rightarrow> nat \<Rightarrow> pm_Event list" where
  "pages get offset k = concat (map (\<lambda>i. the (decode_page (get (offset + int page_limit * int i)))) [0..<k])"

lemma pages_Suc: "pages get offset (Suc k) = the (decode_page (get offset)) @ pages get (offset + int page_limit) k"
proof -
  have "map (\<lambda>i. the (decode_page (get (offset + int page_limit * int i)))) [0..<Suc k] =
      the (decode_page (get offset)) # map (\<lambda>i. the (decode_page (get (offset + int page_limit + int page_limit * int i)))) [0..<k]"
    by (simp only: upt_conv_Cons [OF zero_less_Suc] map_Suc_upt [symmetric] map_map list.map) (simp add: comp_def algebra_simps)
  then show ?thesis by (simp add: pages_def)
qed

lemma fetch_loop_pages:
  "(\<And>i. i < k \<Longrightarrow> full_page (get (offset + int page_limit * int i))) \<Longrightarrow>
     fetch_loop get offset all = fetch_loop get (offset + int page_limit * int k) (all @ pages get offset k)"
proof (induction k arbitrary: offset all)
  case (Suc k)
  from Suc.prems [of 0] obtain page where page: "decode_page (get offset) = Some page" "\<not> length page < page_limit"
    by (auto simp: full_page_def)
  have f: "full_page (get (offset + int page_limit + int page_limit * int i))" if "i < k" for i
    using Suc.prems [of "Suc i"] that by (simp add: algebra_simps)
  have "fetch_loop get offset all = fetch_loop get (offset + int page_limit) (all @ page)"
    using page by (subst fetch_loop.simps) simp
  also have "\<dots> = fetch_loop get (offset + int page_limit + int page_limit * int k)
      ((all @ page) @ pages get (offset + int page_limit) k)"
    using f by (rule Suc.IH)
  finally show ?case using page by (simp add: pages_Suc algebra_simps)
qed (simp add: pages_def)

text \<open>C14. The paged fetch returns exactly when the provider stops sending full pages: if page k is
  the first that fails or has fewer than 100 events, FetchEvents returns the error or the events of
  pages 0 to k in order; if every page is full the loop never returns.\<close>

theorem FetchEvents_returns:
  "((\<forall>i < k. full_page (get (100 * int i))) \<and> \<not> full_page (get (100 * int k)) \<longrightarrow>
     FetchEvents get = Some (case decode_page (get (100 * int k)) of None \<Rightarrow> Inl ()
       | Some page \<Rightarrow> Inr (concat (map (\<lambda>i. the (decode_page (get (100 * int i)))) [0..<k]) @ page))) \<and>
   ((\<forall>i. full_page (get (100 * int i))) \<longrightarrow> FetchEvents get = None)"
proof (intro conjI impI)
  assume a: "(\<forall>i < k. full_page (get (100 * int i))) \<and> \<not> full_page (get (100 * int k))"
  then have "FetchEvents get = fetch_loop get (100 * int k) (concat (map (\<lambda>i. the (decode_page (get (100 * int i)))) [0..<k]))"
    using fetch_loop_pages [of k get 0 "[]"] by (simp add: FetchEvents_def page_limit_def pages_def)
  then show "FetchEvents get = Some (case decode_page (get (100 * int k)) of None \<Rightarrow> Inl ()
       | Some page \<Rightarrow> Inr (concat (map (\<lambda>i. the (decode_page (get (100 * int i)))) [0..<k]) @ page))"
    using a by (subst (asm) fetch_loop.simps) (auto simp: full_page_def page_limit_def split: option.splits)
next
  assume full: "\<forall>i. full_page (get (100 * int i))"
  have "fetch_loop get offset all = None" if "\<forall>i. full_page (get (offset + 100 * int i))" for offset all
  proof (rule ccontr)
    assume "fetch_loop get offset all \<noteq> None"
    then obtain r where r: "fetch_loop get offset all = Some r" by blast
    have "(\<forall>i. full_page (get (offset + 100 * int i))) \<longrightarrow> False"
    proof (rule fetch_loop.raw_induct [OF _ r, of "\<lambda>get offset all r. (\<forall>i. full_page (get (offset + 100 * int i))) \<longrightarrow> False"],
        rule impI)
      fix loop get offset all r
      assume IH: "\<And>get offset all r. loop get offset all = Some r \<Longrightarrow> (\<forall>i. full_page (get (offset + 100 * int i))) \<longrightarrow> False"
        and body: "(case decode_page (get offset) of None \<Rightarrow> Some (Inl ()) | Some page \<Rightarrow>
            if length page < page_limit then Some (Inr (all @ page)) else loop get (offset + int page_limit) (all @ page)) = Some r"
        and full: "\<forall>i. full_page (get (offset + 100 * int i))"
      from full [rule_format, of 0] obtain page where page: "decode_page (get offset) = Some page" "\<not> length page < page_limit"
        by (auto simp: full_page_def)
      have "full_page (get (offset + int page_limit + 100 * int i))" for i
        using full [rule_format, of "Suc i"] by (simp add: page_limit_def algebra_simps)
      moreover have "loop get (offset + int page_limit) (all @ page) = Some r" using body page by simp
      ultimately show False using IH by blast
    qed
    with that show False by blast
  qed
  from this [of 0 "[]"] full show "FetchEvents get = None" by (simp add: FetchEvents_def)
qed

theorem FetchEvents_returns_witness: "FetchEvents (\<lambda>_. HttpResponse 200 (Some (JArr []))) = Some (Inr [])"
proof -
  have "decode_page (HttpResponse 200 (Some (JArr []))) = Some []"
    by (simp add: decode_page_def http_ok_def dec_slice_def)
  then show ?thesis
    using FetchEvents_returns [of 0 "\<lambda>_. HttpResponse 200 (Some (JArr []))"] by (simp add: full_page_def page_limit_def)
qed

section \<open>What the normalisers promise\<close>

definition prob_ok :: "float64 \<Rightarrow> bool" where
  "prob_ok p \<longleftrightarrow> p = NaN \<or> p = Fin 0 \<or> (fle (lit (2 / 100)) p \<and> fle p (lit (98 / 100)))"

text \<open>
  An event the catalog can apply without breaking a CHECK constraint: whatever it would insert or
  change has a status, a type and a probability of the schema. (A probability that is not a number
  cannot be marshalled and so is never published.)
\<close>

definition wf_event :: "NormalisedMarketEvent \<Rightarrow> bool" where
  "wf_event e \<longleftrightarrow>
     ne_EventStatus e \<in> {[], ''SCHEDULED'', ''LIVE'', ''FINISHED''} \<and> ne_MarketStatus e \<in> {[], ''OPEN''} \<and>
     ne_MarketType e \<in> {[], ''ML'', ''SPREAD'', ''TOTAL'', ''BINARY''} \<and>
     (ne_EventName e \<noteq> [] \<longrightarrow> ne_EventStatus e \<in> {''SCHEDULED'', ''LIVE''}) \<and>
     (ne_MarketName e \<noteq> [] \<longrightarrow> ne_MarketStatus e = ''OPEN'' \<and> ne_MarketType e \<in> {''ML'', ''SPREAD'', ''TOTAL'', ''BINARY''}) \<and>
     prob_ok (ne_FeedProbability e) \<and>
     (ne_EventType e = ''game.state'' \<and> ne_EventID e \<noteq> [] \<longrightarrow> ne_EventStatus e \<in> {''SCHEDULED'', ''LIVE'', ''FINISHED''})"

lemma wf_event_published: "wf_event e \<Longrightarrow> wf_event (e\<lparr>ne_PublishedAt := t\<rparr>)"
  by (simp add: wf_event_def)

lemma prob_ok_0 [simp]: "prob_ok (Fin 0)" "prob_ok NaN"
  by (simp_all add: prob_ok_def)

lemma wf_price [simp]: "wf_event (price_update m)"
  by (simp add: wf_event_def price_update_def zero_event_def)

lemma allowedTypes_cases: "allowedTypes t = Some u \<Longrightarrow> u \<in> {''ML'', ''SPREAD'', ''TOTAL''}"
  by (auto simp: allowedTypes_def split: if_splits)

lemma rnd_not_NaN [simp]: "rnd s x \<noteq> NaN"
  by (simp add: rnd_def Let_def)

lemma not_flt_fle: "x \<noteq> NaN \<Longrightarrow> y \<noteq> NaN \<Longrightarrow> \<not> flt x y \<Longrightarrow> fle y x"
  by (auto simp: fle_def flt_def feq_def)

lemma clampProb_ok [simp]: "prob_ok (clampProb p)"
  by (cases "p = NaN") (auto simp: clampProb_def prob_ok_def lit_def intro: not_flt_fle)

lemma buildSelections_ok:
  "length (buildSelections ty title os ps l) = 2 \<and> (\<forall>s \<in> set (buildSelections ty title os ps l). prob_ok (sel_prob s))"
  by (auto simp: buildSelections_def Let_def split: prod.splits)

lemma market_upserts_wf:
  assumes "e \<in> set (market_upserts json_text n ev st str mains m)" "allowedTypes (SportsMarketType m) \<noteq> None"
    and "st \<in> {''SCHEDULED'', ''LIVE''}"
  shows "wf_event e \<and> ne_EventType e = ''catalog.upsert'' \<and> ne_MarketID e = ConditionID m \<and>
    (\<exists>i < 2. ne_SelectionID e = sel_id m i)"
proof -
  obtain u where u: "allowedTypes (SportsMarketType m) = Some u" using assms(2) by blast
  obtain os ps where e: "e \<in> set (market_upserts json_text n ev st str mains m)"
    "ParseOutcomes json_text m = Some os" "ParseOutcomePrices json_text m = Some ps" "length os = 2" "length ps = 2"
    using assms(1) by (auto simp: market_upserts_def split: option.splits if_splits)
  define sels where "sels = buildSelections u (Title ev) os ps (Line m)"
  have sels: "length sels = 2" "\<And>i s. (i, s) \<in> set (enumerate 0 sels) \<Longrightarrow> i < 2 \<and> prob_ok (sel_prob s)"
    using buildSelections_ok [of u "Title ev" os ps "Line m"]
    by (auto simp: sels_def in_set_enumerate_eq dest: nth_mem)
  obtain i s where ins: "(i, s) \<in> set (enumerate 0 sels)" and ee: "ne_EventType e = ''catalog.upsert''"
    "ne_MarketID e = ConditionID m" "ne_SelectionID e = sel_id m i" "ne_FeedProbability e = sel_prob s"
    "ne_EventStatus e = st" "ne_MarketStatus e = ''OPEN''" "ne_MarketType e = u"
    using e u unfolding sels_def by (force simp: market_upserts_def Let_def)
  then show ?thesis
    using assms(3) sels(2) [OF ins] allowedTypes_cases [OF u] by (auto simp: wf_event_def)
qed

lemma Polymarket_Normalise_wf:
  assumes "Polymarket_Normalise json_text n now raw = Some es" "e \<in> set es"
  shows "wf_event e"
proof -
  from assms obtain ev st str mains where
    "e \<in> set (concat (map (market_upserts json_text n ev st str mains) (allowed_markets (Markets ev)))) \<union>
       price_update ` set (allowed_markets (Markets ev))" "st \<in> {''SCHEDULED'', ''LIVE''}"
    by (auto simp: Polymarket_Normalise_def Let_def split: option.splits if_splits)
  then show ?thesis
    by (auto simp: allowed_markets_def dest!: market_upserts_wf)
qed

lemma Politics_Normalise_wf:
  assumes "Politics_Normalise json_text n now raw = Some es" "e \<in> set es"
  shows "wf_event e"
proof -
  from assms obtain ev str main where
    "e \<in> set (concat (map (binary_upserts json_text n ev str main) (open_binary (Markets ev)))) \<union>
       price_update ` set (open_binary (Markets ev))"
    by (auto simp: Politics_Normalise_def Let_def split: option.splits if_splits)
  moreover have "wf_event e" if "e \<in> set (binary_upserts json_text n ev str main m)" for m
  proof -
    from that have "ne_EventType e = ''catalog.upsert'' \<and> ne_EventStatus e = ''SCHEDULED'' \<and> ne_MarketStatus e = ''OPEN'' \<and>
        ne_MarketType e = ''BINARY'' \<and> prob_ok (ne_FeedProbability e)"
      by (auto simp: binary_upserts_def Let_def split: option.splits if_splits)
    then show ?thesis by (simp add: wf_event_def)
  qed
  ultimately show ?thesis by auto
qed

lemma game_state_wf: "game_state_ok e \<Longrightarrow> wf_event e"
  by (simp add: game_state_ok_def wf_event_def)

text \<open>The table of normalisers that \<^verbatim>\<open>src/cmd/marketdata/main.go\<close> builds.\<close>

definition ingestion_normalisers :: "(string \<Rightarrow> payload) \<Rightarrow> string \<rightharpoonup> normaliser" where
  "ingestion_normalisers json_text = map_of
     [(''sportradar'', SportradarNormaliser),
      (''polymarket-nba'', Polymarket_Normalise json_text
        \<lparr>n_sportID = ''basketball'', n_sportName = ''Basketball'', n_competitionID = ''nba'', n_competitionName = ''NBA''\<rparr>),
      (''polymarket-ncaab'', Polymarket_Normalise json_text
        \<lparr>n_sportID = ''basketball'', n_sportName = ''Basketball'', n_competitionID = ''ncaab'', n_competitionName = ''NCAAB''\<rparr>),
      (''polymarket-nhl'', Polymarket_Normalise json_text
        \<lparr>n_sportID = ''hockey'', n_sportName = ''Hockey'', n_competitionID = ''nhl'', n_competitionName = ''NHL''\<rparr>),
      (''polymarket-iran'', Politics_Normalise json_text
        \<lparr>n_sportID = ''politics'', n_sportName = ''Politics'', n_competitionID = ''iran'', n_competitionName = ''Iran'', n_country = ''IR''\<rparr>),
      (''nba-scores'', NBAScoreNormaliser), (''ncaab-scores'', NCAABScoreNormaliser), (''nhl-scores'', NHLScoreNormaliser),
      (''polymarket-ws-price'', WSPriceNormaliser), (''polymarket-scores'', PolymarketScoreNormaliser)]"

lemma SportradarNormaliser_wf: "SportradarNormaliser now raw = Some es \<Longrightarrow> e \<in> set es \<Longrightarrow> wf_event e"
  by (auto simp: SportradarNormaliser_def bind_eq_Some_conv wf_event_def zero_event_def)

lemma WSPriceNormaliser_wf: "WSPriceNormaliser now raw = Some es \<Longrightarrow> e \<in> set es \<Longrightarrow> wf_event e"
  by (auto simp: WSPriceNormaliser_def wf_event_def zero_event_def split: option.splits)

lemma wf_contractI:
  assumes "\<And>now raw es e. nz now raw = Some es \<Longrightarrow> e \<in> set es \<Longrightarrow> wf_event e"
  shows "normaliser_contract nz wf_event"
  by unfold_locales (fact assms, fact wf_event_published)

lemma provider_contracts:
  "normaliser_contract SportradarNormaliser wf_event" "normaliser_contract WSPriceNormaliser wf_event"
  "normaliser_contract (Polymarket_Normalise json_text n) wf_event" "normaliser_contract (Politics_Normalise json_text n') wf_event"
  "normaliser_contract NBAScoreNormaliser wf_event" "normaliser_contract NCAABScoreNormaliser wf_event"
  "normaliser_contract NHLScoreNormaliser wf_event" "normaliser_contract PolymarketScoreNormaliser wf_event"
  by (blast intro: wf_contractI SportradarNormaliser_wf WSPriceNormaliser_wf Polymarket_Normalise_wf Politics_Normalise_wf
      game_state_wf nba.norm_good ncaab.norm_good nhl.norm_good pm_scores.norm_good)+

lemma ingestion_contracts:
  assumes "ingestion_normalisers json_text p = Some nz"
  shows "normaliser_contract nz wf_event"
  using map_of_SomeD [OF assms [unfolded ingestion_normalisers_def]] unfolding list.set insert_iff empty_iff prod.inject simp_thms
  by (elim disjE conjE) (simp_all only: provider_contracts)

interpretation ingestion: normaliser_contract "CompositeNormaliser (ingestion_normalisers json_text)" wf_event
  by (rule composite_contract) (auto intro: ingestion_contracts wf_event_published)

text \<open>C13. Whatever the providers send, what is published fits the catalog: over any deliveries of
  any feed, at any times and with any failures of Kafka, each message the ingestion service appends
  is the JSON of an event whose event status, market status and market type are absent or of the
  CHECK constraints of the catalog schema; an event with a name has status SCHEDULED or LIVE, a
  game.state event with an event id has SCHEDULED, LIVE or FINISHED, and a market with a name is OPEN
  and has a type. Its feed probability is zero or between 0.02 and 0.98. The message goes to
  market-data-normalised, keyed by its market or else by its event.\<close>

theorem ingestion_publishes_wf:
  assumes "msg \<in> set (consumeFeed (CompositeNormaliser (ingestion_normalisers json_text)) ds [])"
  shows "pm_Topic msg = ''market-data-normalised'' \<and>
    (\<exists>e. marshal_event e = Some (pm_Value msg) \<and> pm_Key msg = (if ne_MarketID e = [] then ne_EventID e else ne_MarketID e) \<and>
      ne_EventStatus e \<in> {[], ''SCHEDULED'', ''LIVE'', ''FINISHED''} \<and> ne_MarketStatus e \<in> {[], ''OPEN''} \<and>
      ne_MarketType e \<in> {[], ''ML'', ''SPREAD'', ''TOTAL'', ''BINARY''} \<and>
      (ne_EventName e \<noteq> [] \<longrightarrow> ne_EventStatus e \<in> {''SCHEDULED'', ''LIVE''}) \<and>
      (ne_EventType e = ''game.state'' \<and> ne_EventID e \<noteq> [] \<longrightarrow> ne_EventStatus e \<in> {''SCHEDULED'', ''LIVE'', ''FINISHED''}) \<and>
      (ne_MarketName e \<noteq> [] \<longrightarrow> ne_MarketStatus e = ''OPEN'' \<and> ne_MarketType e \<in> {''ML'', ''SPREAD'', ''TOTAL'', ''BINARY''}) \<and>
      (ne_FeedProbability e = Fin 0 \<or>
         (fle (lit (2 / 100)) (ne_FeedProbability e) \<and> fle (ne_FeedProbability e) (lit (98 / 100)))))"
proof -
  have c: "carries wf_event msg" using assms ingestion.feed_carries [of "[]"] by auto
  then obtain e where e: "wf_event e" "marshal_event e = Some (pm_Value msg)"
    "pm_Key msg = (if ne_MarketID e = [] then ne_EventID e else ne_MarketID e)" "pm_Topic msg = ''market-data-normalised''"
    by (auto simp: carries_def)
  have "ne_FeedProbability e \<noteq> NaN"
  proof
    assume "ne_FeedProbability e = NaN"
    then have "(''feed_probability'', False, None) \<in> set (event_fields e)"
      by (simp add: event_fields_def struct_field_defs feq_def enc_float64_def)
    then have "marshal_fields (event_fields e) = None" by (rule marshal_fields_None)
    with e(2) show False by (simp add: marshal_event_def marshal_struct_def)
  qed
  then have "ne_FeedProbability e = Fin 0 \<or>
      (fle (lit (2 / 100)) (ne_FeedProbability e) \<and> fle (ne_FeedProbability e) (lit (98 / 100)))"
    using e(1) by (simp only: wf_event_def prob_ok_def simp_thms)
  with e show ?thesis unfolding wf_event_def by (intro conjI exI [of _ e]) (elim conjE, assumption)+
qed

section \<open>The main line of a game\<close>

lemma best_of_group_mem: "fst (best_of_group jt grp) = [] \<or> (\<exists>m \<in> set grp. ConditionID m = fst (best_of_group jt grp))"
proof (induction grp rule: rev_induct)
  case (snoc m grp)
  then show ?case by (auto simp: best_of_group_def split: prod.splits option.splits)
qed (simp add: best_of_group_def)

lemma flt_trans: "flt a b \<Longrightarrow> flt b c \<Longrightarrow> flt a c"
  by (auto simp: flt_def)

text \<open>The loop keeps a market at the least distance: no market of the group is strictly closer to even.\<close>

lemma best_of_group_least:
  "m \<in> set grp \<Longrightarrow> main_dist jt m = Some d \<Longrightarrow> \<not> flt d (snd (best_of_group jt grp))"
proof (induction grp rule: rev_induct)
  case (snoc m' grp)
  define best where "best = best_of_group jt grp"
  have step: "best_of_group jt (grp @ [m']) = (case main_dist jt m' of None \<Rightarrow> best
      | Some dst \<Rightarrow> if flt dst (snd best) then (ConditionID m', dst) else best)"
    by (simp add: best_of_group_def best_def split: prod.splits option.splits)
  show ?case
  proof (cases "m \<in> set grp")
    case True
    then have "\<not> flt d (snd best)" using snoc by (simp add: best_def)
    then show ?thesis using flt_trans [of d] by (auto simp: step split: option.splits)
  next
    case False
    then have "m = m'" using snoc.prems(1) by simp
    then show ?thesis using snoc.prems(2) by (auto simp: step flt_def)
  qed
qed simp

lemma main_ids:
  assumes "distinct (map ConditionID ms)" "m \<in> set ms" "allowedTypes (SportsMarketType m) = Some ty"
    and "ty \<in> {''SPREAD'', ''TOTAL''}" "ConditionID m \<in> set (computeIsMain jt ms)"
  shows "ConditionID m = fst (best_of_group jt (of_type ty ms))"
proof -
  have same: "m' = m" if "m' \<in> set ms" "ConditionID m' = ConditionID m" for m'
    using assms(1,2) that by (auto simp: distinct_map inj_on_def)
  have nin: "ConditionID m \<notin> ConditionID ` set (of_type ty' ms)" if "ty' \<noteq> ty" for ty'
    using same assms(3) that by (auto simp: of_type_def)
  have "ConditionID m = fst (best_of_group jt (of_type ty' ms))" "fst (best_of_group jt (of_type ty' ms)) \<noteq> []" if
    "ConditionID m \<in> set (let grp = of_type ty' ms in if grp = [] then [] else let bestID = fst (best_of_group jt grp)
       in if bestID \<noteq> [] then [bestID] else [])" for ty'
    using that by (auto simp: Let_def split: if_splits)
  note best = this
  have "ty' = ty" if "ConditionID m = fst (best_of_group jt (of_type ty' ms))" "fst (best_of_group jt (of_type ty' ms)) \<noteq> []" for ty'
    using nin [of ty'] best_of_group_mem [of jt "of_type ty' ms"] that by (metis imageI)
  moreover have "ty \<noteq> ''ML''" using assms(4) by auto
  then have "ConditionID m \<notin> ConditionID ` set (of_type ''ML'' ms)" using nin by metis
  then obtain ty' where "ConditionID m \<in> set (let grp = of_type ty' ms in if grp = [] then [] else
      let bestID = fst (best_of_group jt grp) in if bestID \<noteq> [] then [bestID] else [])"
    using assms(5) unfolding computeIsMain_def by auto
  from best [OF this] calculation show ?thesis by metis
qed

lemma upsert_origin:
  assumes "Polymarket_Normalise jt n now raw = Some es" "Option.bind (dec_object (rp_Data raw)) decode_Event = Some ev"
    and "e \<in> set es" "ne_IsMain e"
  obtains m where "m \<in> set (allowed_markets (Markets ev))" "ConditionID m = ne_MarketID e"
    "allowedTypes (SportsMarketType m) = Some (ne_MarketType e)" "ConditionID m \<in> set (computeIsMain jt (allowed_markets (Markets ev)))"
proof -
  have "\<not> ne_IsMain (price_update m)" for m by (simp add: price_update_def zero_event_def)
  then obtain st str m where m: "m \<in> set (allowed_markets (Markets ev))"
    "e \<in> set (market_upserts jt n ev st str (computeIsMain jt (allowed_markets (Markets ev))) m)"
    using assms by (auto simp: Polymarket_Normalise_def Let_def split: option.splits if_splits)
  then obtain u where u: "allowedTypes (SportsMarketType m) = Some u" by (auto simp: allowed_markets_def)
  have "ConditionID m = ne_MarketID e \<and> u = ne_MarketType e \<and> (ne_IsMain e \<longleftrightarrow> ConditionID m \<in> set (computeIsMain jt (allowed_markets (Markets ev))))"
    using m(2) by (auto simp: market_upserts_def u Let_def split: option.splits if_splits)
  then show thesis using that [OF m(1)] u assms(4) by blast
qed

text \<open>A game has at most one main spread and one main total: when the condition ids of an event's
  markets are distinct, any two main selections of the same type that the normaliser emits belong to
  the same market, and no other market of that type has its favourite's price closer to one half.\<close>

theorem main_line_unique:
  assumes "Polymarket_Normalise jt n now raw = Some es" "Option.bind (dec_object (rp_Data raw)) decode_Event = Some ev"
    and "distinct (map ConditionID (allowed_markets (Markets ev)))" "e \<in> set es" "e' \<in> set es"
    and "ne_IsMain e" "ne_IsMain e'" "ne_MarketType e = ne_MarketType e'" "ne_MarketType e \<in> {''SPREAD'', ''TOTAL''}"
  shows "ne_MarketID e = ne_MarketID e' \<and>
    (\<forall>m \<in> set (of_type (ne_MarketType e) (allowed_markets (Markets ev))). \<forall>d. main_dist jt m = Some d \<longrightarrow>
       \<not> flt d (snd (best_of_group jt (of_type (ne_MarketType e) (allowed_markets (Markets ev)))))) \<and>
    ne_MarketID e = fst (best_of_group jt (of_type (ne_MarketType e) (allowed_markets (Markets ev))))"
proof -
  have "ne_MarketID x = fst (best_of_group jt (of_type (ne_MarketType e) (allowed_markets (Markets ev))))"
    if x: "x \<in> set es" "ne_IsMain x" "ne_MarketType x = ne_MarketType e" for x
  proof -
    obtain m where m: "m \<in> set (allowed_markets (Markets ev))" "ConditionID m = ne_MarketID x"
      "allowedTypes (SportsMarketType m) = Some (ne_MarketType x)" "ConditionID m \<in> set (computeIsMain jt (allowed_markets (Markets ev)))"
      using upsert_origin [OF assms(1,2) x(1,2)] by blast
    from main_ids [OF assms(3) m(1,3) _ m(4)] m(2) x(3) assms(9) show ?thesis by simp
  qed
  from this [of e] this [of e'] show ?thesis using assms(4-8) best_of_group_least by auto
qed

section \<open>Subscriptions to the order book\<close>

lemma change_subscribes:
  assumes "set order = dom (byToken r)" "cc_subscribed c \<subseteq> dom (byToken r)"
  shows "cc_subscribed (handleRegistryChange order order2 f1 f2 r c) = dom (byToken r)"
proof -
  have cur: "set (AllTokenIDs order r) = dom (byToken r)" using assms(1) by (auto simp: AllTokenIDs_def)
  then show ?thesis using assms by (auto simp: handleRegistryChange_def Let_def)
qed

text \<open>A subscription that fails is not repeated: the tokens of a failed subscribe message are
  taken as subscribed, so on every later change of the registry no message names them, and prices of
  their markets do not arrive until the connection is lost.\<close>

theorem failed_subscribe_is_lost:
  assumes "set order = dom (byToken r)" "cc_subscribed c \<subseteq> dom (byToken r)" "i \<in> dom (byToken r)" "i \<notin> cc_subscribed c"
    and "c1 = handleRegistryChange order order2 True f2 r c" "r' = registry_Register es r" "set order' = dom (byToken r')"
    and "c2 = handleRegistryChange order' order2' f1' f2' r' c1"
  shows "cc_written c1 = cc_written c \<and> (\<forall>msg \<in> set (drop (length (cc_written c1)) (cc_written c2)).
      case msg of Subscribe ts \<Rightarrow> i \<notin> set ts | Unsubscribe ts \<Rightarrow> i \<notin> set ts)"
proof -
  have mono: "dom (byToken r) \<subseteq> dom (byToken r')"
  proof
    fix t assume "t \<in> dom (byToken r)"
    then have "Lookup t r' \<noteq> None" by (auto simp: assms(6) Lookup_Register Lookup_def [of t r] split: option.splits)
    then show "t \<in> dom (byToken r')" by (auto simp: Lookup_def)
  qed
  have sub1: "cc_subscribed c1 = dom (byToken r)" using change_subscribes [OF assms(1,2)] assms(5) by simp
  have unsub: "filter (\<lambda>i. i \<in> cc_subscribed c \<union> set (filter (\<lambda>i. i \<notin> cc_subscribed c) (AllTokenIDs order r)) \<and>
      i \<notin> set (AllTokenIDs order r)) order2 = []"
    using assms(1,2) by (auto simp: AllTokenIDs_def filter_empty_conv)
  have "cc_written c1 = cc_written c" unfolding assms(5) handleRegistryChange_def Let_def unsub by simp
  moreover have "\<forall>msg \<in> set (drop (length (cc_written c1)) (cc_written c2)).
      case msg of Subscribe ts \<Rightarrow> i \<notin> set ts | Unsubscribe ts \<Rightarrow> i \<notin> set ts"
  proof -
    have "byToken r' i \<noteq> None" "i \<in> cc_subscribed c1" "i \<in> set order'" using mono assms(3,7) sub1 by auto
    then show ?thesis unfolding assms(8) handleRegistryChange_def Let_def AllTokenIDs_def by auto
  qed
  ultimately show ?thesis ..
qed

theorem failed_subscribe_is_lost_witness:
  "cc_written (handleRegistryChange [''t1''] [] True False (registry_Register [token0 0] NewTokenRegistry)
     (clob_connect [] NewTokenRegistry)) = cc_written (clob_connect [] NewTokenRegistry)"
proof -
  define r where "r = registry_Register [token0 0] NewTokenRegistry"
  have d: "dom (byToken r) = {''t1''}" by (auto simp: r_def registry_Register_def NewTokenRegistry_def token0_def)
  have e: "byToken (registry_Register [] r) = byToken r" by (simp add: registry_Register_def)
  have "cc_subscribed (clob_connect [] NewTokenRegistry) = {}" by (simp add: clob_connect_def AllTokenIDs_def Let_def)
  then show ?thesis
    using failed_subscribe_is_lost [of "[''t1'']" r "clob_connect [] NewTokenRegistry" "''t1''" _ "[]" False _ "[]" "[''t1'']" _ "[]" False False]
    by (simp add: d e) (simp add: r_def)
qed

section \<open>A live price\<close>

lemma wsPrice_roundtrip:
  assumes "in_int64 (wp_SelIndex r)"
  shows "\<exists>j. marshal_wsPriceRaw r = Some j \<and> decode_wsPriceRaw (Some j) = Some r"
proof -
  define fs where "fs = [str_field ''condition_id'' (wp_ConditionID r), int_field ''sel_index'' (wp_SelIndex r),
       str_field ''price'' (wp_Price r), str_field ''provider_id'' (wp_ProviderID r)]"
  obtain kvs where kvs: "marshal_fields fs = Some kvs" by (auto simp: fs_def field_defs)
  have d: "distinct (map (strings_ToLower \<circ> fst) fs)"
    by (simp add: fs_def field_defs strings_ToLower_def lower_char_def)
  note rt = decode_marshalled [OF kvs d] decode_field_of [OF kvs d]
  have "decode_field dec_string ''condition_id'' [] kvs = Some (wp_ConditionID r)"
    "decode_field dec_int64 ''sel_index'' 0 kvs = Some (wp_SelIndex r)" "decode_field dec_string ''price'' [] kvs = Some (wp_Price r)"
    "decode_field dec_string ''provider_id'' [] kvs = Some (wp_ProviderID r)"
    using assms by (simp_all add: rt(1-7) fs_def)
  then have "decode_wsPriceRaw (Some (JObj kvs)) = Some r" by (simp add: decode_wsPriceRaw_def dec_object_def)
  then show ?thesis using kvs by (simp add: marshal_wsPriceRaw_def marshal_struct_def fs_def)
qed

text \<open>A live price is not carried: a price change of a known token becomes a price.update of its
  market that holds no price and no probability, so the price the order book reported reaches none of
  the consumers of the topic.\<close>

theorem live_price_dropped:
  assumes "Lookup (AssetID ev) r = Some entry" "cw_EventType ev = ''price_change''" "AssetID ev \<noteq> []" "cw_Price ev \<noteq> []"
    and "in_int64 (SelIndex entry)" "decode_clob msg = Some [ev]" "ws_text msg \<noteq> ''PONG''" "length ch < 128"
  shows "\<exists>raw. price_handleMessage r now msg ch = ch @ [raw] \<and>
    WSPriceNormaliser now' raw = Some [zero_event\<lparr>ne_EventType := ''price.update'', ne_ProviderID := ''polymarket'',
      ne_MarketID := te_ConditionID entry\<rparr>]"
proof -
  define p where "p = \<lparr>wp_ConditionID = te_ConditionID entry, wp_SelIndex = SelIndex entry, wp_Price = cw_Price ev,
    wp_ProviderID = te_ProviderID entry\<rparr>"
  obtain j where "marshal_wsPriceRaw p = Some j" "decode_wsPriceRaw (Some j) = Some p"
    using wsPrice_roundtrip [of p] assms(5) by (auto simp: p_def)
  moreover have "price_event r ev = Some p" using assms(1-4) by (simp add: price_event_def p_def)
  ultimately show ?thesis
    using assms(6-8) by (simp add: price_handleMessage_def try_send_def WSPriceNormaliser_def p_def)
qed

theorem live_price_dropped_witness:
  "\<exists>raw. price_handleMessage (registry_Register [token0 1] NewTokenRegistry) 5
       \<lparr>ws_text = ''{'', ws_json = Some (JObj [(''event_type'', JStr ''price_change''), (''asset_id'', JStr ''t1''), (''price'', JStr ''0.6'')])\<rparr> [] = [raw] \<and>
     WSPriceNormaliser 6 raw = Some [zero_event\<lparr>ne_EventType := ''price.update'', ne_ProviderID := ''polymarket'', ne_MarketID := ''c1''\<rparr>]"
  using live_price_dropped [of "\<lparr>cw_EventType = ''price_change'', AssetID = ''t1'', cw_Price = ''0.6''\<rparr>"
      "registry_Register [token0 1] NewTokenRegistry" "token0 1"
      "\<lparr>ws_text = ''{'', ws_json = Some (JObj [(''event_type'', JStr ''price_change''), (''asset_id'', JStr ''t1''), (''price'', JStr ''0.6'')])\<rparr>" "[]" 5 6]
  by (simp add: Lookup_Register token0_def decode_clob_def decode_clobWSEvent_def json_simps fold_eq_def strings_ToLower_def lower_char_def
      in_int64_def)

definition spread_market :: pm_Market where
  "spread_market = zero_Market\<lparr>ConditionID := ''c1'', SportsMarketType := ''spreads'', Outcomes := ''O'',
     OutcomePrices := ''P'', GameStartTime := ''2026-03-01T12:00:00Z'', mk_Active := True\<rparr>"

definition spread_event :: pm_Event where
  "spread_event = \<lparr>ev_ID = ''e1'', ev_Slug = ''nba-x'', Title = ''Nets vs. Pistons'', ev_Active = True, ev_Closed = False,
     Markets = [spread_market]\<rparr>"

definition two_texts :: "string \<Rightarrow> payload" where
  "two_texts s = (if s = ''O'' then Some (JArr [JStr ''Nets'', JStr ''Pistons'']) else Some (JArr [JStr ''0'', JStr ''0'']))"

lemma spread_start: "gameStartTime [spread_market] \<noteq> None"
  by (simp add: spread_market_def game_layouts_def time_Parse_def take_num_def take_hour_def take_lit_def take_fraction_def zone_hh_def
      zone_hhmm_def zone_Z_def take_zone_def is_digit_def digits_val_def digit_val_def Let_def month_days_def is_leap_def zero_Market_def)

lemma half_dist: "finite_f (math_Abs (fsub (Fin 0) (Fin (1 / 2)))) \<and> rv (math_Abs (fsub (Fin 0) (Fin (1 / 2)))) \<le> 1"
proof -
  have "\<bar>fl (- (1 / 2))\<bar> \<le> 1" using representable_powi [of 0] by (intro fl_abs_le) simp_all
  moreover have "finite_f (fsub (Fin 0) (Fin (1 / 2)))" "rv (fsub (Fin 0) (Fin (1 / 2))) = fl (- (1 / 2))"
    using fsub_finite [of "Fin 0" "Fin (1 / 2)"] two_powi_mono [of 0 1000] by simp_all
  ultimately show ?thesis by (cases "fsub (Fin 0) (Fin (1 / 2))") (auto simp: math_Abs_def)
qed

lemma spread_best: "fst (best_of_group two_texts [spread_market]) = ''c1''"
proof -
  have z: "ParseFloat_value ''0'' = Fin 0"
    by (simp add: ParseFloat_value_def is_inf_name_def strings_ToLower_def lower_char_def parse_decimal_def parse_mantissa_def is_digit_def
        parse_exponent_def digits_val_def digit_val_def Let_def rnd_def)
  have d: "main_dist two_texts spread_market = Some (math_Abs (fsub (Fin 0) (Fin (1 / 2))))"
    by (simp add: main_dist_def ParseOutcomePrices_def unmarshal_strings_def two_texts_def spread_market_def zero_Market_def dec_slice_def
        dec_string_def max_prob_def z flt_def)
  have "(1::real) < (2 - 2 powi (- 52)) * 2 ^ 1023"
  proof -
    have "(2::real) powi (- 52) \<le> 2 powi 0" by (rule two_powi_mono) simp
    then have "1 * 2 \<le> (2 - 2 powi (- 52)) * (2::real) ^ 1023" by (intro mult_mono) (simp_all add: self_le_power)
    then show ?thesis by simp
  qed
  then have "flt (math_Abs (fsub (Fin 0) (Fin (1 / 2)))) MaxFloat64"
    using half_dist by (simp add: flt_finite MaxFloat64_def)
  then show ?thesis by (simp add: best_of_group_def d) (simp add: spread_market_def)
qed

definition spread_raw :: RawProviderEvent where
  "spread_raw = \<lparr>rp_ProviderID = ''polymarket-nba'', rp_Data = Some (JObj [(''id'', JStr ''e1''), (''slug'', JStr ''nba-x''),
     (''title'', JStr ''Nets vs. Pistons''), (''active'', JBool True), (''markets'', JArr [JObj [(''conditionId'', JStr ''c1''),
       (''sportsMarketType'', JStr ''spreads''), (''outcomes'', JStr ''O''), (''outcomePrices'', JStr ''P''),
       (''gameStartTime'', JStr ''2026-03-01T12:00:00Z''), (''active'', JBool True)]])]), rp_ReceivedAt = 0\<rparr>"

lemma spread_decoded: "Option.bind (dec_object (rp_Data spread_raw)) decode_Event = Some spread_event"
  by (simp add: spread_raw_def spread_event_def spread_market_def zero_Market_def decode_Event_def decode_Market_def dec_slice_def
      dec_struct_def json_simps fold_eq_def strings_ToLower_def lower_char_def)

definition nba_normaliser :: PolymarketNormaliser where
  "nba_normaliser = \<lparr>n_sportID = ''basketball'', n_sportName = ''Basketball'', n_competitionID = ''nba'', n_competitionName = ''NBA''\<rparr>"

theorem main_line_unique_witness:
  "\<exists>now es e. Polymarket_Normalise two_texts nba_normaliser now spread_raw = Some es \<and> e \<in> set es \<and> ne_IsMain e \<and>
     ne_MarketType e = ''SPREAD'' \<and> ne_MarketID e = fst (best_of_group two_texts (of_type ''SPREAD'' [spread_market]))"
proof -
  obtain t where t: "gameStartTime [spread_market] = Some t" using spread_start by blast
  have al: "allowed_markets [spread_market] = [spread_market]" "of_type ''SPREAD'' [spread_market] = [spread_market]"
    "of_type ''ML'' [spread_market] = []" "of_type ''TOTAL'' [spread_market] = []"
    by (simp_all add: allowed_markets_def of_type_def spread_market_def zero_Market_def allowedTypes_def)
  have main: "computeIsMain two_texts [spread_market] = [''c1'']"
    using spread_best by (simp add: computeIsMain_def al Let_def)
  have m: "Markets spread_event = [spread_market]" by (simp add: spread_event_def)
  obtain es where es: "Polymarket_Normalise two_texts nba_normaliser t spread_raw = Some es"
    "set (market_upserts two_texts nba_normaliser spread_event ''LIVE'' (format_rfc3339 False t) [''c1''] spread_market) \<subseteq> set es"
    by (simp add: Polymarket_Normalise_def spread_decoded m t al main Let_def hour_def second_def lookAheadDays_def subset_insertI
        del: gameStartTime.simps)
  obtain e where e: "e \<in> set es" "ne_IsMain e" "ne_MarketType e = ''SPREAD''"
    using es(2) by (auto simp: market_upserts_def spread_market_def zero_Market_def ParseOutcomes_def ParseOutcomePrices_def
        unmarshal_strings_def two_texts_def dec_slice_def dec_string_def allowedTypes_def buildSelections_def Let_def enumerate_simps
        split: prod.splits)
  show ?thesis
    using main_line_unique [OF es(1) spread_decoded _ e(1) e(1) e(2) e(2)] e es(1) by (auto simp: m al)
qed

section \<open>A game in play and a binary market\<close>

text \<open>What a feed publishes without faults stays in the log.\<close>

lemma publish_events_keeps: "set kafka \<subseteq> set (publish_events (\<lambda>_. (now, no_faults)) es kafka)"
proof -
  have "set kafka \<subseteq> set (foldl (\<lambda>kafka (i :: nat, e). snd (ingestion_publish no_faults now e kafka)) kafka (enumerate k es))" for k
  proof (induction es arbitrary: kafka k)
    case (Cons e es)
    have "set kafka \<subseteq> set (snd (ingestion_publish no_faults now e kafka))"
      by (auto simp: ingestion_publish_def Let_def split: option.splits)
    then show ?case using Cons.IH [of "snd (ingestion_publish no_faults now e kafka)" "Suc k"] by (simp add: enumerate_simps(2))
  qed simp
  then show ?thesis by (simp add: publish_events_def)
qed

lemma publish_events_append: "publish_events (\<lambda>_. c) (es @ es') kafka = publish_events (\<lambda>_. c) es' (publish_events (\<lambda>_. c) es kafka)"
proof -
  have "foldl (\<lambda>kafka (i :: nat, e). snd (ingestion_publish (snd c) (fst c) e kafka)) kafka (enumerate k es) =
      foldl (\<lambda>kafka e. snd (ingestion_publish (snd c) (fst c) e kafka)) kafka es" for k kafka es
    by (induction es arbitrary: k kafka) (simp_all add: enumerate_simps(2))
  then show ?thesis by (simp add: publish_events_def)
qed

lemma publish_events_in:
  assumes "e \<in> set es" "marshal_event (e\<lparr>ne_PublishedAt := format_rfc3339 True now\<rparr>) = Some data"
  shows "event_message (e\<lparr>ne_PublishedAt := format_rfc3339 True now\<rparr>) data \<in> set (publish_events (\<lambda>_. (now, no_faults)) es kafka)"
proof -
  obtain es1 es2 where es: "es = (es1 @ [e]) @ es2" using assms(1) by (auto simp: in_set_conv_decomp)
  have "event_message (e\<lparr>ne_PublishedAt := format_rfc3339 True now\<rparr>) data \<in> set (publish_events (\<lambda>_. (now, no_faults)) (es1 @ [e]) kafka)"
    using assms(2) by (simp only: publish_events_append) (simp add: publish_events_def ingestion_publish_def enumerate_simps Let_def)
  then show ?thesis unfolding es publish_events_append using publish_events_keeps by blast
qed

definition live_raw :: RawProviderEvent where
  "live_raw = \<lparr>rp_ProviderID = ''polymarket-scores'', rp_Data = Some (JObj [(''event_id'', JStr ''g1''),
     (''result'', JObj [(''score'', JStr ''3-16''), (''live'', JBool True)])]), rp_ReceivedAt = 0\<rparr>"

definition live_state :: NormalisedMarketEvent where
  "live_state = zero_event\<lparr>ne_EventType := ''game.state'', ne_ProviderID := ''polymarket-scores'', ne_EventID := ''g1'',
     ne_EventStatus := ''LIVE'', ne_HomeScore := 3, ne_AwayScore := 16\<rparr>"

definition binary_raw :: RawProviderEvent where
  "binary_raw = \<lparr>rp_ProviderID = ''polymarket-iran'', rp_Data = Some (JObj [(''id'', JStr ''e2''), (''title'', JStr ''Ceasefire''),
     (''markets'', JArr [JObj [(''conditionId'', JStr ''c2''), (''question'', JStr ''By March?''), (''outcomePrices'', JStr ''P''),
       (''endDate'', JStr ''2026-03-01T12:00:00Z''), (''active'', JBool True)]])]), rp_ReceivedAt = 0\<rparr>"

definition binary_market :: pm_Market where
  "binary_market = zero_Market\<lparr>ConditionID := ''c2'', Question := ''By March?'', OutcomePrices := ''P'',
     EndDate := ''2026-03-01T12:00:00Z'', mk_Active := True\<rparr>"

definition feed_calls :: "delivery list" where
  "feed_calls = [\<lparr>dl_raw = live_raw, dl_now = 0, dl_pub = (\<lambda>_. (0, no_faults))\<rparr>,
     \<lparr>dl_raw = binary_raw, dl_now = 1772366400000000000, dl_pub = (\<lambda>_. (0, no_faults))\<rparr>]"

definition half_texts :: "string \<Rightarrow> payload" where
  "half_texts s = Some (JArr [JStr ''0.5'', JStr ''0.5''])"

lemma half_price: "ParseFloat_value ''0.5'' = Fin (1 / 2)"
proof -
  have "fl (1 / 2) = 1 / 2" using fl_exact [OF representable_powi [of "- 1"]] by (simp add: power_int_def)
  then show ?thesis
    by (simp add: ParseFloat_value_def is_inf_name_def strings_ToLower_def lower_char_def parse_decimal_def parse_mantissa_def is_digit_def
        parse_exponent_def digits_val_def digit_val_def Let_def rnd_def)
qed

lemma half_clamped: "clampProb (Fin (1 / 2)) = Fin (1 / 2)"
proof -
  have l: "finite_f (lit r) \<and> rv (lit r) = fl r" if "\<bar>r\<bar> \<le> 1" for r
  proof -
    have "\<bar>r\<bar> \<le> 2 powi 1000" using that two_powi_mono [of 0 1000] by simp
    then show ?thesis using lit_finite by blast
  qed
  have h: "fl (1 / 2) = 1 / 2" using fl_exact [OF representable_powi [of "- 1"]] by (simp add: power_int_def)
  have "fl (2 / 100) \<le> 1 / 2" "1 / 2 \<le> fl (98 / 100)" using fl_mono [of "2 / 100" "1 / 2"] fl_mono [of "1 / 2" "98 / 100"] h by simp_all
  then show ?thesis using l [of "2 / 100"] l [of "98 / 100"] by (simp add: clampProb_def flt_finite)
qed

definition yes_event :: NormalisedMarketEvent where
  "yes_event = zero_event\<lparr>ne_EventType := ''catalog.upsert'', ne_ProviderID := ''polymarket'', ne_SportID := ''politics'',
     ne_SportName := ''Politics'', ne_CompetitionID := ''iran'', ne_CompetitionName := ''Iran'', ne_Country := ''IR'', ne_EventID := ''e2'',
     ne_EventName := ''Ceasefire'', ne_StartsAt := format_rfc3339 False 1772366400000000000, ne_EventStatus := ''SCHEDULED'',
     ne_MarketID := ''c2'', ne_MarketName := ''By March?'', ne_MarketType := ''BINARY'', ne_MarketStatus := ''OPEN'',
     ne_TargetValue := Fin 0, ne_IsMain := True, ne_ClosesAt := format_rfc3339 False 1772366400000000000,
     ne_SelectionID := sel_id binary_market 0, ne_SelectionName := ''Yes'', ne_SelActive := True, ne_SelTargetValue := Fin 0,
     ne_FeedProbability := Fin (1 / 2)\<rparr>"

lemma binary_end: "parseEndDate ''2026-03-01T12:00:00Z'' = Some 1772366400000000000"
  by (simp add: parseEndDate_def parse_rfc3339_def time_Parse_def take_num_def take_hour_def take_lit_def take_fraction_def zone_hh_def
      zone_hhmm_def zone_Z_def take_zone_def is_digit_def digits_val_def digit_val_def Let_def month_days_def is_leap_def
      day_number_def unix_epoch_days_def second_def days_before_year_def month_starts_def)

lemma live_normalised: "CompositeNormaliser (ingestion_normalisers half_texts) 0 live_raw = Some [live_state]"
proof -
  have "parseScore ''3-16'' = (3, 16)"
    using SplitN2_char [of "CHR ''-''" "''3''" "''16''"]
    by (simp add: parseScore_def strings_TrimSpace_def is_space_def atoi_value_def parse_signed_def parse_nat_def is_digit_def digits_val_def digit_val_def Let_def)
  then show ?thesis
    by (simp add: CompositeNormaliser_def ingestion_normalisers_def live_raw_def PolymarketScoreNormaliser_def decode_PolymarketScoreRaw_def
        decode_SportResult_def zero_SportResult_def dec_struct_def json_simps fold_eq_def strings_ToLower_def lower_char_def live_state_def zero_event_def)
qed

lemma binary_decoded: "Option.bind (dec_object (rp_Data binary_raw)) decode_Event =
    Some (zero_Event\<lparr>ev_ID := ''e2'', Title := ''Ceasefire'', Markets := [binary_market]\<rparr>)"
  by (simp add: binary_raw_def zero_Event_def binary_market_def zero_Market_def decode_Event_def decode_Market_def dec_slice_def
      dec_struct_def json_simps fold_eq_def strings_ToLower_def lower_char_def)

lemma binary_normalised:
  "\<exists>es. CompositeNormaliser (ingestion_normalisers half_texts) 1772366400000000000 binary_raw = Some es \<and> yes_event \<in> set es"
proof -
  have o: "open_binary [binary_market] = [binary_market]"
    by (simp add: open_binary_def binary_market_def zero_Market_def)
  have "(1772366400000000000 :: int) < year_9999"
    by (simp add: year_9999_def day_number_def unix_epoch_days_def days_before_year_def month_starts_def is_leap_def second_def)
  then have sn: "soonest_end [binary_market] = (1772366400000000000, Some binary_market)"
    by (simp add: soonest_end_def) (simp add: binary_market_def binary_end)
  have z: "zero_Time < 1772366400000000000" by (simp add: zero_Time_def unix_epoch_days_def second_def)
  have p: "ParseOutcomePrices half_texts binary_market = Some [''0.5'', ''0.5'']"
    by (simp add: ParseOutcomePrices_def unmarshal_strings_def half_texts_def dec_slice_def dec_string_def)
  have "yes_event \<in> set (binary_upserts half_texts n (zero_Event\<lparr>ev_ID := ''e2'', Title := ''Ceasefire'', Markets := [binary_market]\<rparr>)
      (format_rfc3339 False 1772366400000000000) (ConditionID binary_market) binary_market)"
    if "n = \<lparr>n_sportID = ''politics'', n_sportName = ''Politics'', n_competitionID = ''iran'', n_competitionName = ''Iran'', n_country = ''IR''\<rparr>" for n
    by (simp add: binary_upserts_def p half_price half_clamped Let_def)
      (simp add: yes_event_def that zero_Event_def binary_market_def zero_Market_def binary_end)
  then show ?thesis
    using z by (simp add: CompositeNormaliser_def ingestion_normalisers_def Politics_Normalise_def binary_decoded o findEarliestEnd_def sn
        lookAheadDays_def hour_def second_def Let_def) (simp add: binary_raw_def)
qed

text \<open>The events of a live game and of a market at one half are published.\<close>

theorem ingestion_publishes_wf_witness:
  "\<exists>m1 m2 e1 e2. {m1, m2} \<subseteq> set (consumeFeed (CompositeNormaliser (ingestion_normalisers half_texts)) feed_calls []) \<and>
     marshal_event e1 = Some (pm_Value m1) \<and> ne_EventType e1 = ''game.state'' \<and> ne_EventStatus e1 = ''LIVE'' \<and> pm_Key m1 = ''g1'' \<and>
     marshal_event e2 = Some (pm_Value m2) \<and> ne_EventStatus e2 = ''SCHEDULED'' \<and> ne_MarketStatus e2 = ''OPEN'' \<and>
     ne_MarketType e2 = ''BINARY'' \<and> ne_FeedProbability e2 = Fin (1 / 2) \<and> pm_Key m2 = ''c2'' \<and>
     pm_Topic m1 = ''market-data-normalised'' \<and> pm_Topic m2 = ''market-data-normalised''"
proof -
  let ?N = "CompositeNormaliser (ingestion_normalisers half_texts)" and ?t = "format_rfc3339 True 0"
  have "plain_float (Fin 0)" "plain_float (Fin (1 / 2))"
    using fl_exact [OF representable_powi [of "- 1"]] by (simp_all add: plain_float_def is_float64_def power_int_def)
  then have ok: "event_ok (live_state\<lparr>ne_PublishedAt := ?t\<rparr>)" "event_ok (yes_event\<lparr>ne_PublishedAt := ?t\<rparr>)"
    by (simp_all add: event_ok_def live_state_def yes_event_def zero_event_def in_int64_def)
  obtain d1 where d1: "marshal_event (live_state\<lparr>ne_PublishedAt := ?t\<rparr>) = Some d1"
    using marshal_event_total [OF ok(1)] by (auto simp: marshal_event_def marshal_struct_def)
  obtain d2 where d2: "marshal_event (yes_event\<lparr>ne_PublishedAt := ?t\<rparr>) = Some d2"
    using marshal_event_total [OF ok(2)] by (auto simp: marshal_event_def marshal_struct_def)
  obtain es where es: "?N 1772366400000000000 binary_raw = Some es" "yes_event \<in> set es" using binary_normalised by blast
  let ?m1 = "event_message (live_state\<lparr>ne_PublishedAt := ?t\<rparr>) d1" and ?m2 = "event_message (yes_event\<lparr>ne_PublishedAt := ?t\<rparr>) d2"
  have log: "consumeFeed ?N feed_calls [] = publish_events (\<lambda>_. (0, no_faults)) es (publish_events (\<lambda>_. (0, no_faults)) [live_state] [])"
    by (simp add: feed_calls_def live_normalised es(1))
  have one: "publish_events (\<lambda>_. (0, no_faults)) [live_state] [] = [?m1]"
    by (simp add: publish_events_def ingestion_publish_def enumerate_simps Let_def d1)
  have m1: "?m1 \<in> set (consumeFeed ?N feed_calls [])" unfolding log one using publish_events_keeps by fastforce
  have m2: "?m2 \<in> set (consumeFeed ?N feed_calls [])" unfolding log by (rule publish_events_in [OF es(2) d2])
  have "pm_Topic ?m1 = ''market-data-normalised''" "pm_Topic ?m2 = ''market-data-normalised''"
    using ingestion_publishes_wf [OF m1] ingestion_publishes_wf [OF m2] by blast+
  then show ?thesis
    using m1 m2 d1 d2 by (intro exI [of _ ?m1] exI [of _ ?m2] exI [of _ "live_state\<lparr>ne_PublishedAt := ?t\<rparr>"]
        exI [of _ "yes_event\<lparr>ne_PublishedAt := ?t\<rparr>"]) (simp add: event_message_def live_state_def yes_event_def zero_event_def)
qed

end
