(* ===== verification/FeedSockets.thy ===== *)
theory FeedSockets
  imports Polymarket "HOL-Library.Sublist"
begin

text \<open>
  The two socket feeds as concurrent programs (\<^verbatim>\<open>run\<close> and \<^verbatim>\<open>connectAndStream\<close> of
  \<^verbatim>\<open>src/internal/marketdata/polymarket_price_feed.go\<close> and \<^verbatim>\<open>polymarket_score_feed.go\<close>): the
  loop that connects, streams and backs off, the goroutine that reads the socket, the three channels
  between them and the consumer of the feed. The two programs have the same shape, which is written
  once over a \<open>feed_kind\<close>: what connecting does, what the extra cases of the select do (the ping
  ticker and the registry signal) and what handling a message does and sends. The socket, the clock
  and the registry act through the environment \<open>'e\<close> of a step, so any behaviour of them is allowed.

  Shown: in every interleaving the buffers stay within their capacities and the reader never blocks,
  messages are handled and events delivered in order with nothing made up, a stopped feed handles
  nothing more, and the waits between connections double up to a minute and are never reset.
\<close>

section \<open>A socket feed\<close>

record ('e, 'c) feed_kind =
  fk_cap :: nat
  fk_ready :: "'e \<Rightarrow> bool"
  fk_connect :: "'e \<Rightarrow> 'c option"
  fk_select :: "'e \<Rightarrow> 'c \<Rightarrow> 'c option"
  fk_message :: "'e \<Rightarrow> ws_message \<Rightarrow> 'c \<Rightarrow> 'c"
  fk_produce :: "'e \<Rightarrow> ws_message \<Rightarrow> RawProviderEvent list"

datatype phase = Waiting | Dialling | Streaming | BackingOff | Stopped

text \<open>\<open>errCh\<close> counts the errors in the error channel. The last four fields record the history: the
  messages the readers received, those the loop handled with the environment of the handling, the
  events the consumer took, and the waits between connections.\<close>

record ('e, 'c) feed =
  phase_of :: phase
  msgCh :: "ws_message list"
  errCh :: nat
  reading :: bool
  conn_of :: 'c
  events_ch :: "RawProviderEvent list"
  backoff :: time
  fd_read :: "ws_message list"
  fd_handled :: "('e \<times> ws_message) list"
  fd_taken :: "RawProviderEvent list"
  fd_waits :: "time list"

definition NewFeed :: "'c \<Rightarrow> ('e, 'c) feed" where
  "NewFeed c = \<lparr>phase_of = Waiting, msgCh = [], errCh = 0, reading = False, conn_of = c, events_ch = [], backoff = second,
     fd_read = [], fd_handled = [], fd_taken = [], fd_waits = []\<rparr>"

definition connection_lost :: "('e, 'c) feed \<Rightarrow> ('e, 'c) feed" where
  "connection_lost f = f\<lparr>phase_of := BackingOff, msgCh := [], reading := False\<rparr>"

definition feed_connect :: "('e, 'c) feed_kind \<Rightarrow> 'e \<Rightarrow> ('e, 'c) feed \<Rightarrow> ('e, 'c) feed" where
  "feed_connect k e f =
     (case fk_connect k e of
        None \<Rightarrow> connection_lost f
      | Some c \<Rightarrow> f\<lparr>phase_of := Streaming, msgCh := [], errCh := 0, reading := True, conn_of := c\<rparr>)"

text \<open>The reader goroutine; both its sends are to buffered channels.\<close>

definition msg_buf :: nat where
  "msg_buf = 64"

definition read_message :: "ws_message \<Rightarrow> ('e, 'c) feed \<Rightarrow> ('e, 'c) feed" where
  "read_message m f = f\<lparr>msgCh := try_send msg_buf m (msgCh f), fd_read := fd_read f @ [m]\<rparr>"

definition read_error :: "('e, 'c) feed \<Rightarrow> ('e, 'c) feed" where
  "read_error f = f\<lparr>errCh := errCh f + 1, reading := False\<rparr>"

definition handle_message :: "('e, 'c) feed_kind \<Rightarrow> 'e \<Rightarrow> ('e, 'c) feed \<Rightarrow> ('e, 'c) feed" where
  "handle_message k e f =
     (case msgCh f of
        [] \<Rightarrow> f
      | m # ms \<Rightarrow> f\<lparr>msgCh := ms, conn_of := fk_message k e m (conn_of f),
          events_ch := foldl (\<lambda>ch x. try_send (fk_cap k) x ch) (events_ch f) (fk_produce k e m),
          fd_handled := fd_handled f @ [(e, m)]\<rparr>)"

definition select_other :: "('e, 'c) feed_kind \<Rightarrow> 'e \<Rightarrow> ('e, 'c) feed \<Rightarrow> ('e, 'c) feed" where
  "select_other k e f =
     (case fk_select k e (conn_of f) of None \<Rightarrow> connection_lost f | Some c \<Rightarrow> f\<lparr>conn_of := c\<rparr>)"

definition back_off :: "('e, 'c) feed \<Rightarrow> ('e, 'c) feed" where
  "back_off f = f\<lparr>phase_of := Dialling, fd_waits := fd_waits f @ [backoff f], backoff := next_backoff (backoff f)\<rparr>"

definition feed_stop :: "('e, 'c) feed \<Rightarrow> ('e, 'c) feed" where
  "feed_stop f = f\<lparr>phase_of := Stopped, msgCh := [], reading := False\<rparr>"

definition take_event :: "('e, 'c) feed \<Rightarrow> ('e, 'c) feed" where
  "take_event f = (case events_ch f of [] \<Rightarrow> f | x # xs \<Rightarrow> f\<lparr>events_ch := xs, fd_taken := fd_taken f @ [x]\<rparr>)"

inductive feed_step_at :: "('e, 'c) feed_kind \<Rightarrow> 'e \<Rightarrow> ('e, 'c) feed \<Rightarrow> ('e, 'c) feed \<Rightarrow> bool" for k e where
  registry_ready: "phase_of f = Waiting \<Longrightarrow> fk_ready k e \<Longrightarrow> feed_step_at k e f (f\<lparr>phase_of := Dialling\<rparr>)"
| connects: "phase_of f = Dialling \<Longrightarrow> feed_step_at k e f (feed_connect k e f)"
| reads: "phase_of f = Streaming \<Longrightarrow> reading f \<Longrightarrow> feed_step_at k e f (read_message m f)"
| read_fails: "phase_of f = Streaming \<Longrightarrow> reading f \<Longrightarrow> feed_step_at k e f (read_error f)"
| sees_error: "phase_of f = Streaming \<Longrightarrow> 0 < errCh f \<Longrightarrow> feed_step_at k e f (connection_lost f)"
| handles: "phase_of f = Streaming \<Longrightarrow> msgCh f \<noteq> [] \<Longrightarrow> feed_step_at k e f (handle_message k e f)"
| selects: "phase_of f = Streaming \<Longrightarrow> feed_step_at k e f (select_other k e f)"
| waits: "phase_of f = BackingOff \<Longrightarrow> feed_step_at k e f (back_off f)"
| cancels: "feed_step_at k e f (feed_stop f)"
| takes: "events_ch f \<noteq> [] \<Longrightarrow> feed_step_at k e f (take_event f)"

inductive_cases feed_step_atE: "feed_step_at k e f f'"

text \<open>A step in some environment.\<close>

definition feed_step :: "('e, 'c) feed_kind \<Rightarrow> ('e, 'c) feed \<Rightarrow> ('e, 'c) feed \<Rightarrow> bool" where
  "feed_step k f f' \<longleftrightarrow> (\<exists>e. feed_step_at k e f f')"

lemma feed_stepI: "feed_step_at k e f f' \<Longrightarrow> feed_step k f f'"
  unfolding feed_step_def by blast

section \<open>The two feeds\<close>

datatype price_select = PingTick | RegistryChanged

record price_env =
  pv_registry :: TokenRegistry
  pv_order :: "string list"
  pv_order2 :: "string list"
  pv_now :: time
  pv_case :: price_select
  pv_dial_fails :: bool
  pv_write_fails :: bool
  pv_unsub_fails :: bool

definition price_connect :: "price_env \<Rightarrow> clob_conn option" where
  "price_connect e = (if pv_dial_fails e then None else if pv_write_fails e then None else Some (clob_connect (pv_order e) (pv_registry e)))"

definition price_select_case :: "price_env \<Rightarrow> clob_conn \<Rightarrow> clob_conn option" where
  "price_select_case e c =
     (case pv_case e of
        PingTick \<Rightarrow> if pv_write_fails e then None else Some c
      | RegistryChanged \<Rightarrow> Some (handleRegistryChange (pv_order e) (pv_order2 e) (pv_write_fails e) (pv_unsub_fails e) (pv_registry e) c))"

definition price_raw :: "time \<Rightarrow> json \<Rightarrow> RawProviderEvent" where
  "price_raw now data = \<lparr>rp_ProviderID = ''polymarket-ws-price'', rp_Data = Some data, rp_ReceivedAt = now\<rparr>"

definition price_produce :: "price_env \<Rightarrow> ws_message \<Rightarrow> RawProviderEvent list" where
  "price_produce e msg =
     (if ws_text msg = ''PONG'' then []
      else case decode_clob msg of None \<Rightarrow> []
        | Some evs \<Rightarrow> List.map_filter (\<lambda>ev. map_option (price_raw (pv_now e)) (Option.bind (price_event (pv_registry e) ev) marshal_wsPriceRaw)) evs)"

definition price_feed :: "(price_env, clob_conn) feed_kind" where
  "price_feed = \<lparr>fk_cap = 128, fk_ready = (\<lambda>e. registry_Len (pv_order e) (pv_registry e) \<noteq> 0), fk_connect = price_connect,
     fk_select = price_select_case, fk_message = (\<lambda>_ _ c. c), fk_produce = price_produce\<rparr>"

record score_env =
  sv_matcher :: EventMatcher
  sv_order :: "string list"
  sv_now :: time
  sv_dial_fails :: bool
  sv_pong_fails :: bool

text \<open>The connection of the score feed counts the pongs written to it; its select has no other case.\<close>

definition score_result :: "score_env \<Rightarrow> ws_message \<Rightarrow> score_socket" where
  "score_result e msg = score_handleMessage (sv_order e) (sv_matcher e) (sv_now e) (sv_pong_fails e) msg \<lparr>ss_ch = [], ss_pongs = 0\<rparr>"

definition score_feed :: "(score_env, nat) feed_kind" where
  "score_feed = \<lparr>fk_cap = 64, fk_ready = (\<lambda>_. True), fk_connect = (\<lambda>e. if sv_dial_fails e then None else Some 0),
     fk_select = (\<lambda>_ c. Some c), fk_message = (\<lambda>e m c. c + ss_pongs (score_result e m)), fk_produce = (\<lambda>e m. ss_ch (score_result e m))\<rparr>"

text \<open>What a kind sends is what the message handlers of the two feeds send.\<close>

lemma try_send_map_filter:
  "foldl (\<lambda>ch x. case f x of None \<Rightarrow> ch | Some y \<Rightarrow> try_send n (g y) ch) ch xs =
   foldl (\<lambda>ch x. try_send n x ch) ch (List.map_filter (\<lambda>x. map_option g (f x)) xs)"
  by (induction xs arbitrary: ch) (auto simp: List.map_filter_simps split: option.splits)

lemma price_produce_handles:
  "foldl (\<lambda>ch x. try_send 128 x ch) ch (price_produce e msg) = price_handleMessage (pv_registry e) (pv_now e) msg ch"
proof -
  have f: "foldl (\<lambda>ch ev. case Option.bind (price_event (pv_registry e) ev) marshal_wsPriceRaw of None \<Rightarrow> ch
      | Some data \<Rightarrow> try_send 128 (price_raw (pv_now e) data) ch) ch evs =
    foldl (\<lambda>ch x. try_send 128 x ch) ch (List.map_filter (\<lambda>ev. map_option (price_raw (pv_now e))
      (Option.bind (price_event (pv_registry e) ev) marshal_wsPriceRaw)) evs)" for evs
    by (rule try_send_map_filter)
  show ?thesis unfolding price_produce_def price_handleMessage_def price_raw_def [symmetric]
    by (cases "decode_clob msg") (simp_all flip: f)
qed

lemma score_produce_handles:
  "score_handleMessage (sv_order e) (sv_matcher e) (sv_now e) (sv_pong_fails e) msg \<lparr>ss_ch = ch, ss_pongs = n\<rparr> =
   \<lparr>ss_ch = foldl (\<lambda>ch x. try_send 64 x ch) ch (ss_ch (score_result e msg)), ss_pongs = n + ss_pongs (score_result e msg)\<rparr>"
  by (auto simp: score_result_def score_handleMessage_def try_send_def split: option.splits prod.splits)

section \<open>Every interleaving\<close>

definition feed_inv :: "('e, 'c) feed_kind \<Rightarrow> ('e, 'c) feed \<Rightarrow> bool" where
  "feed_inv k f \<longleftrightarrow> length (msgCh f) \<le> msg_buf \<and> errCh f \<le> 1 \<and> (reading f \<longrightarrow> errCh f = 0) \<and> length (events_ch f) \<le> fk_cap k \<and>
     subseq (map snd (fd_handled f) @ msgCh f) (fd_read f) \<and>
     subseq (fd_taken f @ events_ch f) (concat (map (\<lambda>(e, m). fk_produce k e m) (fd_handled f))) \<and>
     fd_waits f = map backoff_after [0..<length (fd_waits f)] \<and> backoff f = backoff_after (length (fd_waits f))"

lemma sends_subseq: "subseq (a @ ch) b \<Longrightarrow> subseq (a @ foldl (\<lambda>ch x. try_send n x ch) ch xs) (b @ xs)"
proof (induction xs arbitrary: ch b)
  case (Cons x xs)
  have "subseq (a @ try_send n x ch) (b @ [x])"
    using Cons.prems list_emb_append_mono [OF Cons.prems, of "[x]" "[x]"] list_emb_append2 [OF Cons.prems, of "[x]"]
    by (auto simp: try_send_def)
  then show ?case using Cons.IH [of "try_send n x ch" "b @ [x]"] by simp
qed simp

lemma sends_length: "length ch \<le> n \<Longrightarrow> length (foldl (\<lambda>ch x. try_send n x ch) ch xs) \<le> n"
  by (induction xs arbitrary: ch) (auto simp: try_send_def)

lemma subseq_drop_tail: "subseq (a @ b) c \<Longrightarrow> subseq a c"
  using list_emb_append2 [of _ a] by (metis append_Nil2 list_emb_Nil list_emb_append_mono subseq_order.order_refl subseq_order.trans)

lemma feed_inv_new: "feed_inv k (NewFeed c)"
  by (simp add: feed_inv_def NewFeed_def)

lemma feed_inv_lost: "feed_inv k f \<Longrightarrow> feed_inv k (connection_lost f)" "feed_inv k f \<Longrightarrow> feed_inv k (feed_stop f)"
  by (auto simp: feed_inv_def connection_lost_def feed_stop_def dest: subseq_drop_tail)

lemma feed_inv_connect: "feed_inv k f \<Longrightarrow> feed_inv k (feed_connect k e f)"
  by (auto simp: feed_connect_def feed_inv_lost split: option.splits) (auto simp: feed_inv_def dest: subseq_drop_tail)

lemma feed_inv_read: "feed_inv k f \<Longrightarrow> feed_inv k (read_message m f)"
  using sends_subseq [of "map snd (fd_handled f)" "msgCh f" "fd_read f" msg_buf "[m]"] sends_length [of "msgCh f" msg_buf "[m]"]
  by (simp add: feed_inv_def read_message_def)

lemma feed_inv_error: "feed_inv k f \<Longrightarrow> reading f \<Longrightarrow> feed_inv k (read_error f)"
  by (simp add: feed_inv_def read_error_def)

lemma feed_inv_handle: "feed_inv k f \<Longrightarrow> feed_inv k (handle_message k e f)"
proof (cases "msgCh f")
  case (Cons m ms)
  assume i: "feed_inv k f"
  let ?p = "concat (map (\<lambda>(e, m). fk_produce k e m) (fd_handled f))"
  have "subseq (fd_taken f @ foldl (\<lambda>ch x. try_send (fk_cap k) x ch) (events_ch f) (fk_produce k e m)) (?p @ fk_produce k e m)"
    using i by (intro sends_subseq) (simp add: feed_inv_def)
  moreover have "length (foldl (\<lambda>ch x. try_send (fk_cap k) x ch) (events_ch f) (fk_produce k e m)) \<le> fk_cap k"
    using i by (intro sends_length) (simp add: feed_inv_def)
  ultimately show ?thesis using i Cons by (simp add: feed_inv_def handle_message_def)
qed (simp add: handle_message_def)

lemma feed_inv_select: "feed_inv k f \<Longrightarrow> feed_inv k (select_other k e f)"
  by (auto simp: select_other_def feed_inv_lost split: option.splits) (simp add: feed_inv_def)

lemma feed_inv_wait: "feed_inv k f \<Longrightarrow> feed_inv k (back_off f)"
  by (simp add: feed_inv_def back_off_def)

lemma feed_inv_take: "feed_inv k f \<Longrightarrow> feed_inv k (take_event f)"
  by (auto simp: feed_inv_def take_event_def split: list.splits)

lemma feed_step_inv: "feed_step k f f' \<Longrightarrow> feed_inv k f \<Longrightarrow> feed_inv k f'"
  unfolding feed_step_def by (elim exE feed_step_atE)
    (simp_all add: feed_inv_lost feed_inv_connect feed_inv_read feed_inv_error feed_inv_handle feed_inv_select feed_inv_wait feed_inv_take,
      simp add: feed_inv_def)

lemma feed_reach_inv: "reach (feed_step k) (NewFeed c) f \<Longrightarrow> feed_inv k f"
  by (erule reach_invariant) (auto intro: feed_inv_new feed_step_inv)

lemma stopped_step: "feed_step k f f' \<Longrightarrow> phase_of f = Stopped \<Longrightarrow> phase_of f' = Stopped \<and> fd_handled f' = fd_handled f"
  unfolding feed_step_def by (elim exE feed_step_atE) (auto simp: feed_stop_def take_event_def split: list.splits)

lemma stopped_reach: "reach (feed_step k) f f' \<Longrightarrow> phase_of f = Stopped \<Longrightarrow> phase_of f' = Stopped \<and> fd_handled f' = fd_handled f"
  by (induction rule: reach.induct) (auto dest: stopped_step)

lemma feed_delivers:
  assumes "reach (feed_step k) (NewFeed c) f"
  shows "length (msgCh f) \<le> 64 \<and> errCh f \<le> 1 \<and> length (events_ch f) \<le> fk_cap k \<and>
    subseq (map snd (fd_handled f)) (fd_read f) \<and> subseq (fd_taken f) (concat (map (\<lambda>(e, m). fk_produce k e m) (fd_handled f))) \<and>
    (\<forall>i < length (fd_waits f). fd_waits f ! i = min (2 ^ i * second) (60 * second))"
proof -
  have i: "feed_inv k f" using assms by (rule feed_reach_inv)
  have "fd_waits f ! i = backoff_after i" if "i < length (fd_waits f)" for i
  proof -
    have "fd_waits f ! i = map backoff_after [0..<length (fd_waits f)] ! i" using i unfolding feed_inv_def by metis
    then show ?thesis using that by simp
  qed
  then show ?thesis using i backoff_after_eq subseq_drop_tail unfolding feed_inv_def msg_buf_def by (metis (no_types, lifting))
qed

text \<open>The backoff of both feeds: the wait after the i-th loss is 2 to the i seconds and at most a
  minute, whether or not a connect succeeded in between, since no connect resets it.\<close>

theorem socket_backoff:
  assumes "reach (feed_step k) (NewFeed c) f" "i < length (fd_waits f)"
  shows "fd_waits f ! i = min (2 ^ i * second) (60 * second)"
  using feed_delivers [OF assms(1)] assms(2) by blast

text \<open>C30. The socket feeds deliver in order and within bounds: in every interleaving of the reading
  goroutine, the select loop, reconnections and the consumer, at most 64 messages and 128 (for
  scores 64) events wait and at most one error is in the error channel, the messages handled are a
  subsequence of those read from the sockets, and the events the consumer received are a subsequence
  of what the handled messages give.\<close>

theorem socket_feeds_in_order:
  assumes "reach (feed_step price_feed) (NewFeed c) p" "reach (feed_step score_feed) (NewFeed n) s"
  shows "length (msgCh p) \<le> 64 \<and> errCh p \<le> 1 \<and> length (events_ch p) \<le> 128 \<and> subseq (map snd (fd_handled p)) (fd_read p) \<and>
    subseq (fd_taken p) (concat (map (\<lambda>(e, m). price_produce e m) (fd_handled p))) \<and>
    length (msgCh s) \<le> 64 \<and> errCh s \<le> 1 \<and> length (events_ch s) \<le> 64 \<and> subseq (map snd (fd_handled s)) (fd_read s) \<and>
    subseq (fd_taken s) (concat (map (\<lambda>(e, m). ss_ch (score_result e m)) (fd_handled s)))"
  using feed_delivers [OF assms(1)] feed_delivers [OF assms(2)] by (simp add: price_feed_def score_feed_def)

text \<open>A connection that receives, handles and delivers one price.\<close>

definition tick_env :: price_env where
  "tick_env = \<lparr>pv_registry = registry_Register [token0 1] NewTokenRegistry, pv_order = [''t1''], pv_order2 = [], pv_now = 5, pv_case = PingTick,
     pv_dial_fails = False, pv_write_fails = False, pv_unsub_fails = False\<rparr>"

definition tick_msg :: ws_message where
  "tick_msg = \<lparr>ws_text = ''{'', ws_json = Some (JObj [(''event_type'', JStr ''price_change''), (''asset_id'', JStr ''t1''), (''price'', JStr ''0.6'')])\<rparr>"

lemma tick_produces: "\<exists>raw. price_produce tick_env tick_msg = [raw]"
proof -
  have c: "decode_clob tick_msg = Some [\<lparr>cw_EventType = ''price_change'', AssetID = ''t1'', cw_Price = ''0.6''\<rparr>]"
    by (simp add: tick_msg_def decode_clob_def decode_clobWSEvent_def json_simps fold_eq_def strings_ToLower_def lower_char_def)
  obtain w where w: "price_event (pv_registry tick_env) \<lparr>cw_EventType = ''price_change'', AssetID = ''t1'', cw_Price = ''0.6''\<rparr> = Some w"
    by (simp add: price_event_def tick_env_def Lookup_Register token0_def)
  obtain d where "marshal_wsPriceRaw w = Some d"
    by (auto simp: marshal_wsPriceRaw_def marshal_struct_def str_field_def int_field_def)
  with c w show ?thesis by (simp add: price_produce_def List.map_filter_simps) (simp add: tick_msg_def)
qed

theorem socket_feeds_in_order_witness:
  "\<exists>p raw. reach (feed_step price_feed) (NewFeed (clob_connect [] NewTokenRegistry)) p \<and> fd_read p = [tick_msg] \<and>
     fd_handled p = [(tick_env, tick_msg)] \<and> fd_taken p = [raw] \<and> subseq [raw] (price_produce tick_env tick_msg)"
proof -
  let ?new = "NewFeed (clob_connect [] NewTokenRegistry) :: (price_env, clob_conn) feed"
  obtain raw where raw: "price_produce tick_env tick_msg = [raw]" using tick_produces by blast
  define f1 where "f1 = ?new\<lparr>phase_of := Dialling\<rparr>"
  define f2 where "f2 = feed_connect price_feed tick_env f1"
  define f3 where "f3 = read_message tick_msg f2"
  define f4 where "f4 = handle_message price_feed tick_env f3"
  define f5 where "f5 = take_event f4"
  have "fk_ready price_feed tick_env" by code_simp
  then have s1: "feed_step price_feed ?new f1" unfolding f1_def by (intro feed_stepI registry_ready) (simp_all add: NewFeed_def)
  have s2: "feed_step price_feed f1 f2" unfolding f2_def by (intro feed_stepI [OF connects]) (simp add: f1_def)
  have f2: "phase_of f2 = Streaming" "reading f2" "msgCh f2 = []" "events_ch f2 = []" "fd_read f2 = []" "fd_handled f2 = []" "fd_taken f2 = []"
    by (simp_all add: f2_def f1_def feed_connect_def price_feed_def price_connect_def tick_env_def NewFeed_def)
  then have s3: "feed_step price_feed f2 f3" unfolding f3_def by (intro feed_stepI [OF reads]) simp_all
  have f3: "phase_of f3 = Streaming" "msgCh f3 = [tick_msg]" "events_ch f3 = []" "fd_read f3 = [tick_msg]" "fd_handled f3 = []" "fd_taken f3 = []"
    using f2 by (simp_all add: f3_def read_message_def try_send_def msg_buf_def)
  then have s4: "feed_step price_feed f3 f4" unfolding f4_def by (intro feed_stepI [OF handles]) simp_all
  have f4: "events_ch f4 = [raw]" "fd_read f4 = [tick_msg]" "fd_handled f4 = [(tick_env, tick_msg)]" "fd_taken f4 = []"
    using f3 raw by (simp_all add: f4_def handle_message_def try_send_def price_feed_def)
  then have s5: "feed_step price_feed f4 f5" unfolding f5_def by (intro feed_stepI [OF takes]) simp
  have f5: "fd_read f5 = [tick_msg]" "fd_handled f5 = [(tick_env, tick_msg)]" "fd_taken f5 = [raw]"
    using f4 by (simp_all add: f5_def take_event_def)
  note step = reach_step [of "feed_step price_feed" ?new]
  have r: "reach (feed_step price_feed) ?new f5"
    by (rule step [OF step [OF step [OF step [OF step [OF reach_refl s1] s2] s3] s4] s5])
  have "subseq (fd_taken f5) (concat (map (\<lambda>(e, m). price_produce e m) (fd_handled f5)))"
    using socket_feeds_in_order [OF r reach_refl] by blast
  then have "subseq [raw] (price_produce tick_env tick_msg)" by (simp only: f5 list.map concat.simps split_conv append_Nil2)
  with r f5 show ?thesis by (intro exI conjI)
qed

end
