(* ===== verification/MarketData.thy ===== *)
theory MarketData
  imports FeedSockets
begin

text \<open>
  The market data process (\<^verbatim>\<open>run\<close> of \<^verbatim>\<open>src/cmd/marketdata/main.go\<close> and \<^verbatim>\<open>Run\<close> of
  \<^verbatim>\<open>src/internal/marketdata/ingestion.go\<close>): the feeds it builds, the matcher and the registry they
  share, one goroutine and one channel per feed, one consumer per feed, and the topic they all
  publish to. The process is a step relation whose steps are what a goroutine does between two
  operations on shared state, so every interleaving of the feeds and the consumers is a run.

  Shown: every message of the topic names an event or a market that a poll of Polymarket accepted
  before, nothing else (in particular no result) is published, the channels stay within their
  capacities, and each socket feed of the process runs as it does alone.
\<close>

section \<open>The feeds\<close>

definition NBATagID :: int where
  "NBATagID = 745"

definition NCAABTagID :: int where
  "NCAABTagID = 28"

definition NHLTagID :: int where
  "NHLTagID = 899"

definition IranTagID :: int where
  "IranTagID = 78"

definition NewPolymarketFeed :: PolymarketFeed where
  "NewPolymarketFeed = \<lparr>pf_eventMatcher = True, pf_tokenRegistry = True, pf_providerID = ''polymarket-nba'',
     pf_slugPrefix = ''nba-'', pf_tagID = NBATagID, pf_binaryMode = False\<rparr>"

definition NewIranFeed :: PolymarketFeed where
  "NewIranFeed = \<lparr>pf_eventMatcher = False, pf_tokenRegistry = False, pf_providerID = ''polymarket-iran'',
     pf_slugPrefix = [], pf_tagID = IranTagID, pf_binaryMode = True\<rparr>"

definition NewNCAABFeed :: PolymarketFeed where
  "NewNCAABFeed = \<lparr>pf_eventMatcher = True, pf_tokenRegistry = True, pf_providerID = ''polymarket-ncaab'',
     pf_slugPrefix = ''cbb-'', pf_tagID = NCAABTagID, pf_binaryMode = False\<rparr>"

definition NewNHLFeed :: PolymarketFeed where
  "NewNHLFeed = \<lparr>pf_eventMatcher = True, pf_tokenRegistry = True, pf_providerID = ''polymarket-nhl'',
     pf_slugPrefix = ''nhl-'', pf_tagID = NHLTagID, pf_binaryMode = False\<rparr>"

text \<open>The polling feeds of \<^verbatim>\<open>run\<close>. The Sportradar feed is a stub that sends nothing, so it takes no
  step.\<close>

definition market_feeds :: "PolymarketFeed list" where
  "market_feeds = [NewPolymarketFeed, NewNCAABFeed, NewNHLFeed, NewIranFeed]"

definition espn_feeds :: "(string \<times> (string \<Rightarrow> string \<Rightarrow> string)) list" where
  "espn_feeds = [(''ncaab-scores'', ncaabTeamName), (''nhl-scores'', nhlTeamName)]"

text \<open>What the two ESPN feeds fetch; the NHL feed makes one request, the college feed several.\<close>

definition espn_fetch :: "string \<Rightarrow> http_result list \<Rightarrow> ESPNGame list option" where
  "espn_fetch p resps = (if p = ''ncaab-scores'' then ncaab_fetchScoreboard resps else fetchURL (hd resps))"

definition channel_cap :: "string \<Rightarrow> nat" where
  "channel_cap p = (if p \<in> {''nba-scores'', ''ncaab-scores'', ''nhl-scores''} then 32 else 64)"

section \<open>The process\<close>

text \<open>
  The fields are indexed by the provider id of a feed: what its last fetch returned and it has still
  to go through, with the instant of the poll; the event it is blocked on sending; its channel; the
  canonical events its consumer has still to publish. \<open>md_stopped\<close> holds the polling feeds that have
  seen the context cancelled. \<open>md_accepted\<close> is a history variable: the events that a poll accepted.
\<close>

record md_state =
  md_shared :: feed_state
  md_events :: "string \<Rightarrow> pm_Event list"
  md_nba :: "NBAGame list"
  md_espn :: "string \<Rightarrow> ESPNGame list"
  md_polled_at :: "string \<Rightarrow> time"
  md_out :: "string \<Rightarrow> RawProviderEvent list"
  md_chan :: "string \<Rightarrow> RawProviderEvent list"
  md_stopped :: "string set"
  md_price :: "(price_env, clob_conn) feed"
  md_scores :: "(score_env, nat) feed"
  md_publishing :: "string \<Rightarrow> NormalisedMarketEvent list"
  md_kafka :: "ProducerMessage list"
  md_accepted :: "(PolymarketFeed \<times> pm_Event) list"

definition md_init :: md_state where
  "md_init = \<lparr>md_shared = \<lparr>fs_matcher = NewEventMatcher, fs_registry = NewTokenRegistry\<rparr>, md_events = (\<lambda>_. []), md_nba = [],
     md_espn = (\<lambda>_. []), md_polled_at = (\<lambda>_. 0), md_out = (\<lambda>_. []), md_chan = (\<lambda>_. []), md_stopped = {},
     md_price = NewFeed (clob_connect [] NewTokenRegistry), md_scores = NewFeed 0, md_publishing = (\<lambda>_. []), md_kafka = [],
     md_accepted = []\<rparr>"

text \<open>A polling goroutine starts a fetch only when it is done with the last one.\<close>

definition idle :: "string \<Rightarrow> md_state \<Rightarrow> bool" where
  "idle p s \<longleftrightarrow> p \<notin> md_stopped s \<and> md_out s p = []"

text \<open>One event of a Polymarket poll: the filters, the registrations and the value to send.\<close>

definition md_poll_event :: "(string \<Rightarrow> payload) \<Rightarrow> PolymarketFeed \<Rightarrow> md_state \<Rightarrow> md_state" where
  "md_poll_event json_text f s =
     (let p = pf_providerID f
      in case md_events s p of [] \<Rightarrow> s
         | ev # evs \<Rightarrow>
             (case poll_events json_text f (md_polled_at s p) 1 [ev] (md_shared s) of
                (sent, shared) \<Rightarrow>
                  s\<lparr>md_shared := shared, md_accepted := md_accepted s @ (if feed_accepts f ev then [(f, ev)] else []),
                    md_events := (md_events s)(p := evs), md_out := (md_out s)(p := sent)\<rparr>))"

definition md_nba_game :: "string list \<Rightarrow> md_state \<Rightarrow> md_state" where
  "md_nba_game order s =
     (case md_nba s of [] \<Rightarrow> s
      | g # gs \<Rightarrow> s\<lparr>md_nba := gs, md_out := (md_out s)(''nba-scores'' :=
          (case nba_game_event (\<lambda>_. order) (fs_matcher (md_shared s)) (md_polled_at s ''nba-scores'') g of
             None \<Rightarrow> [] | Some raw \<Rightarrow> [raw]))\<rparr>)"

definition md_espn_game :: "string \<Rightarrow> (string \<Rightarrow> string \<Rightarrow> string) \<Rightarrow> string list \<Rightarrow> md_state \<Rightarrow> md_state" where
  "md_espn_game p teamName order s =
     (case md_espn s p of [] \<Rightarrow> s
      | g # gs \<Rightarrow> s\<lparr>md_espn := (md_espn s)(p := gs), md_out := (md_out s)(p :=
          (case espn_game_event p teamName (\<lambda>_. order) (fs_matcher (md_shared s)) (md_polled_at s p) g of
             None \<Rightarrow> [] | Some raw \<Rightarrow> [raw]))\<rparr>)"

text \<open>The blocking send of a poll: it waits while the channel is full.\<close>

definition md_send :: "string \<Rightarrow> md_state \<Rightarrow> md_state" where
  "md_send p s =
     (case md_out s p of [] \<Rightarrow> s
      | raw # rest \<Rightarrow> s\<lparr>md_out := (md_out s)(p := rest), md_chan := (md_chan s)(p := md_chan s p @ [raw])\<rparr>)"

definition md_stop :: "string \<Rightarrow> md_state \<Rightarrow> md_state" where
  "md_stop p s = s\<lparr>md_stopped := insert p (md_stopped s), md_out := (md_out s)(p := []), md_events := (md_events s)(p := [])\<rparr>"

text \<open>The consumer of a feed takes a raw event and normalises it; a failure is logged.\<close>

definition md_normalise :: "(string \<Rightarrow> payload) \<Rightarrow> string \<Rightarrow> time \<Rightarrow> RawProviderEvent \<Rightarrow> md_state \<Rightarrow> md_state" where
  "md_normalise json_text p now raw s =
     s\<lparr>md_publishing := (md_publishing s)(p :=
         (case CompositeNormaliser (ingestion_normalisers json_text) now raw of None \<Rightarrow> [] | Some es \<Rightarrow> es))\<rparr>"

definition md_take :: "(string \<Rightarrow> payload) \<Rightarrow> string \<Rightarrow> time \<Rightarrow> md_state \<Rightarrow> md_state" where
  "md_take json_text p now s =
     (case md_chan s p of [] \<Rightarrow> s
      | raw # rest \<Rightarrow> md_normalise json_text p now raw (s\<lparr>md_chan := (md_chan s)(p := rest)\<rparr>))"

definition md_take_price :: "(string \<Rightarrow> payload) \<Rightarrow> time \<Rightarrow> md_state \<Rightarrow> md_state" where
  "md_take_price json_text now s =
     (case events_ch (md_price s) of [] \<Rightarrow> s
      | raw # rest \<Rightarrow> md_normalise json_text ''polymarket-ws-price'' now raw (s\<lparr>md_price := take_event (md_price s)\<rparr>))"

definition md_take_score :: "(string \<Rightarrow> payload) \<Rightarrow> time \<Rightarrow> md_state \<Rightarrow> md_state" where
  "md_take_score json_text now s =
     (case events_ch (md_scores s) of [] \<Rightarrow> s
      | raw # rest \<Rightarrow> md_normalise json_text ''polymarket-scores'' now raw (s\<lparr>md_scores := take_event (md_scores s)\<rparr>))"

definition md_publish :: "string \<Rightarrow> publish_call faults \<Rightarrow> time \<Rightarrow> md_state \<Rightarrow> md_state" where
  "md_publish p ft now s =
     (case md_publishing s p of [] \<Rightarrow> s
      | e # es \<Rightarrow> s\<lparr>md_publishing := (md_publishing s)(p := es), md_kafka := snd (ingestion_publish ft now e (md_kafka s))\<rparr>)"

text \<open>The registry case of the price feed's select: it receives the signal of the registry.\<close>

definition md_registry_change :: "price_env \<Rightarrow> md_state \<Rightarrow> md_state" where
  "md_registry_change e s =
     (let r = snd (Changed_recv (fs_registry (md_shared s)))
      in s\<lparr>md_shared := (md_shared s)\<lparr>fs_registry := r\<rparr>,
           md_price := select_other price_feed (e\<lparr>pv_registry := r, pv_case := RegistryChanged\<rparr>) (md_price s)\<rparr>)"

inductive md_step :: "(string \<Rightarrow> payload) \<Rightarrow> md_state \<Rightarrow> md_state \<Rightarrow> bool" for json_text where
  fetches_events: "f \<in> set market_feeds \<Longrightarrow> idle (pf_providerID f) s \<Longrightarrow> md_events s (pf_providerID f) = [] \<Longrightarrow>
    FetchEvents (get (pf_tagID f)) = Some (Inr evs) \<Longrightarrow>
    md_step json_text s (s\<lparr>md_events := (md_events s)(pf_providerID f := evs), md_polled_at := (md_polled_at s)(pf_providerID f := now)\<rparr>)"
| polls_event: "f \<in> set market_feeds \<Longrightarrow> idle (pf_providerID f) s \<Longrightarrow> md_step json_text s (md_poll_event json_text f s)"
| fetches_nba: "idle ''nba-scores'' s \<Longrightarrow> md_nba s = [] \<Longrightarrow> nba_fetchScoreboard resp = Some games \<Longrightarrow>
    md_step json_text s (s\<lparr>md_nba := games, md_polled_at := (md_polled_at s)(''nba-scores'' := now)\<rparr>)"
| nba_game: "idle ''nba-scores'' s \<Longrightarrow> set order = dom (em_events (fs_matcher (md_shared s))) \<Longrightarrow> md_step json_text s (md_nba_game order s)"
| fetches_espn: "(p, teamName) \<in> set espn_feeds \<Longrightarrow> idle p s \<Longrightarrow> md_espn s p = [] \<Longrightarrow> espn_fetch p resps = Some games' \<Longrightarrow>
    md_step json_text s (s\<lparr>md_espn := (md_espn s)(p := games'), md_polled_at := (md_polled_at s)(p := now)\<rparr>)"
| espn_game: "(p, teamName) \<in> set espn_feeds \<Longrightarrow> idle p s \<Longrightarrow> set order = dom (em_events (fs_matcher (md_shared s))) \<Longrightarrow>
    md_step json_text s (md_espn_game p teamName order s)"
| sends: "length (md_chan s p) < channel_cap p \<Longrightarrow> md_step json_text s (md_send p s)"
| stops: "md_step json_text s (md_stop p s)"
| price_runs: "feed_step_at price_feed e (md_price s) p' \<Longrightarrow> pv_registry e = fs_registry (md_shared s) \<Longrightarrow> pv_case e = PingTick \<Longrightarrow>
    fd_taken p' = fd_taken (md_price s) \<Longrightarrow> md_step json_text s (s\<lparr>md_price := p'\<rparr>)"
| registry_changes: "phase_of (md_price s) = Streaming \<Longrightarrow> fst (Changed_recv (fs_registry (md_shared s))) \<Longrightarrow>
    md_step json_text s (md_registry_change e s)"
| scores_run: "feed_step_at score_feed e' (md_scores s) q' \<Longrightarrow> sv_matcher e' = fs_matcher (md_shared s) \<Longrightarrow>
    fd_taken q' = fd_taken (md_scores s) \<Longrightarrow> md_step json_text s (s\<lparr>md_scores := q'\<rparr>)"
| takes_raw: "md_publishing s p = [] \<Longrightarrow> md_step json_text s (md_take json_text p now s)"
| takes_price: "md_publishing s ''polymarket-ws-price'' = [] \<Longrightarrow> md_step json_text s (md_take_price json_text now s)"
| takes_score: "md_publishing s ''polymarket-scores'' = [] \<Longrightarrow> md_step json_text s (md_take_score json_text now s)"
| publishes: "md_step json_text s (md_publish p ft now s)"

inductive_cases md_stepE: "md_step json_text s s'"

section \<open>What a raw event names\<close>

lemma marshal_fields_mem: "marshal_fields fs = Some kvs \<Longrightarrow> (k, v) \<in> set kvs \<Longrightarrow> (k, False, Some v) \<in> set fs"
  by (induction fs arbitrary: kvs) (auto split: if_splits option.splits)

lemma decode_field_mem:
  "decode_field dec n d kvs = Some x \<Longrightarrow> x = d \<or> (\<exists>k v. (k, v) \<in> set kvs \<and> fold_eq k n \<and> dec v = Some x)"
  by (induction dec n d kvs rule: decode_field.induct) (fastforce split: if_splits option.splits)+

lemma Market_id_kept:
  assumes "marshal_fields (Market_fields m) = Some kvs" "dec_struct decode_Market (JObj kvs) = Some m'"
  shows "ConditionID m' = ConditionID m"
proof -
  have "distinct (map (strings_ToLower \<circ> fst) (Market_fields m))"
    by (simp add: Market_fields_def field_defs ptr_field_def strings_ToLower_def lower_char_def)
  then have "decode_field dec_string ''conditionId'' [] kvs = Some (ConditionID m)"
    by (rule decode_marshalled(1) [OF assms(1)]) (simp add: Market_fields_def)
  then show ?thesis using assms(2) by (auto simp: dec_struct_def decode_Market_def bind_eq_Some_conv)
qed

lemma marshal_list_ids:
  "marshal_list (\<lambda>m. marshal_struct (Market_fields m)) ms = Some js \<Longrightarrow>
   dec_list (\<lambda>v. if v = JNull then Some zero_Market else dec_struct decode_Market v) js = Some ms' \<Longrightarrow>
   map ConditionID ms' = map ConditionID ms"
proof (induction ms arbitrary: js ms')
  case (Cons m ms)
  then show ?case by (auto simp: marshal_struct_def split: option.splits if_splits) (rule Market_id_kept)
qed simp

lemma marshal_Event_ids:
  assumes "marshal_Event ev = Some j" "Option.bind (dec_object (Some j)) decode_Event = Some ev'"
  shows "ev_ID ev' = ev_ID ev \<and> ConditionID ` set (Markets ev') \<subseteq> ConditionID ` set (Markets ev)"
proof -
  define fs where "fs = [str_field ''id'' (ev_ID ev), str_field ''slug'' (ev_Slug ev), str_field ''title'' (Title ev),
    bool_field ''active'' (ev_Active ev), bool_field ''closed'' (ev_Closed ev),
    val_field ''markets'' (marshal_slice (\<lambda>m. marshal_struct (Market_fields m)) (Markets ev))]"
  obtain kvs where kvs: "marshal_fields fs = Some kvs" "j = JObj kvs"
    using assms(1) by (auto simp: marshal_Event_def fs_def marshal_struct_def)
  have d: "distinct (map (strings_ToLower \<circ> fst) fs)"
    by (simp add: fs_def field_defs strings_ToLower_def lower_char_def)
  have "decode_field dec_string ''id'' [] kvs = Some (ev_ID ev)"
    by (rule decode_marshalled(1) [OF kvs(1) d]) (simp add: fs_def)
  moreover have de: "decode_Event kvs = Some ev'" using assms(2) kvs(2) by (simp add: dec_object_def)
  ultimately have i: "ev_ID ev' = ev_ID ev" by (auto simp: decode_Event_def bind_eq_Some_conv)
  have "decode_field (dec_slice (dec_struct decode_Market) zero_Market) ''markets'' [] kvs = Some (Markets ev')"
    using de by (auto simp: decode_Event_def bind_eq_Some_conv)
  from decode_field_mem [OF this] have "ConditionID ` set (Markets ev') \<subseteq> ConditionID ` set (Markets ev)"
  proof (elim disjE exE conjE)
    fix k v assume v: "(k, v) \<in> set kvs" "fold_eq k ''markets''" "dec_slice (dec_struct decode_Market) zero_Market v = Some (Markets ev')"
    have "marshal_slice (\<lambda>m. marshal_struct (Market_fields m)) (Markets ev) = Some v"
      using marshal_fields_mem [OF kvs(1) v(1)] v(2)
      by (auto simp: fs_def field_defs fold_eq_def strings_ToLower_def lower_char_def)
    then obtain js where "marshal_list (\<lambda>m. marshal_struct (Market_fields m)) (Markets ev) = Some js" "v = JArr js"
      by (auto simp: marshal_slice_def)
    then have "map ConditionID (Markets ev') = map ConditionID (Markets ev)"
      using v(3) by (intro marshal_list_ids) (auto simp: dec_slice_def)
    then show ?thesis by (metis list.set_map order_refl)
  qed simp
  with i show ?thesis by simp
qed

lemma upsert_names:
  assumes "e \<in> set (market_upserts jt n ev st sa mm m)"
  shows "ne_EventType e = ''catalog.upsert'' \<and> ne_EventID e = ev_ID ev \<and> ne_MarketID e = ConditionID m"
  using assms by (auto simp: market_upserts_def Let_def split: option.splits if_splits)

lemma binary_names:
  assumes "e \<in> set (binary_upserts jt n ev sa mm m)"
  shows "ne_EventType e = ''catalog.upsert'' \<and> ne_EventID e = ev_ID ev \<and> ne_MarketID e = ConditionID m"
  using assms by (auto simp: binary_upserts_def Let_def split: option.splits if_splits)

lemma price_update_names: "ne_EventType (price_update m) = ''price.update''" "ne_MarketID (price_update m) = ConditionID m"
  by (simp_all add: price_update_def)

text \<open>An event names a market of \<open>ev\<close>, or its game.\<close>

definition names_market :: "pm_Event \<Rightarrow> NormalisedMarketEvent \<Rightarrow> bool" where
  "names_market ev e \<longleftrightarrow> ne_MarketID e \<in> ConditionID ` set (Markets ev) \<and>
     (ne_EventType e = ''catalog.upsert'' \<and> ne_EventID e = ev_ID ev \<or> ne_EventType e = ''price.update'')"

definition names_game :: "string \<Rightarrow> NormalisedMarketEvent \<Rightarrow> bool" where
  "names_game i e \<longleftrightarrow> ne_EventType e = ''game.state'' \<and> ne_EventID e = i \<and> ne_MarketID e = []"

lemma Polymarket_names:
  assumes "Polymarket_Normalise jt n now raw = Some es" "e \<in> set es"
  shows "\<exists>ev. Option.bind (dec_object (rp_Data raw)) decode_Event = Some ev \<and> names_market ev e"
  using assms by (auto simp: Polymarket_Normalise_def Let_def names_market_def price_update_names allowed_markets_def
      dest!: upsert_names split: option.splits if_splits)

lemma Politics_names:
  assumes "Politics_Normalise jt n now raw = Some es" "e \<in> set es"
  shows "\<exists>ev. Option.bind (dec_object (rp_Data raw)) decode_Event = Some ev \<and> names_market ev e"
  using assms by (auto simp: Politics_Normalise_def Let_def names_market_def price_update_names open_binary_def
      dest!: binary_names split: option.splits if_splits)

lemma FindByTeams_known: "FindByTeams order h a m = (i, True) \<Longrightarrow> i \<in> me_eventID ` ran (em_events m)"
  unfolding FindByTeams_def by (erule match_loop_cases) (auto intro: ranI)

lemma event_id_kept:
  assumes "marshal_struct [str_field ''event_id'' i, val_field n v] = Some j" "strings_ToLower n \<noteq> ''event_id''"
  shows "\<exists>kvs. j = JObj kvs \<and> decode_field dec_string ''event_id'' [] kvs = Some i"
proof -
  obtain kvs where kvs: "marshal_fields [str_field ''event_id'' i, val_field n v] = Some kvs" "j = JObj kvs"
    using assms(1) by (auto simp: marshal_struct_def)
  have "strings_ToLower ''event_id'' = ''event_id''" by (simp add: strings_ToLower_def lower_char_def)
  then have "decode_field dec_string ''event_id'' [] kvs = Some i"
    using assms(2) by (intro decode_marshalled(1) [OF kvs(1)]) (auto simp: field_defs)
  with kvs(2) show ?thesis by blast
qed

lemma nba_names:
  assumes "nba_game_event ord m now g = Some raw" "NBAScoreNormaliser now' raw = Some es" "e \<in> set es"
  shows "\<exists>i \<in> me_eventID ` ran (em_events m). names_game i e"
proof -
  obtain i j where i: "FindByTeams (ord g) (TeamName (ng_HomeTeam g)) (TeamName (ng_AwayTeam g)) m = (i, True)"
    "marshal_NBAScoreRaw \<lparr>nr_EventID = i, nr_Game = g\<rparr> = Some j" "rp_Data raw = Some j"
    using assms(1) by (auto simp: nba_game_event_def split: if_splits prod.splits)
  obtain kvs where "j = JObj kvs" "decode_field dec_string ''event_id'' [] kvs = Some i"
    using event_id_kept i(2) by (fastforce simp: marshal_NBAScoreRaw_def strings_ToLower_def lower_char_def)
  then have "names_game i e" using assms(2,3) i(3)
    by (auto simp: NBAScoreNormaliser_def decode_NBAScoreRaw_def dec_object_def bind_eq_Some_conv names_game_def zero_event_def split: option.splits)
  then show ?thesis using FindByTeams_known [OF i(1)] by blast
qed

lemma espn_names:
  assumes "espn_game_event p tn ord m now g = Some raw" "espn_normalise q period clock now' raw = Some es" "e \<in> set es"
  shows "\<exists>i \<in> me_eventID ` ran (em_events m). names_game i e"
proof -
  obtain h a i j where i: "FindByTeams (ord g) h a m = (i, True)"
    "marshal_ESPNScoreRaw \<lparr>er_EventID = i, er_Game = g\<rparr> = Some j" "rp_Data raw = Some j"
    using assms(1) by (auto simp: espn_game_event_def split: if_splits prod.splits)
  obtain kvs where "j = JObj kvs" "decode_field dec_string ''event_id'' [] kvs = Some i"
    using event_id_kept i(2) by (fastforce simp: marshal_ESPNScoreRaw_def strings_ToLower_def lower_char_def)
  then have "names_game i e" using assms(2,3) i(3)
    by (auto simp: espn_normalise_def decode_ESPNScoreRaw_def dec_object_def bind_eq_Some_conv names_game_def zero_event_def
        split: option.splits if_splits prod.splits)
  then show ?thesis using FindByTeams_known [OF i(1)] by blast
qed

lemma score_names:
  assumes "raw \<in> set (ss_ch (score_result v msg))" "PolymarketScoreNormaliser now' raw = Some es" "e \<in> set es"
  shows "\<exists>i \<in> me_eventID ` ran (em_events (sv_matcher v)). names_game i e"
proof -
  obtain h a r i j where i: "FindByTeams (sv_order v) h a (sv_matcher v) = (i, True)"
    "marshal_PolymarketScoreRaw \<lparr>ps_EventID = i, ps_Result = r\<rparr> = Some j" "rp_Data raw = Some j"
    using assms(1) by (auto simp: score_result_def score_handleMessage_def try_send_def split: if_splits prod.splits option.splits)
  obtain kvs where "j = JObj kvs" "decode_field dec_string ''event_id'' [] kvs = Some i"
    using event_id_kept i(2) by (fastforce simp: marshal_PolymarketScoreRaw_def strings_ToLower_def lower_char_def)
  then have "names_game i e" using assms(2,3) i(3)
    by (auto simp: PolymarketScoreNormaliser_def decode_PolymarketScoreRaw_def dec_object_def bind_eq_Some_conv names_game_def zero_event_def
        split: option.splits if_splits prod.splits)
  then show ?thesis using FindByTeams_known [OF i(1)] by blast
qed

lemma price_names:
  assumes "raw \<in> set (price_produce v msg)" "WSPriceNormaliser now' raw = Some es" "e \<in> set es"
  shows "\<exists>entry \<in> ran (byToken (pv_registry v)). ne_EventType e = ''price.update'' \<and> ne_MarketID e = te_ConditionID entry"
proof -
  obtain r j entry where r: "marshal_wsPriceRaw r = Some j" "rp_Data raw = Some j" "entry \<in> ran (byToken (pv_registry v))"
    "wp_ConditionID r = te_ConditionID entry"
  proof -
    obtain x :: clobWSEvent and z j where "byToken (pv_registry v) (AssetID x) = Some z" "rp_Data raw = Some j" "marshal_wsPriceRaw
        \<lparr>wp_ConditionID = te_ConditionID z, wp_SelIndex = SelIndex z, wp_Price = cw_Price x, wp_ProviderID = te_ProviderID z\<rparr> = Some j"
      using assms(1) by (auto simp: price_produce_def map_filter_def price_event_def price_raw_def bind_eq_Some_conv Lookup_def
          split: if_splits option.splits)
    then show thesis by (intro that) (auto intro: ranI)
  qed
  define fs where "fs = [str_field ''condition_id'' (wp_ConditionID r), int_field ''sel_index'' (wp_SelIndex r),
       str_field ''price'' (wp_Price r), str_field ''provider_id'' (wp_ProviderID r)]"
  obtain kvs where kvs: "marshal_fields fs = Some kvs" "j = JObj kvs"
    using r(1) by (auto simp: marshal_wsPriceRaw_def fs_def marshal_struct_def)
  have "distinct (map (strings_ToLower \<circ> fst) fs)"
    by (simp add: fs_def field_defs strings_ToLower_def lower_char_def)
  then have "decode_field dec_string ''condition_id'' [] kvs = Some (te_ConditionID entry)"
    using r(4) by (intro decode_marshalled(1) [OF kvs(1)]) (simp_all add: fs_def)
  then have "ne_EventType e = ''price.update'' \<and> ne_MarketID e = te_ConditionID entry" using assms(2,3) r(2) kvs(2)
    by (auto simp: WSPriceNormaliser_def decode_wsPriceRaw_def dec_object_def bind_eq_Some_conv split: option.splits)
  then show ?thesis using r(3) by blast
qed

section \<open>Where the messages come from\<close>

definition names_accepted :: "(PolymarketFeed \<times> pm_Event) list \<Rightarrow> NormalisedMarketEvent \<Rightarrow> bool" where
  "names_accepted acc e \<longleftrightarrow> (\<exists>f ev. (f, ev) \<in> set acc \<and> (names_market ev e \<or> pf_eventMatcher f \<and> names_game (ev_ID ev) e))"

definition traced :: "(string \<Rightarrow> payload) \<Rightarrow> (PolymarketFeed \<times> pm_Event) list \<Rightarrow> RawProviderEvent \<Rightarrow> bool" where
  "traced jt acc raw \<longleftrightarrow> (\<exists>nz. ingestion_normalisers jt (rp_ProviderID raw) = Some nz \<and>
     (\<forall>now es. nz now raw = Some es \<longrightarrow> (\<forall>e \<in> set es. names_accepted acc e)))"

definition shared_inv :: "(PolymarketFeed \<times> pm_Event) list \<Rightarrow> feed_state \<Rightarrow> bool" where
  "shared_inv acc sh \<longleftrightarrow>
     (\<forall>entry \<in> ran (em_events (fs_matcher sh)). \<exists>f ev. (f, ev) \<in> set acc \<and> pf_eventMatcher f \<and> ev_ID ev = me_eventID entry) \<and>
     (\<forall>entry \<in> ran (byToken (fs_registry sh)). \<exists>f ev. (f, ev) \<in> set acc \<and> te_ConditionID entry \<in> ConditionID ` set (Markets ev))"

lemma names_accepted_mono: "names_accepted acc e \<Longrightarrow> set acc \<subseteq> set acc' \<Longrightarrow> names_accepted acc' e"
  unfolding names_accepted_def by blast

lemma traced_mono: "traced jt acc raw \<Longrightarrow> set acc \<subseteq> set acc' \<Longrightarrow> traced jt acc' raw"
  unfolding traced_def using names_accepted_mono by blast

lemma shared_inv_mono: "shared_inv acc sh \<Longrightarrow> set acc \<subseteq> set acc' \<Longrightarrow> shared_inv acc' sh"
  unfolding shared_inv_def by blast

lemma tracedI:
  assumes "ingestion_normalisers jt (rp_ProviderID raw) = Some nz" "\<And>now es e. nz now raw = Some es \<Longrightarrow> e \<in> set es \<Longrightarrow> names_accepted acc e"
  shows "traced jt acc raw"
  using assms unfolding traced_def by blast

lemma traced_normalised:
  assumes "traced jt acc raw" "CompositeNormaliser (ingestion_normalisers jt) now raw = Some es" "e \<in> set es"
  shows "names_accepted acc e"
  using assms by (auto simp: traced_def CompositeNormaliser_def)

lemma game_accepted:
  assumes "shared_inv acc sh" "\<exists>i \<in> me_eventID ` ran (em_events (fs_matcher sh)). names_game i e"
  shows "names_accepted acc e"
proof -
  obtain entry where entry: "entry \<in> ran (em_events (fs_matcher sh))" "names_game (me_eventID entry) e" using assms(2) by blast
  then obtain f ev where "(f, ev) \<in> set acc" "pf_eventMatcher f" "ev_ID ev = me_eventID entry"
    using assms(1) unfolding shared_inv_def by blast
  then show ?thesis using entry(2) unfolding names_accepted_def by metis
qed

lemma price_accepted:
  assumes "shared_inv acc sh"
    and "\<exists>entry \<in> ran (byToken (fs_registry sh)). ne_EventType e = ''price.update'' \<and> ne_MarketID e = te_ConditionID entry"
  shows "names_accepted acc e"
proof -
  obtain entry where entry: "entry \<in> ran (byToken (fs_registry sh))" "ne_EventType e = ''price.update''" "ne_MarketID e = te_ConditionID entry"
    using assms(2) by blast
  then obtain f ev where "(f, ev) \<in> set acc" "te_ConditionID entry \<in> ConditionID ` set (Markets ev)"
    using assms(1) unfolding shared_inv_def by blast
  then show ?thesis using entry(2,3) by (auto simp: names_accepted_def names_market_def)
qed

lemmas provider_tables = ingestion_normalisers_def NHLScoreNormaliser_def NCAABScoreNormaliser_def

lemma nba_traced:
  assumes "shared_inv acc sh" "nba_game_event ord (fs_matcher sh) now g = Some raw"
  shows "traced jt acc raw"
proof (rule tracedI)
  have "rp_ProviderID raw = ''nba-scores''" using assms(2) by (auto simp: nba_game_event_def split: if_splits prod.splits)
  then show "ingestion_normalisers jt (rp_ProviderID raw) = Some NBAScoreNormaliser" by (simp add: ingestion_normalisers_def)
qed (rule game_accepted [OF assms(1)], rule nba_names [OF assms(2)])

lemma espn_traced:
  assumes "shared_inv acc sh" "(p, tn) \<in> set espn_feeds" "espn_game_event p tn ord (fs_matcher sh) now g = Some raw"
  shows "traced jt acc raw"
proof -
  have p: "rp_ProviderID raw = p" using assms(3) by (auto simp: espn_game_event_def split: if_splits prod.splits)
  obtain period clock where nz: "ingestion_normalisers jt p = Some (espn_normalise p period clock)"
    using assms(2) by (auto simp: espn_feeds_def provider_tables)
  show ?thesis
    by (rule tracedI [OF nz [folded p]], rule game_accepted [OF assms(1)], rule espn_names [OF assms(3)]) (simp_all add: p)
qed

lemma score_traced:
  assumes "shared_inv acc sh" "sv_matcher v = fs_matcher sh" "raw \<in> set (ss_ch (score_result v msg))"
  shows "traced jt acc raw"
proof (rule tracedI)
  have "rp_ProviderID raw = ''polymarket-scores''"
    using assms(3) by (auto simp: score_result_def score_handleMessage_def try_send_def split: if_splits prod.splits option.splits)
  then show "ingestion_normalisers jt (rp_ProviderID raw) = Some PolymarketScoreNormaliser" by (simp add: ingestion_normalisers_def)
qed (rule game_accepted [OF assms(1)], rule score_names [OF assms(3), unfolded assms(2)])

lemma price_traced:
  assumes "shared_inv acc sh" "pv_registry v = fs_registry sh" "raw \<in> set (price_produce v msg)"
  shows "traced jt acc raw"
proof (rule tracedI)
  have "rp_ProviderID raw = ''polymarket-ws-price''"
    using assms(3) by (auto simp: price_produce_def map_filter_def price_raw_def split: if_splits option.splits)
  then show "ingestion_normalisers jt (rp_ProviderID raw) = Some WSPriceNormaliser" by (simp add: ingestion_normalisers_def)
qed (rule price_accepted [OF assms(1)], rule price_names [OF assms(3), unfolded assms(2)])

lemma market_feed_normaliser:
  assumes "f \<in> set market_feeds"
  shows "(\<exists>n. ingestion_normalisers jt (pf_providerID f) = Some (Polymarket_Normalise jt n)) \<or>
    (\<exists>n. ingestion_normalisers jt (pf_providerID f) = Some (Politics_Normalise jt n))"
proof -
  consider "f = NewPolymarketFeed" | "f = NewNCAABFeed" | "f = NewNHLFeed" | "f = NewIranFeed"
    using assms by (auto simp: market_feeds_def)
  then show ?thesis
    by cases (auto simp: ingestion_normalisers_def NewPolymarketFeed_def NewNCAABFeed_def NewNHLFeed_def NewIranFeed_def)
qed

lemma poll_traced:
  assumes "f \<in> set market_feeds" "marshal_Event ev = Some j" "(f, ev) \<in> set acc"
  shows "traced jt acc \<lparr>rp_ProviderID = pf_providerID f, rp_Data = Some j, rp_ReceivedAt = now\<rparr>" (is "traced jt acc ?raw")
proof -
  obtain nz where nz: "ingestion_normalisers jt (pf_providerID f) = Some nz"
    "(\<exists>n. nz = Polymarket_Normalise jt n) \<or> (\<exists>n. nz = Politics_Normalise jt n)"
    using market_feed_normaliser [OF assms(1)] by blast
  have names: "\<exists>ev'. Option.bind (dec_object (rp_Data ?raw)) decode_Event = Some ev' \<and> names_market ev' e"
    if "nz now' ?raw = Some es" "e \<in> set es" for now' es e
    using nz(2)
  proof (elim disjE exE)
    show ?thesis if "nz = Polymarket_Normalise jt n" for n using Polymarket_names \<open>nz now' ?raw = Some es\<close> \<open>e \<in> set es\<close> that by blast
    show ?thesis if "nz = Politics_Normalise jt n" for n using Politics_names \<open>nz now' ?raw = Some es\<close> \<open>e \<in> set es\<close> that by blast
  qed
  show ?thesis
  proof (rule tracedI)
    fix now es e assume "nz now ?raw = Some es" "e \<in> set es"
    then obtain ev' where "Option.bind (dec_object (Some j)) decode_Event = Some ev'" "names_market ev' e"
      using names [of now es e] by auto
    moreover from this(1) have "ev_ID ev' = ev_ID ev" "ConditionID ` set (Markets ev') \<subseteq> ConditionID ` set (Markets ev)"
      using marshal_Event_ids [OF assms(2)] by blast+
    ultimately have "names_market ev e" unfolding names_market_def by (simp add: subset_iff)
    then show "names_accepted acc e" using assms(3) by (auto simp: names_accepted_def)
  qed (simp add: nz)
qed

lemma ran_Register: "ran (byToken (registry_Register es r)) \<subseteq> ran (byToken r) \<union> set es"
proof -
  have "ran (foldl (\<lambda>m e. m(TokenID e \<mapsto> e)) m es) \<subseteq> ran m \<union> set es" for m
  proof (induction es arbitrary: m)
    case (Cons e es)
    have "ran (m(TokenID e \<mapsto> e)) \<subseteq> insert e (ran m)" by (auto simp: ran_def split: if_splits)
    then show ?case using Cons.IH [of "m(TokenID e \<mapsto> e)"] unfolding foldl.simps list.set by blast
  qed simp
  then show ?thesis by (simp add: registry_Register_def)
qed

lemma market_tokens_id: "entry \<in> set (market_tokens jt p m) \<Longrightarrow> te_ConditionID entry = ConditionID m"
  by (auto simp: market_tokens_def split: option.splits)

lemma ran_register_tokens:
  "entry \<in> ran (byToken (register_tokens jt p ms r)) \<Longrightarrow> entry \<in> ran (byToken r) \<or> te_ConditionID entry \<in> ConditionID ` set ms"
proof (induction ms rule: rev_induct)
  case (snoc m ms)
  let ?r = "register_tokens jt p ms r"
  have "register_tokens jt p (ms @ [m]) r =
      (if market_tokens jt p m = [] then ?r else registry_Register (market_tokens jt p m) ?r)"
    by (simp add: register_tokens_def Let_def)
  then have "entry \<in> ran (byToken ?r) \<or> entry \<in> set (market_tokens jt p m)"
    using snoc.prems ran_Register [of "market_tokens jt p m" ?r] by (auto split: if_splits)
  then show ?case using snoc.IH market_tokens_id by auto
qed (simp add: register_tokens_def)

lemma ran_matcher_Register: "entry \<in> ran (em_events (matcher_Register i n m)) \<Longrightarrow> entry \<in> ran (em_events m) \<or> me_eventID entry = i"
  by (auto simp: matcher_Register_def ran_def split: if_splits)

lemma poll_one:
  assumes "f \<in> set market_feeds" "poll_events jt f now 1 [ev] sh = (sent, sh')" "shared_inv acc sh"
    and acc': "acc' = acc @ (if feed_accepts f ev then [(f, ev)] else [])"
  shows "shared_inv acc' sh' \<and> (\<forall>raw \<in> set sent. traced jt acc' raw)"
proof (cases "feed_accepts f ev \<and> marshal_Event ev \<noteq> None")
  case False
  then have "sent = [] \<and> sh' = sh" using assms(2) by (auto split: if_splits)
  then show ?thesis using shared_inv_mono [OF assms(3)] by (simp add: acc')
next
  case True
  then obtain j where j: "marshal_Event ev = Some j" and a: "(f, ev) \<in> set acc'" by (auto simp: acc')
  define m where "m = (if pf_eventMatcher f
    then matcher_Register (ev_ID ev) (strings_ReplaceAll (Title ev) '' vs. '' '' @ '') (fs_matcher sh) else fs_matcher sh)"
  define r where "r = (if pf_tokenRegistry f then register_tokens jt (pf_providerID f) (Markets ev) (fs_registry sh) else fs_registry sh)"
  have sh': "fs_matcher sh' = m" "fs_registry sh' = r"
    and sent: "sent = [\<lparr>rp_ProviderID = pf_providerID f, rp_Data = Some j, rp_ReceivedAt = now\<rparr>]"
    using assms(2) True j by (auto simp: m_def r_def Let_def)
  have old: "shared_inv acc' sh" using assms(3) by (rule shared_inv_mono) (simp add: acc')
  have "\<exists>f ev. (f, ev) \<in> set acc' \<and> pf_eventMatcher f \<and> ev_ID ev = me_eventID entry" if "entry \<in> ran (em_events m)" for entry
  proof (cases "entry \<in> ran (em_events (fs_matcher sh))")
    case False
    then have "pf_eventMatcher f" "me_eventID entry = ev_ID ev"
      using that ran_matcher_Register [of entry] by (auto simp: m_def split: if_splits)
    then show ?thesis using a by metis
  qed (use old in \<open>auto simp: shared_inv_def\<close>)
  moreover have "\<exists>f ev. (f, ev) \<in> set acc' \<and> te_ConditionID entry \<in> ConditionID ` set (Markets ev)" if "entry \<in> ran (byToken r)" for entry
  proof (cases "entry \<in> ran (byToken (fs_registry sh))")
    case False
    then have "te_ConditionID entry \<in> ConditionID ` set (Markets ev)"
      using that ran_register_tokens [of entry jt "pf_providerID f" "Markets ev" "fs_registry sh"] by (simp add: r_def split: if_splits)
    then show ?thesis using a by metis
  qed (use old in \<open>auto simp: shared_inv_def\<close>)
  ultimately have "shared_inv acc' sh'" unfolding shared_inv_def sh' by blast
  then show ?thesis using poll_traced [OF assms(1) j a] by (simp add: sent)
qed

section \<open>Every run of the process\<close>

definition in_flight :: "md_state \<Rightarrow> RawProviderEvent set" where
  "in_flight s = (\<Union>p. set (md_out s p)) \<union> (\<Union>p. set (md_chan s p)) \<union> set (events_ch (md_price s)) \<union> set (events_ch (md_scores s))"

lemma in_flightI: "raw \<in> set (md_out s p) \<Longrightarrow> raw \<in> in_flight s" "raw \<in> set (md_chan s p) \<Longrightarrow> raw \<in> in_flight s"
  "raw \<in> set (events_ch (md_price s)) \<Longrightarrow> raw \<in> in_flight s" "raw \<in> set (events_ch (md_scores s)) \<Longrightarrow> raw \<in> in_flight s"
  unfolding in_flight_def by blast+

lemma in_flight_subset:
  assumes "\<And>q raw. raw \<in> set (md_out s' q) \<Longrightarrow> raw \<in> in_flight s" "\<And>q raw. raw \<in> set (md_chan s' q) \<Longrightarrow> raw \<in> in_flight s"
    and "md_price s' = md_price s" "md_scores s' = md_scores s"
  shows "in_flight s' \<subseteq> in_flight s"
  using assms(1,2) unfolding in_flight_def [of s'] assms(3,4) by (auto intro: in_flightI)

definition md_inv :: "(string \<Rightarrow> payload) \<Rightarrow> md_state \<Rightarrow> bool" where
  "md_inv jt s \<longleftrightarrow>
     (\<forall>f ev. (f, ev) \<in> set (md_accepted s) \<longrightarrow> f \<in> set market_feeds \<and> feed_accepts f ev) \<and>
     shared_inv (md_accepted s) (md_shared s) \<and> (\<forall>raw \<in> in_flight s. traced jt (md_accepted s) raw) \<and>
     (\<forall>p. \<forall>e \<in> set (md_publishing s p). names_accepted (md_accepted s) e) \<and>
     (\<forall>msg \<in> set (md_kafka s). carries (names_accepted (md_accepted s)) msg) \<and>
     (\<forall>p. length (md_chan s p) \<le> channel_cap p)"

lemma md_inv_init: "md_inv jt md_init"
  by (simp add: md_inv_def md_init_def shared_inv_def in_flight_def NewEventMatcher_def NewTokenRegistry_def NewFeed_def)

text \<open>A step that keeps the history and the shared state, adds only traced events, publishes only
  what is named and respects the capacities keeps the invariant.\<close>

lemma md_invI:
  assumes "md_inv jt s" "md_accepted s' = md_accepted s" "shared_inv (md_accepted s) (md_shared s')"
    and "\<And>raw. raw \<in> in_flight s' \<Longrightarrow> raw \<in> in_flight s \<or> traced jt (md_accepted s) raw"
    and "\<And>p e. e \<in> set (md_publishing s' p) \<Longrightarrow> names_accepted (md_accepted s) e"
    and "\<And>msg. msg \<in> set (md_kafka s') \<Longrightarrow> carries (names_accepted (md_accepted s)) msg"
    and "\<And>p. length (md_chan s' p) \<le> channel_cap p"
  shows "md_inv jt s'"
  using assms unfolding md_inv_def by metis

lemma carries_mono: "carries (names_accepted acc) msg \<Longrightarrow> set acc \<subseteq> set acc' \<Longrightarrow> carries (names_accepted acc') msg"
  unfolding carries_def using names_accepted_mono by blast

lemma publish_carries_accepted:
  assumes "names_accepted acc e" "\<forall>msg \<in> set kafka. carries (names_accepted acc) msg"
    and "msg \<in> set (snd (ingestion_publish ft now e kafka))"
  shows "carries (names_accepted acc) msg"
proof -
  have "names_accepted acc (e\<lparr>ne_PublishedAt := t\<rparr>)" for t
    using assms(1) by (simp add: names_accepted_def names_market_def names_game_def)
  then have "carries (names_accepted acc) (event_message (e\<lparr>ne_PublishedAt := format_rfc3339 True now\<rparr>) data)"
    if "marshal_event (e\<lparr>ne_PublishedAt := format_rfc3339 True now\<rparr>) = Some data" for data
    unfolding carries_def event_message_def
    by (intro conjI exI [of _ "e\<lparr>ne_PublishedAt := format_rfc3339 True now\<rparr>"]) (simp_all add: that)
  then show ?thesis using assms(2,3) by (auto simp: ingestion_publish_def Let_def split: option.splits if_splits)
qed

lemma md_publish_inv: "md_inv jt s \<Longrightarrow> md_inv jt (md_publish p ft now s)"
proof (cases "md_publishing s p")
  case (Cons e es)
  assume i: "md_inv jt s"
  then have e: "names_accepted (md_accepted s) e" "\<forall>msg \<in> set (md_kafka s). carries (names_accepted (md_accepted s)) msg"
    using Cons unfolding md_inv_def by (metis list.set_intros(1), blast)
  show ?thesis
  proof (rule md_invI [OF i])
    fix q x assume x: "x \<in> set (md_publishing (md_publish p ft now s) q)"
    then have "x \<in> set (md_publishing s q)" using Cons by (auto simp: md_publish_def split: if_splits)
    then show "names_accepted (md_accepted s) x" using i unfolding md_inv_def by blast
  next
    fix msg assume "msg \<in> set (md_kafka (md_publish p ft now s))"
    then show "carries (names_accepted (md_accepted s)) msg" using publish_carries_accepted [OF e] Cons by (simp add: md_publish_def)
  qed (use i Cons in \<open>auto simp: md_publish_def md_inv_def in_flight_def\<close>)
qed (simp add: md_publish_def)

lemma md_normalise_inv:
  assumes "md_inv jt s" "traced jt (md_accepted s) raw"
  shows "md_inv jt (md_normalise jt p now raw s)"
proof (rule md_invI [OF assms(1)])
  fix q e assume "e \<in> set (md_publishing (md_normalise jt p now raw s) q)"
  then have "e \<in> set (md_publishing s q) \<or> (\<exists>es. CompositeNormaliser (ingestion_normalisers jt) now raw = Some es \<and> e \<in> set es)"
    by (auto simp: md_normalise_def split: if_splits option.splits)
  then show "names_accepted (md_accepted s) e"
    using assms traced_normalised unfolding md_inv_def by blast
qed (use assms(1) in \<open>auto simp: md_normalise_def md_inv_def in_flight_def\<close>)

lemma in_flight_traced: "md_inv jt s \<Longrightarrow> raw \<in> in_flight s \<Longrightarrow> traced jt (md_accepted s) raw"
  unfolding md_inv_def by blast

lemma md_inv_parts:
  assumes "md_inv jt s"
  shows "shared_inv (md_accepted s) (md_shared s)" "e \<in> set (md_publishing s p) \<Longrightarrow> names_accepted (md_accepted s) e"
    "msg \<in> set (md_kafka s) \<Longrightarrow> carries (names_accepted (md_accepted s)) msg" "length (md_chan s p) \<le> channel_cap p"
  using assms unfolding md_inv_def by blast+

lemma take_event_subset: "set (events_ch (take_event f)) \<subseteq> set (events_ch f)"
  by (auto simp: take_event_def split: list.splits)

lemma md_take_inv:
  assumes "md_inv jt s"
  shows "md_inv jt (md_take jt p now s)" "md_inv jt (md_take_price jt now s)" "md_inv jt (md_take_score jt now s)"
proof -
  show "md_inv jt (md_take jt p now s)"
  proof (cases "md_chan s p")
    case (Cons raw rest)
    have "raw \<in> set (md_chan s p)" using Cons by simp
    then have t: "traced jt (md_accepted s) raw" using in_flight_traced [OF assms, of raw] by (auto simp: in_flight_def)
    have len: "length (md_chan s p) \<le> channel_cap p" by (rule md_inv_parts [OF assms])
    have "in_flight (s\<lparr>md_chan := (md_chan s)(p := rest)\<rparr>) \<subseteq> in_flight s"
      by (rule in_flight_subset) (use Cons in \<open>auto split: if_splits intro: in_flightI in_flightI(2) [of _ s p]\<close>)
    then have "md_inv jt (s\<lparr>md_chan := (md_chan s)(p := rest)\<rparr>)"
      by (intro md_invI [OF assms]) (use Cons len in \<open>auto simp: md_inv_parts [OF assms]\<close>)
    then show ?thesis using Cons t by (simp add: md_take_def md_normalise_inv)
  qed (simp add: md_take_def assms)
  show "md_inv jt (md_take_price jt now s)"
  proof (cases "events_ch (md_price s)")
    case (Cons raw rest)
    then have t: "traced jt (md_accepted s) raw" using in_flight_traced [OF assms, of raw] by (auto simp: in_flight_def)
    have "md_inv jt (s\<lparr>md_price := take_event (md_price s)\<rparr>)"
      by (intro md_invI [OF assms]) (use take_event_subset [of "md_price s"] in \<open>auto simp: md_inv_parts [OF assms] in_flight_def\<close>)
    then show ?thesis using Cons t by (simp add: md_take_price_def md_normalise_inv)
  qed (simp add: md_take_price_def assms)
  show "md_inv jt (md_take_score jt now s)"
  proof (cases "events_ch (md_scores s)")
    case (Cons raw rest)
    then have t: "traced jt (md_accepted s) raw" using in_flight_traced [OF assms, of raw] by (auto simp: in_flight_def)
    have "md_inv jt (s\<lparr>md_scores := take_event (md_scores s)\<rparr>)"
      by (intro md_invI [OF assms]) (use take_event_subset [of "md_scores s"] in \<open>auto simp: md_inv_parts [OF assms] in_flight_def\<close>)
    then show ?thesis using Cons t by (simp add: md_take_score_def md_normalise_inv)
  qed (simp add: md_take_score_def assms)
qed

lemma in_flight_out: "in_flight (s\<lparr>md_out := (md_out s)(p := xs)\<rparr>) \<subseteq> in_flight s \<union> set xs"
  by (auto simp: in_flight_def split: if_splits)

lemma out_inv:
  assumes "md_inv jt s" "\<And>raw. raw \<in> set xs \<Longrightarrow> traced jt (md_accepted s) raw"
  shows "md_inv jt (s\<lparr>md_out := (md_out s)(p := xs)\<rparr>)"
  by (intro md_invI [OF assms(1)]) (use in_flight_out [of s p xs] assms(2) in \<open>auto simp: md_inv_parts [OF assms(1)]\<close>)

text \<open>What a feed has still to go through and when it polled are not part of the invariant.\<close>

lemma pending_inv [simp]:
  "md_inv jt (s\<lparr>md_events := x\<rparr>) = md_inv jt s" "md_inv jt (s\<lparr>md_nba := gs\<rparr>) = md_inv jt s" "md_inv jt (s\<lparr>md_espn := y\<rparr>) = md_inv jt s"
  "md_inv jt (s\<lparr>md_polled_at := z\<rparr>) = md_inv jt s" "md_inv jt (s\<lparr>md_stopped := st\<rparr>) = md_inv jt s"
  by (simp_all add: md_inv_def in_flight_def)

lemma md_games_inv:
  assumes "md_inv jt s"
  shows "md_inv jt (md_nba_game order s)" "(p, tn) \<in> set espn_feeds \<Longrightarrow> md_inv jt (md_espn_game p tn order s)"
proof -
  note sh = md_inv_parts(1) [OF assms]
  show "md_inv jt (md_nba_game order s)"
  proof (cases "md_nba s")
    case (Cons g gs)
    let ?raw = "nba_game_event (\<lambda>_. order) (fs_matcher (md_shared s)) (md_polled_at s ''nba-scores'') g"
    have "md_inv jt (s\<lparr>md_nba := gs\<rparr>)" using assms by simp
    from out_inv [OF this, of "case ?raw of None \<Rightarrow> [] | Some raw \<Rightarrow> [raw]" "''nba-scores''"] show ?thesis
      using nba_traced [OF sh] Cons by (auto simp: md_nba_game_def split: option.splits)
  qed (simp add: md_nba_game_def assms)
  show "md_inv jt (md_espn_game p tn order s)" if p: "(p, tn) \<in> set espn_feeds"
  proof (cases "md_espn s p")
    case (Cons g gs)
    let ?raw = "espn_game_event p tn (\<lambda>_. order) (fs_matcher (md_shared s)) (md_polled_at s p) g"
    have "md_inv jt (s\<lparr>md_espn := (md_espn s)(p := gs)\<rparr>)" using assms by simp
    from out_inv [OF this, of "case ?raw of None \<Rightarrow> [] | Some raw \<Rightarrow> [raw]" p] show ?thesis
      using espn_traced [OF sh p] Cons by (auto simp: md_espn_game_def split: option.splits)
  qed (simp add: md_espn_game_def assms)
qed

lemma md_poll_event_inv:
  assumes "md_inv jt s" "f \<in> set market_feeds"
  shows "md_inv jt (md_poll_event jt f s)"
proof (cases "md_events s (pf_providerID f)")
  case (Cons ev evs)
  let ?p = "pf_providerID f"
  obtain sent sh' where pe: "poll_events jt f (md_polled_at s ?p) 1 [ev] (md_shared s) = (sent, sh')" by fastforce
  define acc' where "acc' = md_accepted s @ (if feed_accepts f ev then [(f, ev)] else [])"
  have sub: "set (md_accepted s) \<subseteq> set acc'" by (simp add: acc'_def)
  have new: "shared_inv acc' sh'" "\<And>raw. raw \<in> set sent \<Longrightarrow> traced jt acc' raw"
    using poll_one [OF assms(2) pe md_inv_parts(1) [OF assms(1)] acc'_def] by blast+
  have "md_inv jt (s\<lparr>md_shared := sh', md_accepted := acc'\<rparr>)"
    using assms new(1) traced_mono [OF _ sub] names_accepted_mono [OF _ sub] carries_mono [OF _ sub]
    by (auto simp: md_inv_def in_flight_def acc'_def)
  then have "md_inv jt (s\<lparr>md_shared := sh', md_accepted := acc', md_events := (md_events s)(?p := evs)\<rparr>)" by simp
  from out_inv [OF this, of sent ?p] have "md_inv jt (s\<lparr>md_shared := sh', md_accepted := acc', md_events := (md_events s)(?p := evs),
      md_out := (md_out s)(?p := sent)\<rparr>)"
    using new(2) by simp
  then show ?thesis using Cons pe by (simp add: md_poll_event_def Let_def acc'_def [symmetric] del: poll_events.simps)
qed (simp add: md_poll_event_def Let_def assms)

lemma md_send_inv:
  assumes "md_inv jt s" "length (md_chan s p) < channel_cap p"
  shows "md_inv jt (md_send p s)"
proof (cases "md_out s p")
  case (Cons raw rest)
  have s': "md_send p s = s\<lparr>md_out := (md_out s)(p := rest), md_chan := (md_chan s)(p := md_chan s p @ [raw])\<rparr>"
    by (simp add: md_send_def Cons)
  have "in_flight (md_send p s) \<subseteq> in_flight s"
    by (rule in_flight_subset) (use Cons in \<open>auto simp: s' split: if_splits intro: in_flightI in_flightI(1) [of _ s p]\<close>)
  then show ?thesis by (intro md_invI [OF assms(1)]) (use assms(2) in \<open>auto simp: s' md_inv_parts [OF assms(1)]\<close>)
qed (simp add: md_send_def assms)

lemma try_sends_mem: "x \<in> set (foldl (\<lambda>ch x. try_send n x ch) ch xs) \<Longrightarrow> x \<in> set ch \<or> x \<in> set xs"
  by (induction xs arbitrary: ch) (force simp: try_send_def split: if_splits)+

lemma select_other_events: "events_ch (select_other k e f) = events_ch f"
  by (simp add: select_other_def connection_lost_def split: option.split)

lemma feed_step_events:
  assumes "feed_step_at k e f f'" "raw \<in> set (events_ch f')"
  shows "raw \<in> set (events_ch f) \<or> (\<exists>m. raw \<in> set (fk_produce k e m))"
  using assms by (cases rule: feed_step_at.cases)
    (auto simp: feed_connect_def read_message_def read_error_def connection_lost_def handle_message_def select_other_events back_off_def
      feed_stop_def take_event_def split: option.splits list.splits dest!: try_sends_mem)

lemma sockets_inv:
  assumes "md_inv jt s"
  shows "feed_step_at price_feed e (md_price s) p' \<Longrightarrow> pv_registry e = fs_registry (md_shared s) \<Longrightarrow> md_inv jt (s\<lparr>md_price := p'\<rparr>)"
    and "feed_step_at score_feed e' (md_scores s) q' \<Longrightarrow> sv_matcher e' = fs_matcher (md_shared s) \<Longrightarrow> md_inv jt (s\<lparr>md_scores := q'\<rparr>)"
    and "md_inv jt (md_registry_change v s)"
proof -
  note sh = md_inv_parts(1) [OF assms]
  show "md_inv jt (s\<lparr>md_price := p'\<rparr>)" if "feed_step_at price_feed e (md_price s) p'" "pv_registry e = fs_registry (md_shared s)"
    by (intro md_invI [OF assms]) (use feed_step_events [OF that(1)] price_traced [OF sh that(2)] in
      \<open>auto simp: md_inv_parts [OF assms] in_flight_def price_feed_def\<close>)
  show "md_inv jt (s\<lparr>md_scores := q'\<rparr>)" if "feed_step_at score_feed e' (md_scores s) q'" "sv_matcher e' = fs_matcher (md_shared s)"
    by (intro md_invI [OF assms]) (use feed_step_events [OF that(1)] score_traced [OF sh that(2)] in
      \<open>auto simp: md_inv_parts [OF assms] in_flight_def score_feed_def\<close>)
  have "shared_inv (md_accepted s) ((md_shared s)\<lparr>fs_registry := snd (Changed_recv (fs_registry (md_shared s)))\<rparr>)"
    using sh by (simp add: shared_inv_def Changed_recv_def)
  then show "md_inv jt (md_registry_change v s)"
    by (intro md_invI [OF assms]) (auto simp: md_registry_change_def Let_def md_inv_parts [OF assms] in_flight_def select_other_events)
qed

lemma md_step_inv: "md_step jt s s' \<Longrightarrow> md_inv jt s \<Longrightarrow> md_inv jt s'"
proof (erule md_stepE)
  show "md_inv jt s'" if "md_inv jt s" "s' = md_stop p s" for p
    using out_inv [of jt s "[]" p] that by (simp add: md_stop_def md_inv_def in_flight_def)
qed (simp_all add: md_poll_event_inv md_games_inv md_send_inv md_take_inv md_publish_inv sockets_inv)

lemma md_reach_inv: "reach (md_step jt) md_init s \<Longrightarrow> md_inv jt s"
  by (erule reach_invariant) (auto intro: md_inv_init md_step_inv)

text \<open>C31. The topic names only what Polymarket offers: in every run of the market data process,
  whatever the feeds answer and however the goroutines interleave, each message of the topic is the
  JSON of an upsert or a price update of a market, or of a game state of the event, of an open,
  active event that a poll of one of the four Polymarket feeds accepted before, and game states only
  of events of the sports feeds; no other event, in particular no result of a market, is published.
  The channel of a polling feed never holds more than its capacity.\<close>

theorem process_provenance:
  assumes "reach (md_step json_text) md_init s" "msg \<in> set (md_kafka s)"
  shows "(\<exists>e f ev. marshal_event e = Some (pm_Value msg) \<and> (f, ev) \<in> set (md_accepted s) \<and> f \<in> set market_feeds \<and>
      feed_accepts f ev \<and> ev_Active ev \<and> \<not> ev_Closed ev \<and>
      (ne_EventType e \<in> {''catalog.upsert'', ''price.update''} \<and> ne_MarketID e \<in> ConditionID ` set (Markets ev) \<and>
         pm_Key msg = (if ne_MarketID e = [] then ne_EventID e else ne_MarketID e) \<or>
       ne_EventType e = ''game.state'' \<and> f \<noteq> NewIranFeed \<and> ne_EventID e = ev_ID ev \<and> pm_Key msg = ev_ID ev)) \<and>
    (\<forall>p. length (md_chan s p) \<le> channel_cap p)"
proof -
  have i: "md_inv json_text s" using assms(1) by (rule md_reach_inv)
  obtain e where e: "names_accepted (md_accepted s) e" "marshal_event e = Some (pm_Value msg)"
    "pm_Key msg = (if ne_MarketID e = [] then ne_EventID e else ne_MarketID e)"
    using md_inv_parts(3) [OF i assms(2)] by (auto simp: carries_def)
  then obtain f ev where f: "(f, ev) \<in> set (md_accepted s)" "names_market ev e \<or> pf_eventMatcher f \<and> names_game (ev_ID ev) e"
    by (auto simp: names_accepted_def)
  then have "f \<in> set market_feeds" "feed_accepts f ev" using i unfolding md_inv_def by blast+
  moreover from this(2) have "ev_Active ev" "\<not> ev_Closed ev" by (auto simp: feed_accepts_def)
  moreover have "ne_EventType e \<in> {''catalog.upsert'', ''price.update''} \<and> ne_MarketID e \<in> ConditionID ` set (Markets ev) \<or>
      ne_EventType e = ''game.state'' \<and> f \<noteq> NewIranFeed \<and> ne_EventID e = ev_ID ev \<and> pm_Key msg = ev_ID ev"
    using f(2) e(3) by (auto simp: names_market_def names_game_def NewIranFeed_def)
  ultimately show ?thesis using e(2,3) f(1) md_inv_parts(4) [OF i] by blast
qed

definition nba_page :: http_result where
  "nba_page = HttpResponse 200 (Some (JArr [the (rp_Data spread_raw)]))"

lemma nba_fetched: "FetchEvents (\<lambda>_. nba_page) = Some (Inr [spread_event])"
proof -
  have "dec_struct decode_Event (the (rp_Data spread_raw)) = Some spread_event" "the (rp_Data spread_raw) \<noteq> JNull"
    using spread_decoded by (auto simp: spread_raw_def dec_object_def dec_struct_def)
  then have "decode_page nba_page = Some [spread_event]"
    by (simp add: decode_page_def nba_page_def http_ok_def dec_slice_def)
  then show ?thesis unfolding FetchEvents_def by (subst fetch_loop.simps) (simp add: page_limit_def)
qed

lemma nba_poll_json:
  obtains j where "marshal_Event spread_event = Some j" "Option.bind (dec_object (Some j)) decode_Event = Some spread_event"
proof -
  obtain j where "marshal_Event spread_event = Some j"
    by (auto simp: marshal_Event_def marshal_struct_def marshal_slice_def spread_event_def spread_market_def zero_Market_def Market_fields_def
        field_defs ptr_field_def struct_field_defs)
  moreover from this have "Option.bind (dec_object (Some j)) decode_Event = Some spread_event"
    by (auto simp: marshal_Event_def marshal_struct_def marshal_slice_def spread_event_def spread_market_def zero_Market_def Market_fields_def
        field_defs ptr_field_def struct_field_defs decode_Event_def decode_Market_def dec_slice_def
      dec_struct_def json_simps fold_eq_def strings_ToLower_def lower_char_def)
  ultimately show thesis by (rule that)
qed

definition json_text0 :: "string \<Rightarrow> payload" where
  "json_text0 = (\<lambda>_. None)"

lemma nba_normalised:
  assumes "Option.bind (dec_object (Some j)) decode_Event = Some spread_event" "gameStartTime [spread_market] = Some t"
  shows "CompositeNormaliser (ingestion_normalisers json_text0) t \<lparr>rp_ProviderID = ''polymarket-nba'', rp_Data = Some j, rp_ReceivedAt = 0\<rparr> =
    Some [price_update spread_market]"
proof -
  have m: "Markets spread_event = [spread_market]" "allowed_markets [spread_market] = [spread_market]"
    by (simp_all add: spread_event_def allowed_markets_def spread_market_def zero_Market_def allowedTypes_def)
  have "market_upserts json_text0 n ev st sa mm spread_market = []" for n ev st sa mm
    by (simp add: market_upserts_def ParseOutcomes_def unmarshal_strings_def json_text0_def)
  then have "Polymarket_Normalise json_text0 n t \<lparr>rp_ProviderID = ''polymarket-nba'', rp_Data = Some j, rp_ReceivedAt = 0\<rparr> =
      Some [price_update spread_market]" for n
    using assms by (simp add: Polymarket_Normalise_def m Let_def hour_def second_def lookAheadDays_def del: gameStartTime.simps)
  then show ?thesis by (simp add: CompositeNormaliser_def ingestion_normalisers_def)
qed

lemma price_update_published:
  "\<exists>msg. snd (ingestion_publish no_faults 0 (price_update spread_market) []) = [msg]"
proof -
  have "plain_float (Fin 0)" by (simp add: plain_float_def is_float64_def)
  then have "event_ok ((price_update spread_market)\<lparr>ne_PublishedAt := format_rfc3339 True 0\<rparr>)"
    by (simp add: event_ok_def price_update_def zero_event_def in_int64_def)
  from marshal_event_total [OF this] obtain data
    where "marshal_event ((price_update spread_market)\<lparr>ne_PublishedAt := format_rfc3339 True 0\<rparr>) = Some data"
    by (auto simp: marshal_event_def marshal_struct_def)
  then show ?thesis by (auto simp: ingestion_publish_def Let_def)
qed

lemma nba_run: "\<exists>s msg. reach (md_step json_text0) md_init s \<and> md_kafka s = [msg]"
proof -
  let ?p = "''polymarket-nba''" and ?f = NewPolymarketFeed and ?step = "md_step json_text0"
  obtain j where j: "marshal_Event spread_event = Some j" "Option.bind (dec_object (Some j)) decode_Event = Some spread_event"
    by (rule nba_poll_json)
  obtain t where t: "gameStartTime [spread_market] = Some t" using spread_start by blast
  define raw where "raw = \<lparr>rp_ProviderID = ?p, rp_Data = Some j, rp_ReceivedAt = 0\<rparr>"
  have f: "?f \<in> set market_feeds" "pf_providerID ?f = ?p" "feed_accepts ?f spread_event"
    by (simp_all add: market_feeds_def NewPolymarketFeed_def feed_accepts_def spread_event_def strings_HasPrefix_def hasSportsMarkets_def
        spread_market_def zero_Market_def allowedTypes_def)
  define s1 where "s1 = md_init\<lparr>md_events := (md_events md_init)(?p := [spread_event]), md_polled_at := (md_polled_at md_init)(?p := 0)\<rparr>"
  have 1: "?step md_init s1"
    using fetches_events [OF f(1), of md_init "\<lambda>_ _. nba_page" "[spread_event]" json_text0 0] nba_fetched
    by (simp add: f(2) s1_def idle_def md_init_def)
  define s2 where "s2 = md_poll_event json_text0 ?f s1"
  have 2: "?step s1 s2" unfolding s2_def by (rule polls_event [OF f(1)]) (simp add: f(2) idle_def s1_def md_init_def)
  have s2: "md_out s2 ?p = [raw]" "md_chan s2 = (\<lambda>_. [])" "md_publishing s2 = (\<lambda>_. [])" "md_kafka s2 = []"
    using f(3) j(1) by (simp_all add: s2_def md_poll_event_def f(2) s1_def md_init_def raw_def Let_def)
  define s3 where "s3 = md_send ?p s2"
  have 3: "?step s2 s3" unfolding s3_def by (rule sends) (simp add: s2 channel_cap_def)
  have s3: "md_chan s3 ?p = [raw]" "md_publishing s3 = (\<lambda>_. [])" "md_kafka s3 = []" by (simp_all add: s3_def md_send_def s2)
  define s4 where "s4 = md_take json_text0 ?p t s3"
  have 4: "?step s3 s4" unfolding s4_def by (rule takes_raw) (simp add: s3)
  have s4: "md_publishing s4 ?p = [price_update spread_market]" "md_kafka s4 = []"
    using nba_normalised [OF j(2) t] by (simp_all add: s4_def md_take_def md_normalise_def s3 raw_def)
  have 5: "?step s4 (md_publish ?p no_faults 0 s4)" by (rule publishes)
  have "reach ?step md_init (md_publish ?p no_faults 0 s4)"
    by (rule reach_step [of ?step, OF _ 5], rule reach_step [of ?step, OF _ 4], rule reach_step [of ?step, OF _ 3],
        rule reach_step [of ?step, OF _ 2], rule reach_single [of ?step, OF 1])
  moreover obtain msg where "md_kafka (md_publish ?p no_faults 0 s4) = [msg]"
    using price_update_published by (auto simp: md_publish_def s4)
  ultimately show ?thesis by blast
qed

theorem process_provenance_witness:
  "\<exists>(s :: md_state) msg e f ev. md_kafka s = [msg] \<and> marshal_event e = Some (pm_Value msg) \<and> (f, ev) \<in> set (md_accepted s) \<and> feed_accepts f ev"
proof -
  obtain s msg where s: "reach (md_step json_text0) md_init s" "md_kafka s = [msg]" using nba_run by blast
  have "msg \<in> set (md_kafka s)" by (simp add: s(2))
  from process_provenance [OF s(1) this] obtain e f ev
    where "marshal_event e = Some (pm_Value msg)" "(f, ev) \<in> set (md_accepted s)" "feed_accepts f ev"
    by blast
  with s(2) show ?thesis by blast
qed

lemma reach_project:
  assumes "reach step s t" "\<And>u v. step u v \<Longrightarrow> f v = f u \<or> step' (f u) (f v)"
  shows "reach step' (f s) (f t)"
  using assms(1)
proof (induction rule: reach.induct)
  case (reach_step s t u)
  then show ?case using assms(2) [of t u] reach.reach_step by metis
qed simp

lemmas md_step_defs = md_poll_event_def md_nba_game_def md_espn_game_def md_send_def md_stop_def md_take_def md_take_price_def
  md_take_score_def md_normalise_def md_publish_def md_registry_change_def

lemma take_step: "events_ch f = x # xs \<Longrightarrow> feed_step k f (take_event f)"
  by (rule feed_stepI [OF takes]) simp

lemma md_step_price: "md_step jt u v \<Longrightarrow> md_price v = md_price u \<or> feed_step price_feed (md_price u) (md_price v)"
  by (erule md_stepE)
    (auto simp: md_step_defs Let_def split: list.splits prod.splits intro: feed_stepI selects take_step simp del: poll_events.simps)

lemma md_step_scores: "md_step jt u v \<Longrightarrow> md_scores v = md_scores u \<or> feed_step score_feed (md_scores u) (md_scores v)"
  by (erule md_stepE)
    (auto simp: md_step_defs Let_def split: list.splits prod.splits intro: feed_stepI take_step simp del: poll_events.simps)

text \<open>The process runs its socket feeds as they run alone: in every run, the price feed and the
  score feed have gone through steps of their own, whatever the polling feeds, the registrations and
  the consumers did in between, so what holds of every run of a socket feed holds inside the
  process.\<close>

theorem process_refines_sockets:
  assumes "reach (md_step json_text) md_init s"
  shows "reach (feed_step price_feed) (NewFeed (clob_connect [] NewTokenRegistry)) (md_price s) \<and>
    reach (feed_step score_feed) (NewFeed 0) (md_scores s)"
  using reach_project [where f = md_price, OF assms md_step_price] reach_project [where f = md_scores, OF assms md_step_scores] by (simp add: md_init_def)

theorem process_refines_sockets_witness:
  "\<exists>(s :: md_state) msg. md_kafka s = [msg] \<and> reach (feed_step price_feed) (NewFeed (clob_connect [] NewTokenRegistry)) (md_price s)"
  using nba_run process_refines_sockets by blast

end
