(* ===== verification/Wallet.thy ===== *)
theory Wallet
  imports Prelude Float64
begin

text \<open>
  The Account and Wallet service (\<^verbatim>\<open>src/internal/wallet/service.go\<close> over the schema of
  \<^verbatim>\<open>src/migrations/db_wallet\<close>). The state is the database: the tables \<open>balances\<close>,
  \<open>user_limits\<close> and \<open>ledger_entries\<close>. Every RPC is one function from a fault oracle, the time,
  the request and the database to a gRPC result and the database after it. A transaction is
  atomic: \<open>run_tx\<close> returns the old database when the body fails or the commit is refused, and the
  new one when the commit is applied, also when its acknowledgement is lost (\<open>CommitAck\<close>) and the
  caller sees an error. Transactions on one user are serialised by the advisory lock and the row
  lock, so that a whole transaction is one step; what runs before it (the idempotency read) is a
  step of its own in the interleaving model at the end.
\<close>

section \<open>Schema\<close>

record money =
  amount_minor :: int
  currency :: string

record balance_row =
  bal_user_id :: string
  available_minor :: int
  bets_in_flight_minor :: int
  bal_currency :: string
  bal_updated_at :: time

record limits_row =
  lim_user_id :: string
  max_single_stake_minor :: int
  daily_limit_minor :: int
  lim_currency :: string
  kyc_status :: string

record ledger_row =
  transaction_id :: string
  le_user_id :: string
  entry_type :: string
  stake_minor :: int
  le_currency :: string
  le_status :: string
  le_bet_id :: "string option"
  le_created_at :: time
  confirmed_at :: "time option"
  payment_method :: "string option"

record wallet_db =
  balances :: "balance_row tbl"
  user_limits :: "limits_row tbl"
  ledger_entries :: "ledger_row tbl"

definition bal_chk :: "balance_row \<Rightarrow> bool" where
  "bal_chk r \<longleftrightarrow> in_int64 (available_minor r) \<and> in_int64 (bets_in_flight_minor r) \<and>
     0 \<le> available_minor r \<and> 0 \<le> bets_in_flight_minor r"

definition limits_chk :: "limits_row \<Rightarrow> bool" where
  "limits_chk r \<longleftrightarrow> in_int64 (max_single_stake_minor r) \<and> in_int64 (daily_limit_minor r) \<and>
     kyc_status r \<in> {''PENDING'', ''VERIFIED'', ''REJECTED''}"

definition ledger_chk :: "ledger_row \<Rightarrow> bool" where
  "ledger_chk r \<longleftrightarrow> in_int64 (stake_minor r) \<and>
     le_status r \<in> {''PENDING_CONFIRMATION'', ''CONFIRMED'', ''CANCELLED''}"

definition balance_of :: "wallet_db \<Rightarrow> string \<Rightarrow> balance_row option" where
  "balance_of db u = by_key bal_user_id u (balances db)"

definition entry_of :: "wallet_db \<Rightarrow> string \<Rightarrow> ledger_row option" where
  "entry_of db t = by_key transaction_id t (ledger_entries db)"

section \<open>Messages\<close>

datatype KYCStatus =
  KYC_STATUS_UNSPECIFIED | KYC_STATUS_PENDING | KYC_STATUS_VERIFIED | KYC_STATUS_REJECTED

datatype LedgerEntryStatus =
  LEDGER_ENTRY_STATUS_UNSPECIFIED | LEDGER_ENTRY_STATUS_PENDING_CONFIRMATION
| LEDGER_ENTRY_STATUS_CONFIRMED | LEDGER_ENTRY_STATUS_CANCELLED

datatype CreditReason =
  CREDIT_REASON_UNSPECIFIED | CREDIT_REASON_WIN | CREDIT_REASON_VOID | CREDIT_REASON_PUSH
| CREDIT_REASON_DEPOSIT

record GetUserLimitsResponse =
  MaxSingleStake :: "money option"
  DailyLimit :: "money option"
  DailyStakedSoFar :: "money option"
  KycStatus :: KYCStatus

record DeductBalanceRequest =
  ded_TransactionId :: string
  ded_UserId :: string
  ded_Stake :: "money option"
  ded_BetId :: string

record CreditBalanceRequest =
  cre_TransactionId :: string
  cre_UserId :: string
  cre_Amount :: "money option"
  cre_Reason :: CreditReason
  cre_OriginatingBetId :: string

text \<open>\<^verbatim>\<open>DepositRequest\<close> and \<^verbatim>\<open>WithdrawRequest\<close> have the same fields.\<close>

record CashierRequest =
  cas_TransactionId :: string
  cas_UserId :: string
  cas_Amount :: "money option"
  cas_PaymentMethod :: string

text \<open>\<^verbatim>\<open>DeductBalanceResponse\<close>, \<^verbatim>\<open>CreditBalanceResponse\<close>, \<^verbatim>\<open>DepositResponse\<close>,
  \<^verbatim>\<open>WithdrawResponse\<close> (and, without the balance, \<^verbatim>\<open>ConfirmTransactionResponse\<close>).\<close>

record TransactionResponse =
  resp_TransactionId :: string
  resp_Status :: LedgerEntryStatus
  AvailableAfter :: "money option"

record GetBalanceResponse =
  gb_UserId :: string
  gb_Available :: money
  gb_BetsInFlight :: money
  gb_Total :: money

text \<open>The nil-safe getters of the generated \<^verbatim>\<open>Money\<close>.\<close>

definition GetAmountMinor :: "money option \<Rightarrow> int" where
  "GetAmountMinor m = (case m of None \<Rightarrow> 0 | Some x \<Rightarrow> amount_minor x)"

definition GetCurrency :: "money option \<Rightarrow> string" where
  "GetCurrency m = (case m of None \<Rightarrow> [] | Some x \<Rightarrow> currency x)"

section \<open>Helpers\<close>

definition kycStatusFromString :: "string \<Rightarrow> KYCStatus" where
  "kycStatusFromString s =
     (if s = ''PENDING'' then KYC_STATUS_PENDING
      else if s = ''VERIFIED'' then KYC_STATUS_VERIFIED
      else if s = ''REJECTED'' then KYC_STATUS_REJECTED
      else KYC_STATUS_UNSPECIFIED)"

definition ledgerStatusFromString :: "string \<Rightarrow> LedgerEntryStatus" where
  "ledgerStatusFromString s =
     (if s = ''PENDING_CONFIRMATION'' then LEDGER_ENTRY_STATUS_PENDING_CONFIRMATION
      else if s = ''CONFIRMED'' then LEDGER_ENTRY_STATUS_CONFIRMED
      else if s = ''CANCELLED'' then LEDGER_ENTRY_STATUS_CANCELLED
      else LEDGER_ENTRY_STATUS_UNSPECIFIED)"

fun creditReasonToEntryType :: "CreditReason \<Rightarrow> string" where
  "creditReasonToEntryType CREDIT_REASON_WIN = ''CREDIT_WIN''"
| "creditReasonToEntryType CREDIT_REASON_VOID = ''CREDIT_VOID''"
| "creditReasonToEntryType CREDIT_REASON_PUSH = ''CREDIT_PUSH''"
| "creditReasonToEntryType CREDIT_REASON_DEPOSIT = ''CREDIT_DEPOSIT''"
| "creditReasonToEntryType CREDIT_REASON_UNSPECIFIED = ''CREDIT''"

datatype wallet_call =
  QLimits | QStaked | QExisting | BeginTx | QHash | ALock | QBalance | UBalances | ILimits
| ILedger | CommitTx | CommitAck | QAfter | UConfirm

type_synonym 'a rpc = "(grpc_status + 'a) \<times> wallet_db"

definition run_tx :: "wallet_call faults \<Rightarrow> wallet_db \<Rightarrow> (grpc_status + wallet_db \<times> 'a) \<Rightarrow> 'a rpc"
  where
  "run_tx ft db body =
     (if ft BeginTx then (Inl (Status Internal ''begin tx''), db)
      else case body of
        Inl e \<Rightarrow> (Inl e, db)
      | Inr (db', a) \<Rightarrow>
          if ft CommitTx then (Inl (Status Internal ''commit''), db)
          else if ft CommitAck then (Inl (Status Internal ''commit''), db')
          else (Inr a, db'))"

definition getExistingTransaction ::
    "wallet_call faults \<Rightarrow> wallet_db \<Rightarrow> string \<Rightarrow> TransactionResponse option" where
  "getExistingTransaction ft db txID =
     (case stmt ft QExisting (entry_of db txID) of
        None \<Rightarrow> None
      | Some e \<Rightarrow> Some \<lparr>resp_TransactionId = txID, resp_Status = ledgerStatusFromString (le_status e),
                        AvailableAfter = None\<rparr>)"

section \<open>Operations\<close>

definition staked_in_window :: "wallet_db \<Rightarrow> time \<Rightarrow> string \<Rightarrow> int" where
  "staked_in_window db now u =
     sum_list (map stake_minor (filter (\<lambda>e. le_user_id e = u \<and> entry_type e = ''DEBIT'' \<and>
       now - 24 * 3600 * second < le_created_at e \<and> le_status e \<noteq> ''CANCELLED'')
       (ledger_entries db)))"

definition GetUserLimits ::
    "wallet_call faults \<Rightarrow> time \<Rightarrow> string \<Rightarrow> wallet_db \<Rightarrow> grpc_status + GetUserLimitsResponse" where
  "GetUserLimits ft now u db =
     sbind (guard_or (u \<noteq> []) (Status InvalidArgument ''user_id required'')) (\<lambda>_.
     sbind (ok_or (stmt ft QLimits (by_key lim_user_id u (user_limits db)))
              (Status NotFound ''user not found'')) (\<lambda>l.
     let staked = (let s = staked_in_window db now u
                   in if ft QStaked \<or> \<not> in_int64 s then 0 else s);
         m = (\<lambda>x. Some \<lparr>amount_minor = x, currency = lim_currency l\<rparr>)
     in Inr \<lparr>MaxSingleStake = m (max_single_stake_minor l), DailyLimit = m (daily_limit_minor l),
             DailyStakedSoFar = m staked, KycStatus = kycStatusFromString (kyc_status l)\<rparr>))"

definition deduct_row :: "time \<Rightarrow> int \<Rightarrow> balance_row \<Rightarrow> balance_row" where
  "deduct_row now stake r =
     r\<lparr>available_minor := available_minor r - stake,
       bets_in_flight_minor := bets_in_flight_minor r + stake, bal_updated_at := now\<rparr>"

definition deduct_entry :: "time \<Rightarrow> DeductBalanceRequest \<Rightarrow> ledger_row" where
  "deduct_entry now req =
     \<lparr>transaction_id = ded_TransactionId req, le_user_id = ded_UserId req, entry_type = ''DEBIT'',
      stake_minor = GetAmountMinor (ded_Stake req), le_currency = GetCurrency (ded_Stake req),
      le_status = ''PENDING_CONFIRMATION'', le_bet_id = Some (ded_BetId req),
      le_created_at = now, confirmed_at = None, payment_method = None\<rparr>"

definition deduct_tx ::
    "wallet_call faults \<Rightarrow> time \<Rightarrow> DeductBalanceRequest \<Rightarrow> wallet_db \<Rightarrow>
     grpc_status + wallet_db \<times> TransactionResponse" where
  "deduct_tx ft now req db =
     (let u = ded_UserId req; stake = GetAmountMinor (ded_Stake req) in
     sbind (guard_or (\<not> ft QHash) (Status Internal ''hash user_id'')) (\<lambda>_.
     sbind (guard_or (\<not> ft ALock) (Status Internal ''advisory lock'')) (\<lambda>_.
     sbind (ok_or (stmt ft QBalance (balance_of db u)) (Status NotFound ''balance not found'')) (\<lambda>b.
     sbind (guard_or (\<not> available_minor b < stake)
              (Status FailedPrecondition ''insufficient balance'')) (\<lambda>_.
     sbind (ok_or (stmt ft UBalances
              (update_rows bal_chk (\<lambda>r. bal_user_id r = u) (deduct_row now stake) (balances db)))
              (Status Internal ''update balances'')) (\<lambda>bs.
     sbind (ok_or (stmt ft ILedger
              (insert_row transaction_id ledger_chk (\<lambda>r. le_user_id r \<in> set (map bal_user_id bs))
                (deduct_entry now req) (ledger_entries db))) (Status Internal ''insert ledger entry'')) (\<lambda>ls.
     Inr (db\<lparr>balances := bs, ledger_entries := ls\<rparr>,
          \<lparr>resp_TransactionId = ded_TransactionId req,
           resp_Status = LEDGER_ENTRY_STATUS_PENDING_CONFIRMATION,
           AvailableAfter = Some \<lparr>amount_minor = wrap64 (available_minor b - stake),
                                  currency = GetCurrency (ded_Stake req)\<rparr>\<rparr>))))))))"

definition DeductBalance ::
    "wallet_call faults \<Rightarrow> time \<Rightarrow> DeductBalanceRequest \<Rightarrow> wallet_db \<Rightarrow> TransactionResponse rpc" where
  "DeductBalance ft now req db =
     (if ded_TransactionId req = [] \<or> ded_UserId req = []
      then (Inl (Status InvalidArgument ''transaction_id and user_id required''), db)
      else case getExistingTransaction ft db (ded_TransactionId req) of
        Some existing \<Rightarrow> (Inr existing, db)
      | None \<Rightarrow> run_tx ft db (deduct_tx ft now req db))"

definition credit_row :: "time \<Rightarrow> int \<Rightarrow> balance_row \<Rightarrow> balance_row" where
  "credit_row now amount r =
     r\<lparr>available_minor := available_minor r + amount,
       bets_in_flight_minor := bets_in_flight_minor r - amount, bal_updated_at := now\<rparr>"

definition credit_entry :: "time \<Rightarrow> CreditBalanceRequest \<Rightarrow> ledger_row" where
  "credit_entry now req =
     \<lparr>transaction_id = cre_TransactionId req, le_user_id = cre_UserId req,
      entry_type = creditReasonToEntryType (cre_Reason req),
      stake_minor = GetAmountMinor (cre_Amount req), le_currency = GetCurrency (cre_Amount req),
      le_status = ''CONFIRMED'', le_bet_id = Some (cre_OriginatingBetId req),
      le_created_at = now, confirmed_at = None, payment_method = None\<rparr>"

definition credit_tx ::
    "wallet_call faults \<Rightarrow> time \<Rightarrow> CreditBalanceRequest \<Rightarrow> wallet_db \<Rightarrow>
     grpc_status + wallet_db \<times> unit" where
  "credit_tx ft now req db =
     (let u = cre_UserId req; amount = GetAmountMinor (cre_Amount req) in
     sbind (ok_or (stmt ft UBalances
              (update_rows bal_chk (\<lambda>r. bal_user_id r = u) (credit_row now amount) (balances db)))
              (Status Internal ''update balances'')) (\<lambda>bs.
     sbind (ok_or (stmt ft ILedger
              (insert_nothing transaction_id ledger_chk (\<lambda>r. le_user_id r \<in> set (map bal_user_id bs))
                (credit_entry now req) (ledger_entries db))) (Status Internal ''insert ledger entry'')) (\<lambda>ls.
     Inr (db\<lparr>balances := bs, ledger_entries := ls\<rparr>, ()))))"

definition CreditBalance ::
    "wallet_call faults \<Rightarrow> time \<Rightarrow> CreditBalanceRequest \<Rightarrow> wallet_db \<Rightarrow> TransactionResponse rpc" where
  "CreditBalance ft now req db =
     (if cre_TransactionId req = [] \<or> cre_UserId req = []
      then (Inl (Status InvalidArgument ''transaction_id and user_id required''), db)
      else case run_tx ft db (credit_tx ft now req db) of
        (Inl e, db') \<Rightarrow> (Inl e, db')
      | (Inr _, db') \<Rightarrow>
          (let newAvailable = (case stmt ft QAfter (balance_of db' (cre_UserId req)) of
                                 None \<Rightarrow> 0 | Some b \<Rightarrow> available_minor b)
           in (Inr \<lparr>resp_TransactionId = cre_TransactionId req,
                    resp_Status = LEDGER_ENTRY_STATUS_CONFIRMED,
                    AvailableAfter = Some \<lparr>amount_minor = newAvailable,
                                           currency = GetCurrency (cre_Amount req)\<rparr>\<rparr>, db')))"

definition confirm_row :: "time \<Rightarrow> ledger_row \<Rightarrow> ledger_row" where
  "confirm_row now r = r\<lparr>le_status := ''CONFIRMED'', confirmed_at := Some now\<rparr>"

definition ConfirmTransaction ::
    "wallet_call faults \<Rightarrow> time \<Rightarrow> string \<Rightarrow> wallet_db \<Rightarrow> TransactionResponse rpc" where
  "ConfirmTransaction ft now txID db =
     (if txID = [] then (Inl (Status InvalidArgument ''transaction_id required''), db)
      else if ft UConfirm then (Inl (Status Internal ''confirm transaction''), db)
      else let db' = db\<lparr>ledger_entries := set_rows
                (\<lambda>e. transaction_id e = txID \<and> le_status e = ''PENDING_CONFIRMATION'')
                (confirm_row now) (ledger_entries db)\<rparr>
      in if ft CommitAck then (Inl (Status Internal ''confirm transaction''), db')
         else (Inr \<lparr>resp_TransactionId = txID, resp_Status = LEDGER_ENTRY_STATUS_CONFIRMED,
                    AvailableAfter = None\<rparr>, db'))"

definition GetBalance ::
    "wallet_call faults \<Rightarrow> string \<Rightarrow> wallet_db \<Rightarrow> grpc_status + GetBalanceResponse" where
  "GetBalance ft u db =
     sbind (guard_or (u \<noteq> []) (Status InvalidArgument ''user_id required'')) (\<lambda>_.
     sbind (ok_or (stmt ft QBalance (balance_of db u)) (Status NotFound ''balance not found'')) (\<lambda>b.
     let m = (\<lambda>x. \<lparr>amount_minor = x, currency = bal_currency b\<rparr>)
     in Inr \<lparr>gb_UserId = u, gb_Available = m (available_minor b),
             gb_BetsInFlight = m (bets_in_flight_minor b),
             gb_Total = m (wrap64 (available_minor b + bets_in_flight_minor b))\<rparr>))"

definition cashier_replay ::
    "wallet_call faults \<Rightarrow> CashierRequest \<Rightarrow> wallet_db \<Rightarrow> TransactionResponse" where
  "cashier_replay ft req db =
     \<lparr>resp_TransactionId = cas_TransactionId req, resp_Status = LEDGER_ENTRY_STATUS_CONFIRMED,
      AvailableAfter = Some (case stmt ft QAfter (balance_of db (cas_UserId req)) of
          None \<Rightarrow> \<lparr>amount_minor = 0, currency = []\<rparr>
        | Some b \<Rightarrow> \<lparr>amount_minor = available_minor b, currency = bal_currency b\<rparr>)\<rparr>"

definition cashier_entry :: "time \<Rightarrow> string \<Rightarrow> CashierRequest \<Rightarrow> int \<Rightarrow> string \<Rightarrow> ledger_row" where
  "cashier_entry now ty req amount cur =
     \<lparr>transaction_id = cas_TransactionId req, le_user_id = cas_UserId req, entry_type = ty,
      stake_minor = amount, le_currency = cur, le_status = ''CONFIRMED'', le_bet_id = None,
      le_created_at = now, confirmed_at = None, payment_method = Some (cas_PaymentMethod req)\<rparr>"

definition default_limits :: "string \<Rightarrow> limits_row" where
  "default_limits u =
     \<lparr>lim_user_id = u, max_single_stake_minor = 100000, daily_limit_minor = 1000000,
      lim_currency = ''USD'', kyc_status = ''PENDING''\<rparr>"

definition deposit_tx ::
    "wallet_call faults \<Rightarrow> time \<Rightarrow> CashierRequest \<Rightarrow> int \<Rightarrow> wallet_db \<Rightarrow>
     grpc_status + wallet_db \<times> TransactionResponse" where
  "deposit_tx ft now req amount db =
     (let u = cas_UserId req in
     sbind (guard_or (\<not> ft ALock) (Status Internal ''advisory lock'')) (\<lambda>_.
     sbind (ok_or (stmt ft ILimits (insert_nothing lim_user_id limits_chk (\<lambda>_. True)
              (default_limits u) (user_limits db))) (Status Internal ''provision user limits'')) (\<lambda>lims.
     sbind (ok_or (stmt ft UBalances (upsert_row bal_user_id bal_chk (\<lambda>_. True)
              \<lparr>bal_user_id = u, available_minor = amount, bets_in_flight_minor = 0,
               bal_currency = ''USD'', bal_updated_at = now\<rparr>
              (\<lambda>r. r\<lparr>available_minor := available_minor r + amount, bal_updated_at := now\<rparr>)
              (balances db))) (Status Internal ''update balance'')) (\<lambda>bs.
     sbind (ok_or (by_key bal_user_id u bs) (Status Internal ''update balance'')) (\<lambda>b.
     sbind (ok_or (stmt ft ILedger (insert_row transaction_id ledger_chk
              (\<lambda>r. le_user_id r \<in> set (map bal_user_id bs))
              (cashier_entry now ''CREDIT_DEPOSIT'' req amount (bal_currency b)) (ledger_entries db)))
              (Status Internal ''insert ledger'')) (\<lambda>ls.
     Inr (db\<lparr>balances := bs, user_limits := lims, ledger_entries := ls\<rparr>,
          \<lparr>resp_TransactionId = cas_TransactionId req, resp_Status = LEDGER_ENTRY_STATUS_CONFIRMED,
           AvailableAfter = Some \<lparr>amount_minor = available_minor b,
                                  currency = bal_currency b\<rparr>\<rparr>)))))))"

definition withdraw_tx ::
    "wallet_call faults \<Rightarrow> time \<Rightarrow> CashierRequest \<Rightarrow> int \<Rightarrow> wallet_db \<Rightarrow>
     grpc_status + wallet_db \<times> TransactionResponse" where
  "withdraw_tx ft now req amount db =
     (let u = cas_UserId req in
     sbind (guard_or (\<not> ft ALock) (Status Internal ''advisory lock'')) (\<lambda>_.
     sbind (ok_or (stmt ft QBalance (balance_of db u)) (Status Internal ''get balance'')) (\<lambda>b0.
     sbind (guard_or (\<not> available_minor b0 < amount)
              (Status FailedPrecondition ''INSUFFICIENT_FUNDS'')) (\<lambda>_.
     sbind (ok_or (stmt ft UBalances (update_rows bal_chk (\<lambda>r. bal_user_id r = u)
              (\<lambda>r. r\<lparr>available_minor := available_minor r - amount, bal_updated_at := now\<rparr>)
              (balances db))) (Status Internal ''update balance'')) (\<lambda>bs.
     sbind (ok_or (by_key bal_user_id u bs) (Status Internal ''update balance'')) (\<lambda>b.
     sbind (ok_or (stmt ft ILedger (insert_row transaction_id ledger_chk
              (\<lambda>r. le_user_id r \<in> set (map bal_user_id bs))
              (cashier_entry now ''DEBIT_WITHDRAWAL'' req amount (bal_currency b)) (ledger_entries db)))
              (Status Internal ''insert ledger'')) (\<lambda>ls.
     Inr (db\<lparr>balances := bs, ledger_entries := ls\<rparr>,
          \<lparr>resp_TransactionId = cas_TransactionId req, resp_Status = LEDGER_ENTRY_STATUS_CONFIRMED,
           AvailableAfter = Some \<lparr>amount_minor = available_minor b,
                                  currency = bal_currency b\<rparr>\<rparr>))))))))"

text \<open>The frame both cashier operations share: validation, the idempotency read, the transaction.\<close>

definition cashier_rpc ::
    "(CashierRequest \<Rightarrow> int \<Rightarrow> wallet_db \<Rightarrow> grpc_status + wallet_db \<times> TransactionResponse) \<Rightarrow>
     wallet_call faults \<Rightarrow> CashierRequest \<Rightarrow> wallet_db \<Rightarrow> TransactionResponse rpc" where
  "cashier_rpc tx ft req db =
     (case cas_Amount req of
        None \<Rightarrow> (Inl (Status InvalidArgument ''transaction_id, user_id and amount are required''), db)
      | Some m \<Rightarrow>
          if cas_TransactionId req = [] \<or> cas_UserId req = []
          then (Inl (Status InvalidArgument ''transaction_id, user_id and amount are required''), db)
          else if ft QExisting then (Inl (Status Internal ''idempotency check''), db)
          else if entry_of db (cas_TransactionId req) \<noteq> None then (Inr (cashier_replay ft req db), db)
          else run_tx ft db (tx req (amount_minor m) db))"

definition Deposit ::
    "wallet_call faults \<Rightarrow> time \<Rightarrow> CashierRequest \<Rightarrow> wallet_db \<Rightarrow> TransactionResponse rpc" where
  "Deposit ft now req db = cashier_rpc (deposit_tx ft now) ft req db"

definition Withdraw ::
    "wallet_call faults \<Rightarrow> time \<Rightarrow> CashierRequest \<Rightarrow> wallet_db \<Rightarrow> TransactionResponse rpc" where
  "Withdraw ft now req db = cashier_rpc (withdraw_tx ft now) ft req db"

text \<open>
  The reconciliation job: the identifiers it alerts on (a row whose \<^verbatim>\<open>Scan\<close> fails is skipped)
  and the error it returns.
\<close>

definition ReconcileStaleTransactions ::
    "bool \<Rightarrow> bool \<Rightarrow> (string \<Rightarrow> bool) \<Rightarrow> time \<Rightarrow> time \<Rightarrow> wallet_db \<Rightarrow> string list \<times> string option" where
  "ReconcileStaleTransactions query_fails rows_err scan_fails now threshold db =
     (if query_fails then ([], Some ''reconcile query'')
      else let secs = int64_of_float (Duration_Seconds threshold);
               ids = map transaction_id (filter (\<lambda>e. le_status e = ''PENDING_CONFIRMATION'' \<and>
                       le_created_at e < now - secs * second) (ledger_entries db))
           in (filter (\<lambda>t. \<not> scan_fails t) ids, if rows_err then Some ''rows'' else None))"

section \<open>Invariant and the books\<close>

text \<open>
  \<open>wallet_inv\<close> is what the schema promises: primary keys, CHECK constraints and the foreign key
  from the ledger to the balances. \<open>entry_effect\<close> reads a ledger row as a double entry on
  (available, bets in flight), and the books balance when each user's two columns are the sum of
  the user's rows.
\<close>

definition wallet_inv :: "wallet_db \<Rightarrow> bool" where
  "wallet_inv db \<longleftrightarrow>
     table_ok bal_user_id bal_chk (balances db) \<and>
     table_ok lim_user_id limits_chk (user_limits db) \<and>
     table_ok transaction_id ledger_chk (ledger_entries db) \<and>
     list_all (\<lambda>e. le_user_id e \<in> set (map bal_user_id (balances db))) (ledger_entries db)"

definition empty_wallet :: wallet_db where
  "empty_wallet = \<lparr>balances = [], user_limits = [], ledger_entries = []\<rparr>"

definition avail_of :: "wallet_db \<Rightarrow> string \<Rightarrow> int" where
  "avail_of db u = (case balance_of db u of None \<Rightarrow> 0 | Some b \<Rightarrow> available_minor b)"

definition flight_of :: "wallet_db \<Rightarrow> string \<Rightarrow> int" where
  "flight_of db u = (case balance_of db u of None \<Rightarrow> 0 | Some b \<Rightarrow> bets_in_flight_minor b)"

definition avail_effect :: "ledger_row \<Rightarrow> int" where
  "avail_effect e =
     (if entry_type e = ''DEBIT'' \<or> entry_type e = ''DEBIT_WITHDRAWAL'' then - stake_minor e
      else stake_minor e)"

definition flight_effect :: "ledger_row \<Rightarrow> int" where
  "flight_effect e =
     (if entry_type e = ''DEBIT'' then stake_minor e
      else if entry_type e = ''DEBIT_WITHDRAWAL'' \<or> entry_type e = ''CREDIT_DEPOSIT'' then 0
      else - stake_minor e)"

definition entries_of :: "wallet_db \<Rightarrow> string \<Rightarrow> ledger_row list" where
  "entries_of db u = filter (\<lambda>e. le_user_id e = u) (ledger_entries db)"

definition books_balance :: "wallet_db \<Rightarrow> bool" where
  "books_balance db \<longleftrightarrow>
     (\<forall>u. avail_of db u = sum_list (map avail_effect (entries_of db u)) \<and>
          flight_of db u = sum_list (map flight_effect (entries_of db u)))"

text \<open>\<open>posts e db db'\<close>: the database after is the one before plus the entry \<open>e\<close>, applied to
  the balances exactly once.\<close>

definition posts :: "ledger_row \<Rightarrow> wallet_db \<Rightarrow> wallet_db \<Rightarrow> bool" where
  "posts e db db' \<longleftrightarrow>
     wallet_inv db' \<and> entry_of db (transaction_id e) = None \<and>
     ledger_entries db' = ledger_entries db @ [e] \<and>
     (\<forall>u. avail_of db' u = avail_of db u + (if u = le_user_id e then avail_effect e else 0)) \<and>
     (\<forall>u. flight_of db' u = flight_of db u + (if u = le_user_id e then flight_effect e else 0))"

lemma wallet_inv_empty [simp]: "wallet_inv empty_wallet"
  by (simp add: wallet_inv_def empty_wallet_def)

lemma books_balance_empty [simp]: "books_balance empty_wallet"
  by (simp add: books_balance_def empty_wallet_def avail_of_def flight_of_def balance_of_def
      entries_of_def sql_simps)

lemma balance_of_chk: "wallet_inv db \<Longrightarrow> balance_of db u = Some b \<Longrightarrow> bal_chk b"
  by (auto simp: wallet_inv_def balance_of_def dest: table_ok_chk)

lemma balance_of_update_ledger [simp]:
  "balance_of (db\<lparr>ledger_entries := ls\<rparr>) u = balance_of db u"
  "balance_of (db\<lparr>user_limits := ms\<rparr>) u = balance_of db u"
  by (simp_all add: balance_of_def)

lemma entry_of_append:
  assumes "ledger_entries db' = ledger_entries db @ [e]"
  shows "entry_of db' t =
     (case entry_of db t of Some x \<Rightarrow> Some x | None \<Rightarrow> if transaction_id e = t then Some e else None)"
  using assms by (simp add: entry_of_def by_key_append)

lemma row_updates_keep_user [simp]:
  "bal_user_id (deduct_row now x r) = bal_user_id r"
  "bal_user_id (credit_row now x r) = bal_user_id r"
  by (simp_all add: deduct_row_def credit_row_def)

text \<open>Changing the balance row of one user through \<open>f\<close> changes that user's columns only.\<close>

lemma columns_after_update:
  assumes "\<And>r. bal_user_id (f r) = bal_user_id r"
    and "balances db' = set_rows (\<lambda>r. bal_user_id r = u) f (balances db)"
  shows "avail_of db' v = (if v = u then (case balance_of db u of None \<Rightarrow> 0
            | Some b \<Rightarrow> available_minor (f b)) else avail_of db v)"
    and "flight_of db' v = (if v = u then (case balance_of db u of None \<Rightarrow> 0
            | Some b \<Rightarrow> bets_in_flight_minor (f b)) else flight_of db v)"
  using by_key_set_rows [of bal_user_id f v u "balances db", OF assms(1)] assms(2)
  by (auto simp: avail_of_def flight_of_def balance_of_def split: option.splits)

lemma wallet_inv_update:
  assumes "wallet_inv db" "\<And>r. bal_user_id (f r) = bal_user_id r"
    and "update_rows bal_chk p f (balances db) = Some bs"
  shows "table_ok bal_user_id bal_chk bs" "set (map bal_user_id bs) = set (map bal_user_id (balances db))"
proof -
  show "table_ok bal_user_id bal_chk bs"
    using assms by (auto simp: wallet_inv_def intro: table_ok_update)
  from update_rows_SomeD [OF assms(3)] have "bs = set_rows p f (balances db)" by simp
  then show "set (map bal_user_id bs) = set (map bal_user_id (balances db))"
    by (simp only: keys_set_rows [of bal_user_id f, OF assms(2)])
qed

text \<open>The common core of every transaction that records a fresh entry.\<close>

lemma posts_update:
  assumes inv: "wallet_inv db"
    and key: "\<And>r. bal_user_id (f r) = bal_user_id r"
    and b: "balance_of db (le_user_id e) = Some b"
    and upd: "update_rows bal_chk (\<lambda>r. bal_user_id r = le_user_id e) f (balances db) = Some bs"
    and ins: "insert_row transaction_id ledger_chk (\<lambda>r. le_user_id r \<in> set (map bal_user_id bs)) e
                (ledger_entries db) = Some ls"
    and av: "available_minor (f b) = available_minor b + avail_effect e"
    and fli: "bets_in_flight_minor (f b) = bets_in_flight_minor b + flight_effect e"
  shows "posts e db (db\<lparr>balances := bs, ledger_entries := ls\<rparr>)"
proof -
  let ?db' = "db\<lparr>balances := bs, ledger_entries := ls\<rparr>"
  note bs = wallet_inv_update [OF inv key upd]
  note ls = insert_row_SomeD [OF ins]
  have "table_ok transaction_id ledger_chk ls"
    using inv ins by (auto simp: wallet_inv_def intro: table_ok_insert)
  then have "wallet_inv ?db'"
    using inv bs ls by (auto simp: wallet_inv_def)
  moreover have "balances ?db' = set_rows (\<lambda>r. bal_user_id r = le_user_id e) f (balances db)"
    using update_rows_SomeD [OF upd] by simp
  note columns_after_update [OF key this]
  ultimately show ?thesis
    using b av fli ls by (simp add: posts_def entry_of_def avail_of_def [of db] flight_of_def [of db])
qed

section \<open>What each transaction does\<close>

lemma deduct_posts:
  assumes inv: "wallet_inv db" and ok: "deduct_tx ft now req db = Inr (db', resp)"
  shows "posts (deduct_entry now req) db db'"
    and "GetAmountMinor (ded_Stake req) \<le> avail_of db (ded_UserId req)"
    and "balance_of db (ded_UserId req) \<noteq> None"
proof -
  let ?e = "deduct_entry now req" and ?s = "GetAmountMinor (ded_Stake req)"
  from ok obtain b bs ls where b: "balance_of db (ded_UserId req) = Some b"
    and s: "?s \<le> available_minor b"
    and upd: "update_rows bal_chk (\<lambda>r. bal_user_id r = le_user_id ?e) (deduct_row now ?s)
                (balances db) = Some bs"
    and ins: "insert_row transaction_id ledger_chk (\<lambda>r. le_user_id r \<in> set (map bal_user_id bs)) ?e
                (ledger_entries db) = Some ls"
    and db': "db' = db\<lparr>balances := bs, ledger_entries := ls\<rparr>"
    by (auto simp: deduct_tx_def Let_def deduct_entry_def)
  show "posts ?e db db'" unfolding db'
    by (rule posts_update [OF inv _ _ upd ins, of b])
      (simp_all add: b deduct_entry_def deduct_row_def avail_effect_def flight_effect_def)
  show "?s \<le> avail_of db (ded_UserId req)" "balance_of db (ded_UserId req) \<noteq> None"
    using b s by (simp_all add: avail_of_def)
qed

lemma withdraw_posts:
  assumes inv: "wallet_inv db" and ok: "withdraw_tx ft now req x db = Inr (db', resp)"
  shows "\<exists>cur. posts (cashier_entry now ''DEBIT_WITHDRAWAL'' req x cur) db db'"
    and "x \<le> avail_of db (cas_UserId req)"
proof -
  from ok obtain b0 bs b ls where b: "balance_of db (cas_UserId req) = Some b0"
    and x: "x \<le> available_minor b0"
    and upd: "update_rows bal_chk (\<lambda>r. bal_user_id r = cas_UserId req)
                (\<lambda>r. r\<lparr>available_minor := available_minor r - x, bal_updated_at := now\<rparr>)
                (balances db) = Some bs"
    and "by_key bal_user_id (cas_UserId req) bs = Some b"
    and ins: "insert_row transaction_id ledger_chk (\<lambda>r. le_user_id r \<in> set (map bal_user_id bs))
                (cashier_entry now ''DEBIT_WITHDRAWAL'' req x (bal_currency b))
                (ledger_entries db) = Some ls"
    and db': "db' = db\<lparr>balances := bs, ledger_entries := ls\<rparr>"
    by (auto simp: withdraw_tx_def Let_def)
  let ?e = "cashier_entry now ''DEBIT_WITHDRAWAL'' req x (bal_currency b)"
  have "posts ?e db db'" unfolding db'
    by (rule posts_update [OF inv _ _ _ ins,
          of "\<lambda>r. r\<lparr>available_minor := available_minor r - x, bal_updated_at := now\<rparr>" b0])
      (use upd b in \<open>simp_all add: cashier_entry_def avail_effect_def flight_effect_def\<close>)
  then show "\<exists>cur. posts (cashier_entry now ''DEBIT_WITHDRAWAL'' req x cur) db db'" by blast
  show "x \<le> avail_of db (cas_UserId req)" using b x by (simp add: avail_of_def)
qed

lemma upsert_keys:
  assumes "upsert_row key chk fk r f t = Some t'" "\<And>r. key (f r) = key r"
  shows "set (map key t') = insert (key r) (set (map key t))"
  using assms keys_set_rows [of key f, OF assms(2)]
  by (auto simp: upsert_row_def dest!: update_rows_SomeD split: if_splits simp flip: set_map)

lemma deposit_posts:
  assumes inv: "wallet_inv db" and ok: "deposit_tx ft now req x db = Inr (db', resp)"
  shows "\<exists>cur. posts (cashier_entry now ''CREDIT_DEPOSIT'' req x cur) db db'"
    and "0 \<le> x"
    and "AvailableAfter resp \<noteq> None \<and> GetAmountMinor (AvailableAfter resp) = avail_of db (cas_UserId req) + x"
proof -
  let ?u = "cas_UserId req"
  let ?r = "\<lparr>bal_user_id = ?u, available_minor = x, bets_in_flight_minor = 0,
               bal_currency = ''USD'', bal_updated_at = now\<rparr>"
  let ?f = "\<lambda>r. r\<lparr>available_minor := available_minor r + x, bal_updated_at := now\<rparr>"
  from ok obtain lims bs b ls where
    lims: "insert_nothing lim_user_id limits_chk (\<lambda>_. True) (default_limits ?u) (user_limits db) = Some lims"
    and ups: "upsert_row bal_user_id bal_chk (\<lambda>_. True) ?r ?f (balances db) = Some bs"
    and b: "by_key bal_user_id ?u bs = Some b"
    and ins: "insert_row transaction_id ledger_chk (\<lambda>r. le_user_id r \<in> set (map bal_user_id bs))
                (cashier_entry now ''CREDIT_DEPOSIT'' req x (bal_currency b))
                (ledger_entries db) = Some ls"
    and db': "db' = db\<lparr>balances := bs, user_limits := lims, ledger_entries := ls\<rparr>"
    and resp: "AvailableAfter resp = Some \<lparr>amount_minor = available_minor b, currency = bal_currency b\<rparr>"
    by (auto simp: deposit_tx_def Let_def)
  let ?e = "cashier_entry now ''CREDIT_DEPOSIT'' req x (bal_currency b)"
  have tb: "table_ok bal_user_id bal_chk (balances db)" using inv by (simp add: wallet_inv_def)
  have bs: "table_ok bal_user_id bal_chk bs" by (rule table_ok_upsert [OF tb ups]) simp
  have look: "by_key bal_user_id k bs = (if k = ?u then Some (case balance_of db k of None \<Rightarrow> ?r
      | Some y \<Rightarrow> ?f y) else balance_of db k)" for k
    using by_key_upsert [OF tb ups, of k] by (simp add: balance_of_def)
  have cols: "avail_of db' k = avail_of db k + (if k = ?u then x else 0)"
    "flight_of db' k = flight_of db k" for k
    using look [of k] by (auto simp: avail_of_def flight_of_def balance_of_def db' split: option.splits)
  have "set (map bal_user_id bs) = insert ?u (set (map bal_user_id (balances db)))"
    using upsert_keys [OF ups] by simp
  moreover have "table_ok transaction_id ledger_chk ls"
    using inv ins by (auto simp: wallet_inv_def intro: table_ok_insert)
  moreover have "table_ok lim_user_id limits_chk lims"
    using inv lims by (auto simp: wallet_inv_def intro: table_ok_insert_nothing)
  ultimately have "wallet_inv db'"
    using inv bs insert_row_SomeD [OF ins] by (auto simp: wallet_inv_def db' list_all_iff)
  then have "posts ?e db db'"
    using insert_row_SomeD [OF ins] cols
    by (simp add: posts_def entry_of_def db' cashier_entry_def avail_effect_def flight_effect_def)
  then show "\<exists>cur. posts (cashier_entry now ''CREDIT_DEPOSIT'' req x cur) db db'" by blast
  show "0 \<le> x" using ups by (auto simp: upsert_row_def bal_chk_def split: if_splits)
  have "balance_of db' ?u = Some b" using b by (simp add: db' balance_of_def)
  then show "AvailableAfter resp \<noteq> None \<and> GetAmountMinor (AvailableAfter resp) = avail_of db ?u + x"
    using resp cols(1) [of ?u] by (simp add: GetAmountMinor_def avail_of_def)
qed

text \<open>
  A credit moves the amount from the in-flight column to the available one whether or not its
  identifier is new; it is recorded only when it is new.
\<close>

definition credited :: "CreditBalanceRequest \<Rightarrow> wallet_db \<Rightarrow> int" where
  "credited req db =
     (if balance_of db (cre_UserId req) = None then 0 else GetAmountMinor (cre_Amount req))"

lemma credit_effect:
  assumes inv: "wallet_inv db" and ok: "credit_tx ft now req db = Inr (db', w)"
  shows "wallet_inv db'"
    and "avail_of db' v = avail_of db v + (if v = cre_UserId req then credited req db else 0)"
    and "flight_of db' v = flight_of db v - (if v = cre_UserId req then credited req db else 0)"
    and "ledger_entries db' = (if entry_of db (cre_TransactionId req) = None
           then ledger_entries db @ [credit_entry now req] else ledger_entries db)"
    and "entry_of db (cre_TransactionId req) = None \<Longrightarrow> balance_of db (cre_UserId req) \<noteq> None"
proof -
  let ?u = "cre_UserId req" and ?a = "GetAmountMinor (cre_Amount req)" and ?e = "credit_entry now req"
  from ok obtain bs ls where
    upd: "update_rows bal_chk (\<lambda>r. bal_user_id r = ?u) (credit_row now ?a) (balances db) = Some bs"
    and ins: "insert_nothing transaction_id ledger_chk (\<lambda>r. le_user_id r \<in> set (map bal_user_id bs)) ?e
                (ledger_entries db) = Some ls"
    and db': "db' = db\<lparr>balances := bs, ledger_entries := ls\<rparr>"
    by (auto simp: credit_tx_def Let_def)
  have e: "transaction_id ?e = cre_TransactionId req" "le_user_id ?e = ?u"
    by (simp_all add: credit_entry_def)
  note bs = wallet_inv_update [OF inv _ upd, simplified]
  note ls = insert_nothing_SomeD [OF ins, unfolded e]
  show "ledger_entries db' = (if entry_of db (cre_TransactionId req) = None
           then ledger_entries db @ [?e] else ledger_entries db)"
    using ls by (auto simp: db' entry_of_def)
  show "wallet_inv db'"
    using inv bs ls table_ok_insert_nothing [OF _ ins] by (auto simp: wallet_inv_def db' e)
  show "balance_of db ?u \<noteq> None" if "entry_of db (cre_TransactionId req) = None"
    using that ls bs by (auto simp: entry_of_def balance_of_def by_key_None_iff)
  have "balances db' = set_rows (\<lambda>r. bal_user_id r = ?u) (credit_row now ?a) (balances db)"
    using update_rows_SomeD [OF upd] by (simp add: db')
  note cols = columns_after_update [OF _ this, simplified]
  show "avail_of db' v = avail_of db v + (if v = ?u then credited req db else 0)"
    "flight_of db' v = flight_of db v - (if v = ?u then credited req db else 0)"
    using cols [of v] by (auto simp: credited_def credit_row_def avail_of_def [of db]
        flight_of_def [of db] split: option.splits)
qed

lemma credit_posts:
  assumes "wallet_inv db" "credit_tx ft now req db = Inr (db', w)"
    and "entry_of db (cre_TransactionId req) = None" "cre_Reason req \<noteq> CREDIT_REASON_DEPOSIT"
  shows "posts (credit_entry now req) db db'"
proof -
  have "avail_effect (credit_entry now req) = GetAmountMinor (cre_Amount req)"
    "flight_effect (credit_entry now req) = - GetAmountMinor (cre_Amount req)"
    using assms(4) by (cases "cre_Reason req"; simp add: credit_entry_def avail_effect_def flight_effect_def)+
  moreover have "credited req db = GetAmountMinor (cre_Amount req)"
    using credit_effect(5) [OF assms(1,2,3)] by (auto simp: credited_def)
  moreover have "le_user_id (credit_entry now req) = cre_UserId req"
    "transaction_id (credit_entry now req) = cre_TransactionId req"
    by (simp_all add: credit_entry_def)
  ultimately show ?thesis
    using credit_effect(1-4) [OF assms(1,2)] assms(3) by (simp add: posts_def)
qed

lemma run_tx_cases:
  assumes "run_tx ft db body = (res, db')"
  obtains (unchanged) "db' = db" "\<exists>e. res = Inl e"
  | (applied) a where "body = Inr (db', a)" "\<not> ft BeginTx" "\<not> ft CommitTx"
      "res = (if ft CommitAck then Inl (Status Internal ''commit'') else Inr a)"
  using assms by (auto simp: run_tx_def split: if_splits sum.splits)

section \<open>Every interleaving of the RPCs\<close>

text \<open>
  One step is one transaction, run at any moment and without the idempotency read that precedes
  it: concurrent RPCs interleave their reads in any way, and their transactions, serialised by the
  locks, are a sequence of such steps. \<open>fresh_credit\<close> says that a credit carries a new identifier
  and is not labelled as a deposit; it is the only premise the exact books need.
\<close>

definition fresh_credit :: "CreditBalanceRequest \<Rightarrow> wallet_db \<Rightarrow> bool" where
  "fresh_credit req db \<longleftrightarrow>
     entry_of db (cre_TransactionId req) = None \<and> cre_Reason req \<noteq> CREDIT_REASON_DEPOSIT"

inductive wallet_step :: "(CreditBalanceRequest \<Rightarrow> wallet_db \<Rightarrow> bool) \<Rightarrow> wallet_db \<Rightarrow> wallet_db \<Rightarrow> bool"
  for C :: "CreditBalanceRequest \<Rightarrow> wallet_db \<Rightarrow> bool" where
  deduct: "run_tx ft db (deduct_tx ft now req db) = (r, db') \<Longrightarrow> wallet_step C db db'"
| credit: "C req db \<Longrightarrow> run_tx ft db (credit_tx ft now req db) = (rc, db') \<Longrightarrow> wallet_step C db db'"
| confirm: "ConfirmTransaction ft now t db = (r, db') \<Longrightarrow> wallet_step C db db'"
| deposit: "run_tx ft db (deposit_tx ft now creq x db) = (r, db') \<Longrightarrow> wallet_step C db db'"
| withdraw: "run_tx ft db (withdraw_tx ft now creq x db) = (r, db') \<Longrightarrow> wallet_step C db db'"

lemma confirm_cases:
  assumes "ConfirmTransaction ft now t db = (r, db')"
  obtains "db' = db" | "db' = db\<lparr>ledger_entries := set_rows
      (\<lambda>e. transaction_id e = t \<and> le_status e = ''PENDING_CONFIRMATION'') (confirm_row now)
      (ledger_entries db)\<rparr>"
  using assms by (auto simp: ConfirmTransaction_def Let_def split: if_splits)

lemma confirm_row_keeps [simp]:
  "transaction_id (confirm_row now e) = transaction_id e"
  "le_user_id (confirm_row now e) = le_user_id e"
  "stake_minor (confirm_row now e) = stake_minor e"
  "entry_type (confirm_row now e) = entry_type e"
  "payment_method (confirm_row now e) = payment_method e"
  "avail_effect (confirm_row now e) = avail_effect e"
  "flight_effect (confirm_row now e) = flight_effect e"
  "ledger_chk e \<Longrightarrow> ledger_chk (confirm_row now e)"
  by (simp_all add: confirm_row_def avail_effect_def flight_effect_def ledger_chk_def)

lemma sum_confirm_row:
  assumes "\<And>e. g (confirm_row now e) = g e"
  shows "sum_list (map g (filter (\<lambda>e. le_user_id e = u) (set_rows p (confirm_row now) t))) =
    sum_list (map g (filter (\<lambda>e. le_user_id e = u) t))"
  using assms by (induction t) (auto simp: set_rows_def)

lemma wallet_inv_confirm:
  assumes "wallet_inv db"
  shows "wallet_inv (db\<lparr>ledger_entries := set_rows p (confirm_row now) (ledger_entries db)\<rparr>)"
proof -
  let ?ls = "set_rows p (confirm_row now) (ledger_entries db)"
  have "table_ok transaction_id ledger_chk ?ls"
    using assms by (intro table_ok_set_rows)
      (auto simp: wallet_inv_def table_ok_def list_all_iff)
  moreover have "list_all (\<lambda>e. le_user_id e \<in> set (map bal_user_id (balances db))) ?ls"
    using assms by (auto simp: wallet_inv_def list_all_iff set_rows_def)
  ultimately show ?thesis using assms by (simp add: wallet_inv_def)
qed

lemma entry_fields [simp]:
  "avail_effect (deduct_entry now req) = - GetAmountMinor (ded_Stake req)"
  "flight_effect (deduct_entry now req) = GetAmountMinor (ded_Stake req)"
  "payment_method (deduct_entry now req) = None"
  "transaction_id (deduct_entry now req) = ded_TransactionId req"
  "le_user_id (deduct_entry now req) = ded_UserId req"
  "payment_method (cashier_entry now ty creq x cur) = Some (cas_PaymentMethod creq)"
  "transaction_id (cashier_entry now ty creq x cur) = cas_TransactionId creq"
  "le_user_id (cashier_entry now ty creq x cur) = cas_UserId creq"
  "avail_effect (cashier_entry now ''CREDIT_DEPOSIT'' creq x cur) = x"
  "avail_effect (cashier_entry now ''DEBIT_WITHDRAWAL'' creq x cur) = - x"
  "flight_effect (cashier_entry now ''CREDIT_DEPOSIT'' creq x cur) = 0"
  "flight_effect (cashier_entry now ''DEBIT_WITHDRAWAL'' creq x cur) = 0"
  "payment_method (credit_entry now kreq) = None"
  "transaction_id (credit_entry now kreq) = cre_TransactionId kreq"
  "le_user_id (credit_entry now kreq) = cre_UserId kreq"
  by (simp_all add: deduct_entry_def cashier_entry_def credit_entry_def avail_effect_def
      flight_effect_def)

text \<open>
  What a step does to the database, in one of four shapes. The case rule is the interface between
  the transactions and the theorems about all interleavings.
\<close>

lemma wallet_step_cases:
  assumes "wallet_step C db db'" and inv: "wallet_inv db"
  obtains (same) "db' = db"
  | (posted) e where "posts e db db'" "payment_method e = None \<Longrightarrow> avail_effect e + flight_effect e = 0"
      "payment_method e \<noteq> None \<Longrightarrow> flight_effect e = 0"
  | (credited) req ft now w where "C req db" "credit_tx ft now req db = Inr (db', w)"
  | (confirmed) now p where
      "db' = db\<lparr>ledger_entries := set_rows p (confirm_row now) (ledger_entries db)\<rparr>"
  using assms(1)
proof cases
  case (deduct ft now req r)
  then show ?thesis
  proof (cases rule: run_tx_cases)
    case (applied a)
    show ?thesis by (rule posted [OF deduct_posts(1) [OF inv applied(1)]]) simp_all
  qed (rule same)
next
  case (credit req ft now rc)
  from credit(2) credit(1) show ?thesis by (cases rule: run_tx_cases) (auto intro: same credited)
next
  case (confirm ft now t r)
  then show ?thesis by (cases rule: confirm_cases) (auto intro: same confirmed)
next
  case (deposit ft now req x r)
  then show ?thesis
  proof (cases rule: run_tx_cases)
    case (applied a)
    obtain cur where "posts (cashier_entry now ''CREDIT_DEPOSIT'' req x cur) db db'"
      using deposit_posts(1) [OF inv applied(1)] by blast
    then show ?thesis by (rule posted) simp_all
  qed (rule same)
next
  case (withdraw ft now req x r)
  then show ?thesis
  proof (cases rule: run_tx_cases)
    case (applied a)
    obtain cur where "posts (cashier_entry now ''DEBIT_WITHDRAWAL'' req x cur) db db'"
      using withdraw_posts(1) [OF inv applied(1)] by blast
    then show ?thesis by (rule posted) simp_all
  qed (rule same)
qed

lemma wallet_step_inv: "wallet_step C db db' \<Longrightarrow> wallet_inv db \<Longrightarrow> wallet_inv db'"
  by (elim wallet_step_cases) (auto simp: posts_def intro: credit_effect(1) wallet_inv_confirm)

lemma books_after_post:
  assumes "posts e db db'" "books_balance db"
  shows "books_balance db'"
  using assms by (auto simp: posts_def books_balance_def entries_of_def)

lemma books_after_confirm:
  assumes "books_balance db"
  shows "books_balance (db\<lparr>ledger_entries := set_rows p (confirm_row now) (ledger_entries db)\<rparr>)"
  using assms by (simp add: books_balance_def entries_of_def sum_confirm_row avail_of_def flight_of_def)

section \<open>Theorems about every interleaving\<close>

definition cash_effect :: "ledger_row \<Rightarrow> int" where
  "cash_effect e = (if payment_method e = None then 0 else avail_effect e)"


abbreviation any_credit :: "CreditBalanceRequest \<Rightarrow> wallet_db \<Rightarrow> bool" where
  "any_credit \<equiv> (\<lambda>_ _. True)"

lemma reach_wallet_inv:
  "reach (wallet_step C) db db' \<Longrightarrow> wallet_inv db \<Longrightarrow> wallet_inv db'"
  by (erule reach_invariant) (auto intro: wallet_step_inv)

lemma columns_nonneg:
  assumes "wallet_inv db"
  shows "0 \<le> avail_of db u" "0 \<le> flight_of db u" "in_int64 (avail_of db u)" "in_int64 (flight_of db u)"
  using balance_of_chk [OF assms, of u]
  by (auto simp: avail_of_def flight_of_def bal_chk_def in_int64_def split: option.splits)

lemma cash_effect_simps [simp]:
  "cash_effect (confirm_row now e) = cash_effect e"
  "payment_method e = None \<Longrightarrow> cash_effect e = 0"
  by (simp_all add: cash_effect_def)



lemma books_step:
  assumes step: "wallet_step fresh_credit db db'" and inv: "wallet_inv db" and b: "books_balance db"
  shows "books_balance db'"
  using step inv
proof (cases rule: wallet_step_cases)
  case (credited req ft now w)
  then show ?thesis
    using books_after_post [OF credit_posts [OF inv]] b by (auto simp: fresh_credit_def)
qed (use b books_after_post books_after_confirm in auto)

text \<open>How a ledger row may change: a pending row is confirmed once, and nothing else ever happens to it.\<close>

definition row_kept :: "ledger_row \<Rightarrow> ledger_row \<Rightarrow> bool" where
  "row_kept e e' \<longleftrightarrow> e' = e \<or> le_status e = ''PENDING_CONFIRMATION'' \<and> (\<exists>t. e' = e\<lparr>le_status := ''CONFIRMED'', confirmed_at := Some t\<rparr>)"

definition ledger_extends :: "ledger_row list \<Rightarrow> ledger_row list \<Rightarrow> bool" where
  "ledger_extends es es' \<longleftrightarrow> (\<exists>old new. es' = old @ new \<and> list_all2 row_kept es old)"

lemma row_kept_trans: "row_kept a b \<Longrightarrow> row_kept b c \<Longrightarrow> row_kept a c"
  by (auto simp: row_kept_def)

lemma ledger_extends_refl: "ledger_extends es es"
  unfolding ledger_extends_def by (intro exI [of _ es] exI [of _ "[]"]) (simp add: row_kept_def list.rel_refl)

lemma ledger_extends_append: "ledger_extends es (es @ new)"
  unfolding ledger_extends_def by (intro exI [of _ es] exI [of _ new]) (simp add: row_kept_def list.rel_refl)

lemma ledger_extends_trans:
  assumes "ledger_extends a b" "ledger_extends b c"
  shows "ledger_extends a c"
proof -
  obtain o1 n1 where b: "b = o1 @ n1" "list_all2 row_kept a o1" using assms(1) by (auto simp: ledger_extends_def)
  obtain o2 n2 where c: "c = o2 @ n2" "list_all2 row_kept b o2" using assms(2) by (auto simp: ledger_extends_def)
  then obtain p q where p: "o2 = p @ q" "list_all2 row_kept o1 p" using b(1) by (auto simp: list_all2_append1)
  have "list_all2 row_kept a p" using row_kept_trans b(2) p(2) by (rule list_all2_trans)
  then show ?thesis using c(1) p(1) unfolding ledger_extends_def by (intro exI [of _ p] exI [of _ "q @ n2"]) simp
qed

lemma ledger_extends_confirm:
  "ledger_extends es (set_rows (\<lambda>e. transaction_id e = t \<and> le_status e = ''PENDING_CONFIRMATION'') (confirm_row now) es)"
  (is "ledger_extends es ?es")
proof -
  have "list_all2 row_kept es ?es"
    unfolding set_rows_def list_all2_map2 by (rule list.rel_refl_strong) (auto simp: row_kept_def confirm_row_def)
  then show ?thesis unfolding ledger_extends_def by (intro exI [of _ ?es] exI [of _ "[]"]) simp
qed

lemma wallet_step_extends:
  assumes step: "wallet_step C db db'" and inv: "wallet_inv db"
  shows "ledger_extends (ledger_entries db) (ledger_entries db')"
proof -
  have confirmed: "ledger_extends (ledger_entries db) (ledger_entries db')" if "ConfirmTransaction ft now t db = (r, db')" for ft now t r
    using that ledger_extends_confirm [of "ledger_entries db" t now]
    by (auto simp: ConfirmTransaction_def Let_def ledger_extends_refl split: if_splits)
  from step show ?thesis
  proof cases
    case (deduct ft now req r)
    then show ?thesis
      by (cases rule: run_tx_cases)
        (auto simp: ledger_extends_refl posts_def ledger_extends_append dest: deduct_posts(1) [OF inv])
  next
    case (credit req ft now rc)
    from credit(2) show ?thesis
      by (cases rule: run_tx_cases) (auto simp: ledger_extends_refl ledger_extends_append dest: credit_effect(4) [OF inv])
  next
    case (confirm ft now t r)
    then show ?thesis by (rule confirmed)
  next
    case (deposit ft now req x r)
    then show ?thesis
      by (cases rule: run_tx_cases)
        (auto simp: ledger_extends_refl posts_def ledger_extends_append dest: deposit_posts(1) [OF inv])
  next
    case (withdraw ft now req x r)
    then show ?thesis
      by (cases rule: run_tx_cases)
        (auto simp: ledger_extends_refl posts_def ledger_extends_append dest: withdraw_posts(1) [OF inv])
  qed
qed

text \<open>C1. The ledger is append-only: from any database that satisfies the schema, whatever transactions
  of concurrent RPCs commit in whatever order, and whatever fails, the rows stay in place and new ones
  come after them; a row is never changed, except that a pending one becomes CONFIRMED with its
  instant, once, and then stays as it is.\<close>

theorem ledger_append_only:
  assumes "wallet_inv db" "reach (wallet_step any_credit) db db'"
  shows "\<exists>old new. ledger_entries db' = old @ new \<and> length old = length (ledger_entries db) \<and>
    (\<forall>i < length old. old ! i = ledger_entries db ! i \<or> le_status (ledger_entries db ! i) = ''PENDING_CONFIRMATION'' \<and>
       (\<exists>t. old ! i = (ledger_entries db ! i)\<lparr>le_status := ''CONFIRMED'', confirmed_at := Some t\<rparr>))"
proof -
  have "wallet_inv db' \<and> ledger_extends (ledger_entries db) (ledger_entries db')"
    using assms(2)
  proof (rule reach_invariant)
    show "wallet_inv db \<and> ledger_extends (ledger_entries db) (ledger_entries db)" using assms(1) ledger_extends_refl by simp
  qed (blast intro: wallet_step_inv wallet_step_extends ledger_extends_trans)
  then obtain old new where "ledger_entries db' = old @ new" "list_all2 row_kept (ledger_entries db) old"
    by (auto simp: ledger_extends_def)
  then show ?thesis by (intro exI [of _ old] exI [of _ new]) (simp add: list_all2_conv_all_nth row_kept_def)
qed

text \<open>C2. Double entry: as long as credits carry fresh identifiers, a user's available balance and
  bets in flight are always the sums of the user's ledger rows, each read as a double entry.\<close>

theorem wallet_books_balance:
  assumes "reach (wallet_step fresh_credit) empty_wallet db"
  shows "avail_of db u = sum_list (map avail_effect (entries_of db u)) \<and>
    flight_of db u = sum_list (map flight_effect (entries_of db u))"
proof -
  have "wallet_inv db \<and> books_balance db"
    using assms by (rule reach_invariant) (auto intro: wallet_step_inv books_step)
  then show ?thesis by (simp add: books_balance_def)
qed


section \<open>The RPCs as steps\<close>

lemma wallet_rpc_step:
  shows "DeductBalance ft now req db = (r, db') \<Longrightarrow> reach (wallet_step C) db db'"
    and "Deposit ft now creq db = (r, db') \<Longrightarrow> reach (wallet_step C) db db'"
    and "Withdraw ft now creq db = (r, db') \<Longrightarrow> reach (wallet_step C) db db'"
    and "ConfirmTransaction ft now t db = (r, db') \<Longrightarrow> reach (wallet_step C) db db'"
    and "CreditBalance ft now kreq db = (r, db') \<Longrightarrow> C kreq db \<Longrightarrow> reach (wallet_step C) db db'"
proof -
  note intros = reach_single wallet_step.intros
  show "DeductBalance ft now req db = (r, db') \<Longrightarrow> reach (wallet_step C) db db'"
    by (auto simp: DeductBalance_def intro: intros split: if_splits option.splits)
  show "Deposit ft now creq db = (r, db') \<Longrightarrow> reach (wallet_step C) db db'"
    by (auto simp: Deposit_def cashier_rpc_def intro: intros split: if_splits option.splits)
  show "Withdraw ft now creq db = (r, db') \<Longrightarrow> reach (wallet_step C) db db'"
    by (auto simp: Withdraw_def cashier_rpc_def intro: intros split: if_splits option.splits)
  show "ConfirmTransaction ft now t db = (r, db') \<Longrightarrow> reach (wallet_step C) db db'"
    by (auto intro: intros)
  show "CreditBalance ft now kreq db = (r, db') \<Longrightarrow> C kreq db \<Longrightarrow> reach (wallet_step C) db db'"
    by (auto simp: CreditBalance_def Let_def intro: intros split: if_splits prod.splits sum.splits)
qed

lemma recorded_stays:
  assumes "wallet_step C db db'" "wallet_inv db" "entry_of db t = Some e"
  shows "\<exists>e'. entry_of db' t = Some e' \<and> transaction_id e' = transaction_id e \<and>
    le_user_id e' = le_user_id e \<and> entry_type e' = entry_type e \<and> stake_minor e' = stake_minor e"
  using assms(1,2)
proof (cases rule: wallet_step_cases)
  case (posted e')
  then show ?thesis using assms(3) entry_of_append [of db' db e'] by (simp add: posts_def)
next
  case (credited req ft now w)
  then show ?thesis
    using assms(3) credit_effect(4) [OF assms(2) credited(2)]
    by (auto simp: entry_of_def by_key_append)
next
  case (confirmed now p)
  then show ?thesis
    using assms(3) by_key_set_rows_guarded [of transaction_id "confirm_row now" t p "ledger_entries db"]
    by (auto simp: entry_of_def)
qed (use assms(3) in simp)

lemma run_tx_no_effect:
  "(\<And>db' a. body = Inr (db', a) \<Longrightarrow> False) \<Longrightarrow> snd (run_tx ft db body) = db"
  by (auto simp: run_tx_def split: sum.splits)

lemma replayed_tx_fails:
  assumes "wallet_inv db" "entry_of db t = Some e"
  shows "ded_TransactionId req = t \<Longrightarrow> snd (run_tx ft db (deduct_tx ft now req db)) = db"
    and "cas_TransactionId creq = t \<Longrightarrow> snd (run_tx ft db (deposit_tx ft now creq x db)) = db"
    and "cas_TransactionId creq = t \<Longrightarrow> snd (run_tx ft db (withdraw_tx ft now creq x db)) = db"
proof -
  have unposted: False if "posts e' db db'" "transaction_id e' = t" for e' db'
    using that assms(2) by (simp add: posts_def)
  show "snd (run_tx ft db (deduct_tx ft now req db)) = db" if "ded_TransactionId req = t"
    using unposted deduct_posts(1) [OF assms(1)] that by (fastforce intro: run_tx_no_effect)
  show "snd (run_tx ft db (deposit_tx ft now creq x db)) = db" if "cas_TransactionId creq = t"
    using unposted deposit_posts(1) [OF assms(1)] that by (fastforce intro: run_tx_no_effect)
  show "snd (run_tx ft db (withdraw_tx ft now creq x db)) = db" if "cas_TransactionId creq = t"
    using unposted withdraw_posts(1) [OF assms(1)] that by (fastforce intro: run_tx_no_effect)
qed

lemma recorded_forever:
  assumes "reach (wallet_step C) db db'" "wallet_inv db" "entry_of db t = Some e"
  shows "wallet_inv db' \<and> (\<exists>e'. entry_of db' t = Some e' \<and> transaction_id e' = transaction_id e \<and>
    le_user_id e' = le_user_id e \<and> entry_type e' = entry_type e \<and> stake_minor e' = stake_minor e)"
  using assms
proof (induction rule: reach.induct)
  case (reach_step s u v)
  then show ?case
    using recorded_stays [of C u v t] wallet_step_inv [of C u v] by fastforce
qed auto

text \<open>C4. A debit, deposit or withdrawal identifier takes effect at most once: once a row with
  the identifier is in the ledger it keeps its user, type and amount for ever, and after any
  further transactions a second transaction with that identifier leaves the database unchanged,
  even when two RPCs race past the idempotency read or that read fails.\<close>

theorem wallet_at_most_once:
  assumes "wallet_inv db" "entry_of db t = Some e" "reach (wallet_step any_credit) db db'"
  shows "(\<exists>e'. entry_of db' t = Some e' \<and> le_user_id e' = le_user_id e \<and>
      entry_type e' = entry_type e \<and> stake_minor e' = stake_minor e) \<and>
    (ded_TransactionId req = t \<longrightarrow> snd (run_tx ft db' (deduct_tx ft now req db')) = db') \<and>
    (cas_TransactionId creq = t \<longrightarrow>
      snd (run_tx ft db' (deposit_tx ft now creq x db')) = db' \<and>
      snd (run_tx ft db' (withdraw_tx ft now creq x db')) = db')"
  using recorded_forever [OF assms(3,1,2)] replayed_tx_fails [of db' t] by blast

section \<open>Functional behaviour of the RPCs\<close>

lemma run_tx_Inl: "run_tx ft db body = (Inl e, db') \<Longrightarrow> \<not> ft CommitAck \<Longrightarrow> db' = db"
  by (auto simp: run_tx_def split: if_splits sum.splits)

lemma in_int64_between: "in_int64 a \<Longrightarrow> 0 \<le> x \<Longrightarrow> x \<le> a \<Longrightarrow> in_int64 x"
  by (simp add: in_int64_def)

lemma deduct_tx_outcome:
  assumes "wallet_inv db" "entry_of db (ded_TransactionId req) = None"
    and b: "balance_of db (ded_UserId req) = Some b"
    and chk: "bal_chk (deduct_row now (GetAmountMinor (ded_Stake req)) b)"
      "in_int64 (GetAmountMinor (ded_Stake req))" "GetAmountMinor (ded_Stake req) \<le> available_minor b"
  shows "\<exists>db'. deduct_tx no_faults now req db = Inr (db',
      \<lparr>resp_TransactionId = ded_TransactionId req,
       resp_Status = LEDGER_ENTRY_STATUS_PENDING_CONFIRMATION,
       AvailableAfter = Some \<lparr>amount_minor = available_minor b - GetAmountMinor (ded_Stake req),
                              currency = GetCurrency (ded_Stake req)\<rparr>\<rparr>)"
proof -
  let ?u = "ded_UserId req" and ?s = "GetAmountMinor (ded_Stake req)"
  let ?bs = "set_rows (\<lambda>r. bal_user_id r = ?u) (deduct_row now ?s) (balances db)"
  have tb: "table_ok bal_user_id bal_chk (balances db)" using assms(1) by (simp add: wallet_inv_def)
  have b': "by_key bal_user_id ?u (balances db) = Some b" using b by (simp add: balance_of_def)
  have upd: "update_rows bal_chk (\<lambda>r. bal_user_id r = ?u) (deduct_row now ?s) (balances db) = Some ?bs"
    using update_rows_by_key [OF tb b'] chk(1) by simp
  have "set (map bal_user_id ?bs) = set (map bal_user_id (balances db))"
    by (simp only: keys_set_rows row_updates_keep_user)
  moreover have "?u \<in> set (map bal_user_id (balances db))" using by_key_SomeD [OF b'] by force
  ultimately have "?u \<in> set (map bal_user_id ?bs)" by blast
  moreover have "ledger_chk (deduct_entry now req)"
    using chk(2) by (simp add: ledger_chk_def deduct_entry_def)
  ultimately have "insert_row transaction_id ledger_chk
      (\<lambda>r. le_user_id r \<in> set (map bal_user_id ?bs)) (deduct_entry now req) (ledger_entries db) =
      Some (ledger_entries db @ [deduct_entry now req])"
    using assms(2) by (simp add: insert_row_iff entry_of_def)
  moreover have "in_int64 (available_minor b - ?s)" using chk(1) by (simp add: bal_chk_def deduct_row_def)
  ultimately show ?thesis using b chk(3) upd by (simp add: deduct_tx_def Let_def)
qed

lemma DeductBalance_fresh:
  assumes "wallet_inv db" "entry_of db (ded_TransactionId req) = None"
    and "ded_TransactionId req \<noteq> []" "ded_UserId req \<noteq> []"
    and b: "balance_of db (ded_UserId req) = Some b"
    and chk: "bal_chk (deduct_row now (GetAmountMinor (ded_Stake req)) b)"
      "in_int64 (GetAmountMinor (ded_Stake req))" "GetAmountMinor (ded_Stake req) \<le> available_minor b"
  shows "\<exists>db'. DeductBalance no_faults now req db =
      (Inr \<lparr>resp_TransactionId = ded_TransactionId req,
            resp_Status = LEDGER_ENTRY_STATUS_PENDING_CONFIRMATION,
            AvailableAfter = Some \<lparr>amount_minor = available_minor b - GetAmountMinor (ded_Stake req),
                                   currency = GetCurrency (ded_Stake req)\<rparr>\<rparr>, db') \<and>
      posts (deduct_entry now req) db db'"
proof -
  obtain db' where tx: "deduct_tx no_faults now req db = Inr (db',
      \<lparr>resp_TransactionId = ded_TransactionId req,
       resp_Status = LEDGER_ENTRY_STATUS_PENDING_CONFIRMATION,
       AvailableAfter = Some \<lparr>amount_minor = available_minor b - GetAmountMinor (ded_Stake req),
                              currency = GetCurrency (ded_Stake req)\<rparr>\<rparr>)"
    using deduct_tx_outcome [OF assms(1,2) b chk] by blast
  then show ?thesis
    using assms(2-4) deduct_posts(1) [OF assms(1) tx]
    by (simp add: DeductBalance_def getExistingTransaction_def run_tx_def)
qed

text \<open>A debit with a new identifier on an existing account: when the stake is covered it
  succeeds, reports the exact balance left, and posts exactly one pending DEBIT row that moves the
  stake from available to in flight (no other user's columns move); when it is not covered it is
  refused with FailedPrecondition and nothing changes.\<close>

theorem DeductBalance_outcome:
  assumes "wallet_inv db" "entry_of db (ded_TransactionId req) = None"
    and "ded_TransactionId req \<noteq> []" "ded_UserId req \<noteq> []"
    and "balance_of db (ded_UserId req) = Some b"
    and "GetAmountMinor (ded_Stake req) = stake" "0 \<le> stake" "bets_in_flight_minor b + stake < 2 ^ 63"
  shows "if stake \<le> available_minor b
    then \<exists>db'. DeductBalance no_faults now req db =
      (Inr \<lparr>resp_TransactionId = ded_TransactionId req,
            resp_Status = LEDGER_ENTRY_STATUS_PENDING_CONFIRMATION,
            AvailableAfter = Some \<lparr>amount_minor = available_minor b - stake,
                                   currency = GetCurrency (ded_Stake req)\<rparr>\<rparr>, db') \<and>
      posts (deduct_entry now req) db db'
    else DeductBalance no_faults now req db =
      (Inl (Status FailedPrecondition ''insufficient balance''), db)"
proof (cases "stake \<le> available_minor b")
  case True
  have "bal_chk b" using balance_of_chk [OF assms(1,5)] .
  then have "bal_chk (deduct_row now stake b)" "in_int64 stake"
    using assms(7,8) True by (auto simp: bal_chk_def deduct_row_def in_int64_def)
  with True show ?thesis using DeductBalance_fresh [OF assms(1-5)] assms(6) by simp
next
  case False
  then show ?thesis
    using assms by (simp add: DeductBalance_def getExistingTransaction_def deduct_tx_def run_tx_def)
qed

text \<open>The stake is not checked for its sign: a debit of a negative amount whose absolute value
  is covered by the bets in flight succeeds and turns in-flight money back into available money.\<close>

theorem DeductBalance_negative_stake:
  assumes "wallet_inv db" "entry_of db (ded_TransactionId req) = None"
    and "ded_TransactionId req \<noteq> []" "ded_UserId req \<noteq> []"
    and "balance_of db (ded_UserId req) = Some b"
    and "GetAmountMinor (ded_Stake req) = - x" "0 < x" "x \<le> bets_in_flight_minor b"
    and "available_minor b + x < 2 ^ 63"
  shows "\<exists>resp db'. DeductBalance no_faults now req db = (Inr resp, db') \<and>
    avail_of db' (ded_UserId req) = avail_of db (ded_UserId req) + x \<and>
    flight_of db' (ded_UserId req) = flight_of db (ded_UserId req) - x"
proof -
  have "bal_chk b" using balance_of_chk [OF assms(1,5)] .
  then have "bal_chk (deduct_row now (- x) b)" "in_int64 (- x)" "- x \<le> available_minor b"
    using assms(7-9) by (auto simp: bal_chk_def deduct_row_def in_int64_def)
  then show ?thesis
    using DeductBalance_fresh [OF assms(1-5)] assms(6) by (fastforce simp: posts_def)
qed

lemma wallet_error_atomic_deduct:
  assumes "\<not> ft CommitAck" "DeductBalance ft now req db = (Inl e, db')"
  shows "db' = db"
  using assms(2) run_tx_Inl [of ft, OF _ assms(1)]
  by (auto simp: DeductBalance_def split: if_splits option.splits)

text \<open>C5. Failed RPCs change nothing: whichever call fails, an error from DeductBalance,
  CreditBalance, Deposit, Withdraw or ConfirmTransaction leaves the database as it was, unless the
  failure is the loss of the acknowledgement of a commit that was applied.\<close>

theorem wallet_error_atomic:
  assumes "\<not> ft CommitAck"
  shows "(DeductBalance ft now req db = (Inl e, db') \<longrightarrow> db' = db) \<and>
    (CreditBalance ft now kreq db = (Inl e, db') \<longrightarrow> db' = db) \<and>
    (Deposit ft now creq db = (Inl e, db') \<longrightarrow> db' = db) \<and>
    (Withdraw ft now creq db = (Inl e, db') \<longrightarrow> db' = db) \<and>
    (ConfirmTransaction ft now t db = (Inl e, db') \<longrightarrow> db' = db)"
proof (intro conjI impI)
  note run = run_tx_Inl [of ft, OF _ assms]
  show "db' = db" if "DeductBalance ft now req db = (Inl e, db')"
    using wallet_error_atomic_deduct [of ft, OF assms] that by blast
  show "db' = db" if "CreditBalance ft now kreq db = (Inl e, db')"
    using that by (auto simp: CreditBalance_def Let_def dest: run split: if_splits prod.splits sum.splits)
  show "db' = db" if "Deposit ft now creq db = (Inl e, db')"
    using that by (auto simp: Deposit_def cashier_rpc_def dest: run split: if_splits option.splits)
  show "db' = db" if "Withdraw ft now creq db = (Inl e, db')"
    using that by (auto simp: Withdraw_def cashier_rpc_def dest: run split: if_splits option.splits)
  show "db' = db" if "ConfirmTransaction ft now t db = (Inl e, db')"
    using that assms by (auto simp: ConfirmTransaction_def Let_def split: if_splits)
qed

lemma credit_update:
  assumes inv: "wallet_inv db" and b: "balance_of db u = Some b"
  shows "update_rows bal_chk (\<lambda>r. bal_user_id r = u) (credit_row now x) (balances db) =
    (if bal_chk (credit_row now x b)
     then Some (set_rows (\<lambda>r. bal_user_id r = u) (credit_row now x) (balances db)) else None)"
  using inv b by (intro update_rows_by_key) (auto simp: wallet_inv_def balance_of_def)

lemma CreditBalance_InrD:
  assumes "CreditBalance ft now req db = (Inr resp, db')"
  shows "\<exists>w. credit_tx ft now req db = Inr (db', w)"
  using assms by (auto simp: CreditBalance_def run_tx_def Let_def split: if_splits sum.splits)

lemma credit_moves:
  assumes "wallet_inv db" "balance_of db (cre_UserId req) \<noteq> None"
    and "CreditBalance ft now req db = (Inr resp, db')"
  shows "avail_of db' (cre_UserId req) = avail_of db (cre_UserId req) + GetAmountMinor (cre_Amount req)"
    and "flight_of db' (cre_UserId req) = flight_of db (cre_UserId req) - GetAmountMinor (cre_Amount req)"
    and "entry_of db (cre_TransactionId req) \<noteq> None \<Longrightarrow> ledger_entries db' = ledger_entries db"
proof -
  obtain w where tx: "credit_tx ft now req db = Inr (db', w)"
    using CreditBalance_InrD [OF assms(3)] by blast
  have c: "credited req db = GetAmountMinor (cre_Amount req)" using assms(2) by (auto simp: credited_def)
  show "avail_of db' (cre_UserId req) = avail_of db (cre_UserId req) + GetAmountMinor (cre_Amount req)"
    "flight_of db' (cre_UserId req) = flight_of db (cre_UserId req) - GetAmountMinor (cre_Amount req)"
    "entry_of db (cre_TransactionId req) \<noteq> None \<Longrightarrow> ledger_entries db' = ledger_entries db"
    using credit_effect(2-4) [OF assms(1) tx] c by simp_all
qed

lemma credit_keeps_account:
  assumes "wallet_inv db" "CreditBalance ft now req db = (Inr resp, db')"
  shows "balance_of db' u = None \<longleftrightarrow> balance_of db u = None"
proof -
  obtain w where "credit_tx ft now req db = Inr (db', w)"
    using CreditBalance_InrD [OF assms(2)] by blast
  then have "map bal_user_id (balances db') = map bal_user_id (balances db)"
    by (auto simp: credit_tx_def Let_def keys_set_rows dest!: update_rows_SomeD)
  then have "set (map bal_user_id (balances db')) = set (map bal_user_id (balances db))" by simp
  then show ?thesis by (simp add: balance_of_def by_key_None_iff)
qed

text \<open>CreditBalance is not idempotent. Every successful call on an existing account moves the
  amount from in flight to available, also when its identifier is already in the ledger; the
  ledger then gains no row.\<close>

theorem CreditBalance_not_idempotent:
  assumes "wallet_inv db" "balance_of db (cre_UserId req) \<noteq> None"
    and "CreditBalance ft now req db = (Inr resp, db')"
  shows "avail_of db' (cre_UserId req) = avail_of db (cre_UserId req) + GetAmountMinor (cre_Amount req) \<and>
    flight_of db' (cre_UserId req) = flight_of db (cre_UserId req) - GetAmountMinor (cre_Amount req) \<and>
    (entry_of db (cre_TransactionId req) \<noteq> None \<longrightarrow> ledger_entries db' = ledger_entries db)"
  using credit_moves [OF assms] by blast

lemma credit_refused:
  assumes "wallet_inv db" "balance_of db (cre_UserId req) = Some b"
    and "bets_in_flight_minor b < GetAmountMinor (cre_Amount req)"
  shows "\<exists>e. CreditBalance ft now req db = (Inl e, db)"
proof -
  have "\<not> bal_chk (credit_row now (GetAmountMinor (cre_Amount req)) b)"
    using assms(3) by (simp add: bal_chk_def credit_row_def)
  then have "credit_tx ft now req db = Inl (Status Internal ''update balances'')"
    using credit_update [OF assms(1,2)] by (simp add: credit_tx_def Let_def stmt_def)
  then show ?thesis by (simp add: CreditBalance_def run_tx_def)
qed

text \<open>A credit larger than the bets in flight is always refused (the CHECK constraint on
  bets_in_flight_minor fires) and leaves the database unchanged. A winning bet's payout exceeds its
  stake, so a user whose only open bet wins cannot be paid.\<close>

theorem CreditBalance_win_refused:
  assumes "wallet_inv db" "balance_of db (cre_UserId req) = Some b"
    and "bets_in_flight_minor b < GetAmountMinor (cre_Amount req)"
  shows "\<exists>e. CreditBalance ft now req db = (Inl e, db)"
  using credit_refused [OF assms] .

text \<open>Deposits only add money: a deposit of a negative amount is refused, also on an account
  that could cover it, and a successful one raises the available balance by its amount, reports
  the new balance, and leaves the bets in flight and every other user as they were.\<close>

theorem Deposit_effect:
  assumes "wallet_inv db" "cas_Amount req = Some m" "entry_of db (cas_TransactionId req) = None"
    and "Deposit ft now req db = (res, db')"
  shows "(amount_minor m < 0 \<longrightarrow> (\<exists>e. res = Inl e) \<and> db' = db) \<and>
    (\<forall>resp. res = Inr resp \<longrightarrow>
      GetAmountMinor (AvailableAfter resp) = avail_of db (cas_UserId req) + amount_minor m \<and>
      (\<forall>u. avail_of db' u = avail_of db u + (if u = cas_UserId req then amount_minor m else 0)) \<and>
      (\<forall>u. flight_of db' u = flight_of db u))"
proof -
  consider "db' = db" "\<exists>e. res = Inl e"
    | a where "deposit_tx ft now req (amount_minor m) db = Inr (db', a)"
        "res = (if ft CommitAck then Inl (Status Internal ''commit'') else Inr a)"
    using assms(2-4) by (auto simp: Deposit_def cashier_rpc_def elim!: run_tx_cases split: if_splits)
  then show ?thesis
  proof cases
    case (2 a)
    then show ?thesis
      using deposit_posts [OF assms(1) 2(1)] by (auto simp: posts_def)
  qed auto
qed

text \<open>A withdrawal of a covered amount from the state after a deposit of the same amount
  brings every user's columns back, and no withdrawal ever takes more than is available.\<close>

theorem deposit_withdraw_roundtrip:
  assumes "wallet_inv db" "deposit_tx ft now req x db = Inr (db1, r1)"
    and "withdraw_tx ft' now' req' x db1 = Inr (db2, r2)" "cas_UserId req' = cas_UserId req"
  shows "avail_of db2 u = avail_of db u \<and> flight_of db2 u = flight_of db u \<and>
    x \<le> avail_of db1 (cas_UserId req)"
proof -
  obtain cur1 where p1: "posts (cashier_entry now ''CREDIT_DEPOSIT'' req x cur1) db db1"
    using deposit_posts(1) [OF assms(1,2)] by blast
  then have inv1: "wallet_inv db1" by (simp add: posts_def)
  obtain cur2 where "posts (cashier_entry now' ''DEBIT_WITHDRAWAL'' req' x cur2) db1 db2"
    using withdraw_posts(1) [OF inv1 assms(3)] by blast
  then show ?thesis
    using p1 withdraw_posts(2) [OF inv1 assms(3)] assms(4) by (simp add: posts_def)
qed

text \<open>The daily total fails open: when the sum over the ledger cannot be read, or does not
  fit an int64, GetUserLimits still succeeds and reports that nothing was staked today; otherwise
  it reports the sum of the user's uncancelled debits of the last 24 hours.\<close>

theorem GetUserLimits_outcome:
  assumes "u \<noteq> []" "\<not> ft QLimits" "by_key lim_user_id u (user_limits db) = Some l"
  shows "\<exists>resp. GetUserLimits ft now u db = Inr resp \<and>
    GetAmountMinor (MaxSingleStake resp) = max_single_stake_minor l \<and>
    GetAmountMinor (DailyLimit resp) = daily_limit_minor l \<and>
    GetAmountMinor (DailyStakedSoFar resp) =
      (if \<not> ft QStaked \<and> in_int64 (staked_in_window db now u) then staked_in_window db now u else 0)"
  using assms by (simp add: GetUserLimits_def GetAmountMinor_def Let_def)

lemma staked_after_post:
  assumes "posts e db db'"
  shows "staked_in_window db' now u = staked_in_window db now u +
    (if le_user_id e = u \<and> entry_type e = ''DEBIT'' \<and> now - 24 * 3600 * second < le_created_at e \<and>
        le_status e \<noteq> ''CANCELLED'' then stake_minor e else 0)"
  using assms by (simp add: posts_def staked_in_window_def)

section \<open>A concrete run\<close>

text \<open>Ann deposits 50.00 and stakes 20.00 on a bet; the witnesses use these states.\<close>

definition ann_deposit :: CashierRequest where
  "ann_deposit = \<lparr>cas_TransactionId = ''d1'', cas_UserId = ''ann'',
     cas_Amount = Some \<lparr>amount_minor = 5000, currency = ''USD''\<rparr>, cas_PaymentMethod = ''card''\<rparr>"

definition ann_stake :: "int \<Rightarrow> string \<Rightarrow> DeductBalanceRequest" where
  "ann_stake x t = \<lparr>ded_TransactionId = t, ded_UserId = ''ann'',
     ded_Stake = Some \<lparr>amount_minor = x, currency = ''USD''\<rparr>, ded_BetId = ''b1''\<rparr>"

definition ann_credit :: "int \<Rightarrow> CreditBalanceRequest" where
  "ann_credit x = \<lparr>cre_TransactionId = ''c1'', cre_UserId = ''ann'',
     cre_Amount = Some \<lparr>amount_minor = x, currency = ''USD''\<rparr>, cre_Reason = CREDIT_REASON_WIN,
     cre_OriginatingBetId = ''b1''\<rparr>"

definition wallet1 :: wallet_db where
  "wallet1 = snd (Deposit no_faults 0 ann_deposit empty_wallet)"

definition wallet2 :: wallet_db where
  "wallet2 = snd (DeductBalance no_faults 1 (ann_stake 2000 ''t1'') wallet1)"

lemma wallet1_eq: "wallet1 =
  \<lparr>balances = [\<lparr>bal_user_id = ''ann'', available_minor = 5000, bets_in_flight_minor = 0,
                bal_currency = ''USD'', bal_updated_at = 0\<rparr>],
   user_limits = [default_limits ''ann''],
   ledger_entries = [cashier_entry 0 ''CREDIT_DEPOSIT'' ann_deposit 5000 ''USD'']\<rparr>"
  by code_simp

lemma wallet2_eq: "wallet2 =
  \<lparr>balances = [\<lparr>bal_user_id = ''ann'', available_minor = 3000, bets_in_flight_minor = 2000,
                bal_currency = ''USD'', bal_updated_at = 1\<rparr>],
   user_limits = [default_limits ''ann''],
   ledger_entries = [cashier_entry 0 ''CREDIT_DEPOSIT'' ann_deposit 5000 ''USD'',
                     deduct_entry 1 (ann_stake 2000 ''t1'')]\<rparr>"
  by code_simp

lemma wallet1_reach: "reach (wallet_step C) empty_wallet wallet1"
  unfolding wallet1_def by (rule wallet_rpc_step(2)) (simp add: prod_eq_iff)

lemma wallet2_reach: "reach (wallet_step C) empty_wallet wallet2"
proof -
  have "reach (wallet_step C) wallet1 wallet2"
    unfolding wallet2_def by (rule wallet_rpc_step(1)) (simp add: prod_eq_iff)
  then show ?thesis using wallet1_reach by (rule reach_trans)
qed

lemma wallet12_inv [simp]: "wallet_inv wallet1" "wallet_inv wallet2"
  by (rule reach_wallet_inv [OF wallet1_reach wallet_inv_empty]
      reach_wallet_inv [OF wallet2_reach wallet_inv_empty])+

lemma Duration_Seconds_whole:
  assumes "0 \<le> k" "k < 2 ^ 53"
  shows "int64_of_float (Duration_Seconds (k * second)) = k"
proof -
  have q: "trunc (of_int (k * second) / 1000000000) = k"
    by (simp add: second_def)
  have k: "float64_of_int k = Fin (of_int k)" using assms by (intro float64_of_int_exact) simp
  have z: "float64_of_int 0 = Fin 0" "float64_of_int 1000000000 = Fin 1000000000"
    using float64_of_int_exact [of 0] float64_of_int_exact [of 1000000000] by simp_all
  have "fdiv (Fin 0) (Fin 1000000000) = Fin 0"
    by (simp add: fdiv_def rnd_def signbit_def is_inf_def fl_def rv_def)
  then have "Duration_Seconds (k * second) = fadd (Fin (of_int k)) (Fin 0)"
    by (simp add: Duration_Seconds_def Let_def q k z del: of_int_mult) (simp add: second_def z)
  also have "\<dots> = Fin (of_int k)"
    using k by (simp add: fadd_def is_inf_def rv_def float64_of_int_def)
  finally have d: "Duration_Seconds (k * second) = Fin (of_int k)" .
  show ?thesis using assms by (simp add: d int64_of_float_def finite_f_def rv_def)
qed

lemma set_rows_cleared: "e \<in> set (set_rows p f t) \<Longrightarrow> (\<And>r. \<not> p (f r)) \<Longrightarrow> \<not> p e"
  by (auto simp: set_rows_def split: if_splits)

lemma confirm_row_status: "le_status (confirm_row now e) \<noteq> ''PENDING_CONFIRMATION''"
  by (simp add: confirm_row_def)

text \<open>With a threshold of a whole number of seconds the reconciliation job alerts on exactly
  the identifiers of the ledger rows that are still PENDING_CONFIRMATION and older than the
  threshold; a transaction that has just been confirmed is not among them.\<close>

theorem Reconcile_exact:
  assumes "wallet_inv db" "0 \<le> k" "k < 2 ^ 53"
  shows "set (fst (ReconcileStaleTransactions False re (\<lambda>_. False) now (k * second) db)) =
      {transaction_id e | e. e \<in> set (ledger_entries db) \<and> le_status e = ''PENDING_CONFIRMATION'' \<and>
         le_created_at e < now - k * second} \<and>
    (ConfirmTransaction ft now' t db = (Inr r, db') \<longrightarrow>
      t \<notin> set (fst (ReconcileStaleTransactions False re (\<lambda>_. False) now (k * second) db')))"
proof -
  have R: "set (fst (ReconcileStaleTransactions False re (\<lambda>_. False) now (k * second) d)) =
      {transaction_id e | e. e \<in> set (ledger_entries d) \<and> le_status e = ''PENDING_CONFIRMATION'' \<and>
         le_created_at e < now - k * second}" for d
    by (simp add: ReconcileStaleTransactions_def Let_def Duration_Seconds_whole [OF assms(2,3)] setcompr_eq_image
        flip: set_filter)
  have "t \<notin> set (fst (ReconcileStaleTransactions False re (\<lambda>_. False) now (k * second) db'))"
    if "ConfirmTransaction ft now' t db = (Inr r, db')"
  proof -
    have "ledger_entries db' = set_rows (\<lambda>e. transaction_id e = t \<and> le_status e = ''PENDING_CONFIRMATION'')
        (confirm_row now') (ledger_entries db)"
      using that by (auto simp: ConfirmTransaction_def Let_def split: if_splits)
    note ledger = this
    have "\<not> (transaction_id e = t \<and> le_status e = ''PENDING_CONFIRMATION'')"
      if "e \<in> set (ledger_entries db')" for e
      by (rule set_rows_cleared [where p = "\<lambda>e. transaction_id e = t \<and> le_status e = ''PENDING_CONFIRMATION''"
          and f = "confirm_row now'" and t = "ledger_entries db"]) (use that ledger in \<open>simp_all add: confirm_row_status\<close>)
    then show ?thesis unfolding R by blast
  qed
  with R show ?thesis by blast
qed

section \<open>Witnesses\<close>

lemma wallet2_values [simp]:
  "avail_of wallet2 ''ann'' = 3000" "flight_of wallet2 ''ann'' = 2000"
  "entry_of wallet2 ''t9'' = None"
  "balance_of wallet2 ''ann'' = Some \<lparr>bal_user_id = ''ann'', available_minor = 3000,
     bets_in_flight_minor = 2000, bal_currency = ''USD'', bal_updated_at = 1\<rparr>"
  "entry_of wallet2 ''t1'' = Some (deduct_entry 1 (ann_stake 2000 ''t1''))"
  by (simp_all only: wallet2_eq) code_simp+

lemma ann_stake_fields [simp]:
  "ded_TransactionId (ann_stake x t) = t" "ded_UserId (ann_stake x t) = ''ann''"
  "GetAmountMinor (ded_Stake (ann_stake x t)) = x" "GetCurrency (ded_Stake (ann_stake x t)) = ''USD''"
  by (simp_all add: ann_stake_def GetAmountMinor_def GetCurrency_def)

theorem ledger_append_only_witness:
  "ledger_entries (snd (ConfirmTransaction no_faults 8 ''t1'' wallet2)) ! 0 = ledger_entries wallet2 ! 0 \<and>
   map le_status (ledger_entries wallet2) = [''CONFIRMED'', ''PENDING_CONFIRMATION''] \<and>
   map le_status (ledger_entries (snd (ConfirmTransaction no_faults 8 ''t1'' wallet2))) = [''CONFIRMED'', ''CONFIRMED'']"
proof -
  have "reach (wallet_step any_credit) wallet2 (snd (ConfirmTransaction no_faults 8 ''t1'' wallet2))"
    by (rule reach_single, rule wallet_step.confirm) (rule prod.collapse [symmetric])
  from ledger_append_only [OF wallet12_inv(2) this] obtain old new
    where "ledger_entries (snd (ConfirmTransaction no_faults 8 ''t1'' wallet2)) = old @ new" "length old = length (ledger_entries wallet2)"
      "old ! 0 = ledger_entries wallet2 ! 0 \<or> le_status (ledger_entries wallet2 ! 0) = ''PENDING_CONFIRMATION''"
    by (force simp: wallet2_eq)
  moreover have "map le_status (ledger_entries wallet2) = [''CONFIRMED'', ''PENDING_CONFIRMATION'']"
    "map le_status (ledger_entries (snd (ConfirmTransaction no_faults 8 ''t1'' wallet2))) = [''CONFIRMED'', ''CONFIRMED'']"
    by code_simp+
  moreover from this have "le_status (ledger_entries wallet2 ! 0) \<noteq> ''PENDING_CONFIRMATION''" "0 < length (ledger_entries wallet2)"
    by (cases "ledger_entries wallet2"; simp)+
  ultimately show ?thesis by (simp add: nth_append)
qed

theorem wallet_books_balance_witness:
  "reach (wallet_step fresh_credit) empty_wallet wallet2 \<and>
   avail_of wallet2 ''ann'' = sum_list (map avail_effect (entries_of wallet2 ''ann'')) \<and>
   flight_of wallet2 ''ann'' = sum_list (map flight_effect (entries_of wallet2 ''ann''))"
  using wallet_books_balance [OF wallet2_reach, of "''ann''"] wallet2_reach by blast


theorem wallet_at_most_once_witness:
  "snd (run_tx no_faults wallet2 (deduct_tx no_faults 9 (ann_stake 2000 ''t1'') wallet2)) = wallet2"
  using wallet_at_most_once [OF wallet12_inv(2) wallet2_values(5) reach_refl, of "ann_stake 2000 ''t1''" no_faults 9]
  by simp

theorem DeductBalance_outcome_witness:
  "(\<exists>db'. DeductBalance no_faults 5 (ann_stake 1000 ''t9'') wallet2 =
     (Inr \<lparr>resp_TransactionId = ''t9'', resp_Status = LEDGER_ENTRY_STATUS_PENDING_CONFIRMATION,
           AvailableAfter = Some \<lparr>amount_minor = 2000, currency = ''USD''\<rparr>\<rparr>, db') \<and>
     posts (deduct_entry 5 (ann_stake 1000 ''t9'')) wallet2 db') \<and>
   DeductBalance no_faults 5 (ann_stake 4000 ''t9'') wallet2 =
     (Inl (Status FailedPrecondition ''insufficient balance''), wallet2)"
  using DeductBalance_outcome [OF wallet12_inv(2), of "ann_stake 1000 ''t9''" _ 1000 5]
    DeductBalance_outcome [OF wallet12_inv(2), of "ann_stake 4000 ''t9''" _ 4000 5] by simp

theorem DeductBalance_negative_stake_witness:
  "\<exists>resp db'. DeductBalance no_faults 5 (ann_stake (- 1500) ''t9'') wallet2 = (Inr resp, db') \<and>
     avail_of db' ''ann'' = 4500 \<and> flight_of db' ''ann'' = 500"
  using DeductBalance_negative_stake [OF wallet12_inv(2), of "ann_stake (- 1500) ''t9''" _ 1500 5] by simp

theorem wallet_error_atomic_witness:
  "DeductBalance no_faults 5 (ann_stake 4000 ''t9'') wallet2 =
     (Inl (Status FailedPrecondition ''insufficient balance''), wallet2)"
proof -
  let ?r = "DeductBalance no_faults 5 (ann_stake 4000 ''t9'') wallet2"
  have "fst ?r = Inl (Status FailedPrecondition ''insufficient balance'')" by code_simp
  then show ?thesis
    using wallet_error_atomic [of no_faults 5 "ann_stake 4000 ''t9''" wallet2] by (metis prod.collapse)
qed

definition wallet3 :: wallet_db where
  "wallet3 = snd (CreditBalance no_faults 5 (ann_credit 600) wallet2)"

lemma wallet3_reach: "reach (wallet_step any_credit) empty_wallet wallet3"
proof -
  have "reach (wallet_step any_credit) wallet2 wallet3"
    unfolding wallet3_def by (rule wallet_rpc_step(5)) (simp_all add: prod_eq_iff)
  then show ?thesis using wallet2_reach by (rule reach_trans)
qed

lemma wallet3_inv [simp]: "wallet_inv wallet3"
  by (rule reach_wallet_inv [OF wallet3_reach wallet_inv_empty])

theorem CreditBalance_not_idempotent_witness:
  "\<exists>resp db'. CreditBalance no_faults 6 (ann_credit 600) wallet3 = (Inr resp, db') \<and>
     avail_of db' ''ann'' = 4200 \<and> flight_of db' ''ann'' = 800 \<and>
     ledger_entries db' = ledger_entries wallet3"
proof -
  have "\<not> isl (fst (CreditBalance no_faults 6 (ann_credit 600) wallet3))" by code_simp
  then obtain resp db' where r: "CreditBalance no_faults 6 (ann_credit 600) wallet3 = (Inr resp, db')"
    by (metis prod.collapse sum.collapse(2))
  have "balance_of wallet3 (cre_UserId (ann_credit 600)) \<noteq> None" by code_simp
  moreover have "avail_of wallet3 ''ann'' = 3600" "flight_of wallet3 ''ann'' = 1400"
    "entry_of wallet3 (cre_TransactionId (ann_credit 600)) \<noteq> None" by code_simp+
  moreover have "cre_UserId (ann_credit 600) = ''ann''" "GetAmountMinor (cre_Amount (ann_credit 600)) = 600"
    by code_simp+
  ultimately show ?thesis
    using CreditBalance_not_idempotent [OF wallet3_inv _ r] r by auto
qed

theorem CreditBalance_win_refused_witness:
  "\<exists>e. CreditBalance no_faults 5 (ann_credit 4000) wallet2 = (Inl e, wallet2)"
  using CreditBalance_win_refused [OF wallet12_inv(2), of "ann_credit 4000" _ no_faults 5]
  by (simp add: ann_credit_def GetAmountMinor_def)

theorem Deposit_effect_witness:
  "\<exists>e. Deposit no_faults 5 (ann_deposit\<lparr>cas_TransactionId := ''t9'',
      cas_Amount := Some \<lparr>amount_minor = - 1, currency = ''USD''\<rparr>\<rparr>) wallet2 = (Inl e, wallet2)"
proof -
  let ?q = "ann_deposit\<lparr>cas_TransactionId := ''t9'',
      cas_Amount := Some \<lparr>amount_minor = - 1, currency = ''USD''\<rparr>\<rparr>"
  obtain res db' where "Deposit no_faults 5 ?q wallet2 = (res, db')" by fastforce
  then show ?thesis using Deposit_effect [OF wallet12_inv(2), of ?q _ no_faults 5 res db'] by auto
qed

theorem deposit_withdraw_roundtrip_witness:
  "\<exists>db1 r1 db2 r2. deposit_tx no_faults 5 (ann_deposit\<lparr>cas_TransactionId := ''d2''\<rparr>) 700 wallet2 = Inr (db1, r1) \<and>
     withdraw_tx no_faults 6 (ann_deposit\<lparr>cas_TransactionId := ''w1''\<rparr>) 700 db1 = Inr (db2, r2) \<and>
     avail_of db2 ''ann'' = 3000"
proof -
  let ?d = "ann_deposit\<lparr>cas_TransactionId := ''d2''\<rparr>" and ?w = "ann_deposit\<lparr>cas_TransactionId := ''w1''\<rparr>"
  have "\<not> isl (deposit_tx no_faults 5 ?d 700 wallet2)" by code_simp
  moreover have "\<not> isl (withdraw_tx no_faults 6 ?w 700 (fst (projr (deposit_tx no_faults 5 ?d 700 wallet2))))"
    by code_simp
  ultimately obtain db1 r1 db2 r2 where
    "deposit_tx no_faults 5 ?d 700 wallet2 = Inr (db1, r1)" "withdraw_tx no_faults 6 ?w 700 db1 = Inr (db2, r2)"
    by (metis prod.collapse sum.collapse(2))
  then show ?thesis
    using deposit_withdraw_roundtrip [OF wallet12_inv(2), of no_faults 5 ?d 700 db1 r1 no_faults 6 ?w db2 r2 "''ann''"]
    by auto
qed

theorem GetUserLimits_outcome_witness:
  "(\<exists>resp. GetUserLimits no_faults 9 ''ann'' wallet2 = Inr resp \<and> GetAmountMinor (DailyStakedSoFar resp) = 2000) \<and>
   (\<exists>resp. GetUserLimits (\<lambda>c. c = QStaked) 9 ''ann'' wallet2 = Inr resp \<and> GetAmountMinor (DailyStakedSoFar resp) = 0)"
proof -
  have "by_key lim_user_id ''ann'' (user_limits wallet2) = Some (default_limits ''ann'')" by code_simp
  moreover have "staked_in_window wallet2 9 ''ann'' = 2000" by code_simp
  ultimately show ?thesis
    using GetUserLimits_outcome [of "''ann''" no_faults wallet2 _ 9]
      GetUserLimits_outcome [of "''ann''" "\<lambda>c. c = QStaked" wallet2 _ 9]
    by (fastforce simp: in_int64_def)
qed

theorem Reconcile_exact_witness:
  "''t1'' \<in> set (fst (ReconcileStaleTransactions False False (\<lambda>_. False) (400 * second) (300 * second) wallet2)) \<and>
   ''t1'' \<notin> set (fst (ReconcileStaleTransactions False False (\<lambda>_. False) (400 * second) (300 * second)
     (snd (ConfirmTransaction no_faults 9 ''t1'' wallet2))))"
proof -
  have "ConfirmTransaction no_faults 9 ''t1'' wallet2 =
    (Inr \<lparr>resp_TransactionId = ''t1'', resp_Status = LEDGER_ENTRY_STATUS_CONFIRMED,
          AvailableAfter = None\<rparr>, snd (ConfirmTransaction no_faults 9 ''t1'' wallet2))"
    by (simp add: ConfirmTransaction_def Let_def)
  moreover have "deduct_entry 1 (ann_stake 2000 ''t1'') \<in> set (ledger_entries wallet2)"
    by (simp add: wallet2_eq)
  moreover have "le_status (deduct_entry 1 (ann_stake 2000 ''t1'')) = ''PENDING_CONFIRMATION''"
    "le_created_at (deduct_entry 1 (ann_stake 2000 ''t1'')) = 1" by code_simp+
  ultimately show ?thesis
    using Reconcile_exact [OF wallet12_inv(2), of 300 False "400 * second" no_faults 9 "''t1''"]
    by (force simp: second_def)
qed

end
