(* ===== verification/BetAcceptance.thy ===== *)
theory BetAcceptance
  imports Kafka GoTime Wallet "HOL-Library.Word" "HOL-Library.Signed_Division" "HOL-Library.Multiset"
begin

unbundle bit_operations_syntax

text \<open>
  The Bet Acceptance service: \<^verbatim>\<open>src/internal/betacceptance/bet_flow.go\<close> (the synchronous
  flow), \<^verbatim>\<open>lag_checker.go\<close> (the lag check on the odds-management consumer group) and
  \<^verbatim>\<open>outbox.go\<close> (the relay from the outbox table to Kafka). The state holds the outbox table,
  the three Redis instances the flow reads and the state of the wallet service behind the gRPC
  client. The client is a parameter: a record of the two RPCs the flow calls. The locale
  \<open>wallet_contract\<close> states what the flow relies on, its lemmas are proved once there, and it is
  interpreted on the operations of the wallet theory. One call of \<^verbatim>\<open>PlaceBet\<close> takes place
  at one instant; the identifiers \<^verbatim>\<open>uuid.New\<close> returns are arguments.
\<close>

section \<open>Data\<close>

datatype OutboxStatus =
  OutboxStatusPending | OutboxStatusReadyToPublish | OutboxStatusPublished | OutboxStatusCancelled

record OutboxRow =
  ob_ID :: string
  ob_BetID :: string
  ob_Topic :: string
  ob_PartitionKey :: string
  ob_Payload :: json
  ob_Status :: OutboxStatus
  ob_CreatedAt :: time
  ob_PublishedAt :: "time option"

record Config =
  OddsTolerance :: float64
  LargeStakeThreshold :: int
  KafkaNumPartitions :: int
  MarketStatusTTL :: time
  cfg_OddsCacheTTL :: time

definition DefaultConfig :: Config where
  "DefaultConfig = \<lparr>OddsTolerance = lit (5 / 100), LargeStakeThreshold = 10000, KafkaNumPartitions = 24,
     MarketStatusTTL = 5 * second, cfg_OddsCacheTTL = 30 * second\<rparr>"

record PlaceBetRequest =
  IdempotencyKey :: string
  pb_UserID :: string
  pb_MarketID :: string
  MarketName :: string
  pb_SelectionID :: string
  SelectionName :: string
  RequestedOddsDecimal :: float64
  RequestedOddsAmerican :: int
  pb_StakeMinor :: int
  pb_Currency :: string

record PlaceBetResponse =
  BetID :: string
  pr_Status :: string
  pr_OddsDecimal :: float64
  pr_OddsAmerican :: int
  pr_Stake :: int
  pr_Currency :: string
  PlacedAt :: time

record CachedOdds =
  Decimal :: float64
  American :: int
  SourceEventOffset :: int

definition decode_CachedOdds :: "payload \<Rightarrow> CachedOdds option" where
  "decode_CachedOdds p =
     Option.bind (dec_object p) (\<lambda>kvs.
     Option.bind (decode_field dec_float64 ''decimal'' (Fin 0) kvs) (\<lambda>d.
     Option.bind (decode_field dec_int64 ''american'' 0 kvs) (\<lambda>a.
     Option.bind (decode_field dec_int64 ''src_offset'' 0 kvs) (\<lambda>off.
     Some \<lparr>Decimal = d, American = a, SourceEventOffset = off\<rparr>))))"

datatype bet_error =
  MarketStatusCacheMiss | ErrMarketNotOpen | OddsCacheMiss | CorruptOdds | InvalidCachedOdds
| ErrOddsMoved | GetUserLimitsFailed grpc_status | ErrLimitExceeded | ErrOddsNotSettled
| BuildPayloadFailed | WriteOutboxFailed | ErrInsufficientFunds | DeductBalanceFailed grpc_status

datatype bet_call =
  RateGet | RateSet | MarketGet | OddsGet | OutboxInsert | OutboxInsertAck | OutboxReady
| OutboxCancel | LagSet

section \<open>The lag checker\<close>

definition lagCacheTTL :: time where
  "lagCacheTTL = second div 5"

definition TopicBetPlaced :: string where
  "TopicBetPlaced = ''bet-placed''"

text \<open>The answers of the Kafka client and of the cluster admin API are parameters.\<close>

datatype offset_block = NoBlock | BlockErr | BlockOffset int

record kafka_admin =
  GetOffset :: "int \<Rightarrow> int option"
  ListConsumerGroupOffsets :: "int \<Rightarrow> offset_block option"

definition fetchLag :: "kafka_admin \<Rightarrow> int \<Rightarrow> int option" where
  "fetchLag k part =
     (case GetOffset k part of
        None \<Rightarrow> None
      | Some latestOffset \<Rightarrow>
          (case ListConsumerGroupOffsets k part of
             None \<Rightarrow> None
           | Some NoBlock \<Rightarrow> Some latestOffset
           | Some BlockErr \<Rightarrow> None
           | Some (BlockOffset committedOffset) \<Rightarrow>
               let lag = wrap64 (latestOffset - committedOffset)
               in Some (if lag < 0 then 0 else lag)))"

definition lag_key :: "int \<Rightarrow> string" where
  "lag_key part = ''lagcheck:'' @ TopicBetPlaced @ '':'' @ itoa part"

text \<open>The result is (lagging, whether an error was returned); Redis is updated on a miss.\<close>

definition IsLagging ::
    "bet_call faults \<Rightarrow> time \<Rightarrow> kafka_admin \<Rightarrow> int \<Rightarrow> string redis \<Rightarrow> (bool \<times> bool) \<times> string redis" where
  "IsLagging ft now k part rdb =
     (case Option.bind (stmt ft RateGet (redis_get now rdb (lag_key part))) strconv_Atoi of
        Some cached \<Rightarrow> ((0 < cached, False), rdb)
      | None \<Rightarrow>
          (case fetchLag k part of
             None \<Rightarrow> ((True, True), rdb)
           | Some lag \<Rightarrow>
               ((0 < lag, False),
                if ft LagSet then rdb else redis_set now (lag_key part) (itoa lag) lagCacheTTL rdb)))"

fun fnv1a :: "32 word \<Rightarrow> string \<Rightarrow> 32 word" where
  "fnv1a h [] = h"
| "fnv1a h (c # cs) = fnv1a ((h XOR word_of_nat (of_char c)) * 16777619) cs"

definition PartitionForMarket :: "string \<Rightarrow> int \<Rightarrow> int" where
  "PartitionForMarket marketID numPartitions = sint (fnv1a 2166136261 marketID) smod numPartitions"

section \<open>The bet flow\<close>

definition abs64 :: "float64 \<Rightarrow> float64" where
  "abs64 x = (if flt x (Fin 0) then fneg x else x)"

definition validateOdds :: "PlaceBetRequest \<Rightarrow> CachedOdds \<Rightarrow> float64 \<Rightarrow> bet_error option" where
  "validateOdds req current tolerance =
     (if fle (Decimal current) (Fin 0) then Some InvalidCachedOdds
      else let movement = fdiv (abs64 (fsub (RequestedOddsDecimal req) (Decimal current))) (Decimal current)
           in if flt tolerance movement then Some ErrOddsMoved else None)"

definition checkLimits :: "PlaceBetRequest \<Rightarrow> GetUserLimitsResponse \<Rightarrow> bet_error option" where
  "checkLimits req limits =
     (if (case MaxSingleStake limits of None \<Rightarrow> False | Some m \<Rightarrow> amount_minor m < pb_StakeMinor req)
      then Some ErrLimitExceeded
      else case (DailyLimit limits, DailyStakedSoFar limits) of
        (Some d, Some s) \<Rightarrow>
          let remaining = wrap64 (amount_minor d - amount_minor s)
          in if remaining < pb_StakeMinor req then Some ErrLimitExceeded else None
      | _ \<Rightarrow> None)"

text \<open>\<^verbatim>\<open>json.Marshal\<close> of a map writes its keys in order.\<close>

definition buildBetPlacedPayload :: "time \<Rightarrow> string \<Rightarrow> PlaceBetRequest \<Rightarrow> CachedOdds \<Rightarrow> json option" where
  "buildBetPlacedPayload now betID req odds =
     Option.bind (enc_float64 (Decimal odds)) (\<lambda>dec.
     Some (JObj
       [(''bet_id'', JStr betID), (''currency'', JStr (pb_Currency req)),
        (''event_type'', JStr ''bet.placed''), (''market_id'', JStr (pb_MarketID req)),
        (''market_name'', JStr (MarketName req)), (''odds_american'', JInt (American odds)),
        (''odds_decimal'', dec), (''placed_at'', JStr (format_rfc3339 True now)),
        (''selection_id'', JStr (pb_SelectionID req)), (''selection_name'', JStr (SelectionName req)),
        (''stake_minor'', JInt (pb_StakeMinor req)), (''user_id'', JStr (pb_UserID req))]))"

definition outbox_row :: "time \<Rightarrow> string \<Rightarrow> string \<Rightarrow> string \<Rightarrow> json \<Rightarrow> OutboxRow" where
  "outbox_row now obID betID marketID payload =
     \<lparr>ob_ID = obID, ob_BetID = betID, ob_Topic = ''bet-placed'', ob_PartitionKey = marketID,
      ob_Payload = payload, ob_Status = OutboxStatusPending, ob_CreatedAt = now, ob_PublishedAt = None\<rparr>"

definition writeOutboxPending ::
    "time \<Rightarrow> string \<Rightarrow> string \<Rightarrow> string \<Rightarrow> json \<Rightarrow> OutboxRow tbl \<Rightarrow> OutboxRow tbl option" where
  "writeOutboxPending now obID betID marketID payload t =
     insert_row ob_ID (\<lambda>_. True) (\<lambda>_. True) (outbox_row now obID betID marketID payload) t"

definition markOutboxReady :: "string \<Rightarrow> OutboxRow tbl \<Rightarrow> OutboxRow tbl" where
  "markOutboxReady betID t =
     set_rows (\<lambda>r. ob_BetID r = betID \<and> ob_Status r = OutboxStatusPending)
       (\<lambda>r. r\<lparr>ob_Status := OutboxStatusReadyToPublish\<rparr>) t"

definition cancelOutbox :: "string \<Rightarrow> OutboxRow tbl \<Rightarrow> OutboxRow tbl" where
  "cancelOutbox betID t =
     set_rows (\<lambda>r. ob_BetID r = betID) (\<lambda>r. r\<lparr>ob_Status := OutboxStatusCancelled\<rparr>) t"

record 'w wallet_client =
  wc_GetUserLimits :: "string \<Rightarrow> 'w \<Rightarrow> grpc_status + GetUserLimitsResponse"
  wc_DeductBalance :: "DeductBalanceRequest \<Rightarrow> 'w \<Rightarrow> (grpc_status + TransactionResponse) \<times> 'w"

record 'w bet_state =
  outbox :: "OutboxRow tbl"
  redisRateLimit :: "string redis"
  redisMarket :: "string redis"
  redisOdds :: "payload redis"
  wallet :: 'w

record bet_env =
  be_now :: time
  betID :: string
  transactionID :: string
  outboxID :: string
  be_kafka :: kafka_admin

definition idem_key :: "string \<Rightarrow> string" where
  "idem_key k = ''idem:'' @ k"

definition market_key :: "string \<Rightarrow> string" where
  "market_key m = ''market:status:'' @ m"

definition odds_key :: "string \<Rightarrow> string \<Rightarrow> string" where
  "odds_key m s = ''odds:'' @ m @ '':'' @ s"

text \<open>Steps 2 to 4, which only read: market status, odds, limits.\<close>

definition check_bet ::
    "bet_call faults \<Rightarrow> Config \<Rightarrow> time \<Rightarrow> 'w wallet_client \<Rightarrow> PlaceBetRequest \<Rightarrow> 'w bet_state \<Rightarrow>
     bet_error + CachedOdds" where
  "check_bet ft cfg now wc req st =
     sbind (ok_or (stmt ft MarketGet (redis_get now (redisMarket st) (market_key (pb_MarketID req))))
              MarketStatusCacheMiss) (\<lambda>marketStatus.
     sbind (guard_or (marketStatus = ''OPEN'') ErrMarketNotOpen) (\<lambda>_.
     sbind (ok_or (stmt ft OddsGet (redis_get now (redisOdds st) (odds_key (pb_MarketID req) (pb_SelectionID req))))
              OddsCacheMiss) (\<lambda>oddsRaw.
     sbind (ok_or (decode_CachedOdds oddsRaw) CorruptOdds) (\<lambda>currentOdds.
     sbind (case validateOdds req currentOdds (OddsTolerance cfg) of Some e \<Rightarrow> Inl e | None \<Rightarrow> Inr ()) (\<lambda>_.
     sbind (case wc_GetUserLimits wc (pb_UserID req) (wallet st) of
              Inl e \<Rightarrow> Inl (GetUserLimitsFailed e) | Inr l \<Rightarrow> Inr l) (\<lambda>limitsResp.
     sbind (case checkLimits req limitsResp of Some e \<Rightarrow> Inl e | None \<Rightarrow> Inr ()) (\<lambda>_.
     Inr currentOdds)))))))"

text \<open>Step 5: only a large stake asks the lag checker, and an error counts as lagging.\<close>

definition lag_step ::
    "bet_call faults \<Rightarrow> Config \<Rightarrow> bet_env \<Rightarrow> PlaceBetRequest \<Rightarrow> string redis \<Rightarrow> bool \<times> string redis" where
  "lag_step ft cfg env req rdb =
     (if LargeStakeThreshold cfg \<le> pb_StakeMinor req
      then case IsLagging ft (be_now env) (be_kafka env)
                  (PartitionForMarket (pb_MarketID req) (KafkaNumPartitions cfg)) rdb of
        ((lagging, lagErr), rdb') \<Rightarrow> (\<not> lagErr \<and> \<not> lagging, rdb')
      else (True, rdb))"

definition deduct_request :: "bet_env \<Rightarrow> PlaceBetRequest \<Rightarrow> DeductBalanceRequest" where
  "deduct_request env req =
     \<lparr>ded_TransactionId = transactionID env, ded_UserId = pb_UserID req,
      ded_Stake = Some \<lparr>amount_minor = pb_StakeMinor req, currency = pb_Currency req\<rparr>,
      ded_BetId = betID env\<rparr>"

text \<open>Steps 6 to 9: outbox row, debit, release of the row, idempotency key.\<close>

definition commit_bet ::
    "bet_call faults \<Rightarrow> bet_env \<Rightarrow> 'w wallet_client \<Rightarrow> PlaceBetRequest \<Rightarrow> CachedOdds \<Rightarrow> 'w bet_state \<Rightarrow>
     (bet_error + PlaceBetResponse) \<times> 'w bet_state" where
  "commit_bet ft env wc req odds st =
     (case buildBetPlacedPayload (be_now env) (betID env) req odds of
        None \<Rightarrow> (Inl BuildPayloadFailed, st)
      | Some payload \<Rightarrow>
          (case stmt ft OutboxInsert (writeOutboxPending (be_now env) (outboxID env) (betID env)
                  (pb_MarketID req) payload (outbox st)) of
             None \<Rightarrow> (Inl WriteOutboxFailed, st)
           | Some ob \<Rightarrow>
               if ft OutboxInsertAck then (Inl WriteOutboxFailed, st\<lparr>outbox := ob\<rparr>)
               else (case wc_DeductBalance wc (deduct_request env req) (wallet st) of
                  (Inl e, w) \<Rightarrow>
                    (Inl (if code e = FailedPrecondition then ErrInsufficientFunds else DeductBalanceFailed e),
                     st\<lparr>outbox := (if ft OutboxCancel then ob else cancelOutbox (betID env) ob), wallet := w\<rparr>)
                | (Inr _, w) \<Rightarrow>
                    (Inr \<lparr>BetID = betID env, pr_Status = ''ACCEPTED'', pr_OddsDecimal = Decimal odds,
                          pr_OddsAmerican = American odds, pr_Stake = pb_StakeMinor req,
                          pr_Currency = pb_Currency req, PlacedAt = be_now env\<rparr>,
                     st\<lparr>outbox := (if ft OutboxReady then ob else markOutboxReady (betID env) ob), wallet := w,
                        redisRateLimit := (if ft RateSet then redisRateLimit st
                          else redis_set (be_now env) (idem_key (IdempotencyKey req)) (betID env)
                                 (24 * 3600 * second) (redisRateLimit st))\<rparr>))))"

definition PlaceBet ::
    "bet_call faults \<Rightarrow> Config \<Rightarrow> bet_env \<Rightarrow> 'w wallet_client \<Rightarrow> PlaceBetRequest \<Rightarrow> 'w bet_state \<Rightarrow>
     (bet_error + PlaceBetResponse) \<times> 'w bet_state" where
  "PlaceBet ft cfg env wc req st =
     (case stmt ft RateGet (redis_get (be_now env) (redisRateLimit st) (idem_key (IdempotencyKey req))) of
        Some existingBetID \<Rightarrow>
          (Inr \<lparr>BetID = existingBetID, pr_Status = ''ACCEPTED'', pr_OddsDecimal = RequestedOddsDecimal req,
                pr_OddsAmerican = RequestedOddsAmerican req, pr_Stake = pb_StakeMinor req,
                pr_Currency = pb_Currency req, PlacedAt = be_now env\<rparr>, st)
      | None \<Rightarrow>
          (case check_bet ft cfg (be_now env) wc req st of
             Inl e \<Rightarrow> (Inl e, st)
           | Inr currentOdds \<Rightarrow>
               (case lag_step ft cfg env req (redisRateLimit st) of
                  (ok, rdb) \<Rightarrow>
                    if \<not> ok then (Inl ErrOddsNotSettled, st\<lparr>redisRateLimit := rdb\<rparr>)
                    else commit_bet ft env wc req currentOdds (st\<lparr>redisRateLimit := rdb\<rparr>))))"

section \<open>The outbox relay\<close>

text \<open>\<^verbatim>\<open>ORDER BY created_at ASC LIMIT n\<close>; rows with equal instants come in insertion order.\<close>

definition fetchReady :: "nat \<Rightarrow> OutboxRow tbl \<Rightarrow> OutboxRow list" where
  "fetchReady limit t =
     take limit (sort_key ob_CreatedAt (filter (\<lambda>r. ob_Status r = OutboxStatusReadyToPublish) t))"

definition outbox_message :: "OutboxRow \<Rightarrow> ProducerMessage" where
  "outbox_message row =
     \<lparr>pm_Topic = ob_Topic row, pm_Key = ob_PartitionKey row, pm_Value = ob_Payload row,
      pm_Headers = [(''bet_id'', ob_BetID row), (''outbox_id'', ob_ID row)]\<rparr>"

definition markPublished :: "time \<Rightarrow> string \<Rightarrow> OutboxRow tbl \<Rightarrow> OutboxRow tbl" where
  "markPublished now obID t =
     set_rows (\<lambda>r. ob_ID r = obID)
       (\<lambda>r. r\<lparr>ob_Status := OutboxStatusPublished, ob_PublishedAt := Some now\<rparr>) t"

text \<open>What can fail for one row: the produce (also when the broker has stored the message and only
  its acknowledgement is lost) and the update.\<close>

datatype relay_call = SendFails | SendAckLost | MarkFails

definition publish ::
    "relay_call faults \<Rightarrow> time \<Rightarrow> OutboxRow \<Rightarrow> OutboxRow tbl \<times> ProducerMessage list \<Rightarrow>
     OutboxRow tbl \<times> ProducerMessage list" where
  "publish ft now row = (\<lambda>(t, msgs).
     if ft SendFails then (t, msgs)
     else if ft SendAckLost then (t, msgs @ [outbox_message row])
     else (if ft MarkFails then t else markPublished now (ob_ID row) t, msgs @ [outbox_message row]))"

definition publishBatch ::
    "bool \<Rightarrow> (string \<Rightarrow> relay_call faults) \<Rightarrow> time \<Rightarrow> OutboxRow tbl \<times> ProducerMessage list \<Rightarrow>
     OutboxRow tbl \<times> ProducerMessage list" where
  "publishBatch fetch_fails ft now = (\<lambda>(t, msgs).
     if fetch_fails then (t, msgs)
     else fold (\<lambda>row. publish (ft (ob_ID row)) now row) (fetchReady 100 t) (t, msgs))"

section \<open>The wallet behind the client\<close>

text \<open>The gRPC client: the wallet's RPCs over a network that may lose a request or its reply.\<close>

datatype net_call = LimitsLost | DeductLost | DeductReplyLost

record wallet_link =
  net :: "net_call faults"
  wdb :: "wallet_call faults"
  wnow :: time

definition remote_wallet :: "wallet_link \<Rightarrow> wallet_db wallet_client" where
  "remote_wallet l =
     \<lparr>wc_GetUserLimits = (\<lambda>u db. if net l LimitsLost then Inl (Status Unavailable ''transport'')
                                else GetUserLimits (wdb l) (wnow l) u db),
      wc_DeductBalance = (\<lambda>req db.
        if net l DeductLost then (Inl (Status Unavailable ''transport''), db)
        else case DeductBalance (wdb l) (wnow l) req db of
          (r, db') \<Rightarrow> (if net l DeductReplyLost then Inl (Status Unavailable ''transport'') else r, db'))\<rparr>"

definition recorded :: "wallet_db \<Rightarrow> string \<Rightarrow> bool" where
  "recorded db t \<longleftrightarrow> entry_of db t \<noteq> None"

text \<open>The wallet holds a stake for a bet: a debit of that user and amount is in the ledger.\<close>

definition held :: "wallet_db \<Rightarrow> string \<Rightarrow> string \<Rightarrow> int \<Rightarrow> bool" where
  "held db b u s \<longleftrightarrow> (\<exists>e \<in> set (ledger_entries db).
     entry_type e = ''DEBIT'' \<and> le_bet_id e = Some b \<and> le_user_id e = u \<and> stake_minor e = s)"

section \<open>Backed events\<close>

definition event_backed :: "(string \<Rightarrow> string \<Rightarrow> int \<Rightarrow> bool) \<Rightarrow> json \<Rightarrow> bool" where
  "event_backed h ev \<longleftrightarrow> (\<exists>kvs b u s. ev = JObj kvs \<and> map_of kvs ''bet_id'' = Some (JStr b) \<and>
     map_of kvs ''user_id'' = Some (JStr u) \<and> map_of kvs ''stake_minor'' = Some (JInt s) \<and> h b u s)"

definition outbox_backed :: "(string \<Rightarrow> string \<Rightarrow> int \<Rightarrow> bool) \<Rightarrow> OutboxRow tbl \<Rightarrow> bool" where
  "outbox_backed h t \<longleftrightarrow> (\<forall>r \<in> set t. ob_Status r \<in> {OutboxStatusReadyToPublish, OutboxStatusPublished} \<longrightarrow>
     event_backed h (ob_Payload r))"

definition log_backed :: "(string \<Rightarrow> string \<Rightarrow> int \<Rightarrow> bool) \<Rightarrow> ProducerMessage list \<Rightarrow> bool" where
  "log_backed h msgs \<longleftrightarrow> (\<forall>m \<in> set msgs. event_backed h (pm_Value m))"

text \<open>
  One step of the whole service: a call of \<^verbatim>\<open>PlaceBet\<close> with new identifiers, a poll of the
  relay, any change of the caches, any step of the wallet on behalf of others.
\<close>

inductive bet_step ::
    "('f \<Rightarrow> 'w wallet_client) \<Rightarrow> ('w \<Rightarrow> 'w \<Rightarrow> bool) \<Rightarrow> ('w \<Rightarrow> string \<Rightarrow> bool) \<Rightarrow>
     'w bet_state \<times> ProducerMessage list \<Rightarrow> 'w bet_state \<times> ProducerMessage list \<Rightarrow> bool"
  for client :: "'f \<Rightarrow> 'w wallet_client" and wstep :: "'w \<Rightarrow> 'w \<Rightarrow> bool" and rec :: "'w \<Rightarrow> string \<Rightarrow> bool"
  where
  place: "list_all (\<lambda>r. ob_BetID r \<noteq> betID env) (outbox st) \<Longrightarrow> \<not> rec (wallet st) (transactionID env) \<Longrightarrow>
    PlaceBet ft cfg env (client l) req st = (res, st') \<Longrightarrow> bet_step client wstep rec (st, msgs) (st', msgs)"
| relay: "publishBatch ff rft now (outbox st, msgs) = (t, msgs') \<Longrightarrow>
    bet_step client wstep rec (st, msgs) (st\<lparr>outbox := t\<rparr>, msgs')"
| caches: "bet_step client wstep rec (st, msgs)
    (st\<lparr>redisRateLimit := rr, redisMarket := rm, redisOdds := ro\<rparr>, msgs)"
| others: "wstep (wallet st) w \<Longrightarrow> bet_step client wstep rec (st, msgs) (st\<lparr>wallet := w\<rparr>, msgs)"

section \<open>Shape of the results\<close>

lemma event_backed_mono: "event_backed h ev \<Longrightarrow> (\<And>b u s. h b u s \<Longrightarrow> h' b u s) \<Longrightarrow> event_backed h' ev"
  by (auto simp: event_backed_def)

lemma outbox_backed_mono: "outbox_backed h t \<Longrightarrow> (\<And>b u s. h b u s \<Longrightarrow> h' b u s) \<Longrightarrow> outbox_backed h' t"
  by (auto simp: outbox_backed_def intro: event_backed_mono)

lemma log_backed_mono: "log_backed h t \<Longrightarrow> (\<And>b u s. h b u s \<Longrightarrow> h' b u s) \<Longrightarrow> log_backed h' t"
  by (auto simp: log_backed_def intro: event_backed_mono)

lemma payload_backed:
  "buildBetPlacedPayload now b req odds = Some ev \<Longrightarrow> h b (pb_UserID req) (pb_StakeMinor req) \<Longrightarrow>
   event_backed h ev"
  by (auto simp: buildBetPlacedPayload_def event_backed_def bind_eq_Some_conv)

lemma outbox_backed_insert:
  "outbox_backed h t \<Longrightarrow> writeOutboxPending now i b m ev t = Some t' \<Longrightarrow> outbox_backed h t'"
  by (auto simp: outbox_backed_def writeOutboxPending_def outbox_row_def dest!: insert_row_SomeD)

lemma outbox_backed_cancel: "outbox_backed h t \<Longrightarrow> outbox_backed h (cancelOutbox b t)"
  by (auto simp: outbox_backed_def cancelOutbox_def set_rows_def)

lemma outbox_backed_ready:
  assumes "outbox_backed h t" "list_all (\<lambda>r. ob_BetID r \<noteq> b) t"
    and "writeOutboxPending now i b m ev t = Some t'" "event_backed h ev"
  shows "outbox_backed h (markOutboxReady b t')"
proof -
  have "t' = t @ [outbox_row now i b m ev]"
    using assms(3) by (auto simp: writeOutboxPending_def dest: insert_row_SomeD)
  moreover have "markOutboxReady b t = t"
    using assms(2) by (auto simp: markOutboxReady_def list_all_iff)
  ultimately have "set (markOutboxReady b t') \<subseteq> set t \<union> {r. ob_Payload r = ev}"
    by (auto simp: markOutboxReady_def set_rows_def outbox_row_def split: if_splits)
  then show ?thesis using assms(1,4) by (fastforce simp: outbox_backed_def)
qed

lemma commit_bet_cases:
  assumes "commit_bet ft env wc req odds st = (res, st')"
  obtains (none) e where "res = Inl e" "wallet st' = wallet st" "outbox st' = outbox st"
  | (written) e ev ob where "res = Inl e" "wallet st' = wallet st" "outbox st' = ob"
      "writeOutboxPending (be_now env) (outboxID env) (betID env) (pb_MarketID req) ev (outbox st) = Some ob"
  | (refused) e e' ev ob where "wc_DeductBalance wc (deduct_request env req) (wallet st) = (Inl e', wallet st')"
      "res = Inl e" "outbox st' \<in> {ob, cancelOutbox (betID env) ob}" "redisRateLimit st' = redisRateLimit st"
      "writeOutboxPending (be_now env) (outboxID env) (betID env) (pb_MarketID req) ev (outbox st) = Some ob"
  | (accepted) resp r ev ob where "wc_DeductBalance wc (deduct_request env req) (wallet st) = (Inr r, wallet st')"
      "res = Inr resp" "outbox st' \<in> {ob, markOutboxReady (betID env) ob}"
      "buildBetPlacedPayload (be_now env) (betID env) req odds = Some ev"
      "writeOutboxPending (be_now env) (outboxID env) (betID env) (pb_MarketID req) ev (outbox st) = Some ob"
      "BetID resp = betID env" "pr_Stake resp = pb_StakeMinor req" "pr_OddsDecimal resp = Decimal odds"
      "pr_OddsAmerican resp = American odds" "pr_Status resp = ''ACCEPTED''"
      "redisRateLimit st' = (if ft RateSet then redisRateLimit st else redis_set (be_now env)
         (idem_key (IdempotencyKey req)) (betID env) (24 * 3600 * second) (redisRateLimit st))"
proof (cases "buildBetPlacedPayload (be_now env) (betID env) req odds")
  case None
  then show thesis using assms by (auto simp: commit_bet_def intro: none)
next
  case ev: (Some ev)
  let ?ins = "writeOutboxPending (be_now env) (outboxID env) (betID env) (pb_MarketID req) ev (outbox st)"
  show thesis
  proof (cases "stmt ft OutboxInsert ?ins")
    case None
    then show thesis using assms ev by (auto simp: commit_bet_def simp del: stmt_eq_None intro: none)
  next
    case (Some ob)
    then have ob: "?ins = Some ob" by simp
    obtain r w where d: "wc_DeductBalance wc (deduct_request env req) (wallet st) = (r, w)" by fastforce
    show thesis
    proof (cases "ft OutboxInsertAck")
      case True
      then show thesis using assms ev Some ob
        by (auto simp: commit_bet_def simp del: stmt_eq_Some intro: written)
    next
      case False
      then show thesis
        using assms ev Some ob d refused [of _ _ ob ev] accepted [of _ _ ob ev]
        by (cases r) (auto simp: commit_bet_def simp del: stmt_eq_Some)
    qed
  qed
qed

lemma lag_step_small: "pb_StakeMinor req < LargeStakeThreshold cfg \<Longrightarrow> lag_step ft cfg env req rdb = (True, rdb)"
  by (simp add: lag_step_def)

lemma PlaceBet_cases:
  assumes "PlaceBet ft cfg env wc req st = (res, st')"
  obtains (replay) resp b where "res = Inr resp" "st' = st" "BetID resp = b"
      "redis_get (be_now env) (redisRateLimit st) (idem_key (IdempotencyKey req)) = Some b" "\<not> ft RateGet"
  | (rejected) e where "res = Inl e" "wallet st' = wallet st" "outbox st' = outbox st"
  | (committed) odds rdb where "check_bet ft cfg (be_now env) wc req st = Inr odds"
      "lag_step ft cfg env req (redisRateLimit st) = (True, rdb)"
      "commit_bet ft env wc req odds (st\<lparr>redisRateLimit := rdb\<rparr>) = (res, st')"
  using assms unfolding PlaceBet_def
  by (simp split: option.splits sum.splits prod.splits if_splits) (auto intro: that)

lemma check_betD:
  assumes "check_bet ft cfg now wc req st = Inr odds"
  obtains limits where "redis_get now (redisMarket st) (market_key (pb_MarketID req)) = Some ''OPEN''"
    "\<exists>raw. redis_get now (redisOdds st) (odds_key (pb_MarketID req) (pb_SelectionID req)) = Some raw \<and>
       decode_CachedOdds raw = Some odds"
    "validateOdds req odds (OddsTolerance cfg) = None"
    "wc_GetUserLimits wc (pb_UserID req) (wallet st) = Inr limits" "checkLimits req limits = None"
  using assms unfolding check_bet_def by (auto split: option.splits sum.splits)

section \<open>What the flow relies on, and what it then guarantees\<close>

locale wallet_contract =
  fixes client :: "'f \<Rightarrow> 'w wallet_client" and wstep :: "'w \<Rightarrow> 'w \<Rightarrow> bool"
    and winv :: "'w \<Rightarrow> bool" and rec :: "'w \<Rightarrow> string \<Rightarrow> bool"
    and holds :: "'w \<Rightarrow> string \<Rightarrow> string \<Rightarrow> int \<Rightarrow> bool"
  assumes deduct_winv: "winv w \<Longrightarrow> winv (snd (wc_DeductBalance (client l) req w))"
    and deduct_holds: "winv w \<Longrightarrow> wc_DeductBalance (client l) req w = (Inr r, w') \<Longrightarrow>
      \<not> rec w (ded_TransactionId req) \<Longrightarrow>
      holds w' (ded_BetId req) (ded_UserId req) (GetAmountMinor (ded_Stake req))"
    and deduct_keeps: "winv w \<Longrightarrow> holds w b u s \<Longrightarrow> holds (snd (wc_DeductBalance (client l) req w)) b u s"
    and wstep_winv: "winv w \<Longrightarrow> wstep w w' \<Longrightarrow> winv w'"
    and wstep_keeps: "winv w \<Longrightarrow> wstep w w' \<Longrightarrow> holds w b u s \<Longrightarrow> holds w' b u s"
begin

lemma commit_bet_backed:
  assumes inv: "winv (wallet st)" "outbox_backed (holds (wallet st)) (outbox st)"
    and fresh: "list_all (\<lambda>r. ob_BetID r \<noteq> betID env) (outbox st)" "\<not> rec (wallet st) (transactionID env)"
    and c: "commit_bet ft env (client l) req odds st = (res, st')"
  shows "winv (wallet st') \<and> outbox_backed (holds (wallet st')) (outbox st') \<and>
    (\<forall>b u s. holds (wallet st) b u s \<longrightarrow> holds (wallet st') b u s)"
  using c
proof (cases rule: commit_bet_cases)
  case (refused e e' ev ob)
  have w: "wallet st' = snd (wc_DeductBalance (client l) (deduct_request env req) (wallet st))"
    using refused(1) by simp
  have keep: "holds (wallet st') b u s" if "holds (wallet st) b u s" for b u s
    unfolding w by (rule deduct_keeps [OF inv(1) that])
  have "outbox_backed (holds (wallet st')) ob"
    using outbox_backed_insert [OF inv(2) refused(5)] keep by (rule outbox_backed_mono)
  then show ?thesis
    using refused(3) keep deduct_winv [OF inv(1)] outbox_backed_cancel by (auto simp: w)
next
  case (accepted resp r ev ob)
  have w: "wallet st' = snd (wc_DeductBalance (client l) (deduct_request env req) (wallet st))"
    using accepted(1) by simp
  have keep: "holds (wallet st') b u s" if "holds (wallet st) b u s" for b u s
    unfolding w by (rule deduct_keeps [OF inv(1) that])
  have "holds (wallet st') (betID env) (pb_UserID req) (pb_StakeMinor req)"
    using deduct_holds [OF inv(1) accepted(1)] fresh(2) by (simp add: deduct_request_def GetAmountMinor_def)
  then have ev: "event_backed (holds (wallet st')) ev" by (rule payload_backed [OF accepted(4)])
  have old: "outbox_backed (holds (wallet st')) (outbox st)" using inv(2) keep by (rule outbox_backed_mono)
  have "outbox_backed (holds (wallet st')) ob" "outbox_backed (holds (wallet st')) (markOutboxReady (betID env) ob)"
    using outbox_backed_insert [OF old accepted(5)] outbox_backed_ready [OF old fresh(1) accepted(5) ev]
    by blast+
  then show ?thesis using accepted(3) keep deduct_winv [OF inv(1)] by (auto simp: w)
next
  case (written e ev ob)
  then show ?thesis using inv outbox_backed_insert by simp
qed (use inv in simp)

lemma PlaceBet_backed:
  assumes "winv (wallet st)" "outbox_backed (holds (wallet st)) (outbox st)"
    and "list_all (\<lambda>r. ob_BetID r \<noteq> betID env) (outbox st)" "\<not> rec (wallet st) (transactionID env)"
    and "PlaceBet ft cfg env (client l) req st = (res, st')"
  shows "winv (wallet st') \<and> outbox_backed (holds (wallet st')) (outbox st') \<and>
    (\<forall>b u s. holds (wallet st) b u s \<longrightarrow> holds (wallet st') b u s)"
  using assms(5)
proof (cases rule: PlaceBet_cases)
  case (committed odds rdb)
  show ?thesis
    using commit_bet_backed [OF _ _ _ _ committed(3)] assms(1-4) by simp
qed (use assms(1,2) in auto)

end

section \<open>The relay publishes backed rows only\<close>

lemma publish_backed:
  assumes "outbox_backed h t" "log_backed h msgs" "event_backed h (ob_Payload row)"
    and "\<And>r. r \<in> set t \<Longrightarrow> ob_ID r = ob_ID row \<Longrightarrow> event_backed h (ob_Payload r)"
    and "publish ft now row (t, msgs) = (t', msgs')"
  shows "outbox_backed h t' \<and> log_backed h msgs'"
proof -
  have "outbox_backed h (markPublished now (ob_ID row) t)"
    using assms(1,4) by (auto simp: outbox_backed_def markPublished_def set_rows_def)
  moreover have "log_backed h (msgs @ [outbox_message row])"
    using assms(2,3) by (auto simp: log_backed_def outbox_message_def)
  ultimately show ?thesis
    using assms(1,2,5) by (auto simp: publish_def split: if_splits)
qed

text \<open>The identifiers and payloads of the rows never change in the relay.\<close>

definition ob_fixed :: "OutboxRow tbl \<Rightarrow> (string \<times> string \<times> string \<times> json) list" where
  "ob_fixed t = map (\<lambda>r. (ob_ID r, ob_BetID r, ob_PartitionKey r, ob_Payload r)) t"

lemma ob_fixed_publish: "publish ft now row (t, msgs) = (t', msgs') \<Longrightarrow> ob_fixed t' = ob_fixed t"
  by (auto simp: publish_def markPublished_def set_rows_def ob_fixed_def split: if_splits)

lemma relay_fold_backed:
  assumes "distinct (map ob_ID t0)" "\<forall>row \<in> set rows. row \<in> set t0 \<and> event_backed h (ob_Payload row)"
    and "ob_fixed t = ob_fixed t0" "outbox_backed h t" "log_backed h msgs"
    and "fold (\<lambda>row. publish (ft (ob_ID row)) now row) rows (t, msgs) = (t', msgs')"
  shows "outbox_backed h t' \<and> log_backed h msgs'"
  using assms(2-6)
proof (induction rows arbitrary: t msgs)
  case (Cons row rows)
  obtain t1 m1 where p: "publish (ft (ob_ID row)) now row (t, msgs) = (t1, m1)" by fastforce
  have "event_backed h (ob_Payload r)" if "r \<in> set t" "ob_ID r = ob_ID row" for r
  proof -
    have "(ob_ID r, ob_BetID r, ob_PartitionKey r, ob_Payload r) \<in> set (ob_fixed t0)"
      using that(1) Cons.prems(2) [symmetric] by (auto simp: ob_fixed_def)
    then obtain r0 where r0: "r0 \<in> set t0" "ob_ID r0 = ob_ID r" "ob_Payload r0 = ob_Payload r"
      by (auto simp: ob_fixed_def)
    then have "r0 = row"
      using assms(1) Cons.prems(1) that(2) by (auto simp: distinct_map inj_on_def)
    then show ?thesis using r0(3) Cons.prems(1) by simp
  qed
  then have "outbox_backed h t1 \<and> log_backed h m1"
    using publish_backed [OF Cons.prems(3,4) _ _ p] Cons.prems(1) by simp
  then show ?case
    using Cons.IH [of t1 m1] Cons.prems ob_fixed_publish [OF p] p by simp
qed simp

lemma publishBatch_backed:
  assumes "distinct (map ob_ID t)" "outbox_backed h t" "log_backed h msgs"
    and "publishBatch ff ft now (t, msgs) = (t', msgs')"
  shows "outbox_backed h t' \<and> log_backed h msgs'"
proof (cases ff)
  case False
  have "row \<in> set t \<and> event_backed h (ob_Payload row)" if "row \<in> set (fetchReady 100 t)" for row
    using assms(2) that by (auto simp: fetchReady_def outbox_backed_def dest!: in_set_takeD)
  then show ?thesis
    using relay_fold_backed [OF assms(1), of "fetchReady 100 t" h t msgs ft now t' msgs'] assms False
    by (auto simp: publishBatch_def)
qed (use assms in \<open>simp add: publishBatch_def\<close>)

lemma publishBatch_fixed:
  assumes "publishBatch ff ft now (t, msgs) = (t', msgs')"
  shows "ob_fixed t' = ob_fixed t"
proof -
  have "ob_fixed t' = ob_fixed t"
    if "fold (\<lambda>row. publish (ft (ob_ID row)) now row) rows (t, msgs) = (t', msgs')" for rows
    using that
  proof (induction rows arbitrary: t msgs)
    case (Cons row rows)
    then show ?case by (cases "publish (ft (ob_ID row)) now row (t, msgs)") (auto dest: ob_fixed_publish)
  qed simp
  then show ?thesis using assms by (auto simp: publishBatch_def split: if_splits)
qed

lemma ob_ids_fixed: "ob_fixed t' = ob_fixed t \<Longrightarrow> map ob_ID t' = map ob_ID t"
proof -
  assume "ob_fixed t' = ob_fixed t"
  then have "map fst (ob_fixed t') = map fst (ob_fixed t)" by simp
  then show ?thesis by (simp add: ob_fixed_def comp_def)
qed

lemma ob_ids_bet:
  "map ob_ID (markOutboxReady b t) = map ob_ID t" "map ob_ID (cancelOutbox b t) = map ob_ID t"
  by (auto simp: markOutboxReady_def cancelOutbox_def set_rows_def)

lemma PlaceBet_ids:
  assumes "PlaceBet ft cfg env wc req st = (res, st')" "distinct (map ob_ID (outbox st))"
  shows "distinct (map ob_ID (outbox st'))"
  using assms(1)
proof (cases rule: PlaceBet_cases)
  case (committed odds rdb)
  have ins: "distinct (map ob_ID ob)" if "writeOutboxPending n i b m ev (outbox st) = Some ob" for n i b m ev ob
    using that assms(2) by (auto simp: writeOutboxPending_def insert_row_def split: if_splits)
  from committed(3) show ?thesis
    by (cases rule: commit_bet_cases) (use assms(2) ins ob_ids_bet in auto)
qed (use assms(2) in auto)

section \<open>The service as a whole\<close>

context wallet_contract
begin

definition service_inv :: "'w bet_state \<times> ProducerMessage list \<Rightarrow> bool" where
  "service_inv = (\<lambda>(st, msgs). winv (wallet st) \<and> distinct (map ob_ID (outbox st)) \<and>
     outbox_backed (holds (wallet st)) (outbox st) \<and> log_backed (holds (wallet st)) msgs)"

lemma service_inv_step:
  assumes "bet_step client wstep rec s s'" "service_inv s"
  shows "service_inv s'"
  using assms
proof (cases rule: bet_step.cases)
  case (place env st ft cfg l req res st' msgs)
  have i: "winv (wallet st)" "distinct (map ob_ID (outbox st))"
    "outbox_backed (holds (wallet st)) (outbox st)" "log_backed (holds (wallet st)) msgs"
    using assms(2) place(1) by (simp_all add: service_inv_def)
  note b = PlaceBet_backed [OF i(1,3) place(3,4,5)]
  then have "log_backed (holds (wallet st')) msgs" using i(4) by (auto intro: log_backed_mono)
  then show ?thesis using b PlaceBet_ids [OF place(5) i(2)] place(2) by (simp add: service_inv_def)
next
  case (relay ff rft now st msgs t msgs')
  then show ?thesis
    using assms(2) publishBatch_backed [of "outbox st" _ msgs ff rft now t msgs']
      ob_ids_fixed [OF publishBatch_fixed [OF relay(3)]] by (auto simp: service_inv_def)
next
  case (others st w msgs)
  then show ?thesis
    using assms(2) wstep_winv [of "wallet st" w] wstep_keeps [of "wallet st" w]
    by (auto simp: service_inv_def intro: outbox_backed_mono log_backed_mono)
qed (use assms(2) in \<open>auto simp: service_inv_def\<close>)

lemma published_funded:
  assumes "reach (bet_step client wstep rec) (st0, []) (st, msgs)" "outbox st0 = []" "winv (wallet st0)"
  shows "log_backed (holds (wallet st)) msgs \<and> outbox_backed (holds (wallet st)) (outbox st)"
proof -
  have "service_inv (st0, [])"
    using assms(2,3) by (simp add: service_inv_def outbox_backed_def log_backed_def)
  then have "service_inv (st, msgs)"
    by (rule reach_invariant [OF assms(1)]) (rule service_inv_step)
  then show ?thesis by (simp add: service_inv_def)
qed

end

section \<open>The wallet service fulfils the contract\<close>

lemma held_step:
  assumes "wallet_step C db db'" "wallet_inv db" "held db b u s"
  shows "held db' b u s"
  using assms(1,2)
proof (cases rule: wallet_step_cases)
  case (posted e)
  then show ?thesis using assms(3) by (auto simp: posts_def held_def)
next
  case (credited req ft now w)
  then show ?thesis using assms(3) credit_effect(4) [OF assms(2) credited(2)] by (auto simp: held_def)
next
  case (confirmed now p)
  obtain e where e: "e \<in> set (ledger_entries db)" "entry_type e = ''DEBIT''" "le_bet_id e = Some b"
    "le_user_id e = u" "stake_minor e = s" using assms(3) by (auto simp: held_def)
  let ?e = "if p e then confirm_row now e else e"
  have "?e \<in> set (ledger_entries db')" using e(1) confirmed by (auto simp: set_rows_def)
  moreover have "entry_type ?e = ''DEBIT'' \<and> le_bet_id ?e = Some b \<and> le_user_id ?e = u \<and> stake_minor ?e = s"
    using e by (simp add: confirm_row_def)
  ultimately show ?thesis unfolding held_def by blast
qed (use assms(3) in simp)

lemma held_reach:
  "reach (wallet_step C) db db' \<Longrightarrow> wallet_inv db \<Longrightarrow> held db b u s \<Longrightarrow> wallet_inv db' \<and> held db' b u s"
  by (induction rule: reach.induct) (auto intro: held_step wallet_step_inv)

lemma remote_deduct:
  "wc_DeductBalance (remote_wallet l) req db = (r, db') \<Longrightarrow>
     db' = db \<and> (\<exists>e. r = Inl e) \<or> (\<exists>r'. DeductBalance (wdb l) (wnow l) req db = (r', db') \<and> (r = r' \<or> (\<exists>e. r = Inl e)))"
  by (auto simp: remote_wallet_def split: if_splits prod.splits)

lemma remote_deduct_reach:
  assumes "wc_DeductBalance (remote_wallet l) req db = (r, db')"
  shows "reach (wallet_step any_credit) db db'"
  using remote_deduct [OF assms] by (auto intro: wallet_rpc_step(1))

lemma DeductBalance_InrD:
  assumes "wallet_inv db" "DeductBalance ft now req db = (Inr r, db')" "entry_of db (ded_TransactionId req) = None"
  shows "posts (deduct_entry now req) db db'"
proof -
  have "run_tx ft db (deduct_tx ft now req db) = (Inr r, db')"
    using assms(2,3) by (auto simp: DeductBalance_def getExistingTransaction_def split: if_splits)
  then obtain a where "deduct_tx ft now req db = Inr (db', a)"
    by (auto elim: run_tx_cases split: if_splits)
  then show ?thesis using deduct_posts(1) [OF assms(1)] by blast
qed

lemma posted_held: "posts (deduct_entry now req) db db' \<Longrightarrow>
  held db' (ded_BetId req) (ded_UserId req) (GetAmountMinor (ded_Stake req))"
  by (auto simp: posts_def held_def deduct_entry_def)

interpretation flow: wallet_contract remote_wallet "wallet_step any_credit" wallet_inv recorded held
proof
  fix w :: wallet_db and l req r w' b u s
  show "wallet_inv w \<Longrightarrow> wallet_inv (snd (wc_DeductBalance (remote_wallet l) req w))"
    by (metis prod.collapse reach_wallet_inv remote_deduct_reach)
  show "wallet_inv w \<Longrightarrow> wc_DeductBalance (remote_wallet l) req w = (Inr r, w') \<Longrightarrow>
      \<not> recorded w (ded_TransactionId req) \<Longrightarrow>
      held w' (ded_BetId req) (ded_UserId req) (GetAmountMinor (ded_Stake req))"
    using remote_deduct [of l req w "Inr r" w'] DeductBalance_InrD posted_held
    by (fastforce simp: recorded_def)
  show "wallet_inv w \<Longrightarrow> held w b u s \<Longrightarrow> held (snd (wc_DeductBalance (remote_wallet l) req w)) b u s"
    by (metis held_reach prod.collapse remote_deduct_reach)
  show "wallet_inv w \<Longrightarrow> wallet_step any_credit w w' \<Longrightarrow> wallet_inv w'"
    by (rule wallet_step_inv)
  show "wallet_inv w \<Longrightarrow> wallet_step any_credit w w' \<Longrightarrow> held w b u s \<Longrightarrow> held w' b u s"
    by (rule held_step)
qed

text \<open>C6. No bet is published without its money: in every run of the service, with any failures of
  the network, the databases and Kafka and any other activity on the wallet, every bet.placed
  event in the Kafka log (and every outbox row that is ready or published) names a bet, a user and
  a stake for which the wallet's ledger has a debit of exactly that user and amount.\<close>

theorem published_bets_funded:
  assumes "reach (bet_step remote_wallet (wallet_step any_credit) recorded) (st0, []) (st, msgs)"
    and "outbox st0 = []" "wallet_inv (wallet st0)"
  shows "\<forall>m \<in> set msgs. event_backed (held (wallet st)) (pm_Value m)"
  using flow.published_funded [OF assms] by (simp add: log_backed_def)

section \<open>Acceptance\<close>

definition is_replay :: "bet_call faults \<Rightarrow> bet_env \<Rightarrow> PlaceBetRequest \<Rightarrow> 'w bet_state \<Rightarrow> bool" where
  "is_replay ft env req st \<longleftrightarrow> \<not> ft RateGet \<and>
     redis_get (be_now env) (redisRateLimit st) (idem_key (IdempotencyKey req)) \<noteq> None"

lemma PlaceBet_acceptedD:
  assumes "PlaceBet ft cfg env wc req st = (Inr resp, st')" "\<not> is_replay ft env req st"
  obtains odds rdb where "check_bet ft cfg (be_now env) wc req st = Inr odds"
    "lag_step ft cfg env req (redisRateLimit st) = (True, rdb)"
    "commit_bet ft env wc req odds (st\<lparr>redisRateLimit := rdb\<rparr>) = (Inr resp, st')"
  using assms(1) by (cases rule: PlaceBet_cases) (use assms(2) in \<open>auto simp: is_replay_def intro: that\<close>)

text \<open>C7. What acceptance means: a bet that is accepted (and is not the replay of an earlier one) was
  on a market whose cached status is OPEN, at the odds that are in the cache and that the response
  reports, moved by no more than the tolerance from what the client asked for, within the single
  stake and daily limits the wallet reported, and, for a large stake, with no lag on the market's
  partition.\<close>

theorem PlaceBet_accepted:
  assumes "PlaceBet ft cfg env wc req st = (Inr resp, st')" "\<not> is_replay ft env req st"
  shows "redis_get (be_now env) (redisMarket st) (market_key (pb_MarketID req)) = Some ''OPEN'' \<and>
    (\<exists>raw odds limits.
      redis_get (be_now env) (redisOdds st) (odds_key (pb_MarketID req) (pb_SelectionID req)) = Some raw \<and>
      decode_CachedOdds raw = Some odds \<and> pr_OddsDecimal resp = Decimal odds \<and>
      pr_OddsAmerican resp = American odds \<and>
      \<not> fle (Decimal odds) (Fin 0) \<and>
      \<not> flt (OddsTolerance cfg) (fdiv (abs64 (fsub (RequestedOddsDecimal req) (Decimal odds))) (Decimal odds)) \<and>
      wc_GetUserLimits wc (pb_UserID req) (wallet st) = Inr limits \<and> checkLimits req limits = None) \<and>
    (LargeStakeThreshold cfg \<le> pb_StakeMinor req \<longrightarrow>
      fst (IsLagging ft (be_now env) (be_kafka env)
        (PartitionForMarket (pb_MarketID req) (KafkaNumPartitions cfg)) (redisRateLimit st)) = (False, False)) \<and>
    BetID resp = betID env \<and> pr_Stake resp = pb_StakeMinor req"
proof -
  obtain odds rdb where c: "check_bet ft cfg (be_now env) wc req st = Inr odds"
    and l: "lag_step ft cfg env req (redisRateLimit st) = (True, rdb)"
    and k: "commit_bet ft env wc req odds (st\<lparr>redisRateLimit := rdb\<rparr>) = (Inr resp, st')"
    using assms by (rule PlaceBet_acceptedD)
  have lag: "LargeStakeThreshold cfg \<le> pb_StakeMinor req \<longrightarrow>
      fst (IsLagging ft (be_now env) (be_kafka env)
        (PartitionForMarket (pb_MarketID req) (KafkaNumPartitions cfg)) (redisRateLimit st)) = (False, False)"
    using l by (auto simp: lag_step_def split: if_splits prod.splits)
  have r: "BetID resp = betID env" "pr_Stake resp = pb_StakeMinor req" "pr_OddsDecimal resp = Decimal odds"
    "pr_OddsAmerican resp = American odds"
    using k by (cases rule: commit_bet_cases; simp)+
  have v: "\<not> fle (Decimal odds) (Fin 0) \<and>
      \<not> flt (OddsTolerance cfg) (fdiv (abs64 (fsub (RequestedOddsDecimal req) (Decimal odds))) (Decimal odds))"
    if "validateOdds req odds (OddsTolerance cfg) = None"
    using that by (auto simp: validateOdds_def Let_def split: if_splits)
  show ?thesis using c by (rule check_betD) (use lag r v in blast)
qed

text \<open>C8. A rejected bet is never published: when PlaceBet returns an error, every outbox row of the
  new bet identifier is PENDING or CANCELLED, and unless the reply to the debit or the
  acknowledgement of its commit was lost, the wallet is as it was.\<close>

theorem PlaceBet_rejected:
  assumes "PlaceBet ft cfg env (remote_wallet l) req st = (Inl e, st')"
    and "list_all (\<lambda>r. ob_BetID r \<noteq> betID env) (outbox st)"
  shows "(\<forall>r \<in> set (outbox st'). ob_BetID r = betID env \<longrightarrow>
      ob_Status r \<in> {OutboxStatusPending, OutboxStatusCancelled}) \<and>
    (\<not> net l DeductReplyLost \<and> \<not> wdb l CommitAck \<longrightarrow> wallet st' = wallet st)"
proof -
  have new: "\<forall>r \<in> set ob. ob_BetID r = betID env \<longrightarrow> ob_Status r = OutboxStatusPending"
    "\<forall>r \<in> set (cancelOutbox (betID env) ob). ob_BetID r = betID env \<longrightarrow> ob_Status r = OutboxStatusCancelled"
    if "writeOutboxPending n i (betID env) m ev (outbox st) = Some ob" for n i m ev ob
    using that assms(2) by (auto simp: writeOutboxPending_def outbox_row_def cancelOutbox_def set_rows_def
        list_all_iff dest!: insert_row_SomeD)
  have old: "\<forall>r \<in> set (outbox st). ob_BetID r = betID env \<longrightarrow> False"
    using assms(2) by (auto simp: list_all_iff)
  from assms(1) show ?thesis
  proof (cases rule: PlaceBet_cases)
    case (committed odds rdb)
    from committed(3) show ?thesis
    proof (cases rule: commit_bet_cases)
      case (refused e1 e2 ev ob)
      have "wallet st' = wallet st" if "\<not> net l DeductReplyLost" "\<not> wdb l CommitAck"
        using refused(1) that wallet_error_atomic_deduct [of "wdb l"]
        by (auto simp: remote_wallet_def split: if_splits prod.splits)
      then show ?thesis using refused(3,5) new by auto
    next
      case (written e1 ev ob)
      then show ?thesis using new by simp
    qed (use old in auto)
  qed (use old in auto)
qed

lemma remote_limits:
  assumes "wc_GetUserLimits (remote_wallet l) u db = Inr limits" "\<not> wdb l QStaked"
    and "by_key lim_user_id u (user_limits db) = Some lr" "in_int64 (staked_in_window db (wnow l) u)"
  shows "MaxSingleStake limits = Some \<lparr>amount_minor = max_single_stake_minor lr, currency = lim_currency lr\<rparr>"
    and "DailyLimit limits = Some \<lparr>amount_minor = daily_limit_minor lr, currency = lim_currency lr\<rparr>"
    and "DailyStakedSoFar limits =
      Some \<lparr>amount_minor = staked_in_window db (wnow l) u, currency = lim_currency lr\<rparr>"
  using assms by (auto simp: remote_wallet_def GetUserLimits_def Let_def split: if_splits)

lemma accepted_posts:
  assumes "commit_bet ft env (remote_wallet l) req odds st = (Inr resp, st')"
    and "wallet_inv (wallet st)" "\<not> recorded (wallet st) (transactionID env)"
  shows "posts (deduct_entry (wnow l) (deduct_request env req)) (wallet st) (wallet st')"
  using assms(1)
proof (cases rule: commit_bet_cases)
  case (accepted resp' r ev ob)
  have "DeductBalance (wdb l) (wnow l) (deduct_request env req) (wallet st) = (Inr r, wallet st')"
    using remote_deduct [OF accepted(1)] by auto
  then show ?thesis
    using assms(2,3) by (intro DeductBalance_InrD) (auto simp: recorded_def deduct_request_def)
qed auto

text \<open>Limits hold after acceptance: when the wallet can read the daily total, an accepted bet's
  stake is at most the single-stake limit and the user's stakes of the last 24 hours, the new one
  included, are at most the daily limit.\<close>

theorem PlaceBet_within_limits:
  assumes "PlaceBet ft cfg env (remote_wallet l) req st = (Inr resp, st')" "\<not> is_replay ft env req st"
    and "wallet_inv (wallet st)" "\<not> recorded (wallet st) (transactionID env)" "\<not> wdb l QStaked"
    and "by_key lim_user_id (pb_UserID req) (user_limits (wallet st)) = Some lr"
    and "in_int64 (staked_in_window (wallet st) (wnow l) (pb_UserID req))"
    and "in_int64 (daily_limit_minor lr - staked_in_window (wallet st) (wnow l) (pb_UserID req))"
  shows "pb_StakeMinor req \<le> max_single_stake_minor lr \<and>
    staked_in_window (wallet st') (wnow l) (pb_UserID req) \<le> daily_limit_minor lr"
proof -
  obtain odds rdb where c: "check_bet ft cfg (be_now env) (remote_wallet l) req st = Inr odds"
    and k: "commit_bet ft env (remote_wallet l) req odds (st\<lparr>redisRateLimit := rdb\<rparr>) = (Inr resp, st')"
    using assms(1,2) by (rule PlaceBet_acceptedD)
  obtain limits where w: "wc_GetUserLimits (remote_wallet l) (pb_UserID req) (wallet st) = Inr limits"
    "checkLimits req limits = None" using c by (rule check_betD)
  note lims = remote_limits [OF w(1) assms(5-7)]
  have s: "pb_StakeMinor req \<le> max_single_stake_minor lr"
    "pb_StakeMinor req \<le> daily_limit_minor lr - staked_in_window (wallet st) (wnow l) (pb_UserID req)"
    using w(2) assms(8) by (auto simp: checkLimits_def lims Let_def split: if_splits)
  have "posts (deduct_entry (wnow l) (deduct_request env req)) (wallet st) (wallet st')"
    using accepted_posts [OF k] assms(3,4) by simp
  from staked_after_post [OF this, of "wnow l" "pb_UserID req"] show ?thesis
    using s by (simp add: deduct_entry_def deduct_request_def GetAmountMinor_def second_def)
qed

text \<open>A lost reply strands the stake: when the wallet has committed the debit and only its reply
  is lost, the flow cancels the outbox row and reports an error although the ledger holds the
  stake for the cancelled bet.\<close>

theorem lost_reply_strands_stake:
  assumes "wallet_inv (wallet st)" "\<not> recorded (wallet st) (transactionID env)"
    and "DeductBalance (wdb l) (wnow l) (deduct_request env req) (wallet st) = (Inr r, w')"
    and "net l DeductReplyLost" "\<not> net l DeductLost" "\<not> ft OutboxInsert" "\<not> ft OutboxInsertAck" "\<not> ft OutboxCancel"
    and "buildBetPlacedPayload (be_now env) (betID env) req odds = Some ev"
    and "writeOutboxPending (be_now env) (outboxID env) (betID env) (pb_MarketID req) ev (outbox st) = Some ob"
  shows "\<exists>st'. commit_bet ft env (remote_wallet l) req odds st =
      (Inl (DeductBalanceFailed (Status Unavailable ''transport'')), st') \<and>
    held (wallet st') (betID env) (pb_UserID req) (pb_StakeMinor req) \<and>
    (\<forall>r \<in> set (outbox st'). ob_BetID r = betID env \<longrightarrow> ob_Status r = OutboxStatusCancelled)"
proof -
  have "posts (deduct_entry (wnow l) (deduct_request env req)) (wallet st) w'"
    using DeductBalance_InrD [OF assms(1,3)] assms(2) by (simp add: recorded_def deduct_request_def)
  from posted_held [OF this] have "held w' (betID env) (pb_UserID req) (pb_StakeMinor req)"
    by (simp add: deduct_request_def GetAmountMinor_def)
  moreover have "wc_DeductBalance (remote_wallet l) (deduct_request env req) (wallet st) =
      (Inl (Status Unavailable ''transport''), w')"
    using assms(3-5) by (simp add: remote_wallet_def)
  ultimately show ?thesis
    using assms(6-10) by (auto simp: commit_bet_def stmt_def cancelOutbox_def set_rows_def)
qed

text \<open>Idempotency key: a request with the key of an accepted bet, repeated within 24 hours while
  the key is still in Redis, is answered with the same bet identifier and changes nothing: no
  second debit and no second outbox row.\<close>

theorem PlaceBet_idempotent:
  assumes "PlaceBet ft cfg env wc req st = (Inr resp, st')" "\<not> is_replay ft env req st" "\<not> ft RateSet"
    and "IdempotencyKey req' = IdempotencyKey req" "\<not> ft' RateGet"
    and "be_now env' < be_now env + 24 * 3600 * second"
  shows "\<exists>resp'. PlaceBet ft' cfg' env' wc' req' st' = (Inr resp', st') \<and> BetID resp' = BetID resp"
proof -
  obtain odds rdb where k: "commit_bet ft env wc req odds (st\<lparr>redisRateLimit := rdb\<rparr>) = (Inr resp, st')"
    using assms(1,2) by (rule PlaceBet_acceptedD)
  from k have "redis_get (be_now env') (redisRateLimit st') (idem_key (IdempotencyKey req)) = Some (BetID resp)"
    by (cases rule: commit_bet_cases) (use assms(3,6) in \<open>auto simp: redis_simps\<close>)
  then show ?thesis using assms(4,5) by (simp add: PlaceBet_def stmt_def)
qed

section \<open>The lag check\<close>

text \<open>The lag check fails closed and is sound: an error from Kafka is always reported as lagging
  with an error; "not lagging" is answered without an error, and either from a cached lag of at most
  zero or because the group's committed offset has reached the end of the log (or the topic
  partition is empty and nothing was ever committed).\<close>

theorem IsLagging_fail_closed:
  assumes "IsLagging ft now k p rdb = ((lagging, err), rdb')"
    and "\<And>n c. GetOffset k p = Some n \<Longrightarrow> ListConsumerGroupOffsets k p = Some (BlockOffset c) \<Longrightarrow> in_int64 (n - c)"
  shows "(err \<longrightarrow> lagging) \<and>
    (\<not> lagging \<longrightarrow>
      (\<exists>v n. redis_get now rdb (lag_key p) = Some v \<and> strconv_Atoi v = Some n \<and> n \<le> 0) \<or>
      (\<exists>n. GetOffset k p = Some n \<and>
        ((\<exists>c. ListConsumerGroupOffsets k p = Some (BlockOffset c) \<and> n \<le> c) \<or>
         (ListConsumerGroupOffsets k p = Some NoBlock \<and> n \<le> 0))))"
proof (cases "Option.bind (stmt ft RateGet (redis_get now rdb (lag_key p))) strconv_Atoi")
  case None
  then show ?thesis
    using assms by (auto simp: IsLagging_def fetchLag_def Let_def split: option.splits offset_block.splits if_splits)
next
  case (Some n)
  then obtain v where "redis_get now rdb (lag_key p) = Some v" "strconv_Atoi v = Some n"
    by (auto simp: bind_eq_Some_conv)
  then show ?thesis using assms(1) Some by (auto simp: IsLagging_def)
qed

lemma smod_bound:
  assumes "0 < n"
  shows "\<bar>(x :: int) smod n\<bar> < n"
proof -
  have "x smod n = sgn x * (\<bar>x\<bar> mod n)"
    using assms by (simp add: signed_modulo_int_def signed_divide_int_def sgn_if minus_mult_div_eq_mod
        flip: minus_mult_div_eq_mod)
  moreover have "0 \<le> \<bar>x\<bar> mod n" "\<bar>x\<bar> mod n < n" using assms by simp_all
  ultimately show ?thesis by (auto simp: abs_mult sgn_if)
qed

text \<open>The partition of a market is below the partition count in absolute value, but it can be
  negative: the hash is converted to int32 before the remainder is taken. Where Kafka refuses a
  negative partition, every large bet on such a market that reaches the lag check with no cached
  entry is refused, whatever the state of the consumers.\<close>

theorem PartitionForMarket_negative:
  assumes "0 < n" and "\<And>p. p < 0 \<Longrightarrow> GetOffset (be_kafka env) p = None"
    and "PartitionForMarket (pb_MarketID req) (KafkaNumPartitions cfg) < 0"
    and "LargeStakeThreshold cfg \<le> pb_StakeMinor req" "\<not> is_replay ft env req st"
    and "check_bet ft cfg (be_now env) wc req st = Inr odds"
    and "redis_get (be_now env) (redisRateLimit st)
      (lag_key (PartitionForMarket (pb_MarketID req) (KafkaNumPartitions cfg))) = None"
  shows "\<bar>PartitionForMarket m n\<bar> < n \<and> fst (PlaceBet ft cfg env wc req st) = Inl ErrOddsNotSettled"
proof -
  have "lag_step ft cfg env req (redisRateLimit st) = (False, redisRateLimit st)"
    using assms(2-4,7) by (simp add: lag_step_def IsLagging_def fetchLag_def)
  moreover have "stmt ft RateGet (redis_get (be_now env) (redisRateLimit st) (idem_key (IdempotencyKey req))) = None"
    using assms(5) by (auto simp: is_replay_def)
  ultimately have "fst (PlaceBet ft cfg env wc req st) = Inl ErrOddsNotSettled"
    using assms(6) by (simp add: PlaceBet_def del: stmt_eq_None)
  with smod_bound [OF assms(1)] show ?thesis by (simp add: PartitionForMarket_def)
qed

section \<open>Delivery of the outbox\<close>

definition published :: "time \<Rightarrow> OutboxRow \<Rightarrow> OutboxRow" where
  "published now r = r\<lparr>ob_Status := OutboxStatusPublished, ob_PublishedAt := Some now\<rparr>"

definition ready_rows :: "OutboxRow tbl \<Rightarrow> OutboxRow list" where
  "ready_rows t = filter (\<lambda>r. ob_Status r = OutboxStatusReadyToPublish) t"

lemma set_rows_published:
  "set_rows (\<lambda>r. ob_ID r = i) (published now) (set_rows (\<lambda>r. ob_ID r \<in> S) (published now) t) =
   set_rows (\<lambda>r. ob_ID r \<in> insert i S) (published now) t"
  by (auto simp: set_rows_def published_def)

lemma relay_fold:
  "fold (\<lambda>row. publish (ft (ob_ID row)) now row) rows (set_rows (\<lambda>r. ob_ID r \<in> S) (published now) t, msgs) =
   (set_rows (\<lambda>r. ob_ID r \<in> S \<union> ob_ID ` {row \<in> set rows. \<forall>c. \<not> ft (ob_ID row) c}) (published now) t,
    msgs @ map outbox_message (filter (\<lambda>row. \<not> ft (ob_ID row) SendFails) rows))"
proof (induction rows arbitrary: S msgs)
  case (Cons row rows)
  have all: "(\<forall>c. \<not> ft i c) \<longleftrightarrow> \<not> ft i SendFails \<and> \<not> ft i SendAckLost \<and> \<not> ft i MarkFails" for i
    by (metis relay_call.exhaust)
  let ?T = "\<lambda>S. set_rows (\<lambda>r. ob_ID r \<in> S) (published now) t"
  have step: "publish (ft (ob_ID row)) now row (?T S, msgs) =
      (?T (if \<forall>c. \<not> ft (ob_ID row) c then insert (ob_ID row) S else S),
       if ft (ob_ID row) SendFails then msgs else msgs @ [outbox_message row])"
    by (simp add: publish_def markPublished_def all set_rows_published flip: published_def)
  have "S' \<union> ob_ID ` {r \<in> set rows. \<forall>c. \<not> ft (ob_ID r) c} =
      S \<union> ob_ID ` {r \<in> set (row # rows). \<forall>c. \<not> ft (ob_ID r) c}"
    if "S' = (if \<forall>c. \<not> ft (ob_ID row) c then insert (ob_ID row) S else S)" for S'
    using that by auto
  then show ?case by (simp add: step Cons.IH)
qed simp

lemma set_rows_empty [simp]: "set_rows (\<lambda>r. False) f t = t"
  by (simp add: set_rows_def)

lemma publishBatch_outcome:
  "publishBatch False ft now (t, msgs) =
     (set_rows (\<lambda>r. ob_ID r \<in> ob_ID ` {row \<in> set (fetchReady 100 t). \<forall>c. \<not> ft (ob_ID row) c}) (published now) t,
      msgs @ map outbox_message (filter (\<lambda>row. \<not> ft (ob_ID row) SendFails) (fetchReady 100 t)))"
  using relay_fold [of ft now "fetchReady 100 t" "{}" t msgs] by (simp add: publishBatch_def)

lemma fetchReady_set: "row \<in> set (fetchReady n t) \<Longrightarrow> row \<in> set t \<and> ob_Status row = OutboxStatusReadyToPublish"
  by (auto simp: fetchReady_def dest!: in_set_takeD)

text \<open>One poll of the relay: it takes at most 100 ready rows, oldest first, appends the message of
  each one whose produce did not fail, in that order, marks as PUBLISHED exactly the rows for which
  everything worked, and leaves every other row as it was; a row whose produce failed stays ready
  and is retried.\<close>

theorem publishBatch_spec:
  assumes "distinct (map ob_ID t)" "publishBatch False ft now (t, msgs) = (t', msgs')"
  shows "length (fetchReady 100 t) \<le> 100 \<and> sorted (map ob_CreatedAt (fetchReady 100 t)) \<and>
    msgs' = msgs @ map outbox_message (filter (\<lambda>row. \<not> ft (ob_ID row) SendFails) (fetchReady 100 t)) \<and>
    t' = map (\<lambda>r. if r \<in> set (fetchReady 100 t) \<and> (\<forall>c. \<not> ft (ob_ID r) c) then published now r else r) t"
proof -
  have "ob_ID r \<in> ob_ID ` {row \<in> set (fetchReady 100 t). \<forall>c. \<not> ft (ob_ID row) c} \<longleftrightarrow>
      r \<in> set (fetchReady 100 t) \<and> (\<forall>c. \<not> ft (ob_ID r) c)" if "r \<in> set t" for r
  proof -
    have "row = r" if "row \<in> set (fetchReady 100 t)" "ob_ID row = ob_ID r" for row
      using inj_onD [of ob_ID "set t" row r] assms(1) fetchReady_set [OF that(1)] that(2) \<open>r \<in> set t\<close>
      by (simp add: distinct_map)
    then show ?thesis by (auto simp: image_iff)
  qed
  then have "t' = map (\<lambda>r. if r \<in> set (fetchReady 100 t) \<and> (\<forall>c. \<not> ft (ob_ID r) c) then published now r else r) t"
    using assms(2) unfolding publishBatch_outcome set_rows_def by (auto intro: map_cong)
  moreover have "sorted (map ob_CreatedAt (fetchReady 100 t))"
    by (simp add: fetchReady_def sorted_wrt_take flip: take_map)
  ultimately show ?thesis using assms(2) unfolding publishBatch_outcome by (simp add: fetchReady_def)
qed

definition drain :: "nat \<Rightarrow> time \<Rightarrow> OutboxRow tbl \<times> ProducerMessage list \<Rightarrow> OutboxRow tbl \<times> ProducerMessage list" where
  "drain n now = (publishBatch False (\<lambda>_. no_faults) now) ^^ n"

lemma filter_drop_distinct:
  assumes "distinct ys"
  shows "filter (\<lambda>r. r \<notin> set (take k ys)) ys = drop k ys"
proof -
  have "filter (\<lambda>r. r \<notin> set a) (a @ b) = b" if "set a \<inter> set b = {}" for a b :: "'a list"
    using that by (auto simp: filter_empty_conv intro!: filter_True)
  moreover have "set (take k ys) \<inter> set (drop k ys) = {}"
    using assms by (metis append_take_drop_id distinct_append)
  ultimately show ?thesis by (metis append_take_drop_id)
qed

lemma drain_step:
  assumes "distinct (map ob_ID t)" "publishBatch False (\<lambda>_. no_faults) now (t, msgs) = (t', msgs')"
  defines "ys \<equiv> sort_key ob_CreatedAt (ready_rows t)"
  shows "mset (ready_rows t') = mset (drop 100 ys)" "msgs' = msgs @ map outbox_message (take 100 ys)"
    "distinct (map ob_ID t')"
proof -
  have f: "fetchReady 100 t = take 100 ys" by (simp add: fetchReady_def ys_def ready_rows_def)
  note spec = publishBatch_spec [OF assms(1,2)]
  show "msgs' = msgs @ map outbox_message (take 100 ys)" using spec f by simp
  have t': "t' = map (\<lambda>r. if r \<in> set (take 100 ys) then published now r else r) t" using spec f by simp
  show "distinct (map ob_ID t')" using assms(1) unfolding t' by (simp add: comp_def published_def if_distrib cong: if_cong)
  have "ready_rows t' = filter (\<lambda>r. r \<notin> set (take 100 ys)) (ready_rows t)"
    unfolding t' ready_rows_def by (induction t) (auto simp: published_def)
  moreover have "distinct ys"
    using assms(1) by (simp add: ys_def ready_rows_def distinct_map)
  ultimately show "mset (ready_rows t') = mset (drop 100 ys)"
    using filter_drop_distinct [of ys 100] by (metis mset_filter mset_sort ys_def)
qed

text \<open>Every accepted bet reaches Kafka: when nothing fails, n polls publish all ready rows as
  soon as 100 n is at least their number, each exactly once.\<close>

theorem outbox_drains:
  assumes "distinct (map ob_ID t)" "length (ready_rows t) \<le> 100 * n" "drain n now (t, msgs) = (t', msgs')"
  shows "ready_rows t' = [] \<and> mset msgs' = mset msgs + mset (map outbox_message (ready_rows t))"
  using assms
proof (induction n arbitrary: t msgs)
  case (Suc n)
  obtain t1 m1 where p: "publishBatch False (\<lambda>_. no_faults) now (t, msgs) = (t1, m1)" by fastforce
  define ys where "ys = sort_key ob_CreatedAt (ready_rows t)"
  note st = drain_step [OF Suc.prems(1) p, folded ys_def]
  have "length (ready_rows t1) = length (drop 100 ys)" using st(1) by (metis size_mset)
  then have "length (ready_rows t1) \<le> 100 * n" using Suc.prems(2) by (simp add: ys_def)
  moreover have "drain n now (t1, m1) = (t', msgs')"
    using Suc.prems(3) p by (simp add: drain_def funpow_swap1)
  ultimately have r: "ready_rows t' = []" "mset msgs' = mset m1 + mset (map outbox_message (ready_rows t1))"
    using Suc.IH [OF st(3)] by auto
  have "mset (map outbox_message (ready_rows t)) =
      image_mset outbox_message (mset (take 100 ys) + mset (drop 100 ys))"
    by (metis append_take_drop_id mset_append mset_map mset_sort ys_def)
  with r st(1,2) show ?case by simp
qed (simp add: drain_def ready_rows_def)

section \<open>A concrete bet\<close>

text \<open>Ann, who has deposited 50.00, asks for 20.00 at 2.0 on an open market quoted at 2.0.\<close>

definition ann_bet :: "int \<Rightarrow> PlaceBetRequest" where
  "ann_bet stake = \<lparr>IdempotencyKey = ''k1'', pb_UserID = ''ann'', pb_MarketID = ''a'', MarketName = ''A'',
     pb_SelectionID = ''s1'', SelectionName = ''S'', RequestedOddsDecimal = Fin 2, RequestedOddsAmerican = 100,
     pb_StakeMinor = stake, pb_Currency = ''USD''\<rparr>"

definition no_kafka :: kafka_admin where
  "no_kafka = \<lparr>GetOffset = (\<lambda>p. if 0 \<le> p then Some 5 else None),
               ListConsumerGroupOffsets = (\<lambda>_. Some (BlockOffset 5))\<rparr>"

definition ann_env :: bet_env where
  "ann_env = \<lparr>be_now = 10, betID = ''b7'', transactionID = ''t7'', outboxID = ''o7'', be_kafka = no_kafka\<rparr>"

definition good_link :: wallet_link where
  "good_link = \<lparr>net = no_faults, wdb = no_faults, wnow = 10\<rparr>"

definition even_odds :: CachedOdds where
  "even_odds = \<lparr>Decimal = Fin 2, American = 100, SourceEventOffset = 3\<rparr>"

definition ann_st :: "wallet_db bet_state" where
  "ann_st = \<lparr>outbox = [], redisRateLimit = Map.empty,
     redisMarket = [market_key ''a'' \<mapsto> (''OPEN'', 5 * second)],
     redisOdds = [odds_key ''a'' ''s1'' \<mapsto>
       (Some (JObj [(''decimal'', JInt 2), (''american'', JInt 100), (''src_offset'', JInt 3)]), 5 * second)],
     wallet = wallet1\<rparr>"

lemma fin2: "float64_of_int 2 = Fin 2"
  using float64_of_int_exact [of 2] by simp

lemma even_odds_decoded:
  "decode_CachedOdds (Some (JObj [(''decimal'', JInt 2), (''american'', JInt 100), (''src_offset'', JInt 3)])) =
   Some even_odds"
  by (simp add: decode_CachedOdds_def json_simps fold_eq_def strings_ToLower_def lower_char_def even_odds_def
      dec_float64_def fin2 in_int64_def)

lemma even_odds_valid: "validateOdds (ann_bet s) even_odds (OddsTolerance DefaultConfig) = None"
proof -
  have "finite_f (lit (5 / 100))" "rv (lit (5 / 100)) = fl (5 / 100)"
    using lit_finite [of "5 / 100"] two_powi_mono [of 0 1000] by simp_all
  moreover have "0 \<le> fl (5 / 100)" using fl_mono [of 0 "5 / 100"] by simp
  ultimately show ?thesis
    by (simp add: validateOdds_def ann_bet_def even_odds_def DefaultConfig_def fle_finite flt_finite abs64_def
        fsub_def fadd_def fneg_def fdiv_def rnd_def is_inf_def signbit_def)
qed

lemma ann_limits:
  "wc_GetUserLimits (remote_wallet good_link) ''ann'' wallet1 = Inr
    \<lparr>MaxSingleStake = Some \<lparr>amount_minor = 100000, currency = ''USD''\<rparr>,
     DailyLimit = Some \<lparr>amount_minor = 1000000, currency = ''USD''\<rparr>,
     DailyStakedSoFar = Some \<lparr>amount_minor = 0, currency = ''USD''\<rparr>, KycStatus = KYC_STATUS_PENDING\<rparr>"
  by code_simp

lemma ann_check:
  "s \<le> 100000 \<Longrightarrow>
   check_bet no_faults DefaultConfig 10 (remote_wallet good_link) (ann_bet s) ann_st = Inr even_odds"
  using even_odds_valid [of s] ann_limits even_odds_decoded
  by (simp add: check_bet_def ann_bet_def [of s] ann_st_def redis_get_def second_def checkLimits_def wrap64_def)

definition ann_deduct :: "int \<Rightarrow> DeductBalanceRequest" where
  "ann_deduct s = \<lparr>ded_TransactionId = ''t7'', ded_UserId = ''ann'',
     ded_Stake = Some \<lparr>amount_minor = s, currency = ''USD''\<rparr>, ded_BetId = ''b7''\<rparr>"

definition ann_wallet :: wallet_db where
  "ann_wallet = snd (DeductBalance no_faults 10 (ann_deduct 2000) wallet1)"

definition ann_paid :: TransactionResponse where
  "ann_paid = \<lparr>resp_TransactionId = ''t7'', resp_Status = LEDGER_ENTRY_STATUS_PENDING_CONFIRMATION,
     AvailableAfter = Some \<lparr>amount_minor = 3000, currency = ''USD''\<rparr>\<rparr>"

lemma ann_deducted: "DeductBalance no_faults 10 (ann_deduct 2000) wallet1 = (Inr ann_paid, ann_wallet)"
proof -
  have "fst (DeductBalance no_faults 10 (ann_deduct 2000) wallet1) = Inr ann_paid" by code_simp
  then show ?thesis by (simp add: ann_wallet_def prod_eq_iff)
qed

lemma ann_request: "deduct_request ann_env (ann_bet s) = ann_deduct s"
  by (simp add: deduct_request_def ann_env_def ann_bet_def ann_deduct_def)

lemma ann_unrecorded: "\<not> recorded wallet1 (transactionID ann_env)"
  by (simp add: recorded_def ann_env_def wallet1_eq entry_of_def by_key_def query_row_def ann_deposit_def)

definition ann_event :: json where
  "ann_event = JObj
     [(''bet_id'', JStr ''b7''), (''currency'', JStr ''USD''), (''event_type'', JStr ''bet.placed''),
      (''market_id'', JStr ''a''), (''market_name'', JStr ''A''), (''odds_american'', JInt 100),
      (''odds_decimal'', JInt 2), (''placed_at'', JStr (format_rfc3339 True 10)),
      (''selection_id'', JStr ''s1''), (''selection_name'', JStr ''S''),
      (''stake_minor'', JInt 2000), (''user_id'', JStr ''ann'')]"

lemma ann_payload: "buildBetPlacedPayload 10 ''b7'' (ann_bet 2000) even_odds = Some ann_event"
  by (simp add: buildBetPlacedPayload_def even_odds_def enc_float64_def ann_bet_def ann_event_def)

definition ann_row :: OutboxRow where
  "ann_row = (outbox_row 10 ''o7'' ''b7'' ''a'' ann_event)\<lparr>ob_Status := OutboxStatusReadyToPublish\<rparr>"

definition ann_st' :: "wallet_db bet_state" where
  "ann_st' = ann_st\<lparr>outbox := [ann_row], wallet := ann_wallet,
     redisRateLimit := [idem_key ''k1'' \<mapsto> (''b7'', 10 + 24 * 3600 * second)]\<rparr>"

definition ann_resp :: PlaceBetResponse where
  "ann_resp = \<lparr>BetID = ''b7'', pr_Status = ''ACCEPTED'', pr_OddsDecimal = Fin 2, pr_OddsAmerican = 100,
     pr_Stake = 2000, pr_Currency = ''USD'', PlacedAt = 10\<rparr>"

lemma ann_placed:
  "PlaceBet no_faults DefaultConfig ann_env (remote_wallet good_link) (ann_bet 2000) ann_st = (Inr ann_resp, ann_st')"
proof -
  have d: "wc_DeductBalance (remote_wallet good_link) (deduct_request ann_env (ann_bet 2000)) wallet1 =
      (Inr ann_paid, ann_wallet)"
    by (simp add: ann_request remote_wallet_def good_link_def ann_deducted)
  have "commit_bet no_faults ann_env (remote_wallet good_link) (ann_bet 2000) even_odds ann_st = (Inr ann_resp, ann_st')"
    unfolding commit_bet_def using d ann_payload
    by (simp add: ann_env_def ann_st_def ann_st'_def writeOutboxPending_def insert_row_def markOutboxReady_def
        set_rows_def ann_row_def outbox_row_def ann_resp_def even_odds_def ann_bet_def redis_set_def)
  moreover have "lag_step no_faults DefaultConfig ann_env (ann_bet 2000) (redisRateLimit ann_st) =
      (True, redisRateLimit ann_st)"
    by (rule lag_step_small) (simp add: ann_bet_def DefaultConfig_def)
  moreover have "redis_get 10 (redisRateLimit ann_st) k = None" for k by (simp add: ann_st_def redis_get_def)
  ultimately show ?thesis
    using ann_check [of 2000] by (simp add: PlaceBet_def ann_env_def)
qed

lemma ann_not_replay: "\<not> is_replay ft ann_env req ann_st"
  by (simp add: is_replay_def ann_st_def redis_get_def)

section \<open>Witnesses of the bet flow\<close>

lemma ann_placed_step:
  "bet_step remote_wallet (wallet_step any_credit) recorded (ann_st, []) (ann_st', [])"
  using ann_placed by (rule bet_step.place [rotated 2]) (use ann_unrecorded in \<open>simp_all add: ann_st_def\<close>)

lemma ann_published:
  "publishBatch False (\<lambda>_. no_faults) 20 (outbox ann_st', []) =
     ([published 20 ann_row], [outbox_message ann_row])"
proof -
  have "fetchReady 100 [ann_row] = [ann_row]"
    by (simp add: fetchReady_def ann_row_def)
  then show ?thesis by (simp add: publishBatch_outcome ann_st'_def set_rows_def)
qed

theorem published_bets_funded_witness:
  "\<exists>st. reach (bet_step remote_wallet (wallet_step any_credit) recorded) (ann_st, []) (st, [outbox_message ann_row]) \<and>
     event_backed (held (wallet st)) ann_event"
proof -
  let ?st = "ann_st'\<lparr>outbox := [published 20 ann_row]\<rparr>"
  have "bet_step remote_wallet (wallet_step any_credit) recorded (ann_st', []) (?st, [outbox_message ann_row])"
    using ann_published by (rule bet_step.relay)
  then have r: "reach (bet_step remote_wallet (wallet_step any_credit) recorded) (ann_st, []) (?st, [outbox_message ann_row])"
    using ann_placed_step by (blast intro: reach_step)
  moreover have "pm_Value (outbox_message ann_row) = ann_event"
    by (simp add: outbox_message_def ann_row_def outbox_row_def)
  ultimately show ?thesis
    using published_bets_funded [OF r] by (auto simp: ann_st_def)
qed

theorem PlaceBet_accepted_witness:
  "redis_get 10 (redisMarket ann_st) (market_key ''a'') = Some ''OPEN'' \<and> BetID ann_resp = ''b7''"
  using PlaceBet_accepted [OF ann_placed ann_not_replay] by (simp add: ann_env_def ann_bet_def)

definition broke_link :: wallet_link where
  "broke_link = \<lparr>net = (\<lambda>c. c = DeductLost), wdb = no_faults, wnow = 10\<rparr>"

lemma broke_check:
  "check_bet no_faults DefaultConfig 10 (remote_wallet broke_link) (ann_bet 2000) ann_st = Inr even_odds"
proof -
  have "wc_GetUserLimits (remote_wallet broke_link) = wc_GetUserLimits (remote_wallet good_link)"
    by (simp add: remote_wallet_def broke_link_def good_link_def)
  then show ?thesis using ann_check [of 2000] by (simp add: check_bet_def)
qed

theorem PlaceBet_rejected_witness:
  "\<exists>e st'. PlaceBet no_faults DefaultConfig ann_env (remote_wallet broke_link) (ann_bet 2000) ann_st = (Inl e, st') \<and>
     (\<forall>r \<in> set (outbox st'). ob_BetID r = ''b7'' \<longrightarrow> ob_Status r \<in> {OutboxStatusPending, OutboxStatusCancelled}) \<and>
     wallet st' = wallet1"
proof -
  let ?r = "PlaceBet no_faults DefaultConfig ann_env (remote_wallet broke_link) (ann_bet 2000) ann_st"
  have d: "wc_DeductBalance (remote_wallet broke_link) q wallet1 = (Inl (Status Unavailable ''transport''), wallet1)" for q
    by (simp add: remote_wallet_def broke_link_def)
  have "\<exists>e st'. ?r = (Inl e, st')"
    using broke_check ann_payload d lag_step_small [of "ann_bet 2000" DefaultConfig no_faults ann_env]
    by (simp add: PlaceBet_def commit_bet_def ann_env_def ann_st_def redis_get_def DefaultConfig_def
        writeOutboxPending_def insert_row_def ann_bet_def)
  then obtain e st' where r: "?r = (Inl e, st')" by blast
  then show ?thesis
    using PlaceBet_rejected [OF r] by (simp add: ann_st_def broke_link_def ann_env_def)
qed

theorem PlaceBet_within_limits_witness:
  "staked_in_window ann_wallet 10 ''ann'' \<le> 1000000"
proof -
  have "by_key lim_user_id ''ann'' (user_limits wallet1) = Some (default_limits ''ann'')" by code_simp
  moreover have "staked_in_window wallet1 10 ''ann'' = 0" by code_simp
  ultimately show ?thesis
    using PlaceBet_within_limits [OF ann_placed ann_not_replay, of "default_limits ''ann''"] ann_unrecorded
    by (simp add: ann_st_def ann_st'_def good_link_def ann_bet_def in_int64_def default_limits_def)
qed

theorem lost_reply_strands_stake_witness:
  "\<exists>st'. commit_bet no_faults ann_env (remote_wallet (good_link\<lparr>net := (\<lambda>c. c = DeductReplyLost)\<rparr>)) (ann_bet 2000) even_odds ann_st =
      (Inl (DeductBalanceFailed (Status Unavailable ''transport'')), st') \<and> held (wallet st') ''b7'' ''ann'' 2000"
proof -
  have "writeOutboxPending 10 ''o7'' ''b7'' ''a'' ann_event [] = Some [outbox_row 10 ''o7'' ''b7'' ''a'' ann_event]"
    by (simp add: writeOutboxPending_def insert_row_def)
  then show ?thesis
    using lost_reply_strands_stake [of ann_st ann_env "good_link\<lparr>net := (\<lambda>c. c = DeductReplyLost)\<rparr>" "ann_bet 2000"
        ann_paid ann_wallet no_faults even_odds ann_event "[outbox_row 10 ''o7'' ''b7'' ''a'' ann_event]"]
      ann_deducted ann_request [of 2000] ann_unrecorded ann_payload
    by (fastforce simp: ann_st_def good_link_def ann_env_def ann_bet_def)
qed

theorem PlaceBet_idempotent_witness:
  "\<exists>resp'. PlaceBet no_faults DefaultConfig (ann_env\<lparr>be_now := 500, betID := ''b8''\<rparr>) (remote_wallet good_link)
     (ann_bet 2000) ann_st' = (Inr resp', ann_st') \<and> BetID resp' = ''b7''"
  using PlaceBet_idempotent [OF ann_placed ann_not_replay, of "ann_bet 2000" no_faults
      "ann_env\<lparr>be_now := 500, betID := ''b8''\<rparr>" DefaultConfig "remote_wallet good_link"]
  by (simp add: ann_resp_def ann_env_def second_def)

theorem IsLagging_fail_closed_witness:
  "fst (IsLagging no_faults 10 no_kafka 3 Map.empty) = (False, False) \<and>
   (\<exists>c. ListConsumerGroupOffsets no_kafka 3 = Some (BlockOffset c) \<and> 5 \<le> c) \<and>
   fst (IsLagging no_faults 10 no_kafka (- 1) Map.empty) = (True, True)"
proof -
  obtain rdb where i: "IsLagging no_faults 10 no_kafka 3 Map.empty = ((False, False), rdb)"
    by (simp add: IsLagging_def redis_get_def fetchLag_def no_kafka_def wrap64_def)
  have "fst (IsLagging no_faults 10 no_kafka (- 1) Map.empty) = (True, True)"
    by (simp add: IsLagging_def redis_get_def fetchLag_def no_kafka_def)
  with i show ?thesis
    using IsLagging_fail_closed [OF i] by (auto simp: no_kafka_def redis_get_def in_int64_def)
qed

theorem PartitionForMarket_negative_witness:
  "PartitionForMarket ''a'' 24 = - 12 \<and>
   fst (PlaceBet no_faults DefaultConfig ann_env (remote_wallet good_link) (ann_bet 20000) ann_st) = Inl ErrOddsNotSettled"
proof -
  have p: "PartitionForMarket ''a'' 24 = - 12" by code_simp
  then show ?thesis
    using PartitionForMarket_negative [of 24 ann_env "ann_bet 20000" DefaultConfig no_faults ann_st
        "remote_wallet good_link" even_odds "''a''"] ann_check [of 20000] ann_not_replay
    by (simp add: DefaultConfig_def ann_bet_def ann_env_def no_kafka_def ann_st_def redis_get_def)
qed

theorem publishBatch_spec_witness:
  "publishBatch False (\<lambda>_ c. c = SendFails) 20 ([ann_row], []) = ([ann_row], []) \<and>
   publishBatch False (\<lambda>_. no_faults) 20 ([ann_row], []) = ([published 20 ann_row], [outbox_message ann_row])"
proof -
  have f: "fetchReady 100 [ann_row] = [ann_row]" by (simp add: fetchReady_def ann_row_def)
  obtain t m t' m' where r: "publishBatch False (\<lambda>_ c. c = SendFails) 20 ([ann_row], []) = (t, m)"
    "publishBatch False (\<lambda>_. no_faults) 20 ([ann_row], []) = (t', m')" by fastforce
  then show ?thesis
    using publishBatch_spec [OF _ r(1)] publishBatch_spec [OF _ r(2)] by (auto simp: f)
qed

theorem outbox_drains_witness:
  "mset (snd (drain 1 20 ([ann_row], []))) = {#outbox_message ann_row#}"
proof -
  obtain t m where d: "drain 1 20 ([ann_row], []) = (t, m)" by fastforce
  then show ?thesis
    using outbox_drains [OF _ _ d] by (simp add: ready_rows_def ann_row_def)
qed

end
