(* ===== verification/Settlement.thy ===== *)
theory Settlement
  imports BetAcceptance
begin

text \<open>
  The Settlement service (\<^verbatim>\<open>src/internal/settlement/consumer.go\<close>): it consumes market
  results, finds the open bets of the market in \<open>pending_bets\<close>, records each outcome in
  \<open>settlements\<close>, asks the wallet to credit the winner and publishes bet.settled. The wallet client
  is a parameter (\<open>credit\<close>), instantiated with the wallet theory's CreditBalance. The identifiers
  that \<^verbatim>\<open>uuid.New\<close> draws for a bet are given by functions of the bet, new ones at each delivery.
\<close>

section \<open>Data\<close>

record pendingBet =
  spb_BetID :: string
  spb_UserID :: string
  spb_MarketID :: string
  spb_SelectionID :: string
  spb_StakeMinor :: int
  spb_OddsDecimal :: float64
  spb_Currency :: string
  spb_status :: string

record settlement_row =
  settlement_id :: string
  se_bet_id :: string
  outcome :: string
  payout_minor :: int
  settled_at :: time

record ResultEvent =
  re_EventType :: string
  re_MarketID :: string
  re_SelectionID :: string
  re_ResultedAt :: string

record 'w settle_state =
  pending_bets :: "pendingBet tbl"
  settlements :: "settlement_row tbl"
  se_wallet :: 'w
  bet_settled_log :: "ProducerMessage list"

datatype settle_call = QPending | ScanPending | RowsErr

text \<open>What can fail for one bet: the insert, and the produce (also after the broker stored it).\<close>

datatype settle_bet_call = InsertSettlement | InsertSettlementAck | SendSettled | SendSettledAck

record 'w settle_env =
  se_now :: time
  se_faults :: "settle_call faults"
  se_bet_faults :: "string \<Rightarrow> settle_bet_call faults"
  settlement_uuid :: "string \<Rightarrow> string"
  credit_uuid :: "string \<Rightarrow> string"
  se_credit :: "string \<Rightarrow> CreditBalanceRequest \<Rightarrow> 'w \<Rightarrow> (grpc_status + TransactionResponse) \<times> 'w"

definition decode_ResultEvent :: "payload \<Rightarrow> ResultEvent option" where
  "decode_ResultEvent p =
     Option.bind (dec_object p) (\<lambda>kvs.
     Option.bind (decode_field dec_string ''event_type'' [] kvs) (\<lambda>ty.
     Option.bind (decode_field dec_string ''market_id'' [] kvs) (\<lambda>m.
     Option.bind (decode_field dec_string ''winning_selection_id'' [] kvs) (\<lambda>s.
     Option.bind (decode_field dec_string ''resulted_at'' [] kvs) (\<lambda>t.
     Some \<lparr>re_EventType = ty, re_MarketID = m, re_SelectionID = s, re_ResultedAt = t\<rparr>)))))"

section \<open>Settling one bet\<close>

definition payout_of :: "bool \<Rightarrow> int \<Rightarrow> float64 \<Rightarrow> int" where
  "payout_of isWin stakeMinor oddsDecimal =
     (if isWin \<and> flt (Fin 0) oddsDecimal
      then int64_of_float (fmul (float64_of_int stakeMinor) oddsDecimal) else 0)"

definition outcome_of :: "bool \<Rightarrow> string" where
  "outcome_of isWin = (if isWin then ''WIN'' else ''LOSS'')"

definition credit_request :: "string \<Rightarrow> string \<Rightarrow> string \<Rightarrow> bool \<Rightarrow> int \<Rightarrow> string \<Rightarrow> CreditBalanceRequest" where
  "credit_request txID userID bID isWin payoutMinor cur =
     \<lparr>cre_TransactionId = txID, cre_UserId = userID,
      cre_Amount = Some \<lparr>amount_minor = (if isWin then payoutMinor else 0), currency = cur\<rparr>,
      cre_Reason = CREDIT_REASON_WIN, cre_OriginatingBetId = bID\<rparr>"

definition settled_message :: "string \<Rightarrow> string \<Rightarrow> bool \<Rightarrow> int \<Rightarrow> time \<Rightarrow> ProducerMessage" where
  "settled_message userID bID isWin payoutMinor settledAt =
     \<lparr>pm_Topic = ''bet-settled'', pm_Key = userID,
      pm_Value = JObj [(''bet_id'', JStr bID), (''event_type'', JStr ''bet.settled''),
        (''outcome'', JStr (outcome_of isWin)), (''payout_minor'', JInt payoutMinor),
        (''settled_at'', JStr (format_rfc3339 True settledAt))],
      pm_Headers = []\<rparr>"

definition settlement_chk :: "settlement_row \<Rightarrow> bool" where
  "settlement_chk r \<longleftrightarrow> outcome r \<in> {''WIN'', ''LOSS'', ''VOID''} \<and> in_int64 (payout_minor r)"

text \<open>The result is whether settleBet returned nil.\<close>

definition settleBet :: "'w settle_env \<Rightarrow> pendingBet \<Rightarrow> bool \<Rightarrow> time \<Rightarrow> 'w settle_state \<Rightarrow> bool \<times> 'w settle_state" where
  "settleBet env bet isWin settledAt st =
     (let bID = spb_BetID bet; ft = se_bet_faults env bID;
          payoutMinor = payout_of isWin (spb_StakeMinor bet) (spb_OddsDecimal bet)
      in case stmt ft InsertSettlement (insert_nothing se_bet_id settlement_chk (\<lambda>_. True)
              \<lparr>settlement_id = settlement_uuid env bID, se_bet_id = bID, outcome = outcome_of isWin,
               payout_minor = payoutMinor, settled_at = settledAt\<rparr> (settlements st)) of
           None \<Rightarrow> (False, st)
         | Some ss \<Rightarrow>
             (let st1 = st\<lparr>settlements := ss\<rparr>
              in if ft InsertSettlementAck then (False, st1)
                 else case se_credit env bID (credit_request (credit_uuid env bID) (spb_UserID bet) bID isWin
                       payoutMinor (spb_Currency bet)) (se_wallet st1) of
                   (Inl e, w) \<Rightarrow> (False, st1\<lparr>se_wallet := w\<rparr>)
                 | (Inr _, w) \<Rightarrow>
                     (let msg = settled_message (spb_UserID bet) bID isWin payoutMinor settledAt;
                          st2 = st1\<lparr>se_wallet := w\<rparr>
                      in if ft SendSettled then (False, st2)
                         else (\<not> ft SendSettledAck, st2\<lparr>bet_settled_log := bet_settled_log st2 @ [msg]\<rparr>))))"

section \<open>Handling a result\<close>

definition zero_time :: time where
  "zero_time = - unix_epoch_days * 86400 * second"

definition results_at :: "time \<Rightarrow> string \<Rightarrow> time" where
  "results_at now s =
     (case parse_rfc3339 s of None \<Rightarrow> now | Some t \<Rightarrow> if t = zero_time then now else t)"

definition open_bets :: "string \<Rightarrow> pendingBet tbl \<Rightarrow> pendingBet list" where
  "open_bets marketID t = filter (\<lambda>b. spb_MarketID b = marketID \<and> spb_status b = ''PLACED'') t"

definition settle_all ::
    "'w settle_env \<Rightarrow> ResultEvent \<Rightarrow> pendingBet list \<Rightarrow> 'w settle_state \<Rightarrow> 'w settle_state" where
  "settle_all env event bets st =
     foldl (\<lambda>st bet. snd (settleBet env bet (spb_SelectionID bet = re_SelectionID event)
       (results_at (se_now env) (re_ResultedAt event)) st)) st bets"

definition handleResult :: "'w settle_env \<Rightarrow> ConsumerMessage \<Rightarrow> 'w settle_state \<Rightarrow> bool \<times> 'w settle_state" where
  "handleResult env msg st =
     (case decode_ResultEvent (Value msg) of
        None \<Rightarrow> (False, st)
      | Some event \<Rightarrow>
          if re_EventType event \<noteq> ''market.resulted'' then (True, st)
          else let bets = open_bets (re_MarketID event) (pending_bets st)
               in if se_faults env QPending \<or> (bets \<noteq> [] \<and> se_faults env ScanPending) \<or> se_faults env RowsErr
                  then (False, st)
                  else (True, settle_all env event bets st))"

text \<open>The consumer group handler.\<close>

definition settlement_ConsumeClaim ::
    "(ConsumerMessage \<Rightarrow> 'w settle_env) \<Rightarrow> (int \<Rightarrow> 'c \<Rightarrow> 'c) \<Rightarrow> ConsumerMessage list \<Rightarrow>
     'w settle_state \<times> 'c \<Rightarrow> 'w settle_state \<times> 'c" where
  "settlement_ConsumeClaim ev commit = consume_claim (\<lambda>m. handleResult (ev m) m) commit"

section \<open>The wallet behind the client\<close>

datatype credit_net = CreditLost | CreditReplyLost

record credit_link =
  cnet :: "credit_net faults"
  cdb :: "wallet_call faults"
  cnow :: time

definition remote_credit :: "credit_link \<Rightarrow> CreditBalanceRequest \<Rightarrow> wallet_db \<Rightarrow>
    (grpc_status + TransactionResponse) \<times> wallet_db" where
  "remote_credit l req db =
     (if cnet l CreditLost then (Inl (Status Unavailable ''transport''), db)
      else case CreditBalance (cdb l) (cnow l) req db of
        (r, db') \<Rightarrow> (if cnet l CreditReplyLost then Inl (Status Unavailable ''transport'') else r, db'))"

definition on_wallet :: "(string \<Rightarrow> credit_link) \<Rightarrow> wallet_db settle_env \<Rightarrow> wallet_db settle_env" where
  "on_wallet links env = env\<lparr>se_credit := (\<lambda>b. remote_credit (links b))\<rparr>"

lemma on_wallet_simps [simp]:
  "se_credit (on_wallet links env) b = remote_credit (links b)"
  "se_now (on_wallet links env) = se_now env" "se_faults (on_wallet links env) = se_faults env"
  "se_bet_faults (on_wallet links env) = se_bet_faults env"
  "settlement_uuid (on_wallet links env) = settlement_uuid env" "credit_uuid (on_wallet links env) = credit_uuid env"
  by (simp_all add: on_wallet_def)

lemma remote_credit_reach: "remote_credit l req db = (r, db') \<Longrightarrow> reach (wallet_step any_credit) db db'"
  by (auto simp: remote_credit_def intro: wallet_rpc_step(5) split: if_splits prod.splits)

lemma remote_credit_Inr: "remote_credit l req db = (Inr r, db') \<Longrightarrow> CreditBalance (cdb l) (cnow l) req db = (Inr r, db')"
  by (auto simp: remote_credit_def split: if_splits prod.splits)

section \<open>Shape of a settlement\<close>

definition settle_row :: "'w settle_env \<Rightarrow> pendingBet \<Rightarrow> bool \<Rightarrow> time \<Rightarrow> settlement_row" where
  "settle_row env bet isWin t =
     \<lparr>settlement_id = settlement_uuid env (spb_BetID bet), se_bet_id = spb_BetID bet, outcome = outcome_of isWin,
      payout_minor = payout_of isWin (spb_StakeMinor bet) (spb_OddsDecimal bet), settled_at = t\<rparr>"

definition bet_credit :: "'w settle_env \<Rightarrow> pendingBet \<Rightarrow> bool \<Rightarrow> CreditBalanceRequest" where
  "bet_credit env bet isWin =
     credit_request (credit_uuid env (spb_BetID bet)) (spb_UserID bet) (spb_BetID bet) isWin
       (payout_of isWin (spb_StakeMinor bet) (spb_OddsDecimal bet)) (spb_Currency bet)"

lemma bet_credit_fields [simp]:
  "cre_UserId (bet_credit env bet isWin) = spb_UserID bet"
  "cre_TransactionId (bet_credit env bet isWin) = credit_uuid env (spb_BetID bet)"
  "GetAmountMinor (cre_Amount (bet_credit env bet isWin)) =
     (if isWin then payout_of True (spb_StakeMinor bet) (spb_OddsDecimal bet) else 0)"
  by (simp_all add: bet_credit_def credit_request_def GetAmountMinor_def)

lemma settleBet_cases:
  assumes "settleBet env bet isWin t st = (ok, st')"
  obtains (failed) "\<not> ok" "st' = st"
  | (uncredited) ss w where "\<not> ok"
      "insert_nothing se_bet_id settlement_chk (\<lambda>_. True) (settle_row env bet isWin t) (settlements st) = Some ss"
      "w = se_wallet st \<or> (\<exists>e. se_credit env (spb_BetID bet) (bet_credit env bet isWin) (se_wallet st) = (Inl e, w))"
      "st' = st\<lparr>settlements := ss, se_wallet := w\<rparr>"
  | (credited) ss r w l where
      "insert_nothing se_bet_id settlement_chk (\<lambda>_. True) (settle_row env bet isWin t) (settlements st) = Some ss"
      "se_credit env (spb_BetID bet) (bet_credit env bet isWin) (se_wallet st) = (Inr r, w)"
      "st' = st\<lparr>settlements := ss, se_wallet := w, bet_settled_log := l\<rparr>"
proof (cases "stmt (se_bet_faults env (spb_BetID bet)) InsertSettlement
    (insert_nothing se_bet_id settlement_chk (\<lambda>_. True) (settle_row env bet isWin t) (settlements st))")
  case None
  then show thesis
    using assms by (auto simp: settleBet_def Let_def settle_row_def simp del: stmt_eq_None intro: failed)
next
  case (Some ss)
  obtain r w where c: "se_credit env (spb_BetID bet) (bet_credit env bet isWin) (se_wallet st) = (r, w)" by fastforce
  from Some have ins: "insert_nothing se_bet_id settlement_chk (\<lambda>_. True) (settle_row env bet isWin t) (settlements st) = Some ss"
    by simp
  show thesis
  proof (cases "se_bet_faults env (spb_BetID bet) InsertSettlementAck")
    case True
    then show thesis using assms Some ins
      by (intro uncredited [of ss "se_wallet st"]) (auto simp: settleBet_def Let_def settle_row_def simp del: stmt_eq_Some)
  next
    case ack: False
    show thesis
    proof (cases r)
      case (Inl e)
      then show thesis using assms Some c ins ack
        by (intro uncredited [of ss w]) (auto simp: settleBet_def Let_def settle_row_def bet_credit_def simp del: stmt_eq_Some)
    next
      case (Inr a)
      then have "\<exists>l. st' = st\<lparr>settlements := ss, se_wallet := w, bet_settled_log := l\<rparr>"
        using assms Some c ack by (cases st)
          (auto simp: settleBet_def Let_def settle_row_def bet_credit_def simp del: stmt_eq_Some split: if_splits)
      then show thesis using credited ins c Inr by blast
    qed
  qed
qed

section \<open>Invariant\<close>

definition settle_inv :: "wallet_db settle_state \<Rightarrow> bool" where
  "settle_inv st \<longleftrightarrow> table_ok se_bet_id settlement_chk (settlements st) \<and> wallet_inv (se_wallet st)"

text \<open>\<open>settles st st'\<close>: what one or more settlements can do to the state.\<close>

definition settles :: "wallet_db settle_state \<Rightarrow> wallet_db settle_state \<Rightarrow> bool" where
  "settles st st' \<longleftrightarrow> pending_bets st' = pending_bets st \<and> (\<exists>new. settlements st' = settlements st @ new) \<and>
     reach (wallet_step any_credit) (se_wallet st) (se_wallet st') \<and> (settle_inv st \<longrightarrow> settle_inv st')"

lemma settles_refl [simp]: "settles st st"
  by (simp add: settles_def)

lemma settles_trans: "settles a b \<Longrightarrow> settles b c \<Longrightarrow> settles a c"
  by (auto simp: settles_def intro: reach_trans)

lemma insert_settlement:
  assumes "insert_nothing se_bet_id settlement_chk (\<lambda>_. True) r t = Some t'"
  shows "\<exists>new. t' = t @ new" "table_ok se_bet_id settlement_chk t \<Longrightarrow> table_ok se_bet_id settlement_chk t'"
  using insert_nothing_SomeD [OF assms] table_ok_insert_nothing [OF _ assms] by auto

lemma settleBet_settles: "settles st (snd (settleBet (on_wallet links env) bet isWin t st))"
proof -
  obtain ok st' where s: "settleBet (on_wallet links env) bet isWin t st = (ok, st')" by fastforce
  then show ?thesis
  proof (cases rule: settleBet_cases)
    case (uncredited ss w)
    then have "reach (wallet_step any_credit) (se_wallet st) w" by (auto intro: remote_credit_reach)
    then show ?thesis
      using uncredited s insert_settlement [OF uncredited(2)] by (auto simp: settles_def settle_inv_def intro: reach_wallet_inv)
  next
    case (credited ss r w l)
    then have "reach (wallet_step any_credit) (se_wallet st) w" by (auto intro: remote_credit_reach)
    then show ?thesis
      using credited s insert_settlement [OF credited(1)] by (auto simp: settles_def settle_inv_def intro: reach_wallet_inv)
  qed (use s in simp)
qed

lemma settle_all_settles: "settles st (settle_all (on_wallet links env) event bets st)"
  unfolding settle_all_def
proof (induction bets arbitrary: st)
  case (Cons b bets)
  show ?case using settles_trans [OF settleBet_settles Cons.IH] by simp
qed simp

lemma handleResult_settles: "settles st (snd (handleResult (on_wallet links env) msg st))"
  by (auto simp: handleResult_def Let_def settle_all_settles split: option.splits)

interpretation settlement: consumer "\<lambda>(links, env). handleResult (on_wallet links env)" settle_inv
  by unfold_locales (use handleResult_settles in \<open>auto simp: settles_def\<close>)

text \<open>A bet is settled at most once in the books of the service: over any claim of result messages,
  with any failures, the settlements table keeps one row per bet and only grows, so the first
  recorded outcome and payout of a bet are final.\<close>

theorem settlements_final:
  assumes "settle_inv st"
    and "st' = fst (settlement_ConsumeClaim (\<lambda>m. on_wallet (links m) (env m)) commit ms (st, c))"
  shows "settle_inv st' \<and> distinct (map se_bet_id (settlements st')) \<and>
    (\<exists>new. settlements st' = settlements st @ new)"
proof -
  have inv: "settle_inv st'"
    using settlement.claim_inv [OF assms(1), of "\<lambda>m. (links m, env m)" commit ms c] assms(2)
    by (simp add: settlement_ConsumeClaim_def)
  have "settles st (foldl (\<lambda>s m. snd (handleResult (on_wallet (links m) (env m)) m s)) st ms)"
  proof (induction ms arbitrary: st)
    case (Cons m ms)
    show ?case using settles_trans [OF handleResult_settles Cons.IH] by simp
  qed simp
  then have "settles st st'" by (simp add: assms(2) settlement_ConsumeClaim_def consume_claim_state)
  with inv show ?thesis by (auto simp: settles_def settle_inv_def table_ok_def)
qed

section \<open>Money\<close>

lemma settleBet_wallet:
  assumes "settleBet (on_wallet links env) bet isWin t st = (True, st')"
  obtains r where "CreditBalance (cdb (links (spb_BetID bet))) (cnow (links (spb_BetID bet)))
    (bet_credit env bet isWin) (se_wallet st) = (Inr r, se_wallet st')"
  using assms
proof (cases rule: settleBet_cases)
  case (credited ss r w l)
  then have "remote_credit (links (spb_BetID bet)) (bet_credit env bet isWin) (se_wallet st) = (Inr r, w)"
    by (simp add: bet_credit_def)
  then show thesis using remote_credit_Inr credited(3) that by fastforce
qed auto

text \<open>A lost bet's stake is never released: settling a loss, which the source comments as releasing
  the bets in flight, sends a credit of zero, and no user's available balance or bets in flight
  change.\<close>

theorem settle_loss_keeps_stake:
  assumes "wallet_inv (se_wallet st)" "settleBet (on_wallet links env) bet False t st = (True, st')"
  shows "avail_of (se_wallet st') u = avail_of (se_wallet st) u \<and>
    flight_of (se_wallet st') u = flight_of (se_wallet st) u"
proof -
  obtain r where "CreditBalance (cdb (links (spb_BetID bet))) (cnow (links (spb_BetID bet)))
      (bet_credit env bet False) (se_wallet st) = (Inr r, se_wallet st')"
    using assms(2) by (rule settleBet_wallet)
  then obtain w where "credit_tx (cdb (links (spb_BetID bet))) (cnow (links (spb_BetID bet)))
      (bet_credit env bet False) (se_wallet st) = Inr (se_wallet st', w)"
    using CreditBalance_InrD by blast
  from credit_effect(2,3) [OF assms(1) this, of u] show ?thesis by (simp add: credited_def)
qed

text \<open>Settlement is not idempotent: bets stay PLACED in pending_bets, so settling a winning bet a
  second time (the result message is delivered again) credits the payout again, although the
  settlements table records the bet once.\<close>

theorem resettlement_pays_twice:
  assumes "wallet_inv (se_wallet st)" "balance_of (se_wallet st) (spb_UserID bet) \<noteq> None"
    and "settleBet (on_wallet links env) bet True t st = (True, st1)"
    and "settleBet (on_wallet links' env') bet True t' st1 = (True, st2)"
  shows "avail_of (se_wallet st2) (spb_UserID bet) = avail_of (se_wallet st) (spb_UserID bet) +
      2 * payout_of True (spb_StakeMinor bet) (spb_OddsDecimal bet) \<and>
    pending_bets st2 = pending_bets st \<and> settlements st2 = settlements st1"
proof -
  let ?u = "spb_UserID bet" and ?p = "payout_of True (spb_StakeMinor bet) (spb_OddsDecimal bet)"
  obtain r1 where c1: "CreditBalance (cdb (links (spb_BetID bet))) (cnow (links (spb_BetID bet)))
      (bet_credit env bet True) (se_wallet st) = (Inr r1, se_wallet st1)"
    using assms(3) by (rule settleBet_wallet)
  obtain r2 where c2: "CreditBalance (cdb (links' (spb_BetID bet))) (cnow (links' (spb_BetID bet)))
      (bet_credit env' bet True) (se_wallet st1) = (Inr r2, se_wallet st2)"
    using assms(4) by (rule settleBet_wallet)
  note m1 = credit_moves [OF assms(1) _ c1] and s1 = settleBet_settles [of st links env bet True t]
    and s2 = settleBet_settles [of st1 links' env' bet True t']
  have inv1: "wallet_inv (se_wallet st1)"
    using s1 assms(1,3) by (auto simp: settles_def intro: reach_wallet_inv)
  have b1: "balance_of (se_wallet st1) ?u \<noteq> None"
    using credit_keeps_account [OF assms(1) c1] assms(2) by simp
  have "avail_of (se_wallet st2) ?u = avail_of (se_wallet st) ?u + 2 * ?p"
    using m1 credit_moves [OF inv1 _ c2] assms(2) b1 by simp
  moreover have mem: "se_bet_id ` set (settlements st1) \<inter> {spb_BetID bet} \<noteq> {}"
    using assms(3) by (cases rule: settleBet_cases)
      (auto simp: insert_nothing_def settle_row_def split: if_splits)
  have "settlements st2 = settlements st1"
    using assms(4) by (cases rule: settleBet_cases)
      (use mem in \<open>auto simp: insert_nothing_def settle_row_def split: if_splits\<close>)
  ultimately show ?thesis using s1 s2 assms(3,4) by (simp add: settles_def)
qed

lemma payout_int64 [simp]: "in_int64 (payout_of w s x)"
  using int64_of_float_range [of "fmul (float64_of_int s) x"] by (simp add: payout_of_def in_int64_def)

lemma handleResult_single:
  assumes "decode_ResultEvent (Value msg) = Some event" "re_EventType event = ''market.resulted''"
    and "open_bets (re_MarketID event) (pending_bets st) = [bet]" "se_faults env = no_faults"
  shows "handleResult env msg st = (True, snd (settleBet env bet (spb_SelectionID bet = re_SelectionID event)
    (results_at (se_now env) (re_ResultedAt event)) st))"
  using assms by (simp add: handleResult_def Let_def settle_all_def)

text \<open>An unpaid win is acknowledged: when a winning payout exceeds the user's bets in flight the
  wallet refuses the credit, yet handleResult succeeds (so the offset is committed and the result
  is not delivered again); the bet is recorded as WIN with its payout in settlements, the wallet is
  unchanged and no bet.settled event is published.\<close>

theorem unpaid_win_acknowledged:
  assumes "wallet_inv (se_wallet st)" "balance_of (se_wallet st) (spb_UserID bet) = Some b"
    and "bets_in_flight_minor b < payout_of True (spb_StakeMinor bet) (spb_OddsDecimal bet)"
    and "decode_ResultEvent (Value msg) = Some event" "re_EventType event = ''market.resulted''"
    and "open_bets (re_MarketID event) (pending_bets st) = [bet]" "se_faults env = no_faults"
    and "spb_SelectionID bet = re_SelectionID event" "se_bet_faults env (spb_BetID bet) = no_faults"
    and "by_key se_bet_id (spb_BetID bet) (settlements st) = None"
  shows "\<exists>st'. handleResult (on_wallet links env) msg st = (True, st') \<and>
    settlements st' = settlements st @ [settle_row env bet True (results_at (se_now env) (re_ResultedAt event))] \<and>
    se_wallet st' = se_wallet st \<and> bet_settled_log st' = bet_settled_log st"
proof -
  let ?l = "links (spb_BetID bet)" and ?t = "results_at (se_now env) (re_ResultedAt event)"
  have "GetAmountMinor (cre_Amount (bet_credit env bet True)) =
      payout_of True (spb_StakeMinor bet) (spb_OddsDecimal bet)" by simp
  then have "\<exists>e. CreditBalance (cdb ?l) (cnow ?l) (bet_credit env bet True) (se_wallet st) = (Inl e, se_wallet st)"
    using credit_refused [OF assms(1)] assms(2,3) by simp
  then have "\<exists>e. remote_credit ?l (bet_credit env bet True) (se_wallet st) = (Inl e, se_wallet st)"
    by (cases "cnet ?l CreditLost"; cases "cnet ?l CreditReplyLost") (auto simp: remote_credit_def)
  then obtain e where c: "remote_credit ?l (bet_credit env bet True) (se_wallet st) = (Inl e, se_wallet st)"
    by blast
  have ins: "insert_nothing se_bet_id settlement_chk (\<lambda>_. True) (settle_row env bet True ?t) (settlements st) =
      Some (settlements st @ [settle_row env bet True ?t])"
    using assms(10) by (simp add: insert_nothing_def settle_row_def settlement_chk_def outcome_of_def
        by_key_None_iff)
  have "snd (settleBet (on_wallet links env) bet True ?t st) = st\<lparr>settlements := settlements st @ [settle_row env bet True ?t]\<rparr>"
    using c ins assms(9) by (cases st) (simp add: settleBet_def Let_def settle_row_def bet_credit_def)
  then show ?thesis
    using handleResult_single [OF assms(4-6), of "on_wallet links env"] assms(7,8) by simp
qed

text \<open>C9. The payout is within one minor unit of stake times odds: for a stake from 0 to below 2^50 and
  finite odds from 2^-1022 to 1024 it is the float64 product rounded down, so it is at most the exact
  product plus the rounding of one multiplication (relative 2^-53) and above it less one unit and that
  rounding.\<close>

theorem payout_bounds:
  assumes "0 \<le> stake" "stake < 2 ^ 50" "finite_f odds" "2 powi (- 1022) \<le> rv odds" "rv odds \<le> 2 ^ 10"
  defines "exact \<equiv> real_of_int stake * rv odds"
  shows "real_of_int (payout_of True stake odds) \<le> exact * (1 + 2 powi (- 53)) \<and>
    exact * (1 - 2 powi (- 53)) - 1 < real_of_int (payout_of True stake odds)"
proof -
  have o: "0 < rv odds" using assms(4) by (meson less_le_trans two_powi_pos)
  have st: "float64_of_int stake = Fin (of_int stake)" using assms(1,2) by (intro float64_of_int_exact) simp
  have "real_of_int stake < 2 ^ 50" using assms(2) by (metis of_int_less_iff of_int_numeral of_int_power)
  then have "exact \<le> 2 ^ 50 * 2 ^ 10" unfolding exact_def using assms(1,5) o by (intro mult_mono) auto
  then have le: "exact \<le> 2 ^ 60" by simp
  have ge: "0 \<le> exact" unfolding exact_def using assms(1) o by simp
  have "(2::real) ^ 60 \<le> 2 powi 1000" using two_powi_mono [of 60 1000] by (simp add: power_int_def)
  then have abs: "\<bar>rv (Fin (real_of_int stake)) * rv odds\<bar> \<le> 2 powi 1000" using le ge by (simp add: exact_def)
  have m: "finite_f (fmul (Fin (real_of_int stake)) odds)" "rv (fmul (Fin (real_of_int stake)) odds) = fl exact"
    using fmul_finite [OF _ assms(3) abs] by (simp_all add: exact_def finite_f_def rv_def)
  have err: "\<bar>fl exact - exact\<bar> \<le> exact * 2 powi (- 53)"
  proof (cases "stake = 0")
    case False
    then have "rv odds \<le> exact" unfolding exact_def using assms(1) o by simp
    then have "2 powi (- 1022) \<le> \<bar>exact\<bar>" using assms(4) by linarith
    then show ?thesis using fl_rel_error [of exact] ge by simp
  qed (simp add: exact_def)
  have "fl exact \<le> 2 ^ 60" using fl_le_rep [OF _ le] representable_powi [of 60] by (simp add: power_int_def)
  moreover have "0 \<le> fl exact" using fl_mono [OF ge] by simp
  ultimately have i: "int64_of_float (fmul (Fin (real_of_int stake)) odds) = trunc (fl exact)"
    using int64_of_float_finite [OF m(1)] m(2) by simp
  have "payout_of True stake odds = trunc (fl exact)"
    using o assms(3) by (simp add: payout_of_def st i flt_finite)
  moreover have "fl exact \<le> exact + exact * 2 powi (- 53)" "exact - exact * 2 powi (- 53) \<le> fl exact"
    using err unfolding abs_le_iff by linarith+
  ultimately show ?thesis
    using trunc_bounds [OF \<open>0 \<le> fl exact\<close>] unfolding distrib_left right_diff_distrib mult_1_right by linarith
qed

section \<open>Witnesses\<close>

text \<open>Ann's bet of 5.00 at 2.0, with 20.00 in flight (the run in the wallet theory).\<close>

definition ann_pending :: pendingBet where
  "ann_pending = \<lparr>spb_BetID = ''b1'', spb_UserID = ''ann'', spb_MarketID = ''m1'', spb_SelectionID = ''home'',
     spb_StakeMinor = 500, spb_OddsDecimal = Fin 2, spb_Currency = ''USD'', spb_status = ''PLACED''\<rparr>"

definition settle0 :: "wallet_db settle_state" where
  "settle0 = \<lparr>pending_bets = [ann_pending], settlements = [], se_wallet = wallet2, bet_settled_log = []\<rparr>"

definition good_credit :: "time \<Rightarrow> credit_link" where
  "good_credit now = \<lparr>cnet = no_faults, cdb = no_faults, cnow = now\<rparr>"

definition settle_env0 :: "string \<Rightarrow> wallet_db settle_env" where
  "settle_env0 t = \<lparr>se_now = 50, se_faults = no_faults, se_bet_faults = (\<lambda>_. no_faults), settlement_uuid = (\<lambda>_. ''s1''),
     credit_uuid = (\<lambda>_. t), se_credit = (\<lambda>_ _ w. (Inl (Status Unavailable ''unset''), w))\<rparr>"

definition result_msg :: ConsumerMessage where
  "result_msg = \<lparr>Topic = ''market-data-normalised'', Offset = 4, Value = Some (JObj
     [(''event_type'', JStr ''market.resulted''), (''market_id'', JStr ''m1''),
      (''winning_selection_id'', JStr ''home''), (''resulted_at'', JStr [])]), Headers = []\<rparr>"

lemma fmul_ints:
  assumes "\<bar>a\<bar> < 2 ^ 20" "\<bar>b\<bar> < 2 ^ 20"
  shows "fmul (float64_of_int a) (Fin (of_int b)) = rnd ((a < 0) \<noteq> (b < 0)) (of_int (a * b))"
  using assms float64_of_int_exact [of a] by (simp add: fmul_def is_inf_def signbit_def Let_def)

lemma payout_500_2: "payout_of True 500 (Fin 2) = 1000"
proof -
  have "fmul (float64_of_int 500) (Fin (of_int 2)) = rnd False (of_int 1000)" using fmul_ints [of 500 2] by simp
  also have "\<dots> = Fin 1000" using float64_of_int_exact [of 1000] by (simp add: float64_of_int_def)
  finally show ?thesis
    by (simp add: payout_of_def flt_finite int64_of_float_def finite_f_def) (simp add: trunc_def)
qed

theorem settlements_final_witness:
  "distinct (map se_bet_id (settlements (fst (settlement_ConsumeClaim
     (\<lambda>m. on_wallet (\<lambda>_. good_credit 60) (settle_env0 ''c1'')) (\<lambda>off c. off + 1) [result_msg, result_msg] (settle0, 0 :: int)))))"
  using settlements_final [of settle0 _ "\<lambda>_ _. good_credit 60" "\<lambda>_. settle_env0 ''c1''" "\<lambda>off c. off + 1"
      "[result_msg, result_msg]" "0 :: int", OF _ refl]
  by (simp add: settle_inv_def settle0_def)

lemma credit_ok_settles:
  assumes "remote_credit (links (spb_BetID bet)) (bet_credit env bet isWin) (se_wallet st) = (Inr r, w)"
    and "se_bet_faults env (spb_BetID bet) = no_faults"
  shows "\<exists>st'. settleBet (on_wallet links env) bet isWin t st = (True, st') \<and> se_wallet st' = w"
proof -
  have "settlement_chk (settle_row env bet isWin t)"
    by (simp add: settlement_chk_def settle_row_def outcome_of_def)
  then have "\<exists>ss. insert_nothing se_bet_id settlement_chk (\<lambda>_. True) (settle_row env bet isWin t) (settlements st) = Some ss"
    by (simp add: insert_nothing_def)
  then obtain ss where "insert_nothing se_bet_id settlement_chk (\<lambda>_. True) (settle_row env bet isWin t) (settlements st) = Some ss"
    by blast
  then show ?thesis using assms by (simp add: settleBet_def Let_def settle_row_def bet_credit_def)
qed

definition ann_settle_credit :: "int \<Rightarrow> string \<Rightarrow> CreditBalanceRequest" where
  "ann_settle_credit x t = \<lparr>cre_TransactionId = t, cre_UserId = ''ann'',
     cre_Amount = Some \<lparr>amount_minor = x, currency = ''USD''\<rparr>, cre_Reason = CREDIT_REASON_WIN,
     cre_OriginatingBetId = ''b1''\<rparr>"

lemma settle_env0_faults [simp]: "se_bet_faults (settle_env0 t) b = no_faults"
  by (simp add: settle_env0_def)

lemma remote_good [simp]: "remote_credit (good_credit n) req db = CreditBalance no_faults n req db"
  by (simp add: remote_credit_def good_credit_def)

lemma ann_bet_credit:
  "bet_credit (settle_env0 t) ann_pending w = ann_settle_credit (if w then 1000 else 0) t"
  using payout_500_2 by (simp add: bet_credit_def credit_request_def settle_env0_def ann_pending_def ann_settle_credit_def)

theorem settle_loss_keeps_stake_witness:
  "\<exists>st'. settleBet (on_wallet (\<lambda>_. good_credit 60) (settle_env0 ''c1'')) ann_pending False 60 settle0 = (True, st') \<and>
     flight_of (se_wallet st') ''ann'' = 2000"
proof -
  have "\<not> isl (fst (CreditBalance no_faults 60 (ann_settle_credit 0 ''c1'') wallet2))" by code_simp
  then obtain r w where "CreditBalance no_faults 60 (ann_settle_credit 0 ''c1'') wallet2 = (Inr r, w)"
    by (metis prod.collapse sum.collapse(2))
  then have "remote_credit (good_credit 60) (bet_credit (settle_env0 ''c1'') ann_pending False) (se_wallet settle0) = (Inr r, w)"
    by (simp add: ann_bet_credit settle0_def)
  then obtain st' where s: "settleBet (on_wallet (\<lambda>_. good_credit 60) (settle_env0 ''c1'')) ann_pending False 60 settle0 = (True, st')"
    using credit_ok_settles [of "\<lambda>_. good_credit 60" ann_pending "settle_env0 ''c1''" False settle0 r w 60]
    by auto
  then show ?thesis using settle_loss_keeps_stake [OF _ s, of "''ann''"] by (simp add: settle0_def)
qed

theorem resettlement_pays_twice_witness:
  "\<exists>st1 st2. settleBet (on_wallet (\<lambda>_. good_credit 60) (settle_env0 ''c1'')) ann_pending True 60 settle0 = (True, st1) \<and>
     settleBet (on_wallet (\<lambda>_. good_credit 70) (settle_env0 ''c2'')) ann_pending True 70 st1 = (True, st2) \<and>
     avail_of (se_wallet st2) ''ann'' = 5000 \<and> settlements st2 = settlements st1"
proof -
  define w1 where "w1 = snd (CreditBalance no_faults 60 (ann_settle_credit 1000 ''c1'') wallet2)"
  have "\<not> isl (fst (CreditBalance no_faults 60 (ann_settle_credit 1000 ''c1'') wallet2))" by code_simp
  then obtain r1 where c1: "CreditBalance no_faults 60 (ann_settle_credit 1000 ''c1'') wallet2 = (Inr r1, w1)"
    unfolding w1_def by (metis prod.collapse sum.collapse(2))
  have "\<not> isl (fst (CreditBalance no_faults 70 (ann_settle_credit 1000 ''c2'')
      (snd (CreditBalance no_faults 60 (ann_settle_credit 1000 ''c1'') wallet2))))" by code_simp
  then obtain r2 w2 where c2: "CreditBalance no_faults 70 (ann_settle_credit 1000 ''c2'') w1 = (Inr r2, w2)"
    unfolding w1_def by (metis prod.collapse sum.collapse(2))
  obtain st1 where s1: "settleBet (on_wallet (\<lambda>_. good_credit 60) (settle_env0 ''c1'')) ann_pending True 60 settle0 = (True, st1)"
    "se_wallet st1 = w1"
    using credit_ok_settles [of "\<lambda>_. good_credit 60" ann_pending "settle_env0 ''c1''" True settle0 r1 w1 60] c1
    by (auto simp: ann_bet_credit settle0_def)
  obtain st2 where s2: "settleBet (on_wallet (\<lambda>_. good_credit 70) (settle_env0 ''c2'')) ann_pending True 70 st1 = (True, st2)"
    using credit_ok_settles [of "\<lambda>_. good_credit 70" ann_pending "settle_env0 ''c2''" True st1 r2 w2 70] c2 s1(2)
    by (auto simp: ann_bet_credit)
  have "spb_UserID ann_pending = ''ann''" "payout_of True (spb_StakeMinor ann_pending) (spb_OddsDecimal ann_pending) = 1000"
    using payout_500_2 by (simp_all add: ann_pending_def)
  then show ?thesis
    using resettlement_pays_twice [OF _ _ s1(1) s2] s1(1) s2 by (simp add: settle0_def)
qed

definition big_pending :: pendingBet where
  "big_pending = ann_pending\<lparr>spb_StakeMinor := 2000\<rparr>"

lemma payout_2000_2: "payout_of True 2000 (Fin 2) = 4000"
proof -
  have "fmul (float64_of_int 2000) (Fin (of_int 2)) = rnd False (of_int 4000)" using fmul_ints [of 2000 2] by simp
  also have "\<dots> = Fin 4000" using float64_of_int_exact [of 4000] by (simp add: float64_of_int_def)
  finally show ?thesis
    by (simp add: payout_of_def flt_finite int64_of_float_def finite_f_def) (simp add: trunc_def)
qed

lemma result_decoded:
  "decode_ResultEvent (Value result_msg) = Some \<lparr>re_EventType = ''market.resulted'', re_MarketID = ''m1'',
     re_SelectionID = ''home'', re_ResultedAt = []\<rparr>"
  by (simp add: decode_ResultEvent_def result_msg_def json_simps fold_eq_def strings_ToLower_def lower_char_def)

theorem unpaid_win_acknowledged_witness:
  "\<exists>st'. handleResult (on_wallet (\<lambda>_. good_credit 60) (settle_env0 ''c1'')) result_msg
       (settle0\<lparr>pending_bets := [big_pending]\<rparr>) = (True, st') \<and>
     map outcome (settlements st') = [''WIN''] \<and> map payout_minor (settlements st') = [4000] \<and> se_wallet st' = wallet2"
proof -
  have "big_pending = \<lparr>spb_BetID = ''b1'', spb_UserID = ''ann'', spb_MarketID = ''m1'', spb_SelectionID = ''home'',
     spb_StakeMinor = 2000, spb_OddsDecimal = Fin 2, spb_Currency = ''USD'', spb_status = ''PLACED''\<rparr>"
    by (simp add: big_pending_def ann_pending_def)
  note f = this
  have fields: "spb_UserID big_pending = ''ann''" "spb_BetID big_pending = ''b1''" "spb_SelectionID big_pending = ''home''"
    "payout_of True (spb_StakeMinor big_pending) (spb_OddsDecimal big_pending) = 4000"
    "open_bets ''m1'' [big_pending] = [big_pending]"
    using payout_2000_2 by (simp_all add: f open_bets_def)
  show ?thesis
    using unpaid_win_acknowledged [of "settle0\<lparr>pending_bets := [big_pending]\<rparr>" big_pending _ result_msg _
        "settle_env0 ''c1''" "\<lambda>_. good_credit 60", OF _ _ _ result_decoded]
    by (auto simp: fields settle0_def settle_env0_def sql_simps settle_row_def outcome_of_def)
qed

theorem payout_bounds_witness:
  "real_of_int (payout_of True 500 (Fin 2)) \<le> 1000 * (1 + 2 powi (- 53)) \<and>
   1000 * (1 - 2 powi (- 53)) - 1 < real_of_int (payout_of True 500 (Fin 2))"
proof -
  have "(2::real) powi (- 1022) \<le> 2" using two_powi_mono [of "- 1022" 1] by simp
  then show ?thesis using payout_bounds [of 500 "Fin 2"] by simp
qed

end
