(* ===== verification/BetHistory.thy ===== *)
theory BetHistory
  imports BetAcceptance
begin

text \<open>
  The Bet History service (\<^verbatim>\<open>src/internal/bethistory/consumer.go\<close>), a read model of placed and
  settled bets. The state is the \<open>bets\<close> table (primary key bet and instant, monthly partitions from
  March to May 2026, the CHECK on the status) and the wallet behind the client. PostgreSQL keeps
  instants to the microsecond; the conversion of a float64 to NUMERIC(10,4) is the driver's and the
  database's and is a parameter of the environment.

  Shown: the event of Bet Acceptance is read as it was written and stored when nothing fails, redelivery
  changes nothing, settling and voiding keep the keys, and messages of the subscribed topics are ignored.
\<close>

section \<open>Data\<close>

record BetRecord =
  bh_BetID :: string
  bh_UserID :: string
  bh_MarketID :: string
  bh_MarketName :: string
  bh_SelectionID :: string
  bh_SelectionName :: string
  bh_OddsDecimal :: int
  bh_OddsAmerican :: int
  bh_StakeMinor :: int
  bh_Currency :: string
  bh_Status :: string
  bh_PlacedAt :: time
  bh_SettledAt :: "time option"
  bh_PayoutMinor :: "int option"

record 'w hist_state =
  bets :: "BetRecord tbl"
  hi_wallet :: 'w

datatype hist_call = InsertBet | InsertBetAck | UpdateBet | UpdateBetAck

record 'w hist_env =
  he_now :: time
  he_faults :: "hist_call faults"
  to_numeric :: "float64 \<Rightarrow> int option"
  he_confirm :: "string \<Rightarrow> 'w \<Rightarrow> (grpc_status + TransactionResponse) \<times> 'w"

definition pg_time :: "time \<Rightarrow> time" where
  "pg_time t = t div 1000 * 1000"

definition bets_from :: time where
  "bets_from = 1772323200 * second"

definition bets_to :: time where
  "bets_to = 1780272000 * second"

definition bets_chk :: "BetRecord \<Rightarrow> bool" where
  "bets_chk r \<longleftrightarrow> bh_Status r \<in> {''PLACED'', ''SETTLED_WIN'', ''SETTLED_LOSS'', ''VOID''} \<and>
     in_int64 (bh_StakeMinor r) \<and> - (2 ^ 31) \<le> bh_OddsAmerican r \<and> bh_OddsAmerican r < 2 ^ 31 \<and>
     bets_from \<le> bh_PlacedAt r \<and> bh_PlacedAt r < bets_to"

definition bets_key :: "BetRecord \<Rightarrow> string \<times> time" where
  "bets_key r = (bh_BetID r, bh_PlacedAt r)"

section \<open>Events\<close>

record placed_event =
  pe_BetID :: string
  pe_UserID :: string
  pe_MarketID :: string
  pe_MarketName :: string
  pe_SelectionID :: string
  pe_SelectionName :: string
  pe_OddsDecimal :: float64
  pe_OddsAmerican :: int
  pe_StakeMinor :: int
  pe_Currency :: string
  pe_PlacedAt :: string

definition decode_placed :: "payload \<Rightarrow> placed_event option" where
  "decode_placed p =
     Option.bind (dec_object p) (\<lambda>kvs.
     Option.bind (decode_field dec_string ''bet_id'' [] kvs) (\<lambda>b.
     Option.bind (decode_field dec_string ''user_id'' [] kvs) (\<lambda>u.
     Option.bind (decode_field dec_string ''market_id'' [] kvs) (\<lambda>m.
     Option.bind (decode_field dec_string ''market_name'' [] kvs) (\<lambda>mn.
     Option.bind (decode_field dec_string ''selection_id'' [] kvs) (\<lambda>s.
     Option.bind (decode_field dec_string ''selection_name'' [] kvs) (\<lambda>sn.
     Option.bind (decode_field dec_float64 ''odds_decimal'' (Fin 0) kvs) (\<lambda>d.
     Option.bind (decode_field dec_int64 ''odds_american'' 0 kvs) (\<lambda>a.
     Option.bind (decode_field dec_int64 ''stake_minor'' 0 kvs) (\<lambda>st.
     Option.bind (decode_field dec_string ''currency'' [] kvs) (\<lambda>c.
     Option.bind (decode_field dec_string ''placed_at'' [] kvs) (\<lambda>t.
     Some \<lparr>pe_BetID = b, pe_UserID = u, pe_MarketID = m, pe_MarketName = mn, pe_SelectionID = s,
           pe_SelectionName = sn, pe_OddsDecimal = d, pe_OddsAmerican = a, pe_StakeMinor = st,
           pe_Currency = c, pe_PlacedAt = t\<rparr>))))))))))))"

text \<open>The first header with the key, or the empty string.\<close>

fun header_value :: "string \<Rightarrow> (string \<times> string) list \<Rightarrow> string" where
  "header_value k [] = []"
| "header_value k ((h, v) # hs) = (if h = k then v else header_value k hs)"

definition zero_instant :: time where
  "zero_instant = - unix_epoch_days * 86400 * second"

definition parse_or :: "time \<Rightarrow> string \<Rightarrow> time" where
  "parse_or d s = (case parse_rfc3339 s of None \<Rightarrow> d | Some t \<Rightarrow> t)"

section \<open>Handlers\<close>

definition bet_record :: "'w hist_env \<Rightarrow> placed_event \<Rightarrow> int \<Rightarrow> BetRecord" where
  "bet_record env e odds =
     \<lparr>bh_BetID = pe_BetID e, bh_UserID = pe_UserID e, bh_MarketID = pe_MarketID e,
      bh_MarketName = pe_MarketName e, bh_SelectionID = pe_SelectionID e, bh_SelectionName = pe_SelectionName e,
      bh_OddsDecimal = odds, bh_OddsAmerican = pe_OddsAmerican e, bh_StakeMinor = pe_StakeMinor e,
      bh_Currency = pe_Currency e, bh_Status = ''PLACED'',
      bh_PlacedAt = pg_time (parse_or (he_now env) (pe_PlacedAt e)), bh_SettledAt = None, bh_PayoutMinor = None\<rparr>"

definition history_handleBetPlaced :: "'w hist_env \<Rightarrow> ConsumerMessage \<Rightarrow> 'w hist_state \<Rightarrow> bool \<times> 'w hist_state" where
  "history_handleBetPlaced env msg st =
     (case decode_placed (Value msg) of
        None \<Rightarrow> (False, st)
      | Some e \<Rightarrow>
          (let tx = header_value ''transaction_id'' (Headers msg)
           in case stmt (he_faults env) InsertBet (Option.bind (to_numeric env (pe_OddsDecimal e)) (\<lambda>odds.
                insert_nothing bets_key bets_chk (\<lambda>_. True) (bet_record env e odds) (bets st))) of
             None \<Rightarrow> (False, st)
           | Some bs \<Rightarrow>
               (let st1 = st\<lparr>bets := bs\<rparr>
                in if he_faults env InsertBetAck then (False, st1)
                   else if tx \<noteq> []
                   then (case he_confirm env tx (hi_wallet st1) of
                           (Inl _, w) \<Rightarrow> (False, st1\<lparr>hi_wallet := w\<rparr>)
                         | (Inr _, w) \<Rightarrow> (True, st1\<lparr>hi_wallet := w\<rparr>))
                   else (True, st1))))"

definition settle_record :: "string \<Rightarrow> time \<Rightarrow> int \<Rightarrow> BetRecord \<Rightarrow> BetRecord" where
  "settle_record status t payout r =
     r\<lparr>bh_Status := status, bh_SettledAt := Some (pg_time t), bh_PayoutMinor := Some payout\<rparr>"

definition update_bets :: "'w hist_env \<Rightarrow> string \<Rightarrow> (BetRecord \<Rightarrow> BetRecord) \<Rightarrow> 'w hist_state \<Rightarrow> bool \<times> 'w hist_state" where
  "update_bets env b f st =
     (case stmt (he_faults env) UpdateBet (update_rows bets_chk (\<lambda>r. bh_BetID r = b) f (bets st)) of
        None \<Rightarrow> (False, st)
      | Some bs \<Rightarrow> (\<not> he_faults env UpdateBetAck, st\<lparr>bets := bs\<rparr>))"

definition handleBetSettled :: "'w hist_env \<Rightarrow> ConsumerMessage \<Rightarrow> 'w hist_state \<Rightarrow> bool \<times> 'w hist_state" where
  "handleBetSettled env msg st =
     (case Option.bind (dec_object (Value msg)) (\<lambda>kvs.
           Option.bind (decode_field dec_string ''bet_id'' [] kvs) (\<lambda>b.
           Option.bind (decode_field dec_string ''outcome'' [] kvs) (\<lambda>oc.
           Option.bind (decode_field dec_int64 ''payout_minor'' 0 kvs) (\<lambda>p.
           Option.bind (decode_field dec_string ''settled_at'' [] kvs) (\<lambda>t. Some (b, oc, p, t)))))) of
        None \<Rightarrow> (False, st)
      | Some (b, oc, p, t) \<Rightarrow>
          update_bets env b
            (settle_record (if oc = ''WIN'' then ''SETTLED_WIN'' else ''SETTLED_LOSS'') (parse_or zero_instant t) p) st)"

definition handleBetVoided :: "'w hist_env \<Rightarrow> ConsumerMessage \<Rightarrow> 'w hist_state \<Rightarrow> bool \<times> 'w hist_state" where
  "handleBetVoided env msg st =
     (case Option.bind (dec_object (Value msg)) (\<lambda>kvs.
           Option.bind (decode_field dec_string ''bet_id'' [] kvs) (\<lambda>b.
           Option.bind (decode_field dec_string ''voided_at'' [] kvs) (\<lambda>t. Some (b, t)))) of
        None \<Rightarrow> (False, st)
      | Some (b, t) \<Rightarrow>
          update_bets env b (\<lambda>r. r\<lparr>bh_Status := ''VOID'', bh_SettledAt := Some (pg_time (parse_or zero_instant t))\<rparr>) st)"

definition history_topics :: "string list" where
  "history_topics = [''bet-placed'', ''bet-settled'', ''bet-voided'']"

definition history_handle :: "'w hist_env \<Rightarrow> ConsumerMessage \<Rightarrow> 'w hist_state \<Rightarrow> bool \<times> 'w hist_state" where
  "history_handle env msg st =
     (if Topic msg = ''bet.placed'' then history_handleBetPlaced env msg st
      else if Topic msg = ''bet.settled'' then handleBetSettled env msg st
      else if Topic msg = ''bet.voided'' then handleBetVoided env msg st
      else (True, st))"

definition history_ConsumeClaim ::
    "(ConsumerMessage \<Rightarrow> 'w hist_env) \<Rightarrow> (int \<Rightarrow> 'c \<Rightarrow> 'c) \<Rightarrow> ConsumerMessage list \<Rightarrow>
     'w hist_state \<times> 'c \<Rightarrow> 'w hist_state \<times> 'c" where
  "history_ConsumeClaim ev commit = consume_claim (\<lambda>m. history_handle (ev m) m) commit"

section \<open>The wallet behind the client\<close>

record confirm_link =
  co_lost :: bool
  co_reply_lost :: bool
  co_db :: "wallet_call faults"
  co_now :: time

definition remote_confirm :: "confirm_link \<Rightarrow> string \<Rightarrow> wallet_db \<Rightarrow> (grpc_status + TransactionResponse) \<times> wallet_db" where
  "remote_confirm l t db =
     (if co_lost l then (Inl (Status Unavailable ''transport''), db)
      else case ConfirmTransaction (co_db l) (co_now l) t db of
        (r, db') \<Rightarrow> (if co_reply_lost l then Inl (Status Unavailable ''transport'') else r, db'))"

definition hist_on_wallet :: "confirm_link \<Rightarrow> wallet_db hist_env \<Rightarrow> wallet_db hist_env" where
  "hist_on_wallet l env = env\<lparr>he_confirm := remote_confirm l\<rparr>"

lemma hist_on_wallet_simps [simp]:
  "he_confirm (hist_on_wallet l env) = remote_confirm l" "he_now (hist_on_wallet l env) = he_now env"
  "he_faults (hist_on_wallet l env) = he_faults env" "to_numeric (hist_on_wallet l env) = to_numeric env"
  "bet_record (hist_on_wallet l env) e n = bet_record env e n"
  by (simp_all add: hist_on_wallet_def bet_record_def)

definition confirm_ledger :: "time \<Rightarrow> string \<Rightarrow> ledger_row tbl \<Rightarrow> ledger_row tbl" where
  "confirm_ledger now t ls =
     set_rows (\<lambda>e. transaction_id e = t \<and> le_status e = ''PENDING_CONFIRMATION'') (confirm_row now) ls"

definition not_pending :: "string \<Rightarrow> ledger_row tbl \<Rightarrow> bool" where
  "not_pending t ls \<longleftrightarrow> (\<forall>e \<in> set ls. transaction_id e = t \<longrightarrow> le_status e \<noteq> ''PENDING_CONFIRMATION'')"

lemma confirm_ledger_done: "not_pending t ls \<Longrightarrow> confirm_ledger now t ls = ls"
  by (auto simp: confirm_ledger_def not_pending_def)

lemma not_pending_confirm: "not_pending t (confirm_ledger now t ls)"
proof -
  have "\<not> (transaction_id e = t \<and> le_status e = ''PENDING_CONFIRMATION'')"
    if "e \<in> set (confirm_ledger now t ls)" for e
    by (rule set_rows_cleared [where p = "\<lambda>e. transaction_id e = t \<and> le_status e = ''PENDING_CONFIRMATION''"
        and f = "confirm_row now" and t = ls])
      (use that in \<open>simp_all add: confirm_ledger_def confirm_row_status\<close>)
  then show ?thesis unfolding not_pending_def by blast
qed

lemma not_pending_stays: "not_pending t ls \<Longrightarrow> not_pending t (confirm_ledger now t' ls)"
  unfolding not_pending_def confirm_ledger_def set_rows_def using confirm_row_status by (auto split: if_splits)

lemma remote_confirm_cases:
  assumes "remote_confirm l t db = (r, db')"
  obtains (no) e where "r = Inl e" "db' = db"
  | (yes) "db' = db\<lparr>ledger_entries := confirm_ledger (co_now l) t (ledger_entries db)\<rparr>"
  using assms by (auto simp: remote_confirm_def ConfirmTransaction_def Let_def confirm_ledger_def
      intro: that split: if_splits prod.splits)

section \<open>Redelivery of bet.placed is harmless\<close>

definition hist_inv :: "wallet_db hist_state \<Rightarrow> bool" where
  "hist_inv st \<longleftrightarrow> table_ok bets_key bets_chk (bets st) \<and> wallet_inv (hi_wallet st)"

definition hist_view :: "wallet_db hist_state \<Rightarrow> BetRecord tbl \<times> ledger_row tbl" where
  "hist_view st = (bets st, ledger_entries (hi_wallet st))"

definition placed_good :: "ConsumerMessage \<Rightarrow> bool" where
  "placed_good m \<longleftrightarrow> (case decode_placed (Value m) of None \<Rightarrow> True | Some e \<Rightarrow> parse_rfc3339 (pe_PlacedAt e) \<noteq> None)"

definition placed_in :: "ConsumerMessage \<Rightarrow> wallet_db hist_state \<Rightarrow> bool" where
  "placed_in m st \<longleftrightarrow> (case decode_placed (Value m) of None \<Rightarrow> True | Some e \<Rightarrow>
     (pe_BetID e, pg_time (parse_or 0 (pe_PlacedAt e))) \<in> bets_key ` set (bets st) \<and>
     (header_value ''transaction_id'' (Headers m) \<noteq> [] \<longrightarrow>
       not_pending (header_value ''transaction_id'' (Headers m)) (ledger_entries (hi_wallet st))))"

text \<open>The shapes of the state after the handler: unchanged, or the insert, or the insert and a confirmation.\<close>

lemma handleBetPlaced_cases:
  assumes "history_handleBetPlaced (hist_on_wallet l env) m st = (ok, st')"
  obtains (same) "st' = st" "ok \<Longrightarrow> False"
  | (recorded) e n bs where "decode_placed (Value m) = Some e"
      "insert_nothing bets_key bets_chk (\<lambda>_. True) (bet_record env e n) (bets st) = Some bs"
      "st' = st\<lparr>bets := bs\<rparr>" "ok \<Longrightarrow> header_value ''transaction_id'' (Headers m) = []"
  | (confirmed) e n bs where "decode_placed (Value m) = Some e"
      "insert_nothing bets_key bets_chk (\<lambda>_. True) (bet_record env e n) (bets st) = Some bs"
      "st' = st\<lparr>bets := bs, hi_wallet := (hi_wallet st)\<lparr>ledger_entries :=
         confirm_ledger (co_now l) (header_value ''transaction_id'' (Headers m)) (ledger_entries (hi_wallet st))\<rparr>\<rparr>"
      "header_value ''transaction_id'' (Headers m) \<noteq> []"
proof (cases "decode_placed (Value m)")
  case None
  then show thesis using assms by (auto simp: history_handleBetPlaced_def intro: same)
next
  case (Some e)
  let ?tx = "header_value ''transaction_id'' (Headers m)"
  let ?ins = "Option.bind (to_numeric env (pe_OddsDecimal e)) (\<lambda>odds.
      insert_nothing bets_key bets_chk (\<lambda>_. True) (bet_record env e odds) (bets st))"
  show thesis
  proof (cases "stmt (he_faults env) InsertBet ?ins")
    case None
    then show thesis using assms Some
      by (auto simp: history_handleBetPlaced_def Let_def simp del: stmt_eq_None intro: same)
  next
    case bs: (Some bs)
    then obtain n where n: "insert_nothing bets_key bets_chk (\<lambda>_. True) (bet_record env e n) (bets st) = Some bs"
      by (auto simp: bind_eq_Some_conv)
    show thesis
    proof (cases "he_faults env InsertBetAck \<or> ?tx = []")
      case True
      then show thesis using assms Some bs
        by (intro recorded [OF Some n]) (auto simp: history_handleBetPlaced_def Let_def simp del: stmt_eq_Some split: if_splits)
    next
      case False
      obtain r w where c: "remote_confirm l ?tx (hi_wallet st) = (r, w)" by fastforce
      then have res: "(ok, st') = (\<not> isl r, st\<lparr>bets := bs, hi_wallet := w\<rparr>)"
        using assms Some bs False
        by (cases r) (auto simp: history_handleBetPlaced_def Let_def simp del: stmt_eq_Some)
      from c show thesis
      proof (cases rule: remote_confirm_cases)
        case (no e')
        then show thesis using res by (intro recorded [OF Some n]) auto
      next
        case yes
        then show thesis using res False by (intro confirmed [OF Some n]) auto
      qed
    qed
  qed
qed

lemma hist_inv_confirm:
  "wallet_inv db \<Longrightarrow> wallet_inv (db\<lparr>ledger_entries := confirm_ledger now t (ledger_entries db)\<rparr>)"
  unfolding confirm_ledger_def by (rule wallet_inv_confirm)

lemma insert_bet:
  assumes "insert_nothing bets_key bets_chk (\<lambda>_. True) r t = Some t'"
  shows "table_ok bets_key bets_chk t \<Longrightarrow> table_ok bets_key bets_chk t'"
    "bets_key ` set t' = insert (bets_key r) (bets_key ` set t)"
    "bets_key r \<in> bets_key ` set t \<Longrightarrow> t' = t"
proof -
  show "table_ok bets_key bets_chk t \<Longrightarrow> table_ok bets_key bets_chk t'"
    by (rule table_ok_insert_nothing [OF _ assms])
  show "bets_key ` set t' = insert (bets_key r) (bets_key ` set t)"
    "bets_key r \<in> bets_key ` set t \<Longrightarrow> t' = t"
    using insert_nothing_SomeD [OF assms] by (auto simp: by_key_None_iff)
qed

lemma bet_record_key:
  "parse_rfc3339 (pe_PlacedAt e) \<noteq> None \<Longrightarrow>
   bets_key (bet_record env e n) = (pe_BetID e, pg_time (parse_or 0 (pe_PlacedAt e)))"
  by (auto simp: bets_key_def bet_record_def parse_or_def)

abbreviation placed_handler :: "confirm_link \<times> wallet_db hist_env \<Rightarrow> wallet_db hist_state handler" where
  "placed_handler \<equiv> (\<lambda>(l, env). history_handleBetPlaced (hist_on_wallet l env))"

interpretation placed: idempotent_consumer placed_handler hist_inv hist_view placed_in placed_good
proof unfold_locales
  fix s :: "wallet_db hist_state" and e :: "confirm_link \<times> wallet_db hist_env" and m
  obtain l env where e: "e = (l, env)" by (cases e)
  obtain ok s' where h: "history_handleBetPlaced (hist_on_wallet l env) m s = (ok, s')" by fastforce
  show "hist_inv s \<Longrightarrow> hist_inv (snd (placed_handler e m s))"
    using h by (cases rule: handleBetPlaced_cases)
      (auto simp: e h hist_inv_def insert_bet(1) intro: hist_inv_confirm)
next
  fix s :: "wallet_db hist_state" and e :: "confirm_link \<times> wallet_db hist_env" and m s'
  assume a: "hist_inv s" "placed_good m" "placed_handler e m s = (True, s')"
  obtain l env where e: "e = (l, env)" by (cases e)
  have "history_handleBetPlaced (hist_on_wallet l env) m s = (True, s')" using a(3) by (simp add: e)
  then show "placed_in m s'"
  proof (cases rule: handleBetPlaced_cases)
    case (recorded ev n bs)
    then show ?thesis
      using a(2) insert_bet(2) [OF recorded(2)] by (auto simp: placed_in_def placed_good_def bet_record_key)
  next
    case (confirmed ev n bs)
    then show ?thesis
      using a(2) insert_bet(2) [OF confirmed(2)]
      by (auto simp: placed_in_def placed_good_def bet_record_key not_pending_confirm)
  qed simp
next
  fix s :: "wallet_db hist_state" and e :: "confirm_link \<times> wallet_db hist_env" and m m'
  assume a: "hist_inv s" "placed_in m s"
  obtain l env where e: "e = (l, env)" by (cases e)
  obtain ok s' where h: "history_handleBetPlaced (hist_on_wallet l env) m' s = (ok, s')" by fastforce
  then show "placed_in m (snd (placed_handler e m' s))"
  proof (cases rule: handleBetPlaced_cases)
    case (recorded ev n bs)
    then show ?thesis
      using a(2) insert_bet(2) [OF recorded(2)] by (auto simp: e h placed_in_def split: option.splits)
  next
    case (confirmed ev n bs)
    then show ?thesis
      using a(2) insert_bet(2) [OF confirmed(2)]
      by (auto simp: e h placed_in_def split: option.splits intro: not_pending_stays)
  qed (use a e h in simp)
next
  fix s :: "wallet_db hist_state" and e :: "confirm_link \<times> wallet_db hist_env" and m
  assume a: "hist_inv s" "placed_good m" "placed_in m s"
  obtain l env where e: "e = (l, env)" by (cases e)
  obtain ok s' where h: "history_handleBetPlaced (hist_on_wallet l env) m s = (ok, s')" by fastforce
  then show "hist_view (snd (placed_handler e m s)) = hist_view s"
  proof (cases rule: handleBetPlaced_cases)
    case (recorded ev n bs)
    then have "bs = bets s"
      using a(2,3) insert_bet(3) [OF recorded(2)] by (auto simp: placed_in_def placed_good_def bet_record_key)
    then show ?thesis using recorded by (simp add: e h hist_view_def)
  next
    case (confirmed ev n bs)
    then have "bs = bets s"
      using a(2,3) insert_bet(3) [OF confirmed(2)] by (auto simp: placed_in_def placed_good_def bet_record_key)
    moreover have "confirm_ledger (co_now l) (header_value ''transaction_id'' (Headers m)) (ledger_entries (hi_wallet s)) =
        ledger_entries (hi_wallet s)" if "header_value ''transaction_id'' (Headers m) \<noteq> []"
      using that a(3) confirmed(1) by (auto simp: placed_in_def intro: confirm_ledger_done)
    ultimately show ?thesis using confirmed by (auto simp: e h hist_view_def)
  qed (simp add: e h)
qed

section \<open>Theorems\<close>

text \<open>Redelivery of bet.placed is not observable: once the handler has recorded a bet whose
  placed_at parses, a later delivery of the same message, at any time, after any other messages and
  whatever fails then, leaves the table of bets and the wallet's ledger as they are.\<close>

theorem history_redelivery:
  assumes "hist_inv st" "placed_good m" "history_handleBetPlaced (hist_on_wallet l env) m st = (True, st1)"
    and "st2 = fst (consume_claim (\<lambda>m. history_handleBetPlaced (hist_on_wallet (ls m) (envs m)) m) commit ms (st1, c))"
  shows "hist_view (snd (history_handleBetPlaced (hist_on_wallet l' env') m st2)) = hist_view st2"
  using placed.redelivery [of st m "(l, env)" st1 st2 "\<lambda>m. (ls m, envs m)" commit ms c "(l', env')"] assms by simp

text \<open>The subscribed topics are ignored: the consumer subscribes to bet-placed, bet-settled and
  bet-voided but switches on names with dots, so over any claim of messages of its own
  subscription the table of bets never changes, while every offset is committed.\<close>

theorem history_ignores_subscription:
  assumes "list_all (\<lambda>m. Topic m \<in> set history_topics) ms"
  shows "history_ConsumeClaim ev commit ms (st, c) = (st, foldl (\<lambda>c m. commit (Offset m) c) c ms)"
  using assms
proof (induction ms arbitrary: c)
  case (Cons m ms)
  then have "history_handle (ev m) m st = (True, st)"
    by (auto simp: history_handle_def history_topics_def)
  with Cons show ?case by (simp add: history_ConsumeClaim_def)
qed (simp add: history_ConsumeClaim_def)

lemma decode_buildBetPlacedPayload:
  assumes "buildBetPlacedPayload now b req odds = Some ev"
    and "is_float64 (Decimal odds)" "in_int64 (American odds)" "in_int64 (pb_StakeMinor req)"
  shows "decode_placed (Some ev) = Some
    \<lparr>pe_BetID = b, pe_UserID = pb_UserID req, pe_MarketID = pb_MarketID req, pe_MarketName = MarketName req,
     pe_SelectionID = pb_SelectionID req, pe_SelectionName = SelectionName req, pe_OddsDecimal = Decimal odds,
     pe_OddsAmerican = American odds, pe_StakeMinor = pb_StakeMinor req, pe_Currency = pb_Currency req,
     pe_PlacedAt = format_rfc3339 True now\<rparr>"
proof -
  obtain d where d: "enc_float64 (Decimal odds) = Some d"
    using assms(1) by (auto simp: buildBetPlacedPayload_def bind_eq_Some_conv)
  then have "dec_float64 d = Some (Decimal odds)" "d \<noteq> JNull"
    using float64_json_roundtrip [OF assms(2)] by (auto simp: dec_float64_def)
  with d assms(1,3,4) show ?thesis
    by (auto simp: buildBetPlacedPayload_def decode_placed_def json_simps fold_eq_def strings_ToLower_def lower_char_def)
qed

lemma accepted_instant:
  assumes "bets_from \<le> now" "now < bets_to"
  shows "parse_rfc3339 (format_rfc3339 True now) = Some now"
  using assms
  by (intro timestamp_roundtrip) (simp_all add: unix_epoch_days_def second_def year_10000_def days_before_year_def bets_from_def bets_to_def)

text \<open>C10. Bet History reads what Bet Acceptance writes: when the event of a bet can be built, with odds
  that are a float64, American odds and stake in int64 and an instant of the years 1 to 9999, decoding it
  gives the same bet, user, market, selection, names, odds, stake and currency, and its instant parses
  to the instant of acceptance, to the nanosecond.\<close>

theorem placed_event_roundtrip:
  assumes "buildBetPlacedPayload now b req odds = Some ev"
    and "is_float64 (Decimal odds)" "in_int64 (American odds)" "in_int64 (pb_StakeMinor req)"
    and "- unix_epoch_days * 86400 * second \<le> now" "now < year_10000"
  shows "\<exists>e. decode_placed (Some ev) = Some e \<and> pe_BetID e = b \<and> pe_UserID e = pb_UserID req \<and> pe_MarketID e = pb_MarketID req \<and>
    pe_MarketName e = MarketName req \<and> pe_SelectionID e = pb_SelectionID req \<and> pe_SelectionName e = SelectionName req \<and>
    pe_OddsDecimal e = Decimal odds \<and> pe_OddsAmerican e = American odds \<and> pe_StakeMinor e = pb_StakeMinor req \<and>
    pe_Currency e = pb_Currency req \<and> parse_rfc3339 (pe_PlacedAt e) = Some now"
  using decode_buildBetPlacedPayload [OF assms(1-4)] timestamp_roundtrip [OF assms(5,6)] by simp

text \<open>The handler stores what was accepted: given the event that Bet Acceptance builds for a bet that is
  not there yet, in a message without a transaction_id, in the months that have a partition and when
  nothing fails, it stores a PLACED row with the same bet, user, market, selection, stake, currency
  and American odds, and with the instant of acceptance to the microsecond. No such message reaches
  the handler in the program, because the subscription names the topic with a hyphen.\<close>

theorem history_records_accepted_bet:
  assumes "buildBetPlacedPayload now b req odds = Some ev" "Value msg = Some ev"
    and "header_value ''transaction_id'' (Headers msg) = []"
    and "is_float64 (Decimal odds)" "- (2 ^ 31) \<le> American odds" "American odds < 2 ^ 31" "in_int64 (pb_StakeMinor req)"
    and "bets_from \<le> now" "now < bets_to" "he_faults env = no_faults" "to_numeric env (Decimal odds) = Some n"
    and "by_key bets_key (b, pg_time now) (bets st) = None"
  shows "history_handleBetPlaced env msg st = (True, st\<lparr>bets := bets st @ [
    \<lparr>bh_BetID = b, bh_UserID = pb_UserID req, bh_MarketID = pb_MarketID req, bh_MarketName = MarketName req,
     bh_SelectionID = pb_SelectionID req, bh_SelectionName = SelectionName req, bh_OddsDecimal = n,
     bh_OddsAmerican = American odds, bh_StakeMinor = pb_StakeMinor req, bh_Currency = pb_Currency req,
     bh_Status = ''PLACED'', bh_PlacedAt = pg_time now, bh_SettledAt = None, bh_PayoutMinor = None\<rparr>]\<rparr>)"
proof -
  have "in_int64 (American odds)" using assms(5,6) by (simp add: in_int64_def)
  note dec = decode_buildBetPlacedPayload [OF assms(1,4) this assms(7)]
  note t = accepted_instant [OF assms(8,9)]
  have "bets_from \<le> pg_time now" "pg_time now < bets_to"
    using assms(8,9) by (simp_all add: pg_time_def bets_from_def bets_to_def second_def)
  then show ?thesis
    using assms(2,3,5-7,10-12) dec t
    by (simp add: history_handleBetPlaced_def Let_def bet_record_def parse_or_def insert_nothing_def bets_key_def
        bets_chk_def by_key_None_iff stmt_def)
qed

lemma header_outbox: "header_value ''transaction_id'' (pm_Headers (outbox_message row)) = []"
  by (simp add: outbox_message_def)

text \<open>A published bet is never confirmed: the relay sets the headers bet_id and outbox_id only, so
  the handler finds no transaction_id in any message the relay produces and leaves the wallet as it
  is; the ledger row stays PENDING_CONFIRMATION.\<close>

theorem relay_messages_never_confirm:
  assumes "Headers msg = pm_Headers (outbox_message row)"
  shows "hi_wallet (snd (history_handleBetPlaced env msg st)) = hi_wallet st"
  using header_outbox [of row] assms
  by (simp add: history_handleBetPlaced_def Let_def split: option.splits)

text \<open>A settlement event reaches every row of the bet and no other: after a successful
  bet.settled each row of that bet has the outcome's status, the payout and the instant of the
  event, and all other rows are untouched.\<close>

theorem handleBetSettled_effect:
  assumes "Value msg = Some (JObj [(''bet_id'', JStr b), (''event_type'', JStr ''bet.settled''),
      (''outcome'', JStr oc), (''payout_minor'', JInt p), (''settled_at'', JStr (format_rfc3339 True t))])"
    and "in_int64 p" "- unix_epoch_days * 86400 * second \<le> t" "t < year_10000"
    and "table_ok bets_key bets_chk (bets st)" "he_faults env = no_faults"
  shows "handleBetSettled env msg st = (True, st\<lparr>bets := map (\<lambda>r. if bh_BetID r = b
    then r\<lparr>bh_Status := (if oc = ''WIN'' then ''SETTLED_WIN'' else ''SETTLED_LOSS''),
           bh_SettledAt := Some (pg_time t), bh_PayoutMinor := Some p\<rparr> else r) (bets st)\<rparr>)"
proof -
  have t: "parse_rfc3339 (format_rfc3339 True t) = Some t" using assms(3,4) by (rule timestamp_roundtrip)
  let ?f = "settle_record (if oc = ''WIN'' then ''SETTLED_WIN'' else ''SETTLED_LOSS'') t p"
  have "update_rows bets_chk (\<lambda>r. bh_BetID r = b) ?f (bets st) = Some (set_rows (\<lambda>r. bh_BetID r = b) ?f (bets st))"
    using assms(5) by (auto simp: update_rows_def list_all_iff table_ok_def settle_record_def bets_chk_def)
  then show ?thesis
    using assms(1,2,6) t
    by (simp add: handleBetSettled_def json_simps fold_eq_def strings_ToLower_def lower_char_def parse_or_def
        update_bets_def stmt_def set_rows_def settle_record_def)
qed

section \<open>Witnesses\<close>

definition march :: time where
  "march = 1772323200 * second"

definition hist_env0 :: "wallet_db hist_env" where
  "hist_env0 = \<lparr>he_now = 0, he_faults = no_faults, to_numeric = (\<lambda>_. Some 20000),
     he_confirm = (\<lambda>_ w. (Inl (Status Unavailable ''unset''), w))\<rparr>"

definition confirm0 :: confirm_link where
  "confirm0 = \<lparr>co_lost = False, co_reply_lost = False, co_db = no_faults, co_now = 9\<rparr>"

definition hist0 :: "wallet_db hist_state" where
  "hist0 = \<lparr>bets = [], hi_wallet = wallet2\<rparr>"

definition march_event :: json where
  "march_event = the (buildBetPlacedPayload march ''b1'' (ann_bet 2000) even_odds)"

lemma march_payload: "buildBetPlacedPayload march ''b1'' (ann_bet 2000) even_odds = Some march_event"
  by (simp add: march_event_def buildBetPlacedPayload_def even_odds_def enc_float64_def)

definition march_msg :: "(string \<times> string) list \<Rightarrow> ConsumerMessage" where
  "march_msg hs = \<lparr>Topic = ''bet.placed'', Offset = 0, Value = Some march_event, Headers = hs\<rparr>"

lemma even_odds_float: "is_float64 (Decimal even_odds)" "American even_odds = 100" "in_int64 (American even_odds)"
  using fl_of_int [of 2] by (simp_all add: even_odds_def is_float64_def in_int64_def)

lemma march_decoded:
  "\<exists>e. decode_placed (Some march_event) = Some e \<and> pe_PlacedAt e = format_rfc3339 True march \<and> pe_BetID e = ''b1''"
  using decode_buildBetPlacedPayload [OF march_payload even_odds_float(1,3)] by (simp add: ann_bet_def in_int64_def)

lemma march_range: "- unix_epoch_days * 86400 * second \<le> march" "march < year_10000" "bets_from \<le> march" "march < bets_to"
  by (simp_all add: unix_epoch_days_def second_def year_10000_def days_before_year_def bets_from_def bets_to_def march_def)

lemma march_good: "placed_good (march_msg hs)"
  using march_decoded timestamp_roundtrip [OF march_range(1,2)] by (auto simp: placed_good_def march_msg_def)

lemma march_recorded:
  "\<exists>st'. history_handleBetPlaced (hist_on_wallet confirm0 hist_env0) (march_msg []) hist0 = (True, st') \<and> length (bets st') = 1"
  using history_records_accepted_bet [of march "''b1''" "ann_bet 2000" even_odds march_event "march_msg []"
      "hist_on_wallet confirm0 hist_env0" 20000 hist0, OF march_payload] even_odds_float march_range
  by (simp add: march_msg_def hist_env0_def hist0_def ann_bet_def in_int64_def sql_simps)

theorem placed_event_roundtrip_witness:
  "\<exists>e. decode_placed (Some march_event) = Some e \<and> pe_BetID e = ''b1'' \<and> pe_UserID e = ''ann'' \<and> pe_StakeMinor e = 2000 \<and>
     pe_OddsAmerican e = 100 \<and> parse_rfc3339 (pe_PlacedAt e) = Some march"
  using placed_event_roundtrip [OF march_payload even_odds_float(1,3) _ march_range(1,2)] even_odds_float(2)
  by (auto simp: ann_bet_def in_int64_def)

theorem history_records_accepted_bet_witness:
  "\<exists>st'. history_handleBetPlaced (hist_on_wallet confirm0 hist_env0) (march_msg []) hist0 = (True, st') \<and>
     map bh_StakeMinor (bets st') = [2000] \<and> map bh_PlacedAt (bets st') = [march]"
  using history_records_accepted_bet [of march "''b1''" "ann_bet 2000" even_odds march_event "march_msg []"
      "hist_on_wallet confirm0 hist_env0" 20000 hist0, OF march_payload] even_odds_float march_range
  by (simp add: march_msg_def hist_env0_def hist0_def ann_bet_def in_int64_def sql_simps pg_time_def march_def second_def)

theorem history_redelivery_witness:
  "\<exists>st1. history_handleBetPlaced (hist_on_wallet confirm0 hist_env0) (march_msg []) hist0 = (True, st1) \<and>
     bets (snd (history_handleBetPlaced (hist_on_wallet confirm0 (hist_env0\<lparr>he_now := 77\<rparr>)) (march_msg []) st1)) = bets st1"
proof -
  obtain st1 where h: "history_handleBetPlaced (hist_on_wallet confirm0 hist_env0) (march_msg []) hist0 = (True, st1)"
    using march_recorded by blast
  have "hist_inv hist0" by (simp add: hist_inv_def hist0_def)
  then show ?thesis
    using history_redelivery [of hist0 "march_msg []" confirm0 hist_env0 st1 st1 "\<lambda>_. confirm0" "\<lambda>_. hist_env0" "\<lambda>_ c. c" "[]" "()"
        confirm0 "hist_env0\<lparr>he_now := 77\<rparr>"] march_good h
    by (simp add: hist_view_def)
qed

theorem history_ignores_subscription_witness:
  "history_ConsumeClaim (\<lambda>_. hist_env0) (\<lambda>off c. off + 1)
     [(march_msg [])\<lparr>Topic := ''bet-placed'', Offset := 7\<rparr>] (hist0, 0) = (hist0, 8 :: int)"
  using history_ignores_subscription [of "[(march_msg [])\<lparr>Topic := ''bet-placed'', Offset := 7\<rparr>]"
      "\<lambda>_. hist_env0" "\<lambda>off c. off + 1" hist0 "0 :: int"]
  by (simp add: history_topics_def)

theorem relay_messages_never_confirm_witness:
  "hi_wallet (snd (history_handleBetPlaced hist_env0 (march_msg (pm_Headers (outbox_message ann_row))) hist0)) = wallet2"
  using relay_messages_never_confirm [of "march_msg (pm_Headers (outbox_message ann_row))" ann_row hist_env0 hist0]
  by (simp add: march_msg_def hist0_def)

theorem handleBetSettled_effect_witness:
  "\<exists>st1. history_handleBetPlaced (hist_on_wallet confirm0 hist_env0) (march_msg []) hist0 = (True, st1) \<and>
     map bh_Status (bets (snd (handleBetSettled hist_env0 \<lparr>Topic = ''bet.settled'', Offset = 1,
       Value = Some (JObj [(''bet_id'', JStr ''b1''), (''event_type'', JStr ''bet.settled''), (''outcome'', JStr ''WIN''),
         (''payout_minor'', JInt 4000), (''settled_at'', JStr (format_rfc3339 True march))]), Headers = []\<rparr> st1)))
     = [''SETTLED_WIN'']"
proof -
  let ?m = "\<lparr>Topic = ''bet.settled'', Offset = 1,
       Value = Some (JObj [(''bet_id'', JStr ''b1''), (''event_type'', JStr ''bet.settled''), (''outcome'', JStr ''WIN''),
         (''payout_minor'', JInt 4000), (''settled_at'', JStr (format_rfc3339 True march))]), Headers = []\<rparr>"
  obtain st1 where h: "history_handleBetPlaced (hist_on_wallet confirm0 hist_env0) (march_msg []) hist0 = (True, st1)"
    "length (bets st1) = 1" using march_recorded by blast
  have "hist_inv hist0" by (simp add: hist_inv_def hist0_def)
  then have inv: "hist_inv st1" using placed.handle_inv [of hist0 "(confirm0, hist_env0)" "march_msg []"] h(1) by simp
  have "placed_in (march_msg []) st1"
    using placed.handle_done [of hist0 "march_msg []" "(confirm0, hist_env0)" st1] h(1) march_good \<open>hist_inv hist0\<close> by simp
  then obtain r where "bets st1 = [r]" "bh_BetID r = ''b1''"
    using h(2) march_decoded by (cases "bets st1") (auto simp: placed_in_def march_msg_def bets_key_def)
  then show ?thesis
    using handleBetSettled_effect [of ?m "''b1''" "''WIN''" 4000 march st1 hist_env0] inv h(1) march_range(1,2)
    by (simp add: hist_inv_def hist_env0_def in_int64_def)
qed

end
