(* ===== verification/OddsMath.thy ===== *)
theory OddsMath
  imports Json
begin

text \<open>
  The odds computation of \<^verbatim>\<open>src/internal/oddsmanagement/service.go\<close>: the logit vig
  (\<^verbatim>\<open>ComputeMarketOdds\<close>), the search for a 20-cent line, the liability adjustment and the
  conversions between American and decimal odds, all on float64. \<^verbatim>\<open>math.Log\<close> and
  \<^verbatim>\<open>math.Exp\<close> are a parameter (\<open>libm\<close>); what is used of them is \<open>libm_accurate\<close>, the
  accuracy of one unit in the last place that the Go sources document.

  Shown: the computed implied probability is the exact formula up to a relative error of
  \<open>2 ^ - 43\<close>; from it that every book has a margin, that complementary feeds are always priced, and
  what even money is quoted at; the round trip of American odds and the range of the conversions.
\<close>

section \<open>Logarithm and exponential\<close>

record libm =
  math_Log :: "float64 \<Rightarrow> float64"
  math_Exp :: "float64 \<Rightarrow> float64"

definition libm_accurate :: "libm \<Rightarrow> bool" where
  "libm_accurate m \<longleftrightarrow>
     (\<forall>x. f64_ok x \<and> finite_f x \<and> 0 < rv x \<longrightarrow>
        finite_f (math_Log m x) \<and> \<bar>rv (math_Log m x) - ln (rv x)\<bar> \<le> 2 powi ulp_exp (ln (rv x))) \<and>
     (\<forall>x. f64_ok x \<and> finite_f x \<and> \<bar>rv x\<bar> \<le> 100 \<longrightarrow>
        finite_f (math_Exp m x) \<and> \<bar>rv (math_Exp m x) - exp (rv x)\<bar> \<le> 2 powi ulp_exp (exp (rv x)))"

section \<open>Logit vig helpers\<close>

definition logit :: "libm \<Rightarrow> float64 \<Rightarrow> float64" where
  "logit m p = math_Log m (fdiv p (fsub (Fin 1) p))"

definition sigmoid :: "libm \<Rightarrow> float64 \<Rightarrow> float64" where
  "sigmoid m x = fdiv (Fin 1) (fadd (Fin 1) (math_Exp m (fneg x)))"

definition clamp :: "float64 \<Rightarrow> float64 \<Rightarrow> float64 \<Rightarrow> float64" where
  "clamp v lo hi = (if flt v lo then lo else if flt hi v then hi else v)"

definition vigDelta :: "libm \<Rightarrow> float64" where
  "vigDelta m = math_Log m (lit (11 / 10))"

definition vigDeltaWide :: "libm \<Rightarrow> float64" where
  "vigDeltaWide m = math_Log m (lit (115 / 100))"

section \<open>American and decimal odds\<close>

definition DecimalToAmerican :: "float64 \<Rightarrow> int" where
  "DecimalToAmerican decimal =
     (if fle (Fin 2) decimal then int64_of_float (math_Round (fmul (fsub decimal (Fin 1)) (Fin 100)))
      else if fle decimal (Fin 1) then 0
      else int64_of_float (math_Round (fdiv (Fin (- 100)) (fsub decimal (Fin 1)))))"

definition AmericanToDecimal :: "int \<Rightarrow> float64" where
  "AmericanToDecimal american =
     (if 0 < american then fadd (fdiv (float64_of_int american) (Fin 100)) (Fin 1)
      else if american < 0 then fadd (fdiv (Fin 100) (float64_of_int (wrap64 (- american)))) (Fin 1)
      else Fin 1)"

definition americanFloat :: "float64 \<Rightarrow> float64" where
  "americanFloat decimal =
     (if fle (Fin 2) decimal then fmul (fsub decimal (Fin 1)) (Fin 100)
      else if fle decimal (Fin 1) then Fin 0
      else fdiv (Fin (- 100)) (fsub decimal (Fin 1)))"

section \<open>The market computation\<close>

record SelectionInput =
  si_ID :: string
  si_FeedProbability :: float64

record SelectionResult =
  sr_ID :: string
  sr_FeedProbability :: float64
  ViggedProb :: float64
  sr_Decimal :: float64
  sr_American :: int

definition price_selection :: "libm \<Rightarrow> float64 \<Rightarrow> SelectionInput \<Rightarrow> float64 \<Rightarrow> SelectionResult" where
  "price_selection m delta sel fairProb =
     (let q = sigmoid m (fadd (logit m fairProb) delta); dec = fdiv (Fin 1) q; am = DecimalToAmerican dec;
          zeroed = flt q (si_FeedProbability sel)
      in \<lparr>sr_ID = si_ID sel, sr_FeedProbability = si_FeedProbability sel, ViggedProb = q,
          sr_Decimal = (if zeroed then Fin 0 else dec), sr_American = (if zeroed then 0 else am)\<rparr>)"

definition eps :: real where
  "eps = 1 / 10 ^ 6"

definition ComputeMarketOdds :: "libm \<Rightarrow> SelectionInput list \<Rightarrow> float64 \<Rightarrow> SelectionResult list" where
  "ComputeMarketOdds m sels delta =
     (case sels of
        [s0, s1] \<Rightarrow>
          (let fp0 = si_FeedProbability s0; fp1 = si_FeedProbability s1; total = fadd fp0 fp1
           in if fle total (Fin 0) then []
              else let p0 = clamp (fdiv fp0 total) (lit eps) (lit (1 - eps));
                       p1 = clamp (fdiv fp1 total) (lit eps) (lit (1 - eps))
                   in [price_selection m delta s0 p0, price_selection m delta s1 p1])
      | _ \<Rightarrow> [])"

section \<open>The search for a 20-cent line\<close>

definition centSpread :: "float64 \<Rightarrow> float64 \<Rightarrow> float64" where
  "centSpread qFav qDog =
     (let aFav = americanFloat (fdiv (Fin 1) qFav); aDog = americanFloat (fdiv (Fin 1) qDog)
      in if flt aFav (Fin 0) \<and> fle (Fin 0) aDog then fsub (fneg aFav) aDog
         else if flt aFav (Fin 0) \<and> flt aDog (Fin 0) then fsub (fadd (fneg aFav) (fneg aDog)) (Fin 200)
         else Fin 0)"

fun bisect :: "nat \<Rightarrow> libm \<Rightarrow> float64 \<Rightarrow> float64 \<Rightarrow> float64 \<times> float64 \<Rightarrow> float64 \<times> float64" where
  "bisect 0 m p0 p1 lohi = lohi"
| "bisect (Suc n) m p0 p1 (lo, hi) =
     (let mid = fdiv (fadd lo hi) (Fin 2);
          q0 = sigmoid m (fadd (logit m p0) mid); q1 = sigmoid m (fadd (logit m p1) mid);
          (qFav, qDog) = (if flt q0 q1 then (q1, q0) else (q0, q1))
      in bisect n m p0 p1 (if flt (centSpread qFav qDog) (Fin 20) then (mid, hi) else (lo, mid)))"

definition find20CentDelta :: "libm \<Rightarrow> float64 \<Rightarrow> float64 \<Rightarrow> float64" where
  "find20CentDelta m p0 p1 =
     (case bisect 100 m p0 p1 (Fin 0, Fin 5) of (lo, hi) \<Rightarrow> fdiv (fadd lo hi) (Fin 2))"

section \<open>Liability adjustment\<close>

definition adjustForLiability :: "float64 \<Rightarrow> int \<Rightarrow> float64" where
  "adjustForLiability decimal stakeMinor =
     (if 5000 < stakeMinor \<and> flt (Fin 1) decimal
      then fadd (Fin 1) (fmul (fsub decimal (Fin 1)) (lit (99 / 100))) else decimal)"

section \<open>Relative errors\<close>

definition rel :: "real \<Rightarrow> real \<Rightarrow> real \<Rightarrow> bool" where
  "rel e x y \<longleftrightarrow> \<bar>x - y\<bar> \<le> e * \<bar>y\<bar>"

lemma rel_mono: "rel e x y \<Longrightarrow> e \<le> f \<Longrightarrow> rel f x y"
  unfolding rel_def by (meson abs_ge_zero mult_right_mono order_trans)

lemma rel_trans:
  assumes "rel e x y" "rel f y z" "0 \<le> e"
  shows "rel (e + f + e * f) x z"
proof -
  have "\<bar>y\<bar> \<le> \<bar>z\<bar> + f * \<bar>z\<bar>" using assms(2) unfolding rel_def by linarith
  then have "e * \<bar>y\<bar> \<le> e * (\<bar>z\<bar> + f * \<bar>z\<bar>)" using assms(3) by (rule mult_left_mono)
  then have "\<bar>x - z\<bar> \<le> e * (\<bar>z\<bar> + f * \<bar>z\<bar>) + f * \<bar>z\<bar>"
    using assms(1,2) unfolding rel_def by linarith
  then show ?thesis by (simp add: rel_def algebra_simps)
qed

lemma rel_pos: "rel e x y \<Longrightarrow> e < 1 \<Longrightarrow> 0 < y \<Longrightarrow> 0 < x"
proof -
  assume "rel e x y" "e < 1" "0 < y"
  then have "\<bar>x - y\<bar> \<le> e * y" "e * y < 1 * y" by (auto simp: rel_def intro: mult_strict_right_mono)
  then show "0 < x" by linarith
qed

lemma rel_inverse:
  assumes "rel e x y" "0 < y" "e \<le> 1 / 2"
  shows "rel (2 * e) (1 / x) (1 / y)"
proof -
  have x: "y / 2 \<le> x"
  proof -
    have "e * y \<le> 1 / 2 * y" using assms(2,3) by (intro mult_right_mono) auto
    moreover have "\<bar>x - y\<bar> \<le> e * y" using assms(1,2) by (simp add: rel_def)
    ultimately show ?thesis by linarith
  qed
  then have x0: "0 < x" using assms(2) by linarith
  have "\<bar>1 / x - 1 / y\<bar> = \<bar>x - y\<bar> / (x * y)"
    using x0 assms(2) by (simp add: field_simps abs_div_pos [symmetric] abs_minus_commute)
  also have "\<dots> \<le> e * y / (x * y)"
    using assms(1,2) x0 by (intro divide_right_mono) (simp_all add: rel_def)
  also have "\<dots> = e / x" using assms(2) by simp
  also have "\<dots> \<le> 2 * e * (1 / y)"
  proof -
    have "0 \<le> e" using assms(1,2) unfolding rel_def
      by (metis abs_ge_zero abs_of_pos mult_less_0_iff not_le order_trans)
    then have "e * y \<le> e * (2 * x)" using x by (intro mult_left_mono) auto
    then show ?thesis using x0 assms(2) by (simp add: field_simps)
  qed
  finally show ?thesis using assms(2) by (simp add: rel_def)
qed

lemma rel_fl: "2 powi (- 1022) \<le> \<bar>x\<bar> \<Longrightarrow> rel (1 / 2 ^ 53) (fl x) x"
  using fl_rel_error [of x] by (simp add: rel_def power_int_minus field_simps)

lemma two_powi_tiny: "(2::real) powi (- 1022) \<le> 1 / 2 ^ 60"
  using two_powi_mono [of "- 1022" "- 60"] by (simp add: power_int_minus field_simps)

lemma rel_fl': "1 / 2 ^ 60 \<le> \<bar>x\<bar> \<Longrightarrow> rel (1 / 2 ^ 53) (fl x) x"
  using two_powi_tiny by (intro rel_fl) linarith

lemma rel_flp: "e \<le> x \<Longrightarrow> 1 / 2 ^ 60 \<le> e \<Longrightarrow> rel (1 / 2 ^ 53) (fl x) x"
  by (intro rel_fl') linarith

section \<open>Accuracy of the helpers\<close>

lemma ulp_exp_le:
  assumes "\<bar>y\<bar> < 2 powi (k + 1)" "0 \<le> k"
  shows "2 powi ulp_exp y \<le> (2::real) powi (k - 52)"
proof (cases "y = 0")
  case True
  then have "ulp_exp y = - 52" by (simp add: ulp_exp_def exponent_def bitlen_alt_def)
  then show ?thesis using assms(2) by (intro two_powi_mono) simp
next
  case False
  have "(2::real) powi exponent y < 2 powi (k + 1)" using exponent_bounds(1) [OF False] assms(1) by linarith
  then have "exponent y < k + 1" by (simp only: two_powi_less_iff)
  then show ?thesis using assms(2) by (intro two_powi_mono) (simp add: ulp_exp_def)
qed

lemma fl_error_le:
  assumes "\<bar>y\<bar> < 2 powi (k + 1)" "0 \<le> k"
  shows "\<bar>fl y - y\<bar> \<le> (2::real) powi (k - 53)"
proof -
  have "(2::real) powi (k - 53) = 2 powi (k - 52) / 2" using two_powi_add [of "k - 53" 1] by simp
  then show ?thesis using fl_error [of y] ulp_exp_le [OF assms(1)] assms(2) by simp
qed

lemma ln_rel:
  assumes "rel e x y" "0 < y" "e \<le> 1 / 2"
  shows "\<bar>ln x - ln y\<bar> \<le> 2 * e"
proof -
  have x: "0 < x" using assms by (intro rel_pos [OF assms(1)]) auto
  have "ln x - ln y \<le> x / y - 1"
    using ln_add_one_self_le_self2 [of "x / y - 1"] x assms(2) by (simp add: ln_div)
  also have "\<dots> \<le> e" using assms(1,2) by (simp add: rel_def field_simps abs_le_iff)
  finally have a: "ln x - ln y \<le> e" .
  have "ln y - ln x \<le> y / x - 1"
    using ln_add_one_self_le_self2 [of "y / x - 1"] x assms(2) by (simp add: ln_div)
  also have "\<dots> \<le> 2 * e"
  proof -
    have "\<bar>1 / x - 1 / y\<bar> \<le> 2 * e * (1 / y)"
      using rel_inverse [OF assms] assms(2) by (simp add: rel_def)
    then have "1 / x - 1 / y \<le> 2 * e * (1 / y)" by linarith
    then have "y * (1 / x - 1 / y) \<le> y * (2 * e * (1 / y))" using assms(2) by (intro mult_left_mono) auto
    then show ?thesis using assms(2) by (simp add: right_diff_distrib)
  qed
  finally have b: "ln y - ln x \<le> 2 * e" .
  have "0 \<le> \<bar>x - y\<bar>" by simp
  also have "\<dots> \<le> e * y" using assms(1,2) by (simp add: rel_def)
  finally have "0 \<le> e" using assms(2) by (simp add: zero_le_mult_iff)
  with a b show ?thesis by linarith
qed

lemma exp_rel:
  assumes "\<bar>x - y\<bar> \<le> d" "d \<le> 1 / 2"
  shows "rel (2 * d) (exp x) (exp y)"
proof -
  define h where "h = x - y"
  have h: "\<bar>h\<bar> \<le> d" using assms(1) by (simp add: h_def)
  have "\<bar>exp h - 1\<bar> \<le> 2 * d"
  proof (cases "0 \<le> h")
    case True
    have "exp h \<le> 1 + h + h\<^sup>2" using True h assms(2) by (intro exp_bound) auto
    moreover have "h\<^sup>2 \<le> 1 * h" using True h assms(2) unfolding power2_eq_square by (intro mult_right_mono) auto
    ultimately show ?thesis using True h by simp
  next
    case False
    have "1 + h \<le> exp h" by simp
    moreover have "exp h \<le> 1" using False by simp
    ultimately show ?thesis using h by linarith
  qed
  then have "\<bar>exp (x - y) - 1\<bar> \<le> 2 * d" by (simp add: h_def)
  then have "\<bar>exp (x - y) - 1\<bar> * exp y \<le> 2 * d * exp y" by (intro mult_right_mono) auto
  moreover have "exp x - exp y = (exp (x - y) - 1) * exp y" by (simp add: exp_diff algebra_simps)
  ultimately show ?thesis by (simp add: rel_def abs_mult)
qed

lemma f64_ok_ops [simp]:
  "f64_ok (fadd x y)" "f64_ok (fdiv x y)" "f64_ok (lit r)" "f64_ok x \<Longrightarrow> f64_ok (fneg x)"
proof -
  have sp: "f64_ok NaN" "f64_ok PosInf" "f64_ok NegInf" "f64_ok NegZero" "f64_ok (Fin 0)"
    using representable_of_int [of 0] by (simp_all add: f64_ok_def)
  show "f64_ok (lit r)" by (simp add: lit_def)
  show "f64_ok (fdiv x y)" by (auto simp: fdiv_def Let_def sp)
  show "f64_ok (fadd x y)" by (auto simp: fadd_def is_inf_def sp)
  assume x: "f64_ok x"
  have "representable (- r)" if "representable r" for r
    using fl_representable [of "- r"] fl_exact [OF that] by (simp add: fl_minus)
  then show "f64_ok (fneg x)" using x by (cases x) (auto simp: fneg_def f64_ok_def representable_of_int [of 0, simplified])
qed

lemma log_accurate:
  assumes "libm_accurate m" "f64_ok x" "finite_f x" "0 < rv x" "\<bar>ln (rv x)\<bar> < 2 powi (k + 1)" "0 \<le> k"
  shows "finite_f (math_Log m x)" and "\<bar>rv (math_Log m x) - ln (rv x)\<bar> \<le> 2 powi (k - 52)"
proof -
  show "finite_f (math_Log m x)" using assms(1-4) by (simp add: libm_accurate_def)
  have "\<bar>rv (math_Log m x) - ln (rv x)\<bar> \<le> 2 powi ulp_exp (ln (rv x))"
    using assms(1-4) by (simp add: libm_accurate_def)
  then show "\<bar>rv (math_Log m x) - ln (rv x)\<bar> \<le> 2 powi (k - 52)"
    using ulp_exp_le [OF assms(5,6)] by linarith
qed

lemma odds_ratio_accurate:
  assumes "finite_f p" "9 / 10 ^ 7 \<le> rv p" "rv p \<le> 1 - 9 / 10 ^ 7"
  shows "finite_f (fdiv p (fsub (Fin 1) p))"
    and "rel (1 / 2 ^ 51) (rv (fdiv p (fsub (Fin 1) p))) (rv p / (1 - rv p))"
proof -
  define d where "d = fsub (Fin 1) p"
  have big: "(2::real) \<le> 2 powi 1000" using two_powi_mono [of 1 1000] by simp
  have big': "(2::real) ^ 60 \<le> 2 powi 1000" using two_powi_mono [of 60 1000] by simp
  have d: "finite_f d" "rv d = fl (1 - rv p)"
    using fsub_finite [of "Fin 1" p] assms big by (auto simp: d_def)
  have r1: "rel (1 / 2 ^ 53) (rv d) (1 - rv p)"
    unfolding d(2) using assms by (intro rel_fl') (simp add: field_simps)
  have d0: "0 < rv d" using assms by (intro rel_pos [OF r1]) auto
  have i: "rel (2 * (1 / 2 ^ 53)) (1 / rv d) (1 / (1 - rv p))"
    using assms by (intro rel_inverse [OF r1]) auto
  have r2: "rel (1 / 2 ^ 52) (rv p / rv d) (rv p / (1 - rv p))"
  proof -
    have "\<bar>1 / rv d - 1 / (1 - rv p)\<bar> \<le> 1 / 2 ^ 52 * (1 / (1 - rv p))" using i assms by (simp add: rel_def)
    then have "rv p * \<bar>1 / rv d - 1 / (1 - rv p)\<bar> \<le> rv p * (1 / 2 ^ 52 * (1 / (1 - rv p)))"
      using assms by (intro mult_left_mono) auto
    then show ?thesis using assms by (simp add: rel_def abs_mult_pos' right_diff_distrib)
  qed
  have lo: "9 / 10 ^ 7 \<le> rv p / (1 - rv p)" using assms by (simp add: field_simps)
  have hi: "rv p / (1 - rv p) \<le> 2 ^ 21"
  proof -
    have "rv p \<le> 2 ^ 21 * (1 - rv p)" using assms(3) by simp
    then show ?thesis using assms by (simp add: divide_le_eq)
  qed
  have b: "\<bar>rv p / rv d - rv p / (1 - rv p)\<bar> \<le> 1 / 2 ^ 52 * (rv p / (1 - rv p))"
    using r2 assms by (simp add: rel_def)
  also have "\<dots> \<le> 1 / 2 * (rv p / (1 - rv p))" using assms by (intro mult_right_mono) auto
  finally have "4 / 10 ^ 7 \<le> rv p / rv d" "rv p / rv d \<le> 2 * 2 ^ 21" using lo hi by linarith+
  then have q: "4 / 10 ^ 7 \<le> rv p / rv d" "rv p / rv d \<le> 2 ^ 22" by simp_all
  have f: "finite_f (fdiv p d)" "rv (fdiv p d) = fl (rv p / rv d)"
    using fdiv_finite [of p d] assms(1) d d0 q big' by auto
  have "rel (1 / 2 ^ 53) (rv (fdiv p d)) (rv p / rv d)"
    unfolding f(2) by (rule rel_flp [OF q(1)]) simp
  from rel_trans [OF this r2] have "rel (1 / 2 ^ 51) (rv (fdiv p d)) (rv p / (1 - rv p))"
    by (rule rel_mono) simp_all
  then show "finite_f (fdiv p (fsub (Fin 1) p))"
    and "rel (1 / 2 ^ 51) (rv (fdiv p (fsub (Fin 1) p))) (rv p / (1 - rv p))"
    using f by (simp_all add: d_def)
qed

lemma logit_accurate:
  assumes "libm_accurate m" "finite_f p" "9 / 10 ^ 7 \<le> rv p" "rv p \<le> 1 - 9 / 10 ^ 7"
  shows "finite_f (logit m p)" and "\<bar>rv (logit m p) - ln (rv p / (1 - rv p))\<bar> \<le> 1 / 2 ^ 47"
    and "\<bar>ln (rv p / (1 - rv p))\<bar> \<le> 21"
proof -
  define x where "x = fdiv p (fsub (Fin 1) p)"
  define y where "y = rv p / (1 - rv p)"
  note r = odds_ratio_accurate [OF assms(2-4), folded x_def y_def]
  have y0: "0 < y" using assms by (simp add: y_def)
  have "1 / 2 ^ 21 \<le> y" using assms by (simp add: y_def field_simps)
  moreover have "y \<le> 2 ^ 21"
    using assms unfolding y_def by (subst divide_le_eq) auto
  ultimately have "ln (1 / 2 ^ 21) \<le> ln y" "ln y \<le> ln (2 ^ 21)" using y0 by (auto simp: ln_le_cancel_iff)
  moreover have l2: "ln (2 ^ 21 :: real) = 21 * ln 2" by (subst ln_realpow) simp_all
  moreover have "ln (1 / 2 ^ 21 :: real) = - 21 * ln 2" by (subst ln_div) (simp_all only: l2, simp_all)
  moreover have "ln 2 \<le> (1::real)" using ln_add_one_self_le_self2 [of 1] by simp
  ultimately show y: "\<bar>ln y\<bar> \<le> 21" by (simp add: abs_le_iff)
  have x0: "0 < rv x" by (rule rel_pos [OF r(2) _ y0]) simp
  have l: "\<bar>ln (rv x) - ln y\<bar> \<le> 2 * (1 / 2 ^ 51)" by (rule ln_rel [OF r(2) y0]) simp
  moreover have "2 * (1 / 2 ^ 51) \<le> (1::real)" "(2::real) powi (4 + 1) = 32" by simp_all
  ultimately have "\<bar>ln (rv x)\<bar> < 2 powi (4 + 1)" using y by linarith
  note k = log_accurate [OF assms(1) _ r(1) x0 this]
  have ox: "f64_ok x" by (simp add: x_def)
  show "finite_f (logit m p)" using k(1) [OF ox] by (simp add: logit_def x_def)
  have "\<bar>rv (math_Log m x) - ln (rv x)\<bar> \<le> 1 / 2 ^ 48" using k(2) [OF ox] by (simp add: power_int_minus field_simps)
  moreover have "1 / 2 ^ 48 + 2 * (1 / 2 ^ 51) \<le> (1 / 2 ^ 47 :: real)" by simp
  ultimately have "\<bar>rv (math_Log m x) - ln y\<bar> \<le> 1 / 2 ^ 47" using l by linarith
  then show "\<bar>rv (logit m p) - ln y\<bar> \<le> 1 / 2 ^ 47" by (simp only: logit_def x_def)
qed

lemma exp_le_power4: "x \<le> real n \<Longrightarrow> exp x \<le> 4 ^ n"
proof -
  assume "x \<le> real n"
  then have "exp x \<le> exp 1 ^ n" by (simp flip: exp_of_nat_mult)
  also have "\<dots> \<le> 4 ^ n" using exp_le by (intro power_mono) auto
  finally show ?thesis .
qed

text \<open>An error of one unit in the last place of a number that is not tiny.\<close>

lemma rel_ulp:
  assumes "1 / 2 ^ 60 \<le> t" "\<bar>x - t\<bar> \<le> 2 powi ulp_exp t"
  shows "rel (1 / 2 ^ 52) x t"
proof -
  have t: "0 < t" by (rule less_le_trans [OF _ assms(1)]) simp
  have "(2::real) powi (- 61) < 2 powi (exponent t + 1)"
    using exponent_bounds(2) [of t] t assms(1) by (simp add: power_int_minus field_simps)
  then have "ulp_exp t = exponent t + (- 52)" by (simp only: two_powi_less_iff) (simp add: ulp_exp_def)
  then have "(2::real) powi ulp_exp t = 2 powi exponent t * (1 / 2 ^ 52)"
    by (simp only: two_powi_add) (simp add: power_int_minus field_simps)
  also have "\<dots> \<le> t * (1 / 2 ^ 52)" using exponent_bounds(1) [of t] t by (intro mult_right_mono) auto
  finally show ?thesis using assms(2) t by (simp add: rel_def)
qed

lemma sigmoid_accurate:
  assumes "libm_accurate m" "f64_ok x" "finite_f x" "\<bar>rv x - s\<bar> \<le> 1 / 2 ^ 46" "\<bar>s\<bar> \<le> 22"
  shows "finite_f (sigmoid m x)" and "rel (1 / 2 ^ 42) (rv (sigmoid m x)) (1 / (1 + exp (- s)))"
proof -
  define E where "E = math_Exp m (fneg x)"
  define S where "S = fadd (Fin 1) E"
  have ox: "f64_ok (fneg x)" using assms(2) by simp
  have "1 / 2 ^ 46 \<le> (1::real)" by simp
  then have ex: "finite_f (fneg x)" "\<bar>rv (fneg x)\<bar> \<le> 100" "\<bar>rv x\<bar> \<le> 23"
    using assms(3-5) by (simp, simp only: fneg_simps, linarith+)
  have E: "finite_f E" "\<bar>rv E - exp (- rv x)\<bar> \<le> 2 powi ulp_exp (exp (- rv x))"
    using assms(1) ox ex by (auto simp: E_def libm_accurate_def dest: spec [of _ "fneg x"])
  have nz: "exp (- s) \<le> 2 ^ 44" using exp_le_power4 [of "- s" 22] assms(5) by simp
  have r0: "rel (2 * (1 / 2 ^ 46)) (exp (- rv x)) (exp (- s))"
    using assms(4) by (intro exp_rel) (simp_all only: minus_diff_minus abs_minus_cancel, simp_all)
  have low: "1 / 2 ^ 60 \<le> exp (- rv x)"
  proof -
    have "rv x \<le> real 23" using ex(3) by simp
    from exp_le_power4 [OF this] have "exp (rv x) \<le> 2 ^ 60" by simp
    then show ?thesis by (simp add: exp_minus field_simps)
  qed
  have r1: "rel (1 / 2 ^ 52) (rv E) (exp (- rv x))" using low E(2) by (rule rel_ulp)
  from rel_trans [OF r1 r0] have r: "rel (1 / 2 ^ 44) (rv E) (exp (- s))" by (rule rel_mono) simp_all
  then have e: "\<bar>rv E - exp (- s)\<bar> \<le> 1 / 2 ^ 44 * exp (- s)" by (simp add: rel_def)
  have E0: "0 < rv E" by (rule rel_pos [OF r]) simp_all
  have "1 / 2 ^ 44 * exp (- s) \<le> 1" "(2::real) ^ 45 = 2 ^ 44 + 2 ^ 44" "1 \<le> (2::real) ^ 44" using nz by simp_all
  then have Eb: "rv E \<le> 2 ^ 45" using e nz by linarith
  have big: "(2::real) ^ 60 \<le> 2 powi 1000" using two_powi_mono [of 60 1000] by simp
  have S: "finite_f S" "rv S = fl (1 + rv E)"
    using fadd_finite [of "Fin 1" E] E(1) E0 Eb big by (auto simp: S_def)
  have s1: "rel (1 / 2 ^ 44) (1 + rv E) (1 + exp (- s))" using e by (simp add: rel_def)
  have "rel (1 / 2 ^ 53) (rv S) (1 + rv E)" unfolding S(2) using E0 by (intro rel_fl') simp
  from rel_trans [OF this s1] have s2: "rel (1 / 2 ^ 43 * (3 / 4)) (rv S) (1 + exp (- s))"
    by (rule rel_mono) simp_all
  have rep: "representable 1" "representable (2 ^ 46)"
    using representable_of_int [of 1] representable_of_int [of "2 ^ 46"] by simp_all
  have S0: "1 / 2 \<le> rv S" "rv S \<le> 2 ^ 46"
    using fl_ge_rep [OF rep(1), of "1 + rv E"] fl_le_rep [OF rep(2), of "1 + rv E"] E0 Eb S(2) by simp_all
  have i: "rel (2 * (1 / 2 ^ 43 * (3 / 4))) (1 / rv S) (1 / (1 + exp (- s)))"
    by (rule rel_inverse [OF s2]) (simp_all add: add_pos_pos)
  have bs: "1 / 2 ^ 46 \<le> 1 / rv S" "1 / rv S \<le> 2" using S0 by (simp_all add: field_simps)
  have q: "finite_f (fdiv (Fin 1) S)" "rv (fdiv (Fin 1) S) = fl (1 / rv S)"
    using fdiv_finite [of "Fin 1" S] S S0 bs big by auto
  have "rel (1 / 2 ^ 53) (rv (fdiv (Fin 1) S)) (1 / rv S)" unfolding q(2) by (rule rel_flp [OF bs(1)]) simp
  from rel_trans [OF this i] have "rel (1 / 2 ^ 42) (rv (fdiv (Fin 1) S)) (1 / (1 + exp (- s)))"
    by (rule rel_mono) simp_all
  then show "finite_f (sigmoid m x)" and "rel (1 / 2 ^ 42) (rv (sigmoid m x)) (1 / (1 + exp (- s)))"
    using q(1) by (simp_all add: sigmoid_def S_def E_def)
qed

section \<open>The exact formula\<close>

text \<open>Shifting the logit of \<open>p\<close> by \<open>ln k\<close>.\<close>

definition vigged :: "real \<Rightarrow> real \<Rightarrow> real" where
  "vigged k p = k * p / (1 + (k - 1) * p)"

lemma delta_accurate:
  assumes "libm_accurate m" "1 \<le> k" "k \<le> 2"
  shows "finite_f (math_Log m (lit k))" and "\<bar>rv (math_Log m (lit k)) - ln k\<bar> \<le> 1 / 2 ^ 50"
proof -
  have "(2::real) \<le> 2 powi 1000" using two_powi_mono [of 1 1000] by simp
  then have l: "finite_f (lit k)" "rv (lit k) = fl k" using lit_finite [of k] assms(2,3) by auto
  have r: "rel (1 / 2 ^ 53) (rv (lit k)) k" unfolding l(2) by (rule rel_flp [OF assms(2)]) simp
  have pos: "0 < rv (lit k)" using assms(2) by (intro rel_pos [OF r]) auto
  have d: "\<bar>ln (rv (lit k)) - ln k\<bar> \<le> 2 * (1 / 2 ^ 53)" using assms(2) by (intro ln_rel [OF r]) auto
  have "0 \<le> ln k" "ln k \<le> 1" using assms(2,3) ln_add_one_self_le_self2 [of "k - 1"] by auto
  moreover have "2 * (1 / 2 ^ 53) < (1::real)" "(2::real) powi (0 + 1) = 2" by simp_all
  ultimately have "\<bar>ln (rv (lit k))\<bar> < 2 powi (0 + 1)" using d by linarith
  note a = log_accurate [OF assms(1) _ l(1) pos this, simplified]
  show "finite_f (math_Log m (lit k))" using a(1) by simp
  have "\<bar>rv (math_Log m (lit k)) - ln (rv (lit k))\<bar> \<le> 1 / 2 ^ 52" using a(2) by (simp add: power_int_minus)
  moreover have "1 / 2 ^ 52 + 2 * (1 / 2 ^ 53) \<le> (1 / 2 ^ 50 :: real)" by simp
  ultimately show "\<bar>rv (math_Log m (lit k)) - ln k\<bar> \<le> 1 / 2 ^ 50" using d by linarith
qed

lemma vigged_accurate:
  assumes "libm_accurate m" "finite_f p" "9 / 10 ^ 7 \<le> rv p" "rv p \<le> 1 - 9 / 10 ^ 7"
    and "1 \<le> k" "k \<le> 2" "delta = math_Log m (lit k)"
  shows "finite_f (sigmoid m (fadd (logit m p) delta))"
    and "rel (1 / 2 ^ 42) (rv (sigmoid m (fadd (logit m p) delta))) (vigged k (rv p))"
proof -
  define y where "y = ln (rv p / (1 - rv p))"
  define s where "s = y + ln k"
  define x where "x = fadd (logit m p) delta"
  note L = logit_accurate [OF assms(1-4), folded y_def]
  have D: "finite_f delta" "\<bar>rv delta - ln k\<bar> \<le> 1 / 2 ^ 50" using delta_accurate [OF assms(1,5,6)] by (simp_all only: assms(7))
  have k: "0 \<le> ln k" "ln k \<le> 1" using assms(5,6) ln_add_one_self_le_self2 [of "k - 1"] by auto
  have e: "1 / 2 ^ 50 \<le> (1::real)" "1 / 2 ^ 47 \<le> (1::real)" "(2::real) powi (4 + 1) = 32" by simp_all
  have sum: "\<bar>rv (logit m p) + rv delta\<bar> < 2 powi (4 + 1)" unfolding e(3) using L(2,3) D(2) k e(1,2) by linarith
  have "(32::real) \<le> 2 powi 1000" using two_powi_mono [of 5 1000] by simp
  then have x: "finite_f x" "rv x = fl (rv (logit m p) + rv delta)"
    using fadd_finite [OF L(1) D(1)] sum by (simp_all add: x_def)
  have "\<bar>rv x - (rv (logit m p) + rv delta)\<bar> \<le> 1 / 2 ^ 49"
    unfolding x(2) using fl_error_le [OF sum] by (simp add: power_int_minus)
  moreover have "1 / 2 ^ 49 + 1 / 2 ^ 47 + 1 / 2 ^ 50 \<le> (1 / 2 ^ 46 :: real)" by simp
  ultimately have "\<bar>rv x - s\<bar> \<le> 1 / 2 ^ 46" unfolding s_def using L(2) D(2) by linarith
  moreover have "\<bar>s\<bar> \<le> 22" unfolding s_def using L(3) k by linarith
  ultimately have S: "finite_f (sigmoid m x)" "rel (1 / 2 ^ 42) (rv (sigmoid m x)) (1 / (1 + exp (- s)))"
    using sigmoid_accurate [OF assms(1) _ x(1)] by (simp_all add: x_def)
  have "exp (- s) = (1 - rv p) / (rv p * k)"
    using assms(3-5) by (simp add: s_def y_def exp_add exp_minus exp_diff ln_div field_simps)
  moreover have "1 / (1 + (1 - rv p) / (rv p * k)) = vigged k (rv p)"
  proof -
    have "1 + (1 - rv p) / (rv p * k) = (1 + (k - 1) * rv p) / (k * rv p)" using assms(3-5) by (simp add: field_simps)
    then show ?thesis by (simp add: vigged_def)
  qed
  ultimately have "1 / (1 + exp (- s)) = vigged k (rv p)" by simp
  then show "finite_f (sigmoid m (fadd (logit m p) delta))"
    and "rel (1 / 2 ^ 42) (rv (sigmoid m (fadd (logit m p) delta))) (vigged k (rv p))"
    using S by (simp_all only: x_def)
qed

lemma vigged_gap:
  assumes "0 \<le> p" "p \<le> 1" "1 \<le> k" "k \<le> 2"
  shows "p + (k - 1) * (p * (1 - p)) / 2 \<le> vigged k p" and "vigged k p \<le> 1 / 2 + p / 2"
proof -
  have d: "1 \<le> 1 + (k - 1) * p" "1 + (k - 1) * p \<le> 2"
    using assms mult_mono [of "k - 1" 1 p 1] by auto
  then have d0: "0 < 1 + (k - 1) * p" by linarith
  have "vigged k p - p = (k - 1) * (p * (1 - p)) / (1 + (k - 1) * p)"
    using d by (simp add: vigged_def field_simps)
  moreover have "(k - 1) * (p * (1 - p)) / 2 \<le> (k - 1) * (p * (1 - p)) / (1 + (k - 1) * p)"
    using assms d d0 by (intro divide_left_mono mult_nonneg_nonneg mult_pos_pos) simp_all
  ultimately show "p + (k - 1) * (p * (1 - p)) / 2 \<le> vigged k p" by linarith
  have "1 - vigged k p = (1 - p) / (1 + (k - 1) * p)" using d by (simp add: vigged_def field_simps)
  moreover have "(1 - p) / 2 \<le> (1 - p) / (1 + (k - 1) * p)" 
    using assms d d0 by (intro divide_left_mono mult_pos_pos) simp_all
  moreover have "(1 - p) / 2 = 1 / 2 - p / 2" by (simp add: diff_divide_distrib)
  ultimately show "vigged k p \<le> 1 / 2 + p / 2" by linarith
qed

section \<open>Fair probabilities\<close>

definition fair_range :: "float64 \<Rightarrow> bool" where
  "fair_range p \<longleftrightarrow> finite_f p \<and> 999999 / 10 ^ 12 \<le> rv p \<and> rv p \<le> 1 - 999999 / 10 ^ 12"

lemma eps_lits:
  "finite_f (lit eps)" "\<bar>rv (lit eps) - 1 / 10 ^ 6\<bar> \<le> 1 / 2 ^ 53"
  "finite_f (lit (1 - eps))" "\<bar>rv (lit (1 - eps)) - (1 - 1 / 10 ^ 6)\<bar> \<le> 1 / 2 ^ 53" "999999 / 10 ^ 12 \<le> rv (lit eps)"
proof -
  have "(2::real) \<le> 2 powi 1000" using two_powi_mono [of 1 1000] by simp
  then have l: "finite_f (lit x)" "rv (lit x) = fl x" if "0 \<le> x" "x \<le> 1" for x using lit_finite [of x] that by auto
  have e: "\<bar>fl x - x\<bar> \<le> 1 / 2 ^ 53" if "0 \<le> x" "x \<le> 1" for x :: real
    using fl_error_le [of x 0] that by (simp add: power_int_minus)
  show "finite_f (lit eps)" "finite_f (lit (1 - eps))" by (rule l; simp add: eps_def)+
  show "\<bar>rv (lit eps) - 1 / 10 ^ 6\<bar> \<le> 1 / 2 ^ 53" "\<bar>rv (lit (1 - eps)) - (1 - 1 / 10 ^ 6)\<bar> \<le> 1 / 2 ^ 53"
    using l [of eps] l [of "1 - eps"] e [of eps] e [of "1 - eps"] by (simp_all add: eps_def)
  have "rel (1 / 2 ^ 53) (fl (1 / 10 ^ 6)) (1 / 10 ^ 6)" by (rule rel_flp [OF order_refl]) simp
  then have "\<bar>fl (1 / 10 ^ 6) - 1 / 10 ^ 6\<bar> \<le> 1 / 2 ^ 53 * (1 / 10 ^ 6)" by (simp add: rel_def)
  moreover have "1 / 2 ^ 53 * (1 / 10 ^ 6) \<le> 1 / 10 ^ 6 - (999999 / 10 ^ 12 :: real)" by simp
  ultimately have "999999 / 10 ^ 12 \<le> fl (1 / 10 ^ 6)" by linarith
  then show "999999 / 10 ^ 12 \<le> rv (lit eps)" using l [of eps] by (simp add: eps_def)
qed

lemma clamp_finite:
  assumes "finite_f v" "finite_f lo" "finite_f hi"
  shows "finite_f (clamp v lo hi)"
    and "rv (clamp v lo hi) = (if rv v < rv lo then rv lo else if rv hi < rv v then rv hi else rv v)"
  using assms by (simp_all add: clamp_def flt_finite)

definition fair :: "float64 \<Rightarrow> float64 \<Rightarrow> float64" where
  "fair fp tot = clamp (fdiv fp tot) (lit eps) (lit (1 - eps))"

lemma fair_prob:
  assumes "finite_f fp" "0 \<le> rv fp" "rv fp \<le> s" "rel (1 / 2 ^ 53) (rv tot) s" "finite_f tot" "0 < s"
  shows "fair_range (fair fp tot)" and "finite_f (fdiv fp tot)" and "\<bar>rv (fdiv fp tot) - rv fp / s\<bar> \<le> 1 / 2 ^ 51"
    and "rv (fair fp tot) = (if rv (fdiv fp tot) < rv (lit eps) then rv (lit eps)
       else if rv (lit (1 - eps)) < rv (fdiv fp tot) then rv (lit (1 - eps)) else rv (fdiv fp tot))"
proof -
  have t: "0 < rv tot" using assms(6) by (intro rel_pos [OF assms(4)]) auto
  have "\<bar>1 / rv tot - 1 / s\<bar> \<le> 2 * (1 / 2 ^ 53) * (1 / s)"
    using rel_inverse [OF assms(4,6)] assms(6) by (simp add: rel_def)
  then have "rv fp * \<bar>1 / rv tot - 1 / s\<bar> \<le> s * (2 * (1 / 2 ^ 53) * (1 / s))"
    using assms(2,3,6) by (intro mult_mono) auto
  then have "rv fp * \<bar>1 / rv tot - 1 / s\<bar> \<le> 1 / 2 ^ 52" using assms(6) by simp
  moreover have "rv fp * \<bar>1 / rv tot - 1 / s\<bar> = \<bar>rv fp / rv tot - rv fp / s\<bar>"
    using assms(2) by (simp add: abs_mult_pos' right_diff_distrib)
  ultimately have d: "\<bar>rv fp / rv tot - rv fp / s\<bar> \<le> 1 / 2 ^ 52" by linarith
  have s: "0 \<le> rv fp / s" "rv fp / s \<le> 1" using assms by auto
  have e: "1 / 2 ^ 52 < (1::real)" "(2::real) powi (0 + 1) = 2" by simp_all
  have r: "\<bar>rv fp / rv tot\<bar> < 2 powi (0 + 1)" unfolding e(2) using d s e(1) by linarith
  have "(2::real) \<le> 2 powi 1000" using two_powi_mono [of 1 1000] by simp
  then have f: "finite_f (fdiv fp tot)" "rv (fdiv fp tot) = fl (rv fp / rv tot)"
    using fdiv_finite [OF assms(1,5)] t r by auto
  show "finite_f (fdiv fp tot)" by (rule f)
  have "\<bar>fl (rv fp / rv tot) - rv fp / rv tot\<bar> \<le> 1 / 2 ^ 53"
    using fl_error_le [OF r] by (simp add: power_int_minus)
  moreover have "1 / 2 ^ 53 + 1 / 2 ^ 52 \<le> (1 / 2 ^ 51 :: real)" by simp
  ultimately show "\<bar>rv (fdiv fp tot) - rv fp / s\<bar> \<le> 1 / 2 ^ 51" unfolding f(2) using d by linarith
  show c: "rv (fair fp tot) = (if rv (fdiv fp tot) < rv (lit eps) then rv (lit eps)
       else if rv (lit (1 - eps)) < rv (fdiv fp tot) then rv (lit (1 - eps)) else rv (fdiv fp tot))"
    using clamp_finite(2) [OF f(1)] eps_lits by (simp add: fair_def)
  have "1 / 2 ^ 53 \<le> 1 / 10 ^ 6 - (999999 / 10 ^ 12 :: real)" "1 / 2 ^ 53 + 2 * (1 / 10 ^ 6) \<le> (1::real)" by simp_all
  then have "999999 / 10 ^ 12 \<le> rv (lit (1 - eps))" "rv (lit (1 - eps)) \<le> 1 - 999999 / 10 ^ 12"
    "rv (lit eps) \<le> 1 - 999999 / 10 ^ 12"
    using eps_lits(2,4) by linarith+
  then have "999999 / 10 ^ 12 \<le> rv (fair fp tot) \<and> rv (fair fp tot) \<le> 1 - 999999 / 10 ^ 12"
    unfolding c using eps_lits(5) by auto
  then show "fair_range (fair fp tot)"
    using clamp_finite(1) [OF f(1) eps_lits(1,3)] by (simp add: fair_range_def fair_def)
qed

lemma market_total:
  assumes "finite_f a" "finite_f b" "0 \<le> rv a" "0 \<le> rv b" "rv a \<le> 1" "rv b \<le> 1" "1 / 2 ^ 50 \<le> rv a + rv b"
  shows "finite_f (fadd a b)" and "rel (1 / 2 ^ 53) (rv (fadd a b)) (rv a + rv b)" and "\<not> fle (fadd a b) (Fin 0)"
proof -
  have "(2::real) \<le> 2 powi 1000" using two_powi_mono [of 1 1000] by simp
  then have f: "finite_f (fadd a b)" "rv (fadd a b) = fl (rv a + rv b)" using fadd_finite [OF assms(1,2)] assms(3-6) by auto
  show "finite_f (fadd a b)" by (rule f)
  show r: "rel (1 / 2 ^ 53) (rv (fadd a b)) (rv a + rv b)" unfolding f(2) by (rule rel_flp [OF assms(7)]) simp
  have "(0::real) < 1 / 2 ^ 50" by simp
  then have "0 < rv a + rv b" using assms(7) by linarith
  then have "0 < rv (fadd a b)" by (intro rel_pos [OF r]) auto
  then show "\<not> fle (fadd a b) (Fin 0)" using f(1) by (simp add: fle_finite)
qed

lemma clamp_sum:
  fixes lo hi x y t :: real
  assumes "t \<le> x + y" "t \<le> lo + hi" "t \<le> hi + hi"
  shows "t \<le> (if x < lo then lo else if hi < x then hi else x) + (if y < lo then lo else if hi < y then hi else y)"
  using assms by (auto split: if_splits)

lemma fair_sum:
  assumes "finite_f a" "finite_f b" "0 \<le> rv a" "0 \<le> rv b" "rv a \<le> 1" "rv b \<le> 1" "1 / 2 ^ 50 \<le> rv a + rv b"
  shows "fair_range (fair a (fadd a b))" and "fair_range (fair b (fadd a b))"
    and "1 - 1 / 2 ^ 49 \<le> rv (fair a (fadd a b)) + rv (fair b (fadd a b))"
proof -
  have "(0::real) < 1 / 2 ^ 50" by simp
  then have s: "0 < rv a + rv b" using assms(7) by linarith
  note t = market_total [OF assms]
  have A: "rv a \<le> rv a + rv b" "rv b \<le> rv a + rv b" using assms by simp_all
  note fa = fair_prob [OF assms(1,3) A(1) t(2,1) s] and fb = fair_prob [OF assms(2,4) A(2) t(2,1) s]
  show "fair_range (fair a (fadd a b))" "fair_range (fair b (fadd a b))" by (rule fa fb)+
  have "rv a / (rv a + rv b) + rv b / (rv a + rv b) = 1" using s by (simp flip: add_divide_distrib)
  moreover have e: "1 / 2 ^ 51 + 1 / 2 ^ 51 \<le> (1 / 2 ^ 49 :: real)" "1 / 2 ^ 53 + 1 / 2 ^ 53 \<le> (1 / 2 ^ 49 :: real)"
    "1 / 2 ^ 53 + 1 / 10 ^ 6 \<le> (1 / 2 :: real)" by simp_all
  ultimately show "1 - 1 / 2 ^ 49 \<le> rv (fair a (fadd a b)) + rv (fair b (fadd a b))"
    unfolding fa(4) fb(4) using fa(3) fb(3) eps_lits(2,4) by (intro clamp_sum) linarith+
qed

section \<open>Prices\<close>

definition vig_factor :: "libm \<Rightarrow> float64 \<Rightarrow> real \<Rightarrow> bool" where
  "vig_factor m delta k \<longleftrightarrow> delta = math_Log m (lit k) \<and> 11 / 10 \<le> k \<and> k \<le> 2"

lemma vig_factors: "vig_factor m (vigDelta m) (11 / 10)" "vig_factor m (vigDeltaWide m) (115 / 100)"
  by (simp_all add: vig_factor_def vigDelta_def vigDeltaWide_def)

text \<open>The quoted implied probability exceeds the fair one by at least \<open>g\<close> but stays below one.\<close>

lemma vigged_prob:
  assumes "libm_accurate m" "fair_range p" "vig_factor m delta k" "q = sigmoid m (fadd (logit m p) delta)"
    and "20 * g + 1 / 10 ^ 10 \<le> rv p * (1 - rv p)"
  shows "finite_f q" "rv p + g \<le> rv q" "rv q \<le> 1 - 1 / 10 ^ 7" "rel (1 / 2 ^ 42) (rv q) (vigged k (rv p))"
proof -
  define v where "v = vigged k (rv p)"
  have c: "9 / 10 ^ 7 \<le> (999999 / 10 ^ 12 :: real)" by simp
  then have p: "finite_f p" "9 / 10 ^ 7 \<le> rv p" "rv p \<le> 1 - 9 / 10 ^ 7"
    using assms(2) unfolding fair_range_def by linarith+
  have k: "1 \<le> k" "k \<le> 2" "delta = math_Log m (lit k)" using assms(3) by (simp_all add: vig_factor_def)
  note a = vigged_accurate [OF assms(1) p k, folded assms(4) v_def]
  show "finite_f q" "rel (1 / 2 ^ 42) (rv q) v" by (rule a)+
  have p01: "0 \<le> rv p" "rv p \<le> 1" using p by simp_all
  have gap: "rv p + (k - 1) * (rv p * (1 - rv p)) / 2 \<le> v" "v \<le> 1 / 2 + rv p / 2"
    using vigged_gap [OF p01 k(1,2)] by (simp_all add: v_def)
  have v0: "0 \<le> v" using p01 k by (simp add: v_def vigged_def)
  have "v \<le> 1" using gap(2) p01 by linarith
  then have "1 / 2 ^ 42 * v \<le> 1 / 2 ^ 42 * 1" using v0 by (intro mult_left_mono) auto
  then have d: "\<bar>rv q - v\<bar> \<le> 1 / 2 ^ 42" using a(2) v0 by (simp add: rel_def)
  have e: "1 / 2 ^ 42 \<le> (1 / 10 ^ 12 :: real)" "2 * (1 / 2 ^ 42) + 2 / 10 ^ 7 \<le> (9 / 10 ^ 7 :: real)" by simp_all
  define w where "w = rv p * (1 - rv p)"
  define z where "z = (k - 1) * w"
  have "1 / 10 * w \<le> z" using p01 assms(3) unfolding w_def z_def
    by (intro mult_right_mono) (auto simp: vig_factor_def)
  moreover have "rv p + z / 2 \<le> v" "20 * g + 1 / 10 ^ 10 \<le> w" using gap(1) assms(5) by (simp_all add: w_def z_def)
  moreover have "20 * (1 / 10 ^ 12) \<le> (1 / 10 ^ 10 :: real)" by simp
  ultimately show "rv p + g \<le> rv q" using d e(1) by linarith
  show "rv q \<le> 1 - 1 / 10 ^ 7" using gap(2) d e(2) p(3) by linarith
qed

lemma fair_range_product:
  assumes "fair_range p"
  shows "9 / 10 ^ 7 \<le> rv p * (1 - rv p)"
proof -
  have p: "999999 / 10 ^ 12 \<le> rv p" "rv p \<le> 1 - 999999 / 10 ^ 12" using assms by (simp_all add: fair_range_def)
  have "0 \<le> (rv p - 999999 / 10 ^ 12) * (1 - 999999 / 10 ^ 12 - rv p)" using p by (intro mult_nonneg_nonneg) auto
  moreover have "(rv p - 999999 / 10 ^ 12) * (1 - 999999 / 10 ^ 12 - rv p) =
      rv p * (1 - rv p) - 999999 / 10 ^ 12 * (1 - 999999 / 10 ^ 12)" by (simp add: field_simps)
  moreover have "9 / 10 ^ 7 \<le> 999999 / 10 ^ 12 * (1 - 999999 / 10 ^ 12 :: real)" by simp
  ultimately show ?thesis by linarith
qed

lemma price_of_prob:
  assumes "finite_f q" "103 / 10 ^ 8 \<le> rv q" "rv q \<le> 1 - 1 / 10 ^ 7"
  shows "finite_f (fdiv (Fin 1) q)" and "rel (1 / 2 ^ 53) (rv (fdiv (Fin 1) q)) (1 / rv q)"
    and "1 + 9 / 10 ^ 8 \<le> rv (fdiv (Fin 1) q)" and "rv (fdiv (Fin 1) q) \<le> 999999"
proof -
  have q: "0 < rv q" using assms(2) by (rule less_le_trans [rotated]) simp
  have b: "1 \<le> 1 / rv q" "1 / rv q \<le> 970874" using q assms(2,3) by (simp_all add: field_simps)
  have b1: "1 + 1 / 10 ^ 7 \<le> 1 / rv q"
  proof -
    have "(1 + 1 / 10 ^ 7) * rv q \<le> (1 + 1 / 10 ^ 7) * (1 - 1 / 10 ^ 7)" using assms(3) by (intro mult_left_mono) auto
    also have "\<dots> \<le> 1" by simp
    finally show ?thesis using q by (simp add: le_divide_eq)
  qed
  have big: "(970874::real) \<le> 2 powi 1000" using two_powi_mono [of 20 1000] by simp
  have f: "finite_f (fdiv (Fin 1) q)" "rv (fdiv (Fin 1) q) = fl (1 / rv q)"
    using fdiv_finite [of "Fin 1" q] assms(1) q b big by auto
  have rep: "representable 970874" using representable_of_int [of 970874] by simp
  show "finite_f (fdiv (Fin 1) q)" by (rule f)
  show r: "rel (1 / 2 ^ 53) (rv (fdiv (Fin 1) q)) (1 / rv q)" unfolding f(2) by (rule rel_flp [OF b(1)]) simp
  have "1 / 2 ^ 53 * (1 / rv q) \<le> 1 / 2 ^ 53 * 970874" using b(2) by (intro mult_left_mono) auto
  then have "\<bar>rv (fdiv (Fin 1) q) - 1 / rv q\<bar> \<le> 1 / 2 ^ 53 * 970874" using r q by (simp add: rel_def)
  moreover have "1 / 2 ^ 53 * 970874 + 9 / 10 ^ 8 \<le> (1 / 10 ^ 7 :: real)" by simp
  ultimately show "1 + 9 / 10 ^ 8 \<le> rv (fdiv (Fin 1) q)" using b1 by linarith
  show "rv (fdiv (Fin 1) q) \<le> 999999" unfolding f(2) using fl_le_rep [OF rep b(2)] by simp
qed

text \<open>One selection: what its result holds, in terms of its implied probability.\<close>

lemma price_selection_ok:
  assumes "libm_accurate m" "fair_range p" "vig_factor m delta k" "r = price_selection m delta s p"
  shows "finite_f (ViggedProb r)" "rv p + 4 / 10 ^ 8 \<le> rv (ViggedProb r)" "rv (ViggedProb r) \<le> 1 - 1 / 10 ^ 7"
    "sr_ID r = si_ID s" "sr_FeedProbability r = si_FeedProbability s"
    "if flt (ViggedProb r) (si_FeedProbability s) then sr_Decimal r = Fin 0 \<and> sr_American r = 0
     else sr_Decimal r = fdiv (Fin 1) (ViggedProb r) \<and> sr_American r = DecimalToAmerican (sr_Decimal r)"
proof -
  define q where "q = sigmoid m (fadd (logit m p) delta)"
  have r: "ViggedProb r = q" using assms(4) by (simp add: price_selection_def Let_def q_def)
  have "20 * (4 / 10 ^ 8) + 1 / 10 ^ 10 \<le> (9 / 10 ^ 7 :: real)" by simp
  then have "20 * (4 / 10 ^ 8) + 1 / 10 ^ 10 \<le> rv p * (1 - rv p)"
    using fair_range_product [OF assms(2)] by linarith
  note v = vigged_prob [OF assms(1-3) q_def this]
  show "finite_f (ViggedProb r)" "rv p + 4 / 10 ^ 8 \<le> rv (ViggedProb r)" "rv (ViggedProb r) \<le> 1 - 1 / 10 ^ 7"
    unfolding r by (rule v)+
  show "sr_ID r = si_ID s" "sr_FeedProbability r = si_FeedProbability s"
    "if flt (ViggedProb r) (si_FeedProbability s) then sr_Decimal r = Fin 0 \<and> sr_American r = 0
     else sr_Decimal r = fdiv (Fin 1) (ViggedProb r) \<and> sr_American r = DecimalToAmerican (sr_Decimal r)"
    using assms(4) by (simp_all add: price_selection_def Let_def)
qed

lemma ComputeMarketOdds_two:
  assumes "\<not> fle (fadd (si_FeedProbability s0) (si_FeedProbability s1)) (Fin 0)"
  shows "ComputeMarketOdds m [s0, s1] delta =
    (let tot = fadd (si_FeedProbability s0) (si_FeedProbability s1)
     in [price_selection m delta s0 (fair (si_FeedProbability s0) tot), price_selection m delta s1 (fair (si_FeedProbability s1) tot)])"
  using assms by (simp add: ComputeMarketOdds_def Let_def fair_def)

definition feed_ok :: "SelectionInput \<Rightarrow> bool" where
  "feed_ok s \<longleftrightarrow> finite_f (si_FeedProbability s) \<and> 0 \<le> rv (si_FeedProbability s) \<and> rv (si_FeedProbability s) \<le> 1"

text \<open>A result is a zeroed price, when the quote would be below the feed, or the odds of its implied
  probability.\<close>

definition quote_ok :: "SelectionInput \<Rightarrow> SelectionResult \<Rightarrow> bool" where
  "quote_ok s r \<longleftrightarrow>
     sr_ID r = si_ID s \<and> 0 < rv (ViggedProb r) \<and> rv (ViggedProb r) < 1 \<and>
     (if rv (ViggedProb r) < rv (si_FeedProbability s) then sr_Decimal r = Fin 0 \<and> sr_American r = 0
      else finite_f (sr_Decimal r) \<and> 1 + 9 / 10 ^ 8 \<le> rv (sr_Decimal r) \<and> rv (sr_Decimal r) \<le> 999999 \<and>
        sr_American r = DecimalToAmerican (sr_Decimal r))"

lemma implied_prob:
  assumes "finite_f q" "103 / 10 ^ 8 \<le> rv q" "rv q \<le> 1 - 1 / 10 ^ 7"
  shows "rv q - 1 / 2 ^ 52 \<le> 1 / rv (fdiv (Fin 1) q)"
proof -
  have q: "0 < rv q" using assms(2) by (rule less_le_trans [rotated]) simp
  have "rel (2 * (1 / 2 ^ 53)) (1 / rv (fdiv (Fin 1) q)) (1 / (1 / rv q))"
    using q by (intro rel_inverse [OF price_of_prob(2) [OF assms]]) auto
  then have "\<bar>1 / rv (fdiv (Fin 1) q) - rv q\<bar> \<le> 1 / 2 ^ 52 * rv q" using q by (simp add: rel_def)
  also have "\<dots> \<le> 1 / 2 ^ 52 * 1" using assms(3) by (intro mult_left_mono) auto
  finally show ?thesis by linarith
qed

lemma quote_okI:
  assumes "libm_accurate m" "fair_range p" "vig_factor m delta k" "r = price_selection m delta s p" "feed_ok s"
  shows "quote_ok s r" and "sr_Decimal r \<noteq> Fin 0 \<Longrightarrow> rv (ViggedProb r) - 1 / 2 ^ 52 \<le> 1 / rv (sr_Decimal r)"
proof -
  note P = price_selection_ok [OF assms(1-4)]
  have "103 / 10 ^ 8 \<le> 999999 / 10 ^ 12 + (4 / 10 ^ 8 :: real)" "(0::real) < 103 / 10 ^ 8" "(0::real) < 1 / 10 ^ 7" by simp_all
  then have q: "103 / 10 ^ 8 \<le> rv (ViggedProb r)" "0 < rv (ViggedProb r)" "rv (ViggedProb r) < 1"
    using assms(2) P(2,3) unfolding fair_range_def by linarith+
  have lt: "flt (ViggedProb r) (si_FeedProbability s) \<longleftrightarrow> rv (ViggedProb r) < rv (si_FeedProbability s)"
    using P(1) assms(5) by (simp add: flt_finite feed_ok_def)
  note D = price_of_prob [OF P(1) q(1) P(3)]
  show "quote_ok s r"
  proof (cases "rv (ViggedProb r) < rv (si_FeedProbability s)")
    case True
    then show ?thesis using P(4,6) lt q by (simp add: quote_ok_def)
  next
    case False
    then show ?thesis using P(4,6) lt q D by (simp add: quote_ok_def)
  qed
  show "rv (ViggedProb r) - 1 / 2 ^ 52 \<le> 1 / rv (sr_Decimal r)" if "sr_Decimal r \<noteq> Fin 0"
    using P(6) that implied_prob [OF P(1) q(1) P(3)] by (auto split: if_splits)
qed

lemma book_margin:
  assumes "libm_accurate m" "feed_ok s0" "feed_ok s1" "delta \<in> {vigDelta m, vigDeltaWide m}"
    and "1 / 2 ^ 50 \<le> rv (si_FeedProbability s0) + rv (si_FeedProbability s1)"
  shows "\<exists>r0 r1. ComputeMarketOdds m [s0, s1] delta = [r0, r1] \<and> quote_ok s0 r0 \<and> quote_ok s1 r1 \<and>
    1 < rv (ViggedProb r0) + rv (ViggedProb r1) \<and>
    (sr_Decimal r0 \<noteq> Fin 0 \<and> sr_Decimal r1 \<noteq> Fin 0 \<longrightarrow> 1 < 1 / rv (sr_Decimal r0) + 1 / rv (sr_Decimal r1))"
proof -
  let ?a = "si_FeedProbability s0" and ?b = "si_FeedProbability s1"
  obtain k where k: "vig_factor m delta k" using assms(4) vig_factors by auto
  have f: "finite_f ?a" "finite_f ?b" "0 \<le> rv ?a" "0 \<le> rv ?b" "rv ?a \<le> 1" "rv ?b \<le> 1"
    using assms(2,3) by (simp_all add: feed_ok_def)
  note F = fair_sum [OF f assms(5)]
  define r0 where "r0 = price_selection m delta s0 (fair ?a (fadd ?a ?b))"
  define r1 where "r1 = price_selection m delta s1 (fair ?b (fadd ?a ?b))"
  have c: "ComputeMarketOdds m [s0, s1] delta = [r0, r1]"
    using ComputeMarketOdds_two [OF market_total(3) [OF f assms(5)], of m delta] by (simp add: Let_def r0_def r1_def)
  note Q0 = quote_okI [OF assms(1) F(1) k r0_def assms(2)] and Q1 = quote_okI [OF assms(1) F(2) k r1_def assms(3)]
  have e: "1 / 2 ^ 49 + 1 / 2 ^ 52 + 1 / 2 ^ 52 < 4 / 10 ^ 8 + (4 / 10 ^ 8 :: real)" "(0::real) \<le> 1 / 2 ^ 52" by simp_all
  have s: "1 + 1 / 2 ^ 52 + 1 / 2 ^ 52 < rv (ViggedProb r0) + rv (ViggedProb r1)"
    using price_selection_ok(2) [OF assms(1) F(1) k r0_def] price_selection_ok(2) [OF assms(1) F(2) k r1_def] F(3) e(1)
    by linarith
  have "1 < 1 / rv (sr_Decimal r0) + 1 / rv (sr_Decimal r1)" if "sr_Decimal r0 \<noteq> Fin 0 \<and> sr_Decimal r1 \<noteq> Fin 0"
    using Q0(2) Q1(2) that s by linarith
  moreover have "1 < rv (ViggedProb r0) + rv (ViggedProb r1)" using s e(2) by linarith
  ultimately show ?thesis using c Q0(1) Q1(1) by blast
qed

text \<open>C16. The book always has a margin: with either vig, for every pair of feed probabilities between
  zero and one whose sum is not negligible, the implied probabilities of the two selections add up
  to more than one, each is strictly between zero and one, a price that is not zeroed is above 1 and
  at most 999999 (so the NUMERIC(10,4) column holds it) and is never above the feed's own odds,
  and when both sides are offered no split of a stake over them is a sure win.\<close>

theorem book_has_margin:
  assumes "libm_accurate m" "feed_ok s0" "feed_ok s1" "delta \<in> {vigDelta m, vigDeltaWide m}"
    and "1 / 2 ^ 50 \<le> rv (si_FeedProbability s0) + rv (si_FeedProbability s1)"
  shows "\<exists>r0 r1. ComputeMarketOdds m [s0, s1] delta = [r0, r1] \<and> quote_ok s0 r0 \<and> quote_ok s1 r1 \<and>
    1 < rv (ViggedProb r0) + rv (ViggedProb r1) \<and>
    (sr_Decimal r0 \<noteq> Fin 0 \<and> sr_Decimal r1 \<noteq> Fin 0 \<longrightarrow> 1 < 1 / rv (sr_Decimal r0) + 1 / rv (sr_Decimal r1))"
  by (rule book_margin [OF assms])

lemma fair_ge_feed:
  assumes "finite_f a" "finite_f b" "0 \<le> rv a" "0 \<le> rv b" "rv a \<le> 99999 / 10 ^ 5 + 1 / 2 ^ 53" "rv b \<le> 1"
    and "\<bar>rv a + rv b - 1\<bar> \<le> 1 / 2 ^ 52"
  shows "rv a - 1 / 2 ^ 49 \<le> rv (fair a (fadd a b))" and "rv a - 1 / 2 ^ 49 \<le> rv (fair a (fadd b a))"
proof -
  define s where "s = rv a + rv b"
  have e: "1 / 2 ^ 50 \<le> 1 - (1 / 2 ^ 52 :: real)" "99999 / 10 ^ 5 + 1 / 2 ^ 53 \<le> (1::real)"
    "99999 / 10 ^ 5 + 1 / 2 ^ 53 \<le> 1 - 1 / 10 ^ 6 - (1 / 2 ^ 53 :: real)" "1 / 2 ^ 51 + 1 / 2 ^ 51 \<le> (1 / 2 ^ 49 :: real)"
    "(0::real) \<le> 1 / 2 ^ 49" "(0::real) < 1 / 2 ^ 50"
    by simp_all
  have s: "1 / 2 ^ 50 \<le> rv a + rv b" "0 < s" "rv a \<le> 1" using assms(5,7) e unfolding s_def by linarith+
  have "fadd b a = fadd a b" by (auto simp: fadd_def add.commute conj_commute)
  moreover have "rv a - 1 / 2 ^ 49 \<le> rv (fair a (fadd a b))"
  proof -
    note t = market_total [OF assms(1-4) s(3) assms(6) s(1), folded s_def]
    have "rv a \<le> s" using assms(4) by (simp add: s_def)
    note f = fair_prob [OF assms(1,3) this t(2,1) s(2)]
    have "rv a - 1 / 2 ^ 51 \<le> rv a / s"
    proof -
      have "rv a * (s - 1) \<le> 1 / 2 ^ 52"
        using mult_mono [of "rv a" 1 "\<bar>s - 1\<bar>" "1 / 2 ^ 52"] assms(3,7) s(3) abs_ge_self [of "s - 1"]
          mult_left_mono [of "s - 1" "\<bar>s - 1\<bar>" "rv a"] by (simp add: s_def)
      moreover have "1 / 2 ^ 52 \<le> 1 / 2 ^ 51 * s"
      proof -
        have "1 / 2 \<le> s" using assms(7) unfolding s_def abs_le_iff by simp
        then have "1 / 2 ^ 51 * (1 / 2) \<le> 1 / 2 ^ 51 * s" by (intro mult_left_mono) auto
        then show ?thesis by simp
      qed
      ultimately have "(rv a - 1 / 2 ^ 51) * s \<le> rv a" by (simp only: left_diff_distrib right_diff_distrib)
      then show ?thesis using s(2) by (simp add: le_divide_eq)
    qed
    then have "rv a - 1 / 2 ^ 49 \<le> rv (fdiv a (fadd a b))" using f(3) e(4) by linarith
    moreover have "rv a - 1 / 2 ^ 49 \<le> rv (lit (1 - eps))" using eps_lits(4) assms(5) e(3,5) by linarith
    ultimately show ?thesis unfolding f(4) by (auto split: if_split)
  qed
  ultimately show "rv a - 1 / 2 ^ 49 \<le> rv (fair a (fadd a b))" and "rv a - 1 / 2 ^ 49 \<le> rv (fair a (fadd b a))"
    by simp_all
qed

lemma decimal_lit:
  assumes "0 \<le> n" "n \<le> 10 ^ 5"
  shows "finite_f (lit (of_int n / 10 ^ 5))" "\<bar>rv (lit (of_int n / 10 ^ 5)) - of_int n / 10 ^ 5\<bar> \<le> 1 / 2 ^ 53"
    "0 \<le> rv (lit (of_int n / 10 ^ 5))" "rv (lit (of_int n / 10 ^ 5)) \<le> 1"
proof -
  have "real_of_int n \<le> 10 ^ 5" using assms(2) by (metis of_int_le_iff of_int_numeral of_int_power)
  then have x: "0 \<le> real_of_int n / 10 ^ 5" "real_of_int n / 10 ^ 5 \<le> 1" using assms(1) by simp_all
  have "(2::real) \<le> 2 powi 1000" using two_powi_mono [of 1 1000] by simp
  then have l: "finite_f (lit (of_int n / 10 ^ 5))" "rv (lit (of_int n / 10 ^ 5)) = fl (of_int n / 10 ^ 5)"
    using lit_finite [of "of_int n / 10 ^ 5"] x by auto
  show "finite_f (lit (of_int n / 10 ^ 5))" by (rule l)
  show "\<bar>rv (lit (of_int n / 10 ^ 5)) - of_int n / 10 ^ 5\<bar> \<le> 1 / 2 ^ 53"
    unfolding l(2) using fl_error_le [of "of_int n / 10 ^ 5" 0] x by (simp add: power_int_minus)
  show "0 \<le> rv (lit (of_int n / 10 ^ 5))" unfolding l(2) by (rule fl_nonneg [OF x(1)])
  show "rv (lit (of_int n / 10 ^ 5)) \<le> 1" unfolding l(2)
    using x(2) representable_of_int [of 1] by (intro fl_le_rep) simp_all
qed

text \<open>Complementary feeds are always offered: when the two feed probabilities, as the catalog
  stores them with five decimals, add up to one and neither is zero, both selections get a price,
  and each implied probability is strictly above the feed's.\<close>

theorem complementary_feed_priced:
  assumes "libm_accurate m" "0 < n" "n < 10 ^ 5" "delta \<in> {vigDelta m, vigDeltaWide m}"
    and "si_FeedProbability s0 = lit (of_int n / 10 ^ 5)" "si_FeedProbability s1 = lit (of_int (10 ^ 5 - n) / 10 ^ 5)"
  shows "\<exists>r0 r1. ComputeMarketOdds m [s0, s1] delta = [r0, r1] \<and>
    rv (si_FeedProbability s0) < rv (ViggedProb r0) \<and> 1 < rv (sr_Decimal r0) \<and>
    rv (si_FeedProbability s1) < rv (ViggedProb r1) \<and> 1 < rv (sr_Decimal r1)"
proof -
  let ?a = "si_FeedProbability s0" and ?b = "si_FeedProbability s1"
  obtain k where k: "vig_factor m delta k" using assms(4) vig_factors by auto
  have N: "0 \<le> n" "n \<le> 10 ^ 5" "0 \<le> 10 ^ 5 - n" "10 ^ 5 - n \<le> 10 ^ 5" using assms(2,3) by simp_all
  note A = decimal_lit [OF N(1,2), folded assms(5)] and B = decimal_lit [OF N(3,4), folded assms(6)]
  have ab: "real_of_int n / 10 ^ 5 + of_int (10 ^ 5 - n) / 10 ^ 5 = 1" by (simp add: field_simps)
  have lt: "real_of_int n / 10 ^ 5 \<le> 99999 / 10 ^ 5" "real_of_int (10 ^ 5 - n) / 10 ^ 5 \<le> 99999 / 10 ^ 5"
    using assms(2,3) by simp_all
  have e: "1 / 2 ^ 53 + 1 / 2 ^ 53 \<le> (1 / 2 ^ 52 :: real)" "1 / 2 ^ 50 \<le> 1 - (1 / 2 ^ 52 :: real)"
    "1 / 2 ^ 49 < (4 / 10 ^ 8 :: real)" by simp_all
  have sum: "\<bar>rv ?a + rv ?b - 1\<bar> \<le> 1 / 2 ^ 52" using A(2) B(2) ab e(1) by linarith
  then have sum': "\<bar>rv ?b + rv ?a - 1\<bar> \<le> 1 / 2 ^ 52" "1 / 2 ^ 50 \<le> rv ?a + rv ?b" using e(2) by linarith+
  have le: "rv ?a \<le> 99999 / 10 ^ 5 + 1 / 2 ^ 53" "rv ?b \<le> 99999 / 10 ^ 5 + 1 / 2 ^ 53" using A(2) B(2) lt by linarith+
  note F = fair_sum [OF A(1) B(1) A(3) B(3) A(4) B(4) sum'(2)]
  have ge: "rv ?a - 1 / 2 ^ 49 \<le> rv (fair ?a (fadd ?a ?b))" "rv ?b - 1 / 2 ^ 49 \<le> rv (fair ?b (fadd ?a ?b))"
    using fair_ge_feed(1) [OF A(1) B(1) A(3) B(3) le(1) B(4) sum] fair_ge_feed(2) [OF B(1) A(1) B(3) A(3) le(2) A(4) sum'(1)]
    by simp_all
  have fo: "feed_ok s0" "feed_ok s1" using A B by (simp_all add: feed_ok_def)
  define r0 where "r0 = price_selection m delta s0 (fair ?a (fadd ?a ?b))"
  define r1 where "r1 = price_selection m delta s1 (fair ?b (fadd ?a ?b))"
  have c: "ComputeMarketOdds m [s0, s1] delta = [r0, r1]"
    using ComputeMarketOdds_two [OF market_total(3) [OF A(1) B(1) A(3) B(3) A(4) B(4) sum'(2)], of m delta]
    by (simp add: Let_def r0_def r1_def)
  have q: "rv ?a < rv (ViggedProb r0)" "rv ?b < rv (ViggedProb r1)"
    using price_selection_ok(2) [OF assms(1) F(1) k r0_def] price_selection_ok(2) [OF assms(1) F(2) k r1_def] ge e(3)
    by linarith+
  then show ?thesis
    using c quote_okI(1) [OF assms(1) F(1) k r0_def fo(1)] quote_okI(1) [OF assms(1) F(2) k r1_def fo(2)]
    by (auto simp: quote_ok_def)
qed

section \<open>American odds\<close>

lemma two_powi_big: "\<bar>x\<bar> \<le> 2 ^ 60 \<Longrightarrow> \<bar>x\<bar> \<le> (2::real) powi 1000"
  using two_powi_mono [of 60 1000] by simp

text \<open>Decimal odds close to those of \<open>- A\<close> convert to \<open>- A\<close>, and similarly for positive American odds.\<close>

lemma DecimalToAmerican_negative:
  assumes "finite_f d" "101 \<le> A" "A \<le> 10 ^ 6" "\<bar>rv d - (1 + 100 / of_int A)\<bar> \<le> 1 / of_int A ^ 2"
  shows "DecimalToAmerican d = - A"
proof -
  define a where "a = real_of_int A"
  have a: "101 \<le> a" "a \<le> 10 ^ 6"
    using assms(2,3) of_int_le_iff [where 'a = real, of 101 A] of_int_le_iff [where 'a = real, of A "10 ^ 6"] by (simp_all add: a_def)
  have "1 / a ^ 2 < 1 / a" using a by (simp add: power2_eq_square field_simps)
  moreover have "1 / a \<le> 1 / 101" "1 / 1000000 \<le> 1 / a" using a by (simp_all add: field_simps)
  moreover have "100 / a = 100 * (1 / a)" "99 / a = 99 * (1 / a)" by simp_all
  ultimately have d: "rv d < 2" "1 + 99 / 1000000 \<le> rv d" "\<bar>rv d - 1\<bar> \<le> 1" "99 / a \<le> rv d - 1"
    using assms(4) unfolding a_def [symmetric] by linarith+
  define y where "y = fsub d (Fin 1)"
  have y: "finite_f y" "rv y = fl (rv d - 1)"
    using fsub_finite [OF assms(1), of "Fin 1"] d two_powi_big [of "rv d - 1"] by (auto simp: y_def)
  have "\<bar>fl (rv d - 1) - (rv d - 1)\<bar> \<le> 1 / 2 ^ 53" using fl_error_le [of "rv d - 1" 0] d(3) by (simp add: power_int_minus)
  moreover have "1 / 2 ^ 53 \<le> 1 / a ^ 2"
  proof -
    have "a ^ 2 \<le> (10 ^ 6) ^ 2" using a by (intro power_mono) auto
    then have "a ^ 2 \<le> 2 ^ 53" by simp
    then show ?thesis using a by (intro divide_left_mono) auto
  qed
  ultimately have eta: "\<bar>rv y - 100 / a\<bar> \<le> 2 / a ^ 2" unfolding y(2)
    using assms(4) [folded a_def] add_divide_distrib [of 1 1 "a ^ 2"] by linarith
  have "2 / a ^ 2 \<le> 1 / a" using a by (simp add: power2_eq_square field_simps)
  moreover have "100 / a - 1 / a = 99 / a" by (simp flip: diff_divide_distrib)
  ultimately have yge: "99 / a \<le> rv y" using eta by linarith
  have "0 < 99 / a" using a by simp
  then have y0: "0 < rv y" using yge by linarith
  have q: "\<bar>- 100 / rv y - - a\<bar> \<le> 1 / 4"
  proof -
    have "- 100 / rv y - - a = a / rv y * (rv y - 100 / a)" using a y0 by (simp add: right_diff_distrib)
    then have "\<bar>- 100 / rv y - - a\<bar> = a / rv y * \<bar>rv y - 100 / a\<bar>" using a y0 by (simp add: abs_mult)
    also have "\<dots> \<le> a / (99 / a) * (2 / a ^ 2)"
      using a y0 yge eta by (intro mult_mono divide_left_mono) auto
    also have "\<dots> = 2 / 99" using a by (simp add: power2_eq_square)
    finally show ?thesis by simp
  qed
  define z where "z = fdiv (Fin (- 100)) y"
  have "a \<le> 1000000" "(2::real) ^ 20 = 1048576" using a(2) by simp_all
  then have qb: "\<bar>- 100 / rv y\<bar> \<le> 2 ^ 20" using q a(1) by linarith
  have z: "finite_f z" "rv z = fl (- 100 / rv y)"
    using fdiv_finite [of "Fin (- 100)" y] y y0 qb two_powi_big [of "- 100 / rv y"] by (auto simp: z_def)
  have "\<bar>- 100 / rv y\<bar> < 2 powi (20 + 1)" by (rule le_less_trans [OF qb]) simp
  then have "\<bar>fl (- 100 / rv y) - (- 100 / rv y)\<bar> \<le> 2 powi (20 - 53)" by (rule fl_error_le) simp
  also have "\<dots> < (1 / 4::real)" by (simp add: power_int_minus)
  finally have "\<bar>rv z - of_int (- A)\<bar> < 1 / 2" unfolding z(2) using q by (simp only: a_def of_int_minus)
  then have "int64_of_float (math_Round z) = - A" using assms(2,3) by (intro int64_of_Round [OF z(1)]) auto
  moreover have "\<not> fle (Fin 2) d" "\<not> fle d (Fin 1)" using assms(1) d(1,2) by (simp_all add: fle_finite)
  ultimately show ?thesis by (simp add: DecimalToAmerican_def z_def y_def)
qed

lemma DecimalToAmerican_positive:
  assumes "finite_f d" "2 \<le> rv d" "A \<le> 10 ^ 9" "\<bar>rv d - (1 + of_int A / 100)\<bar> \<le> 1 / 1000"
  shows "DecimalToAmerican d = A"
proof -
  have A: "real_of_int A \<le> 10 ^ 9" using assms(3) by (metis of_int_le_iff of_int_numeral of_int_power)
  then have A': "real_of_int A / 100 \<le> 10000000" by simp
  have d: "rv d \<le> 2 ^ 24" "1 \<le> rv d - 1" using assms(2,4) A' by (simp, linarith+)
  define y where "y = fsub d (Fin 1)"
  have y: "finite_f y" "rv y = fl (rv d - 1)"
    using fsub_finite [OF assms(1), of "Fin 1"] d two_powi_big [of "rv d - 1"] by (auto simp: y_def)
  have "\<bar>rv d - 1\<bar> < 2 powi (24 + 1)" using d by simp
  then have "\<bar>fl (rv d - 1) - (rv d - 1)\<bar> \<le> 2 powi (24 - 53)" by (rule fl_error_le) simp
  also have "\<dots> \<le> (1 / 1000::real)" by (simp add: power_int_minus)
  finally have e: "\<bar>rv y - of_int A / 100\<bar> \<le> 2 / 1000" unfolding y(2) using assms(4) by linarith
  define z where "z = fmul y (Fin 100)"
  have yb: "\<bar>rv y * 100\<bar> \<le> 2 ^ 31" using e d(2) A' assms(2,4) by (simp, linarith)
  have z: "finite_f z" "rv z = fl (rv y * 100)"
    using fmul_finite [OF y(1), of "Fin 100"] yb two_powi_big [of "rv y * 100"] by (auto simp: z_def)
  have "\<bar>rv y * 100\<bar> < 2 powi (31 + 1)" by (rule le_less_trans [OF yb]) simp
  then have "\<bar>fl (rv y * 100) - rv y * 100\<bar> \<le> 2 powi (31 - 53)" by (rule fl_error_le) simp
  also have "\<dots> < (1 / 4::real)" by (simp add: power_int_minus)
  finally have "\<bar>rv z - of_int A\<bar> < 1 / 2" unfolding z(2) using e by linarith
  moreover have "\<bar>A\<bar> < 2 ^ 60"
  proof -
    have "0 < real_of_int A" using assms(2,4) by linarith
    then have "0 < A" by simp
    then show ?thesis using assms(3) by simp
  qed
  ultimately have "int64_of_float (math_Round z) = A" using assms(3) by (intro int64_of_Round [OF z(1)]) auto
  moreover have "fle (Fin 2) d" using assms(1,2) by (simp add: fle_finite)
  ultimately show ?thesis by (simp add: DecimalToAmerican_def z_def y_def)
qed

lemma AmericanToDecimal_positive:
  assumes "100 \<le> a" "a \<le> 10 ^ 9"
  shows "finite_f (AmericanToDecimal a)" "2 \<le> rv (AmericanToDecimal a)"
    "\<bar>rv (AmericanToDecimal a) - (1 + of_int a / 100)\<bar> \<le> 1 / 1000"
proof -
  have a: "1 \<le> real_of_int a / 100" "real_of_int a / 100 \<le> 10000000" using assms by simp_all
  have f: "float64_of_int a = Fin (of_int a)" using assms by (intro float64_of_int_exact) simp
  define x where "x = fdiv (Fin (of_int a)) (Fin 100)"
  have x: "finite_f x" "rv x = fl (of_int a / 100)"
    using fdiv_finite [of "Fin (of_int a)" "Fin 100"] a two_powi_big [of "of_int a / 100"] by (auto simp: x_def)
  have rep: "representable 1" "representable 2"
    using representable_of_int [of 1] representable_of_int [of 2] by simp_all
  have x1: "1 \<le> rv x" unfolding x(2) by (rule fl_ge_rep [OF rep(1) a(1)])
  have "\<bar>real_of_int a / 100\<bar> < 2 powi (23 + 1)" using a by simp
  then have ex: "\<bar>rv x - of_int a / 100\<bar> \<le> 2 powi (23 - 53)" unfolding x(2) by (rule fl_error_le) simp
  have e: "(2::real) powi (23 - 53) \<le> 1 / 4000" "(2::real) powi (24 - 53) \<le> 1 / 4000" by (simp_all add: power_int_minus)
  have xb: "\<bar>rv x + 1\<bar> \<le> 16777216" using x1 ex e(1) a(2) by linarith
  have d: "AmericanToDecimal a = fadd x (Fin 1)" using assms(1) by (simp add: AmericanToDecimal_def x_def f)
  have D: "finite_f (AmericanToDecimal a)" "rv (AmericanToDecimal a) = fl (rv x + 1)"
    using fadd_finite [OF x(1), of "Fin 1"] xb two_powi_big [of "rv x + 1"] by (auto simp: d)
  have "\<bar>rv x + 1\<bar> < 2 powi (24 + 1)" using xb by simp
  then have "\<bar>fl (rv x + 1) - (rv x + 1)\<bar> \<le> 2 powi (24 - 53)" by (rule fl_error_le) simp
  then show "\<bar>rv (AmericanToDecimal a) - (1 + of_int a / 100)\<bar> \<le> 1 / 1000" unfolding D(2) using ex e by linarith
  show "finite_f (AmericanToDecimal a)" by (rule D)
  show "2 \<le> rv (AmericanToDecimal a)" unfolding D(2) using x1 by (intro fl_ge_rep [OF rep(2)]) simp
qed

lemma AmericanToDecimal_negative:
  assumes "100 \<le> a" "a \<le> 10 ^ 6"
  shows "finite_f (AmericanToDecimal (- a))" "\<bar>rv (AmericanToDecimal (- a)) - (1 + 100 / of_int a)\<bar> \<le> 1 / of_int a ^ 2"
    "a = 100 \<Longrightarrow> AmericanToDecimal (- a) = Fin 2"
proof -
  have a: "100 \<le> real_of_int a" "real_of_int a \<le> 1000000" using assms by simp_all
  have f: "float64_of_int (wrap64 a) = Fin (of_int a)"
    using assms by (subst wrap64_id) (auto simp: in_int64_def intro!: float64_of_int_exact)
  have q: "0 \<le> 100 / real_of_int a" "100 / real_of_int a \<le> 1" using a by (simp_all add: field_simps)
  define x where "x = fdiv (Fin 100) (Fin (of_int a))"
  have x: "finite_f x" "rv x = fl (100 / of_int a)"
    using fdiv_finite [of "Fin 100" "Fin (of_int a)"] a q two_powi_big [of "100 / of_int a"] by (auto simp: x_def)
  have ex: "\<bar>rv x - 100 / of_int a\<bar> \<le> 1 / 2 ^ 53" unfolding x(2)
    using fl_error_le [of "100 / of_int a" 0] q by (simp add: power_int_minus)
  have e: "1 / 2 ^ 53 \<le> (1::real)" "(2::real) powi (1 + 1) = 4" "1 / 2 ^ 52 + 1 / 2 ^ 53 \<le> (1 / 2 ^ 51 :: real)" by simp_all
  have xb: "\<bar>rv x + 1\<bar> \<le> 3" using ex e(1) q by linarith
  have d: "AmericanToDecimal (- a) = fadd x (Fin 1)" using assms(1) by (simp add: AmericanToDecimal_def x_def f)
  have D: "finite_f (AmericanToDecimal (- a))" "rv (AmericanToDecimal (- a)) = fl (rv x + 1)"
    using fadd_finite [OF x(1), of "Fin 1"] xb two_powi_big [of "rv x + 1"] by (auto simp: d)
  show "finite_f (AmericanToDecimal (- a))" by (rule D)
  have "\<bar>rv x + 1\<bar> < 2 powi (1 + 1)" unfolding e(2) using xb by linarith
  then have "\<bar>fl (rv x + 1) - (rv x + 1)\<bar> \<le> 2 powi (1 - 53)" by (rule fl_error_le) simp
  then have "\<bar>fl (rv x + 1) - (rv x + 1)\<bar> \<le> 1 / 2 ^ 52" by (simp add: power_int_minus)
  moreover have "1 / 2 ^ 51 \<le> 1 / real_of_int a ^ 2"
  proof -
    have "real_of_int a ^ 2 \<le> 1000000 ^ 2" using a by (intro power_mono) auto
    then have "real_of_int a ^ 2 \<le> 2 ^ 51" by simp
    then show ?thesis using a by (intro divide_left_mono) auto
  qed
  ultimately show "\<bar>rv (AmericanToDecimal (- a)) - (1 + 100 / of_int a)\<bar> \<le> 1 / of_int a ^ 2"
    unfolding D(2) using ex e(3) by linarith
  show "AmericanToDecimal (- a) = Fin 2" if "a = 100"
  proof -
    have "rv (AmericanToDecimal (- a)) = 2"
      using D(2) x(2) that fl_of_int [of 1] fl_of_int [of 2] by simp
    then show ?thesis using D(1) by (cases "AmericanToDecimal (- a)") auto
  qed
qed

text \<open>C17. American odds survive the conversion to decimal and back: for every whole number from 100 to
  10^9 and from -101 down to -10^6 the float64 computation returns the number itself, and -100, which
  is the same price as +100, returns 100.\<close>

theorem american_roundtrip:
  assumes "100 \<le> \<bar>a\<bar>" "a \<le> 10 ^ 9" "- (10 ^ 6) \<le> a"
  shows "DecimalToAmerican (AmericanToDecimal a) = (if a = - 100 then 100 else a)"
proof (cases "0 < a")
  case True
  then have a: "100 \<le> a" using assms(1) by simp
  note P = AmericanToDecimal_positive [OF a assms(2)]
  show ?thesis using True DecimalToAmerican_positive [OF P(1,2) assms(2) P(3)] by simp
next
  case False
  then have a: "100 \<le> - a" "- a \<le> 10 ^ 6" using assms(1,3) by simp_all
  note N = AmericanToDecimal_negative [OF a]
  show ?thesis
  proof (cases "a = - 100")
    case True
    have "DecimalToAmerican (Fin 2) = 100" by (rule DecimalToAmerican_positive) simp_all
    then show ?thesis using N(3) True by simp
  next
    case False
    then have "101 \<le> - a" using a(1) by simp
    then show ?thesis using DecimalToAmerican_negative [OF N(1) _ a(2) N(2)] False by simp
  qed
qed

theorem american_roundtrip_witness:
  "DecimalToAmerican (AmericanToDecimal 150) = 150 \<and> DecimalToAmerican (AmericanToDecimal (- 110)) = - 110 \<and>
   DecimalToAmerican (AmericanToDecimal (- 100)) = 100"
  using american_roundtrip [of 150] american_roundtrip [of "- 110"] american_roundtrip [of "- 100"] by simp

lemma vigged_near_even:
  assumes "1 < k" "0 \<le> x"
  shows "\<bar>vigged k x - k / (1 + k)\<bar> \<le> \<bar>2 * x - 1\<bar>"
proof -
  define D where "D = 1 + (k - 1) * x"
  have D: "1 \<le> D" using assms by (simp add: D_def)
  have "vigged k x - k / (1 + k) = k * (2 * x - 1) / (D * (1 + k))"
    using D assms by (simp add: vigged_def D_def [symmetric] divide_simps) (simp add: D_def algebra_simps)
  moreover have "k * 1 \<le> D * (1 + k)" using D assms mult_mono [of 1 D k "1 + k"] by simp
  then have "k / (D * (1 + k)) \<le> 1" using D assms by (simp add: divide_le_eq)
  then have "k / (D * (1 + k)) * \<bar>2 * x - 1\<bar> \<le> 1 * \<bar>2 * x - 1\<bar>" by (intro mult_right_mono) auto
  then have "\<bar>k * (2 * x - 1) / (D * (1 + k))\<bar> \<le> \<bar>2 * x - 1\<bar>" using D assms by (simp add: abs_mult)
  ultimately show ?thesis by simp
qed

lemma even_price:
  assumes "libm_accurate m" "fair_range p" "vig_factor m delta k" "\<bar>rv p - 1 / 2\<bar> \<le> 1 / 2 ^ 51"
    and "r = price_selection m delta s p" "feed_ok s" "rv (si_FeedProbability s) \<le> 1 / 2"
    and "k = of_int A / 100" "101 \<le> A"
  shows "sr_American r = - A"
proof -
  note P = price_selection_ok [OF assms(1-3,5)]
  define q where "q = rv (ViggedProb r)"
  have k: "1 < k" "k \<le> 2" using assms(3) by (simp_all add: vig_factor_def)
  have A2: "A \<le> 200" using k(2) assms(8) by simp
  have "1 / 2 ^ 51 \<le> 1 / 2 - (9 / 10 ^ 7 :: real)" "(0::real) \<le> 9 / 10 ^ 7" by simp_all
  then have p01: "0 \<le> rv p" "rv p \<le> 1" "9 / 10 ^ 7 \<le> rv p" "rv p \<le> 1 - 9 / 10 ^ 7"
    using assms(4) by linarith+
  have rq: "rel (1 / 2 ^ 42) q (vigged k (rv p))"
    using vigged_accurate(2) [OF assms(1) _ p01(3,4), of k delta] assms(2,3,5) k
    by (simp add: q_def fair_range_def vig_factor_def price_selection_def Let_def)
  have e: "2 * (1 / 2 ^ 51) + 1 / 2 ^ 42 \<le> (1 / 10 ^ 11 :: real)" by simp
  have dv: "\<bar>vigged k (rv p) - k / (1 + k)\<bar> \<le> 2 * (1 / 2 ^ 51)" using vigged_near_even [OF k(1) p01(1)] assms(4) by linarith
  have "0 \<le> vigged k (rv p)" using k p01 by (simp add: vigged_def)
  moreover have "vigged k (rv p) \<le> 1" using vigged_gap(2) [OF p01(1,2), of k] k p01 by linarith
  ultimately have "\<bar>q - vigged k (rv p)\<bar> \<le> 1 / 2 ^ 42 * 1"
    using rq mult_left_mono [of "vigged k (rv p)" 1 "1 / 2 ^ 42"] by (simp add: rel_def)
  then have dq: "\<bar>q - k / (1 + k)\<bar> \<le> 1 / 10 ^ 11" using dv e by linarith
  define w where "w = k / (1 + k)"
  have w: "11 / 21 \<le> w" "1 / w = 1 + 100 / of_int A" "1 / w \<le> 2" "0 < w"
  proof -
    show "11 / 21 \<le> w" using assms(3) by (simp add: w_def vig_factor_def field_simps)
    show "1 / w = 1 + 100 / of_int A" using k assms(8,9) by (simp add: w_def field_simps)
    show "1 / w \<le> 2" "0 < w" using k by (simp_all add: w_def field_simps)
  qed
  have "1 / 10 ^ 11 \<le> 2 / 10 ^ 11 * w" using w(1) by simp
  then have "rel (2 / 10 ^ 11) q w" using dq [folded w_def] w(4) by (simp only: rel_def abs_of_pos)
  then have i: "rel (2 * (2 / 10 ^ 11)) (1 / q) (1 / w)" using w(4) by (intro rel_inverse) auto
  have "103 / 10 ^ 8 \<le> 11 / 21 - (1 / 10 ^ 11 :: real)" "1 / 2 < 11 / 21 - (1 / 10 ^ 11 :: real)" by simp_all
  then have q: "103 / 10 ^ 8 \<le> q" "1 / 2 < q" using dq w(1) unfolding w_def by linarith+
  note d = price_of_prob [OF P(1) q(1) [unfolded q_def] P(3), folded q_def]
  from rel_trans [OF d(2) i] have "rel (1 / 10 ^ 10) (rv (fdiv (Fin 1) (ViggedProb r))) (1 / w)"
    by (rule rel_mono) simp_all
  then have "\<bar>rv (fdiv (Fin 1) (ViggedProb r)) - 1 / w\<bar> \<le> 1 / 10 ^ 10 * (1 / w)" using w(4) by (simp add: rel_def)
  also have "\<dots> \<le> 1 / 10 ^ 10 * 2" using w(3) by (intro mult_left_mono) auto
  also have "\<dots> \<le> 1 / real_of_int A ^ 2"
  proof -
    have "real_of_int A ^ 2 \<le> 200 ^ 2" using A2 assms(9) by (intro power_mono) auto
    then have "1 / 200 ^ 2 \<le> 1 / real_of_int A ^ 2" using assms(9) by (intro divide_left_mono) auto
    then show ?thesis by simp
  qed
  finally have "DecimalToAmerican (fdiv (Fin 1) (ViggedProb r)) = - A"
    using A2 assms(9) by (intro DecimalToAmerican_negative [OF d(1)]) (auto simp: w(2))
  moreover have "\<not> flt (ViggedProb r) (si_FeedProbability s)"
    using P(1) assms(6,7) q(2) by (simp add: flt_finite feed_ok_def q_def)
  ultimately show ?thesis using P(6) by simp
qed

lemma even_line:
  assumes "libm_accurate m" "feed_ok s0" "feed_ok s1" "si_FeedProbability s0 = si_FeedProbability s1"
    and "1 / 2 ^ 50 \<le> rv (si_FeedProbability s0)" "rv (si_FeedProbability s0) \<le> 1 / 2"
  shows "map sr_American (ComputeMarketOdds m [s0, s1] (vigDelta m)) = [- 110, - 110] \<and>
    map sr_American (ComputeMarketOdds m [s0, s1] (vigDeltaWide m)) = [- 115, - 115]"
proof -
  let ?a = "si_FeedProbability s0"
  have f: "finite_f ?a" "0 \<le> rv ?a" "rv ?a \<le> 1" using assms(2) by (simp_all add: feed_ok_def)
  have sum: "1 / 2 ^ 50 \<le> rv ?a + rv ?a" "rv ?a \<le> rv ?a + rv ?a" using assms(5) f by linarith+
  note t = market_total [OF f(1,1,2,2,3,3) sum(1)] and F = fair_sum [OF f(1,1,2,2,3,3) sum(1)]
  have "(0::real) < 1 / 2 ^ 50" by simp
  then have pos: "0 < rv ?a + rv ?a" "rv ?a / (rv ?a + rv ?a) = 1 / 2" using assms(5) by (linarith, simp)
  note p = fair_prob [OF f(1,2) sum(2) t(2,1) pos(1)]
  have d: "\<bar>rv (fdiv ?a (fadd ?a ?a)) - 1 / 2\<bar> \<le> 1 / 2 ^ 51" using p(3) by (simp only: pos(2))
  have "1 / 10 ^ 6 + 1 / 2 ^ 53 + 1 / 2 ^ 51 < (1 / 2 :: real)" by simp
  then have "rv (fair ?a (fadd ?a ?a)) = rv (fdiv ?a (fadd ?a ?a))"
    unfolding p(4) using d eps_lits(2,4) by (simp only: if_not_P not_less)
  then have half: "\<bar>rv (fair ?a (fadd ?a ?a)) - 1 / 2\<bar> \<le> 1 / 2 ^ 51" using d by simp
  have le: "rv (si_FeedProbability s1) \<le> 1 / 2" using assms(4,6) by simp
  have c: "ComputeMarketOdds m [s0, s1] delta =
      [price_selection m delta s0 (fair ?a (fadd ?a ?a)), price_selection m delta s1 (fair ?a (fadd ?a ?a))]" for delta
    using ComputeMarketOdds_two [of s0 s1 m delta] t(3) assms(4) by (simp add: Let_def)
  note E0 = even_price [OF assms(1) F(1) _ half refl assms(2,6)] and E1 = even_price [OF assms(1) F(1) _ half refl assms(3) le]
  have "sr_American (price_selection m (vigDelta m) s0 (fair ?a (fadd ?a ?a))) = - 110"
    "sr_American (price_selection m (vigDelta m) s1 (fair ?a (fadd ?a ?a))) = - 110"
    "sr_American (price_selection m (vigDeltaWide m) s0 (fair ?a (fadd ?a ?a))) = - 115"
    "sr_American (price_selection m (vigDeltaWide m) s1 (fair ?a (fadd ?a ?a))) = - 115"
    using E0 [OF vig_factors(1), of 110] E1 [OF vig_factors(1), of 110] E0 [OF vig_factors(2), of 115] E1 [OF vig_factors(2), of 115]
    by simp_all
  then show ?thesis by (simp add: c)
qed

text \<open>Even money is quoted at the advertised line: when both selections have the same feed
  probability, at most one half, the standard vig quotes -110 on both and the wide vig -115.\<close>

theorem even_money_line:
  assumes "libm_accurate m" "feed_ok s0" "feed_ok s1" "si_FeedProbability s0 = si_FeedProbability s1"
    and "1 / 2 ^ 50 \<le> rv (si_FeedProbability s0)" "rv (si_FeedProbability s0) \<le> 1 / 2"
  shows "map sr_American (ComputeMarketOdds m [s0, s1] (vigDelta m)) = [- 110, - 110] \<and>
    map sr_American (ComputeMarketOdds m [s0, s1] (vigDeltaWide m)) = [- 115, - 115]"
  by (rule even_line [OF assms])

text \<open>Rounding and converting a value of at least 100 in absolute value, or none at all, gives one.\<close>

definition hundred :: "float64 \<Rightarrow> bool" where
  "hundred x \<longleftrightarrow> x = NaN \<or> is_inf x \<or> finite_f x \<and> 100 \<le> \<bar>rv x\<bar>"

lemma int64_Round_hundred:
  assumes "hundred x"
  shows "100 \<le> \<bar>int64_of_float (math_Round x)\<bar>"
proof (cases "finite_f x")
  case True
  then have "100 \<le> \<bar>rv x\<bar>" using assms finite_fD [OF True] by (auto simp: hundred_def)
  then have "100 \<le> rv x \<or> 100 \<le> - rv x" by linarith
  then have "100 \<le> \<lfloor>rv x + 1 / 2\<rfloor> \<or> 100 \<le> \<lfloor>- rv x + 1 / 2\<rfloor>" by (simp only: le_floor_iff) linarith
  then have "100 \<le> \<bar>round_away (rv x)\<bar>" using \<open>100 \<le> \<bar>rv x\<bar>\<close> unfolding round_away_def by (auto simp: abs_if le_floor_iff)
  then show ?thesis using math_Round_finite [OF True] by (simp add: int64_of_float_def)
next
  case False
  then have "\<not> finite_f (math_Round x)" by (cases x) (simp_all add: math_Round_def)
  then show ?thesis by (simp add: int64_of_float_def)
qed

lemma rnd_hundred:
  assumes "100 \<le> \<bar>v\<bar>"
  shows "hundred (rnd s v)"
proof -
  have r: "representable 100" using representable_of_int [of 100] by simp
  have "100 \<le> \<bar>fl v\<bar>"
    using assms fl_ge_rep [OF r, of v] fl_ge_rep [OF r, of "- v"] by (auto simp: fl_minus abs_if split: if_splits)
  then show ?thesis by (auto simp: hundred_def rnd_def Let_def is_inf_def)
qed

lemma positive_american:
  assumes "fle (Fin 2) d"
  shows "hundred (fmul (fsub d (Fin 1)) (Fin 100))"
proof -
  have r: "representable 1" using representable_of_int [of 1] by simp
  consider "d = PosInf" | t where "d = Fin t" "2 \<le> t"
    using assms by (cases d) (auto simp: fle_def flt_def feq_def fkey_def)
  then show ?thesis
  proof cases
    case 1
    then show ?thesis by (simp add: hundred_def fsub_def fadd_def fmul_def fneg_def is_inf_def Let_def)
  next
    case 2
    define y where "y = fsub d (Fin 1)"
    have "y = rnd False (t - 1)" using 2 by (simp add: y_def fsub_def fadd_def fneg_def is_inf_def)
    moreover have "1 \<le> fl (t - 1)" using 2(2) by (intro fl_ge_rep [OF r]) simp
    ultimately consider "y = PosInf" | u where "y = Fin u" "1 \<le> u" by (auto simp: rnd_def Let_def split: if_splits)
    then have "hundred (fmul y (Fin 100))"
    proof cases
      case 1
      then show ?thesis by (simp add: fmul_def Let_def is_inf_def hundred_def)
    next
      case 2
      then show ?thesis by (auto simp: fmul_def Let_def is_inf_def intro!: rnd_hundred)
    qed
    then show ?thesis by (simp add: y_def)
  qed
qed

lemma negative_american:
  assumes "\<not> fle (Fin 2) d" "\<not> fle d (Fin 1)"
  shows "hundred (fdiv (Fin (- 100)) (fsub d (Fin 1)))"
proof -
  have r: "representable 1" using representable_of_int [of 1] by simp
  consider "d = NaN" | t where "d = Fin t" "1 < t" "t < 2"
    using assms by (cases d) (auto simp: fle_def flt_def feq_def fkey_def)
  then show ?thesis
  proof cases
    case 1
    then show ?thesis by (simp add: hundred_def fsub_def fadd_def fdiv_def)
  next
    case 2
    define y where "y = fsub d (Fin 1)"
    have "y = rnd False (t - 1)" using 2 by (simp add: y_def fsub_def fadd_def fneg_def is_inf_def)
    moreover have "0 \<le> fl (t - 1)" "fl (t - 1) \<le> 1" using 2 by (auto intro: fl_nonneg fl_le_rep [OF r])
    moreover have "(1::real) < 2 ^ 1024" by (rule one_less_power) simp_all
    ultimately have y: "y = Fin (fl (t - 1))" by (auto simp: rnd_def Let_def)
    define u where "u = fl (t - 1)"
    have u: "y = Fin u" "0 \<le> u" "u \<le> 1" using y \<open>0 \<le> fl (t - 1)\<close> \<open>fl (t - 1) \<le> 1\<close> by (simp_all add: u_def)
    show ?thesis
    proof (cases "u = 0")
      case True
      then show ?thesis unfolding y_def [symmetric] by (simp add: u fdiv_def hundred_def is_inf_def signbit_def Let_def)
    next
      case False
      then have "100 \<le> \<bar>- 100 / u\<bar>" using u by (simp add: field_simps)
      then show ?thesis using rnd_hundred [of "- 100 / u"] False unfolding y_def [symmetric]
        by (simp add: u fdiv_def is_inf_def Let_def)
    qed
  qed
qed

text \<open>The conversion to American odds is total: odds of at most 1 give 0, and every other float64,
  infinities and NaN included, gives a number of absolute value at least 100.\<close>

theorem DecimalToAmerican_range:
  "if fle d (Fin 1) then DecimalToAmerican d = 0 else 100 \<le> \<bar>DecimalToAmerican d\<bar>"
proof -
  have "\<not> fle (Fin 2) d" if "fle d (Fin 1)" using that by (cases d) (auto simp: fle_def flt_def feq_def fkey_def)
  then show ?thesis
    using int64_Round_hundred [OF positive_american [of d]] int64_Round_hundred [OF negative_american [of d]]
    by (auto simp: DecimalToAmerican_def)
qed

theorem DecimalToAmerican_range_witness: "DecimalToAmerican (Fin 1) = 0 \<and> 100 \<le> \<bar>DecimalToAmerican (Fin 2)\<bar>"
  using DecimalToAmerican_range [of "Fin 1"] DecimalToAmerican_range [of "Fin 2"] by (simp add: fle_finite)

text \<open>The American odds of a quoted price fit an INT column.\<close>

lemma int64_Round_le:
  assumes "finite_f x" "\<bar>rv x\<bar> \<le> of_int B" "B < 2 ^ 60"
  shows "\<bar>int64_of_float (math_Round x)\<bar> \<le> B"
proof -
  have "0 \<le> real_of_int B" using assms(2) by linarith
  then have B: "0 \<le> B" by simp
  have r: "\<bar>round_away (rv x)\<bar> \<le> B"
  proof (cases "rv x < 0")
    case True
    then have "\<lfloor>- rv x + 1 / 2\<rfloor> \<le> B" "0 \<le> \<lfloor>- rv x + 1 / 2\<rfloor>" using assms(2) by (simp_all add: floor_le_iff)
    then show ?thesis using True by (simp add: round_away_def)
  next
    case False
    then have "\<lfloor>rv x + 1 / 2\<rfloor> \<le> B" "0 \<le> \<lfloor>rv x + 1 / 2\<rfloor>" using assms(2) by (simp_all add: floor_le_iff)
    then show ?thesis using False by (simp add: round_away_def)
  qed
  then have "- (2 ^ 63) \<le> round_away (rv x)" "round_away (rv x) < 2 ^ 63" using assms(3) by auto
  then show ?thesis using math_Round_finite [OF assms(1)] r by (simp add: int64_of_float_def)
qed

lemma DecimalToAmerican_bound:
  assumes "finite_f d" "1 + 9 / 10 ^ 8 \<le> rv d" "rv d < 10 ^ 6"
  shows "\<bar>DecimalToAmerican d\<bar> \<le> 2 * 10 ^ 9"
proof -
  define y where "y = fsub d (Fin 1)"
  have db: "0 < rv d - 1" "rv d - 1 \<le> 1000000" using assms(2,3) by (simp_all add: field_simps)
  have y: "finite_f y" "rv y = fl (rv d - 1)"
    using fsub_finite [OF assms(1), of "Fin 1"] db two_powi_big [of "rv d - 1"] by (auto simp: y_def)
  have rep: "representable 1000000" "representable 100000000" "representable 2000000000"
    using representable_of_int [of 1000000] representable_of_int [of 100000000] representable_of_int [of 2000000000] by simp_all
  have y1: "rv y \<le> 1000000" "0 \<le> rv y" unfolding y(2) using db by (auto intro: fl_le_rep [OF rep(1)] fl_nonneg)
  show ?thesis
  proof (cases "fle (Fin 2) d")
    case True
    define z where "z = fmul y (Fin 100)"
    have z: "finite_f z" "rv z = fl (rv y * 100)"
      using fmul_finite [OF y(1), of "Fin 100"] y1 two_powi_big [of "rv y * 100"] by (auto simp: z_def)
    have "\<bar>rv z\<bar> \<le> 100000000" unfolding z(2) using y1 by (intro fl_abs_le rep) simp
    then have "\<bar>int64_of_float (math_Round z)\<bar> \<le> 2 * 10 ^ 9" by (intro int64_Round_le [OF z(1)]) simp_all
    then show ?thesis using True by (simp add: DecimalToAmerican_def z_def y_def)
  next
    case False
    have "rel (1 / 2 ^ 53) (rv y) (rv d - 1)" unfolding y(2) using assms(2) by (intro rel_flp [of "9 / 10 ^ 8"]) simp_all
    then have "\<bar>rv y - (rv d - 1)\<bar> \<le> 1 / 2 ^ 53 * (rv d - 1)" using db by (simp add: rel_def)
    moreover have "1 / 2 ^ 53 * (rv d - 1) \<le> 1 / 10 * (rv d - 1)" using db by (intro mult_right_mono) auto
    moreover have "9 / 10 * (rv d - 1) = rv d - 1 - 1 / 10 * (rv d - 1)" by (simp add: field_simps)
    ultimately have "9 / 10 * (rv d - 1) \<le> rv y" by linarith
    moreover have "9 / 10 * (9 / 10 ^ 8) \<le> 9 / 10 * (rv d - 1)" using assms(2) by (intro mult_left_mono) auto
    ultimately have yl: "1 / 20000000 \<le> rv y" by simp
    then have q: "\<bar>- 100 / rv y\<bar> \<le> 2000000000" by (simp add: divide_le_eq)
    define z where "z = fdiv (Fin (- 100)) y"
    have z: "finite_f z" "rv z = fl (- 100 / rv y)"
      using fdiv_finite [of "Fin (- 100)" y] y(1) yl q two_powi_big [of "- 100 / rv y"] by (auto simp: z_def)
    have "\<bar>rv z\<bar> \<le> 2000000000" unfolding z(2) by (rule fl_abs_le [OF q rep(3)])
    then have "\<bar>int64_of_float (math_Round z)\<bar> \<le> 2 * 10 ^ 9" by (intro int64_Round_le [OF z(1)]) simp_all
    then show ?thesis using False by (simp add: DecimalToAmerican_def z_def y_def)
  qed
qed

section \<open>The bisection\<close>

definition delta_range :: "float64 \<Rightarrow> bool" where
  "delta_range x \<longleftrightarrow> finite_f x \<and> 0 \<le> rv x \<and> rv x \<le> 5"

lemma midpoint_range:
  assumes "delta_range lo" "delta_range hi"
  shows "delta_range (fdiv (fadd lo hi) (Fin 2))"
proof -
  have l: "finite_f lo" "finite_f hi" "0 \<le> rv lo + rv hi" "rv lo + rv hi \<le> 10" using assms by (auto simp: delta_range_def)
  have rep: "representable 10" "representable 5" using representable_of_int [of 10] representable_of_int [of 5] by simp_all
  define s where "s = fadd lo hi"
  have s: "finite_f s" "rv s = fl (rv lo + rv hi)"
    using fadd_finite [OF l(1,2)] l(3,4) two_powi_big [of "rv lo + rv hi"] by (auto simp: s_def)
  have b: "0 \<le> rv s" "rv s \<le> 10" unfolding s(2) by (rule fl_nonneg [OF l(3)], rule fl_le_rep [OF rep(1) l(4)])
  have h: "finite_f (fdiv s (Fin 2))" "rv (fdiv s (Fin 2)) = fl (rv s / 2)"
    using fdiv_finite [OF s(1), of "Fin 2"] b two_powi_big [of "rv s / 2"] by auto
  then show ?thesis using b fl_nonneg [of "rv s / 2"] fl_le_rep [OF rep(2), of "rv s / 2"] by (simp add: delta_range_def s_def [symmetric])
qed

lemma bisect_range:
  "delta_range lo \<Longrightarrow> delta_range hi \<Longrightarrow> bisect n m p0 p1 (lo, hi) = (lo', hi') \<Longrightarrow> delta_range lo' \<and> delta_range hi'"
proof (induction n arbitrary: lo hi)
  case (Suc n)
  have "\<exists>lh \<in> {(fdiv (fadd lo hi) (Fin 2), hi), (lo, fdiv (fadd lo hi) (Fin 2))}. bisect (Suc n) m p0 p1 (lo, hi) = bisect n m p0 p1 lh"
    by (simp add: Let_def split: prod.split if_split)
  then obtain lo1 hi1 where b: "bisect n m p0 p1 (lo1, hi1) = (lo', hi')"
    and lh: "(lo1, hi1) = (fdiv (fadd lo hi) (Fin 2), hi) \<or> (lo1, hi1) = (lo, fdiv (fadd lo hi) (Fin 2))"
    using Suc.prems(3) by auto
  have "delta_range lo1" "delta_range hi1" using lh Suc.prems(1,2) midpoint_range [OF Suc.prems(1,2)] by auto
  then show ?case using Suc.IH b by blast
qed simp

lemma find20CentDelta_range: "delta_range (find20CentDelta m p0 p1)"
proof -
  have "delta_range (Fin 0)" "delta_range (Fin 5)" by (simp_all add: delta_range_def)
  moreover obtain lo hi where e: "bisect 100 m p0 p1 (Fin 0, Fin 5) = (lo, hi)" by (rule prod.exhaust)
  ultimately have "delta_range lo" "delta_range hi" using bisect_range [OF _ _ e] by blast+
  then show ?thesis by (simp only: find20CentDelta_def e prod.case midpoint_range)
qed

section \<open>Liability\<close>

lemma rel_mult:
  assumes "rel e x y" "rel f u v" "0 \<le> e"
  shows "rel (e + f + e * f) (x * u) (y * v)"
proof -
  have "\<bar>u\<bar> \<le> \<bar>v\<bar> + f * \<bar>v\<bar>" using assms(2) unfolding rel_def by linarith
  then have "\<bar>x - y\<bar> * \<bar>u\<bar> \<le> e * \<bar>y\<bar> * (\<bar>v\<bar> + f * \<bar>v\<bar>)"
    using assms(1,3) unfolding rel_def by (intro mult_mono) auto
  moreover have "\<bar>y\<bar> * \<bar>u - v\<bar> \<le> \<bar>y\<bar> * (f * \<bar>v\<bar>)" using assms(2) unfolding rel_def by (intro mult_left_mono) auto
  moreover have "\<bar>x * u - y * v\<bar> \<le> \<bar>x - y\<bar> * \<bar>u\<bar> + \<bar>y\<bar> * \<bar>u - v\<bar>"
  proof -
    have "x * u - y * v = (x - y) * u + y * (u - v)" by (simp add: algebra_simps)
    then show ?thesis using abs_triangle_ineq [of "(x - y) * u" "y * (u - v)"] by (simp add: abs_mult)
  qed
  ultimately have "\<bar>x * u - y * v\<bar> \<le> e * \<bar>y\<bar> * (\<bar>v\<bar> + f * \<bar>v\<bar>) + \<bar>y\<bar> * (f * \<bar>v\<bar>)" by linarith
  then show ?thesis by (simp add: rel_def abs_mult algebra_simps)
qed

text \<open>A large bet shortens the price by one percent and never through even money's floor: for odds
  from 1.0001 to a million the adjusted price stays strictly above 1, is strictly below the old one
  and is the exact value up to a billionth; smaller stakes leave the price alone.\<close>

theorem adjustForLiability_shortens:
  assumes "finite_f d" "1 + 1 / 10000 \<le> rv d" "rv d \<le> 1000000"
  shows "if 5000 < stake
    then finite_f (adjustForLiability d stake) \<and> 1 < rv (adjustForLiability d stake) \<and> rv (adjustForLiability d stake) < rv d \<and>
      \<bar>rv (adjustForLiability d stake) - (1 + (rv d - 1) * (99 / 100))\<bar> \<le> 1 / 10 ^ 9
    else adjustForLiability d stake = d"
proof (cases "5000 < stake")
  case True
  define y where "y = fsub d (Fin 1)"
  define c where "c = lit (99 / 100)"
  define z where "z = fmul y c"
  have y: "finite_f y" "rv y = fl (rv d - 1)"
    using fsub_finite [OF assms(1), of "Fin 1"] assms two_powi_big [of "rv d - 1"] by (auto simp: y_def)
  have c: "finite_f c" "rv c = fl (99 / 100)" using lit_finite [of "99 / 100"] two_powi_big [of "99 / 100"] by (simp_all add: c_def)
  define D where "D = rv d - 1"
  have D: "1 / 10000 \<le> D" "D \<le> 999999" using assms(2,3) by (simp_all add: D_def)
  have dd: "rv d = 1 + D" by (simp add: D_def)
  have "rel (1 / 2 ^ 53) (rv y) D" unfolding y(2) D_def using assms(2) by (intro rel_flp [of "1 / 10000"]) simp_all
  moreover have "rel (1 / 2 ^ 53) (rv c) (99 / 100)" unfolding c(2) by (rule rel_flp [OF order_refl]) simp
  ultimately have rp: "rel (1 / 2 ^ 53 + 1 / 2 ^ 53 + 1 / 2 ^ 53 * (1 / 2 ^ 53)) (rv y * rv c) (D * (99 / 100))"
    by (rule rel_mult) simp_all
  then have rp: "rel (1 / 2 ^ 51) (rv y * rv c) (D * (99 / 100))" by (rule rel_mono) simp
  then have "\<bar>rv y * rv c - D * (99 / 100)\<bar> \<le> 1 / 2 ^ 51 * (D * (99 / 100))" using D(1) by (simp add: rel_def)
  moreover have "1 / 2 ^ 51 * (D * (99 / 100)) \<le> 1 / 2 ^ 51 * 999999" using D by (intro mult_left_mono) auto
  moreover have "1 / 2 ^ 51 * 999999 \<le> (1 / 1000000 :: real)" by simp
  ultimately have yc: "1 / 20000 \<le> rv y * rv c" "rv y * rv c \<le> 1000000" using D by linarith+
  have z: "finite_f z" "rv z = fl (rv y * rv c)"
    using fmul_finite [OF y(1) c(1)] yc two_powi_big [of "rv y * rv c"] by (auto simp: z_def)
  have "rel (1 / 2 ^ 53) (rv z) (rv y * rv c)" unfolding z(2) by (rule rel_flp [OF yc(1)]) simp
  from rel_trans [OF this rp] have "rel (1 / 2 ^ 50) (rv z) (D * (99 / 100))" by (rule rel_mono) simp_all
  then have "\<bar>rv z - D * (99 / 100)\<bar> \<le> 1 / 2 ^ 50 * (D * (99 / 100))" using D(1) by (simp add: rel_def)
  moreover have "1 / 2 ^ 50 * (D * (99 / 100)) \<le> 1 / 2 ^ 50 * (999999 * (99 / 100))" using D by (intro mult_left_mono) auto
  moreover have "1 / 2 ^ 50 * (999999 * (99 / 100)) \<le> (9 / 10000000000 :: real)" by simp
  ultimately have rz: "\<bar>rv z - D * (99 / 100)\<bar> \<le> 9 / 10000000000" by linarith
  have zb: "\<bar>1 + rv z\<bar> \<le> 1048575" using rz D by linarith
  have r: "finite_f (fadd (Fin 1) z)" "rv (fadd (Fin 1) z) = fl (1 + rv z)"
    using fadd_finite [of "Fin 1" z] z zb two_powi_big [of "1 + rv z"] by auto
  have "\<bar>1 + rv z\<bar> < 2 powi (19 + 1)" using zb by simp
  then have "\<bar>fl (1 + rv z) - (1 + rv z)\<bar> \<le> 2 powi (19 - 53)" by (rule fl_error_le) simp
  moreover have "(2::real) powi (19 - 53) \<le> 1 / 10000000000" by (simp add: power_int_minus)
  ultimately have e: "\<bar>rv (fadd (Fin 1) z) - (1 + D * (99 / 100))\<bar> \<le> 1 / 1000000000" unfolding r(2) using rz by linarith
  then have "1 < rv (fadd (Fin 1) z)" "rv (fadd (Fin 1) z) < rv d" using D dd by linarith+
  moreover have "adjustForLiability d stake = fadd (Fin 1) z"
    using True assms(1,2) by (simp add: adjustForLiability_def z_def y_def c_def flt_finite)
  ultimately show ?thesis using True r(1) e by (simp add: D_def)
next
  case False
  then show ?thesis by (simp add: adjustForLiability_def)
qed

theorem adjustForLiability_shortens_witness:
  "1 < rv (adjustForLiability (Fin 2) 10000) \<and> rv (adjustForLiability (Fin 2) 10000) < 2 \<and> adjustForLiability (Fin 2) 5000 = Fin 2"
  using adjustForLiability_shortens [of "Fin 2" 10000] adjustForLiability_shortens [of "Fin 2" 5000] by simp

section \<open>An accurate library\<close>

text \<open>Correct rounding meets the accuracy that is assumed of the library functions.\<close>

definition rounded_libm :: libm where
  "rounded_libm =
     \<lparr>math_Log = (\<lambda>x. if x = PosInf then PosInf else if \<not> finite_f x \<or> rv x < 0 then NaN
                      else if rv x = 0 then NegInf else rnd False (ln (rv x))),
      math_Exp = (\<lambda>x. if x = NaN then NaN else if x = PosInf then PosInf else if x = NegInf then Fin 0
                      else rnd False (exp (rv x)))\<rparr>"

lemma ln_range:
  assumes "representable r" "0 < r" "r < 2 ^ 1024"
  shows "\<bar>ln r\<bar> \<le> 2 powi 1000"
proof -
  obtain n e where r: "r = of_int n * 2 powi e" "- 1074 \<le> e" using assms(1) by (auto simp: representable_def)
  have "0 < n" using assms(2) r(1) two_powi_pos [of e] by (auto simp: zero_less_mult_iff)
  then have "1 * (2 powi (- 1074)) \<le> of_int n * (2::real) powi e" using two_powi_mono [OF r(2)] by (intro mult_mono) auto
  then have "2 powi (- 1074) \<le> r" by (simp add: r(1))
  then have lo: "1 / r \<le> 2 ^ 1074"
    using assms(2) two_powi_pos [of "- 1074"] by (simp only: power_int_minus power_int_of_nat [symmetric]) (simp add: field_simps)
  have l2: "ln 2 \<le> (1::real)" using ln_add_one_self_le_self2 [of 1] by simp
  have "ln r \<le> ln (2 ^ 1024)" using assms(2,3) by (simp del: ln_realpow)
  also have "\<dots> = 1024 * ln 2" by (subst ln_realpow) simp_all
  finally have a: "ln r \<le> 1024" using l2 by linarith
  have "ln (1 / r) \<le> ln (2 ^ 1074)" using assms(2) lo by (intro ln_mono) simp_all
  also have "\<dots> = 1074 * ln 2" by (subst ln_realpow) simp_all
  finally have "- ln r \<le> 1074" using l2 assms(2) by (simp add: ln_div)
  then have "\<bar>ln r\<bar> \<le> 2 ^ 60" using a by simp
  then show ?thesis by (rule two_powi_big [of "ln r"])
qed

lemma rnd_within_ulp:
  assumes "\<bar>v\<bar> \<le> 2 powi 1000"
  shows "finite_f (rnd s v) \<and> \<bar>rv (rnd s v) - v\<bar> \<le> 2 powi ulp_exp v"
proof -
  have "(2::real) powi ulp_exp v / 2 \<le> 2 powi ulp_exp v" using two_powi_pos [of "ulp_exp v"] by simp
  then show ?thesis using rnd_finite [OF assms] fl_error [of v] by (metis order_trans)
qed

lemma rounded_libm_accurate: "libm_accurate rounded_libm"
proof -
  have "finite_f (math_Log rounded_libm x) \<and> \<bar>rv (math_Log rounded_libm x) - ln (rv x)\<bar> \<le> 2 powi ulp_exp (ln (rv x))"
    if "f64_ok x" "finite_f x" "0 < rv x" for x
  proof -
    have "representable (rv x)" "rv x < 2 ^ 1024" using that by (cases x; simp add: f64_ok_def)+
    then have "\<bar>ln (rv x)\<bar> \<le> 2 powi 1000" using that(3) by (intro ln_range)
    moreover have "math_Log rounded_libm x = rnd False (ln (rv x))" using that by (auto simp: rounded_libm_def)
    ultimately show ?thesis using rnd_within_ulp by metis
  qed
  moreover have "finite_f (math_Exp rounded_libm x) \<and> \<bar>rv (math_Exp rounded_libm x) - exp (rv x)\<bar> \<le> 2 powi ulp_exp (exp (rv x))"
    if "f64_ok x" "finite_f x" "\<bar>rv x\<bar> \<le> 100" for x
  proof -
    have "exp (rv x) \<le> exp 100" using that(3) by simp
    also have "\<dots> = exp 1 ^ 100" by (simp flip: exp_of_nat_mult)
    also have "\<dots> \<le> 4 ^ 100" using exp_le by (intro power_mono) auto
    also have "\<dots> = (2 powi 200 :: real)" by simp
    also have "\<dots> \<le> 2 powi 1000" by (rule two_powi_mono) simp
    finally have "\<bar>exp (rv x)\<bar> \<le> 2 powi 1000" by simp
    moreover have "math_Exp rounded_libm x = rnd False (exp (rv x))" using that finite_fD [of x] by (auto simp: rounded_libm_def is_inf_def)
    ultimately show ?thesis using rnd_within_ulp by metis
  qed
  ultimately show ?thesis by (simp add: libm_accurate_def)
qed

definition sel_a :: SelectionInput where
  "sel_a = \<lparr>si_ID = ''a'', si_FeedProbability = lit (of_int 60000 / 10 ^ 5)\<rparr>"

definition sel_b :: SelectionInput where
  "sel_b = \<lparr>si_ID = ''b'', si_FeedProbability = lit (of_int 40000 / 10 ^ 5)\<rparr>"

definition sel_even :: SelectionInput where
  "sel_even = \<lparr>si_ID = ''c'', si_FeedProbability = Fin (1 / 2)\<rparr>"

theorem book_has_margin_witness:
  "\<exists>r0 r1. ComputeMarketOdds rounded_libm [sel_a, sel_b] (vigDelta rounded_libm) = [r0, r1] \<and>
     1 < rv (ViggedProb r0) + rv (ViggedProb r1)"
proof -
  note a = decimal_lit [of 60000] and b = decimal_lit [of 40000]
  have "feed_ok sel_a" "feed_ok sel_b" using a b by (simp_all add: feed_ok_def sel_a_def sel_b_def)
  moreover have "1 / 2 ^ 50 \<le> rv (si_FeedProbability sel_a) + rv (si_FeedProbability sel_b)"
  proof -
    have "1 / 2 ^ 53 + 1 / 2 ^ 50 \<le> (of_int 60000 / 10 ^ 5 :: real)" by simp
    moreover have "\<bar>rv (si_FeedProbability sel_a) - of_int 60000 / 10 ^ 5\<bar> \<le> 1 / 2 ^ 53" "0 \<le> rv (si_FeedProbability sel_b)"
      using a(2) b(3) by (simp_all add: sel_a_def sel_b_def)
    ultimately show ?thesis by linarith
  qed
  ultimately obtain r0 r1 where "ComputeMarketOdds rounded_libm [sel_a, sel_b] (vigDelta rounded_libm) = [r0, r1]"
    "1 < rv (ViggedProb r0) + rv (ViggedProb r1)"
    using book_has_margin [OF rounded_libm_accurate, of sel_a sel_b "vigDelta rounded_libm"] by blast
  then show ?thesis by blast
qed

theorem complementary_feed_priced_witness:
  "\<exists>r0 r1. ComputeMarketOdds rounded_libm [sel_a, sel_b] (vigDeltaWide rounded_libm) = [r0, r1] \<and>
     1 < rv (sr_Decimal r0) \<and> 1 < rv (sr_Decimal r1)"
  using complementary_feed_priced [OF rounded_libm_accurate, of 60000 "vigDeltaWide rounded_libm" sel_a sel_b]
  by (auto simp: sel_a_def sel_b_def)

theorem even_money_line_witness:
  "map sr_American (ComputeMarketOdds rounded_libm [sel_even, sel_even] (vigDelta rounded_libm)) = [- 110, - 110]"
  using even_money_line [OF rounded_libm_accurate, of sel_even sel_even] by (simp add: sel_even_def feed_ok_def)

end
