(* ===== verification/Catalog.thy ===== *)
theory Catalog
  imports Polymarket
begin

text \<open>
  The Market Catalog: \<^verbatim>\<open>src/internal/catalog/consumer.go\<close> (the consumer of the normalised
  feed), \<^verbatim>\<open>service.go\<close> (the RPCs and the market lifecycle) and \<^verbatim>\<open>status_cache.go\<close> (the
  warmer of the market-status cache), over the five tables of \<^verbatim>\<open>src/migrations/db_catalog\<close> with
  their keys, CHECK constraints and foreign keys. How PostgreSQL reads a timestamp text and rounds a
  number to the column's scale is a parameter (\<open>pg\<close>); numeric columns hold integers in units of the
  fifth decimal. The statements of one upsert are separate transactions, so an error leaves the
  earlier ones in place.
\<close>

section \<open>Tables\<close>

record sport_row =
  sport_id :: string
  sp_name :: string

record competition_row =
  competition_id :: string
  cm_sport_id :: string
  cm_name :: string
  country :: string

record event_row =
  event_id :: string
  ev_competition_id :: string
  ev_name :: string
  starts_at :: time
  ev_status :: string
  home_score :: int
  away_score :: int
  game_period :: string
  game_clock :: string
  ev_updated_at :: time

record market_row =
  mk_market_id :: string
  mk_event_id :: string
  mk_name :: string
  mk_status :: string
  market_type :: string
  mk_target_value :: int
  is_main :: bool
  opens_at :: time
  closes_at :: "time option"
  mk_updated_at :: time

record selection_row =
  sl_selection_id :: string
  sl_market_id :: string
  sl_name :: string
  active :: bool
  sl_target_value :: int
  feed_probability :: "int option"

record catalog_db =
  sports :: "sport_row tbl"
  competitions :: "competition_row tbl"
  events :: "event_row tbl"
  markets :: "market_row tbl"
  selections :: "selection_row tbl"

definition in_int32 :: "int \<Rightarrow> bool" where
  "in_int32 n \<longleftrightarrow> - (2 ^ 31) \<le> n \<and> n < 2 ^ 31"

definition event_chk :: "event_row \<Rightarrow> bool" where
  "event_chk e \<longleftrightarrow> ev_status e \<in> {''SCHEDULED'', ''LIVE'', ''FINISHED'', ''CANCELLED''} \<and> in_int32 (home_score e) \<and> in_int32 (away_score e)"

definition market_chk :: "market_row \<Rightarrow> bool" where
  "market_chk m \<longleftrightarrow> mk_status m \<in> {''OPEN'', ''SUSPENDED'', ''CLOSED'', ''SETTLED''} \<and>
     market_type m \<in> {''ML'', ''SPREAD'', ''TOTAL'', ''BINARY''} \<and> \<bar>mk_target_value m\<bar> < 10 ^ 10"

definition selection_chk :: "selection_row \<Rightarrow> bool" where
  "selection_chk s \<longleftrightarrow> \<bar>sl_target_value s\<bar> < 10 ^ 10 \<and> (case feed_probability s of None \<Rightarrow> True | Some p \<Rightarrow> 0 \<le> p \<and> p \<le> 10 ^ 5)"

section \<open>The consumer of the feed\<close>

record pg =
  pg_timestamp :: "string \<Rightarrow> time option"
  pg_numeric5 :: "float64 \<Rightarrow> int option"

datatype cat_call =
  SportIns | SportAck | CompIns | CompAck | EventUps | EventAck | MarketUps | MarketAck | SelUps | SelAck
| StateUpd | StateAck

record cat_env =
  ce_now :: time
  ce_faults :: "cat_call faults"
  ce_pg :: pg

text \<open>One Exec: the statement's new table or its refusal, and the two ways it can fail besides, before
  the database acts and after it did.\<close>

definition exec_stmt :: "'c faults \<Rightarrow> 'c \<Rightarrow> 'c \<Rightarrow> 'a option \<Rightarrow> ('a \<Rightarrow> 'd) \<Rightarrow> 'd \<Rightarrow> bool \<times> 'd" where
  "exec_stmt ft call ack m upd db =
     (if ft call then (False, db) else case m of None \<Rightarrow> (False, db) | Some t \<Rightarrow> (\<not> ft ack, upd t))"

fun run_stmts :: "('d \<Rightarrow> bool \<times> 'd) list \<Rightarrow> 'd \<Rightarrow> bool \<times> 'd" where
  "run_stmts [] db = (True, db)"
| "run_stmts (f # fs) db = (case f db of (ok, db') \<Rightarrow> if ok then run_stmts fs db' else (False, db'))"

definition upsert_sport :: "cat_env \<Rightarrow> NormalisedMarketEvent \<Rightarrow> catalog_db \<Rightarrow> bool \<times> catalog_db" where
  "upsert_sport env e db =
     (if ne_SportID e \<noteq> [] \<and> ne_SportName e \<noteq> []
      then exec_stmt (ce_faults env) SportIns SportAck
             (insert_nothing sport_id (\<lambda>_. True) (\<lambda>_. True) \<lparr>sport_id = ne_SportID e, sp_name = ne_SportName e\<rparr> (sports db))
             (\<lambda>t. db\<lparr>sports := t\<rparr>) db
      else (True, db))"

definition upsert_competition :: "cat_env \<Rightarrow> NormalisedMarketEvent \<Rightarrow> catalog_db \<Rightarrow> bool \<times> catalog_db" where
  "upsert_competition env e db =
     (if ne_CompetitionID e \<noteq> [] \<and> ne_CompetitionName e \<noteq> []
      then exec_stmt (ce_faults env) CompIns CompAck
             (insert_nothing competition_id (\<lambda>_. True) (\<lambda>c. by_key sport_id (cm_sport_id c) (sports db) \<noteq> None)
                \<lparr>competition_id = ne_CompetitionID e, cm_sport_id = ne_SportID e, cm_name = ne_CompetitionName e, country = ne_Country e\<rparr>
                (competitions db))
             (\<lambda>t. db\<lparr>competitions := t\<rparr>) db
      else (True, db))"

definition upsert_event :: "cat_env \<Rightarrow> NormalisedMarketEvent \<Rightarrow> catalog_db \<Rightarrow> bool \<times> catalog_db" where
  "upsert_event env e db =
     (if ne_EventID e \<noteq> [] \<and> ne_EventName e \<noteq> []
      then exec_stmt (ce_faults env) EventUps EventAck
             (Option.bind (pg_timestamp (ce_pg env) (ne_StartsAt e)) (\<lambda>t.
              upsert_row event_id event_chk (\<lambda>r. by_key competition_id (ev_competition_id r) (competitions db) \<noteq> None)
                \<lparr>event_id = ne_EventID e, ev_competition_id = ne_CompetitionID e, ev_name = ne_EventName e, starts_at = t,
                 ev_status = ne_EventStatus e, home_score = 0, away_score = 0, game_period = [], game_clock = [],
                 ev_updated_at = ce_now env\<rparr>
                (\<lambda>r. r\<lparr>ev_name := ne_EventName e, starts_at := t, ev_status := ne_EventStatus e, ev_updated_at := ce_now env\<rparr>)
                (events db)))
             (\<lambda>t. db\<lparr>events := t\<rparr>) db
      else (True, db))"

definition upsert_market :: "cat_env \<Rightarrow> NormalisedMarketEvent \<Rightarrow> catalog_db \<Rightarrow> bool \<times> catalog_db" where
  "upsert_market env e db =
     (if ne_MarketID e \<noteq> [] \<and> ne_MarketName e \<noteq> []
      then exec_stmt (ce_faults env) MarketUps MarketAck
             (Option.bind (pg_timestamp (ce_pg env) (ne_ClosesAt e)) (\<lambda>t.
              Option.bind (pg_numeric5 (ce_pg env) (ne_TargetValue e)) (\<lambda>v.
              upsert_row mk_market_id market_chk (\<lambda>r. by_key event_id (mk_event_id r) (events db) \<noteq> None)
                \<lparr>mk_market_id = ne_MarketID e, mk_event_id = ne_EventID e, mk_name = ne_MarketName e, mk_status = ne_MarketStatus e,
                 market_type = ne_MarketType e, mk_target_value = v, is_main = ne_IsMain e, opens_at = ce_now env,
                 closes_at = Some t, mk_updated_at = ce_now env\<rparr>
                (\<lambda>r. r\<lparr>mk_name := ne_MarketName e, market_type := ne_MarketType e, mk_target_value := v, is_main := ne_IsMain e,
                      mk_updated_at := ce_now env\<rparr>)
                (markets db))))
             (\<lambda>t. db\<lparr>markets := t\<rparr>) db
      else (True, db))"

definition upsert_selection :: "cat_env \<Rightarrow> NormalisedMarketEvent \<Rightarrow> catalog_db \<Rightarrow> bool \<times> catalog_db" where
  "upsert_selection env e db =
     (if ne_SelectionID e \<noteq> [] \<and> ne_SelectionName e \<noteq> []
      then exec_stmt (ce_faults env) SelUps SelAck
             (Option.bind (pg_numeric5 (ce_pg env) (ne_SelTargetValue e)) (\<lambda>v.
              Option.bind (pg_numeric5 (ce_pg env) (ne_FeedProbability e)) (\<lambda>p.
              upsert_row sl_selection_id selection_chk (\<lambda>r. by_key mk_market_id (sl_market_id r) (markets db) \<noteq> None)
                \<lparr>sl_selection_id = ne_SelectionID e, sl_market_id = ne_MarketID e, sl_name = ne_SelectionName e, active = ne_SelActive e,
                 sl_target_value = v, feed_probability = Some p\<rparr>
                (\<lambda>r. r\<lparr>sl_name := ne_SelectionName e, sl_target_value := v, feed_probability := Some p\<rparr>)
                (selections db))))
             (\<lambda>t. db\<lparr>selections := t\<rparr>) db
      else (True, db))"

definition handleCatalogUpsert :: "cat_env \<Rightarrow> NormalisedMarketEvent \<Rightarrow> catalog_db \<Rightarrow> bool \<times> catalog_db" where
  "handleCatalogUpsert env e db =
     run_stmts [upsert_sport env e, upsert_competition env e, upsert_event env e, upsert_market env e, upsert_selection env e] db"

definition handleGameState :: "cat_env \<Rightarrow> NormalisedMarketEvent \<Rightarrow> catalog_db \<Rightarrow> bool \<times> catalog_db" where
  "handleGameState env e db =
     exec_stmt (ce_faults env) StateUpd StateAck
       (update_rows event_chk (\<lambda>r. event_id r = ne_EventID e)
          (\<lambda>r. r\<lparr>home_score := ne_HomeScore e, away_score := ne_AwayScore e, game_period := ne_GamePeriod e,
                game_clock := ne_GameClock e, ev_status := ne_EventStatus e, ev_updated_at := ce_now env\<rparr>) (events db))
       (\<lambda>t. db\<lparr>events := t\<rparr>) db"

definition score_update :: "NormalisedMarketEvent \<Rightarrow> json" where
  "score_update e =
     JObj [(''type'', JStr ''score_update''), (''event_id'', JStr (ne_EventID e)), (''home_score'', JInt (ne_HomeScore e)),
       (''away_score'', JInt (ne_AwayScore e)), (''game_period'', JStr (ne_GamePeriod e)), (''game_clock'', JStr (ne_GameClock e)),
       (''status'', JStr (ne_EventStatus e))]"

text \<open>The handler's state: the database and the messages handed to the broadcaster. The loop marks
  every message, whatever happened to it.\<close>

record catalog_state =
  cat_db :: catalog_db
  broadcasts :: "json list"

definition catalog_handle :: "bool \<Rightarrow> cat_env \<Rightarrow> ConsumerMessage \<Rightarrow> catalog_state \<Rightarrow> bool \<times> catalog_state" where
  "catalog_handle has_broadcaster env msg st =
     (case decode_event (Value msg) of
        None \<Rightarrow> (True, st)
      | Some e \<Rightarrow>
          if ne_EventType e = ''catalog.upsert'' then (True, st\<lparr>cat_db := snd (handleCatalogUpsert env e (cat_db st))\<rparr>)
          else if ne_EventType e = ''game.state''
          then (case handleGameState env e (cat_db st) of (ok, db) \<Rightarrow>
                  (True, \<lparr>cat_db = db, broadcasts = broadcasts st @ (if ok \<and> has_broadcaster then [score_update e] else [])\<rparr>))
          else (True, st))"

definition catalog_ConsumeClaim :: "bool \<Rightarrow> (ConsumerMessage \<Rightarrow> cat_env) \<Rightarrow> (int \<Rightarrow> 'c \<Rightarrow> 'c) \<Rightarrow> ConsumerMessage list \<Rightarrow>
    catalog_state \<times> 'c \<Rightarrow> catalog_state \<times> 'c" where
  "catalog_ConsumeClaim has_broadcaster ev commit = consume_claim (\<lambda>m. catalog_handle has_broadcaster (ev m) m) commit"

section \<open>The service\<close>

datatype MarketStatus =
  MARKET_STATUS_UNSPECIFIED | MARKET_STATUS_OPEN | MARKET_STATUS_SUSPENDED | MARKET_STATUS_CLOSED | MARKET_STATUS_SETTLED

record Market =
  mr_MarketId :: string
  mr_EventId :: string
  mr_Name :: string
  mr_Status :: MarketStatus
  mr_OpensAt :: time
  mr_ClosesAt :: time

record Selection =
  sr_MarketId :: string
  sr_SelectionId :: string
  sr_Name :: string
  sr_Active :: bool

definition marketStatusFromString :: "string \<Rightarrow> MarketStatus" where
  "marketStatusFromString s =
     (if s = ''OPEN'' then MARKET_STATUS_OPEN else if s = ''SUSPENDED'' then MARKET_STATUS_SUSPENDED
      else if s = ''CLOSED'' then MARKET_STATUS_CLOSED else if s = ''SETTLED'' then MARKET_STATUS_SETTLED
      else MARKET_STATUS_UNSPECIFIED)"

datatype svc_call = QMarket | QSelection | QMarkets | ScanMarket | UpdStatus | UpdStatusAck | SetStatus | SetStatusAck

text \<open>Scanning a NULL closes_at into a time.Time is an error.\<close>

definition scan_market :: "market_row \<Rightarrow> Market option" where
  "scan_market m =
     map_option (\<lambda>t. \<lparr>mr_MarketId = mk_market_id m, mr_EventId = mk_event_id m, mr_Name = mk_name m,
       mr_Status = marketStatusFromString (mk_status m), mr_OpensAt = opens_at m, mr_ClosesAt = t\<rparr>) (closes_at m)"

definition GetMarket :: "svc_call faults \<Rightarrow> string \<Rightarrow> catalog_db \<Rightarrow> grpc_status + Market" where
  "GetMarket ft marketId db =
     (if marketId = [] then Inl (Status InvalidArgument ''market_id required'')
      else ok_or (Option.bind (stmt ft QMarket (by_key mk_market_id marketId (markets db))) scan_market)
             (Status NotFound (''market '' @ marketId @ '' not found'')))"

definition GetSelection :: "svc_call faults \<Rightarrow> string \<Rightarrow> catalog_db \<Rightarrow> grpc_status + Selection" where
  "GetSelection ft selectionId db =
     (if selectionId = [] then Inl (Status InvalidArgument ''selection_id required'')
      else sbind (ok_or (stmt ft QSelection (by_key sl_selection_id selectionId (selections db)))
                   (Status NotFound (''selection '' @ selectionId @ '' not found''))) (\<lambda>s.
             Inr \<lparr>sr_MarketId = sl_market_id s, sr_SelectionId = sl_selection_id s, sr_Name = sl_name s, sr_Active = active s\<rparr>))"

text \<open>\<open>coll\<close> is the collation key of a name; \<open>brk\<close> is where the row stream breaks, if it does (the code
  does not look at \<^verbatim>\<open>rows.Err\<close>).\<close>

definition ListMarkets :: "svc_call faults \<Rightarrow> (string \<Rightarrow> int) \<Rightarrow> nat option \<Rightarrow> string \<Rightarrow> int \<Rightarrow> catalog_db \<Rightarrow> grpc_status + Market list" where
  "ListMarkets ft coll brk eventId pageSize db =
     (if ft QMarkets \<or> pageSize < 0 then Inl (Status Internal ''query markets'')
      else let rows = take (nat pageSize) (sort_key (\<lambda>m. coll (mk_name m)) (filter (\<lambda>m. mk_event_id m = eventId) (markets db)));
               rows = (case brk of None \<Rightarrow> rows | Some n \<Rightarrow> take n rows)
           in if list_all (\<lambda>m. scan_market m \<noteq> None) rows then Inr (map (\<lambda>m. the (scan_market m)) rows)
              else Inl (Status Internal ''scan market''))"

record market_state =
  ms_db :: catalog_db
  redisMarket :: "string redis"

definition marketStatusTTL :: time where
  "marketStatusTTL = 5 * second"

definition status_key :: "string \<Rightarrow> string" where
  "status_key marketID = ''market:status:'' @ marketID"

text \<open>The result is whether nil was returned.\<close>

definition setMarketStatus :: "svc_call faults \<Rightarrow> time \<Rightarrow> string \<Rightarrow> string \<Rightarrow> market_state \<Rightarrow> bool \<times> market_state" where
  "setMarketStatus ft now marketID newStatus st =
     (case exec_stmt ft UpdStatus UpdStatusAck
            (update_rows market_chk (\<lambda>m. mk_market_id m = marketID) (\<lambda>m. m\<lparr>mk_status := newStatus, mk_updated_at := now\<rparr>)
               (markets (ms_db st)))
            (\<lambda>t. st\<lparr>ms_db := (ms_db st)\<lparr>markets := t\<rparr>\<rparr>) st of
        (ok, st1) \<Rightarrow>
          if \<not> ok then (False, st1)
          else if ft SetStatus then (False, st1)
          else (\<not> ft SetStatusAck, st1\<lparr>redisMarket := redis_set now (status_key marketID) newStatus marketStatusTTL (redisMarket st1)\<rparr>))"

definition SuspendMarket :: "svc_call faults \<Rightarrow> time \<Rightarrow> string \<Rightarrow> market_state \<Rightarrow> bool \<times> market_state" where
  "SuspendMarket ft now marketID = setMarketStatus ft now marketID ''SUSPENDED''"

definition OpenMarket :: "svc_call faults \<Rightarrow> time \<Rightarrow> string \<Rightarrow> market_state \<Rightarrow> bool \<times> market_state" where
  "OpenMarket ft now marketID = setMarketStatus ft now marketID ''OPEN''"

definition CloseMarket :: "svc_call faults \<Rightarrow> time \<Rightarrow> string \<Rightarrow> market_state \<Rightarrow> bool \<times> market_state" where
  "CloseMarket ft now marketID = setMarketStatus ft now marketID ''CLOSED''"

section \<open>The status cache warmer\<close>

definition statusCacheTTL :: time where
  "statusCacheTTL = 5 * second"

text \<open>
  \<^verbatim>\<open>warm\<close> reads the table and then sends one pipeline, so it is two steps: \<open>warm_read\<close> gives the
  pairs it collected (None when it returns early), \<open>warm_exec\<close> applies the pipeline. A row that does
  not scan is skipped; a broken row stream returns without sending.
\<close>

definition warm_read :: "bool \<Rightarrow> bool \<Rightarrow> (market_row \<Rightarrow> bool) \<Rightarrow> catalog_db \<Rightarrow> (string \<times> string) list option" where
  "warm_read query_fails rows_err scan_fails db =
     (if query_fails \<or> rows_err then None
      else Some (map (\<lambda>m. (mk_market_id m, mk_status m))
             (filter (\<lambda>m. mk_status m \<in> {''OPEN'', ''SUSPENDED''} \<and> \<not> scan_fails m) (markets db))))"

definition warm_exec :: "bool \<Rightarrow> time \<Rightarrow> (string \<times> string) list \<Rightarrow> string redis \<Rightarrow> string redis" where
  "warm_exec exec_fails now pairs rdb =
     (if pairs = [] \<or> exec_fails then rdb
      else foldl (\<lambda>r (m, s). redis_set now (status_key m) s statusCacheTTL r) rdb pairs)"

definition warm :: "bool \<Rightarrow> bool \<Rightarrow> (market_row \<Rightarrow> bool) \<Rightarrow> bool \<Rightarrow> time \<Rightarrow> market_state \<Rightarrow> market_state" where
  "warm query_fails rows_err scan_fails exec_fails now st =
     (case warm_read query_fails rows_err scan_fails (ms_db st) of
        None \<Rightarrow> st | Some pairs \<Rightarrow> st\<lparr>redisMarket := warm_exec exec_fails now pairs (redisMarket st)\<rparr>)"

section \<open>Invariant\<close>

text \<open>Primary keys, CHECK constraints and the foreign keys of the schema.\<close>

definition catalog_inv :: "catalog_db \<Rightarrow> bool" where
  "catalog_inv db \<longleftrightarrow>
     table_ok sport_id (\<lambda>_. True) (sports db) \<and> table_ok competition_id (\<lambda>_. True) (competitions db) \<and>
     table_ok event_id event_chk (events db) \<and> table_ok mk_market_id market_chk (markets db) \<and>
     table_ok sl_selection_id selection_chk (selections db) \<and>
     (\<forall>c \<in> set (competitions db). cm_sport_id c \<in> sport_id ` set (sports db)) \<and>
     (\<forall>e \<in> set (events db). ev_competition_id e \<in> competition_id ` set (competitions db)) \<and>
     (\<forall>m \<in> set (markets db). mk_event_id m \<in> event_id ` set (events db)) \<and>
     (\<forall>s \<in> set (selections db). sl_market_id s \<in> mk_market_id ` set (markets db))"

lemma run_stmts_inv: "I db \<Longrightarrow> (\<And>f db. f \<in> set fs \<Longrightarrow> I db \<Longrightarrow> I (snd (f db))) \<Longrightarrow> I (snd (run_stmts fs db))"
proof (induction fs arbitrary: db)
  case (Cons f fs)
  obtain ok db' where f: "f db = (ok, db')" by fastforce
  then have "I db'" using Cons.prems(2) [of f db] Cons.prems(1) by simp
  then show ?case using Cons.IH Cons.prems(2) by (simp add: f)
qed simp

lemma exec_stmt_inv: "I db \<Longrightarrow> (\<And>t. m = Some t \<Longrightarrow> I (upd t)) \<Longrightarrow> I (snd (exec_stmt ft c a m upd db))"
  by (simp add: exec_stmt_def split: option.splits)

lemma insert_nothing_keys: "insert_nothing key chk fk r t = Some t' \<Longrightarrow> key ` set t \<subseteq> key ` set t' \<and> (\<forall>x \<in> set t'. x \<in> set t \<or> x = r \<and> fk r)"
  by (auto dest!: insert_nothing_SomeD)

lemma upsert_row_keys:
  assumes "upsert_row key chk fk r f t = Some t'" "\<And>x. key (f x) = key x"
  shows "key ` set t' = insert (key r) (key ` set t)"
    and "\<forall>x \<in> set t'. x \<in> set t \<or> (\<exists>y \<in> set t. x = f y) \<or> x = r \<and> fk r"
proof -
  have "key ` set t' = insert (key r) (key ` set t) \<and> (\<forall>x \<in> set t'. x \<in> set t \<or> (\<exists>y \<in> set t. x = f y) \<or> x = r \<and> fk r)"
  proof (cases "key r \<in> set (map key t)")
    case True
    then have t': "t' = set_rows (\<lambda>x. key x = key r) f t"
      using assms(1) by (auto simp: upsert_row_def dest: update_rows_SomeD split: if_splits)
    have "key ` set t' = key ` set t" using keys_set_rows [of key f, OF assms(2)] unfolding t' by (metis list.set_map)
    then show ?thesis using True t' by (auto simp: set_rows_def)
  next
    case False
    then show ?thesis using assms(1) by (auto simp: upsert_row_def split: if_splits)
  qed
  then show "key ` set t' = insert (key r) (key ` set t)" and "\<forall>x \<in> set t'. x \<in> set t \<or> (\<exists>y \<in> set t. x = f y) \<or> x = r \<and> fk r" by blast+
qed

lemma by_key_image: "by_key key k t \<noteq> None \<longleftrightarrow> k \<in> key ` set t"
  by (simp add: by_key_None_iff)

lemma inv_sports:
  "catalog_inv db \<Longrightarrow> table_ok sport_id (\<lambda>_. True) t \<Longrightarrow> sport_id ` set (sports db) \<subseteq> sport_id ` set t \<Longrightarrow> catalog_inv (db\<lparr>sports := t\<rparr>)"
  unfolding catalog_inv_def by auto

lemma inv_competitions:
  "catalog_inv db \<Longrightarrow> table_ok competition_id (\<lambda>_. True) t \<Longrightarrow> competition_id ` set (competitions db) \<subseteq> competition_id ` set t \<Longrightarrow>
     \<forall>c \<in> set t. cm_sport_id c \<in> sport_id ` set (sports db) \<Longrightarrow> catalog_inv (db\<lparr>competitions := t\<rparr>)"
  unfolding catalog_inv_def by auto

lemma inv_events:
  "catalog_inv db \<Longrightarrow> table_ok event_id event_chk t \<Longrightarrow> event_id ` set (events db) \<subseteq> event_id ` set t \<Longrightarrow>
     \<forall>e \<in> set t. ev_competition_id e \<in> competition_id ` set (competitions db) \<Longrightarrow> catalog_inv (db\<lparr>events := t\<rparr>)"
  unfolding catalog_inv_def by auto

lemma inv_markets:
  "catalog_inv db \<Longrightarrow> table_ok mk_market_id market_chk t \<Longrightarrow> mk_market_id ` set (markets db) \<subseteq> mk_market_id ` set t \<Longrightarrow>
     \<forall>m \<in> set t. mk_event_id m \<in> event_id ` set (events db) \<Longrightarrow> catalog_inv (db\<lparr>markets := t\<rparr>)"
  unfolding catalog_inv_def by auto

lemma inv_selections:
  "catalog_inv db \<Longrightarrow> table_ok sl_selection_id selection_chk t \<Longrightarrow>
     \<forall>s \<in> set t. sl_market_id s \<in> mk_market_id ` set (markets db) \<Longrightarrow> catalog_inv (db\<lparr>selections := t\<rparr>)"
  unfolding catalog_inv_def by auto

lemma catalog_invD:
  assumes "catalog_inv db"
  shows "table_ok sport_id (\<lambda>_. True) (sports db)" "table_ok competition_id (\<lambda>_. True) (competitions db)"
    "table_ok event_id event_chk (events db)" "table_ok mk_market_id market_chk (markets db)"
    "table_ok sl_selection_id selection_chk (selections db)"
    "\<forall>c \<in> set (competitions db). cm_sport_id c \<in> sport_id ` set (sports db)"
    "\<forall>e \<in> set (events db). ev_competition_id e \<in> competition_id ` set (competitions db)"
    "\<forall>m \<in> set (markets db). mk_event_id m \<in> event_id ` set (events db)"
    "\<forall>s \<in> set (selections db). sl_market_id s \<in> mk_market_id ` set (markets db)"
  using assms unfolding catalog_inv_def by blast+

lemma upsert_sport_inv:
  assumes inv: "catalog_inv db"
  shows "catalog_inv (snd (upsert_sport env e db))"
proof -
  have "catalog_inv (db\<lparr>sports := t\<rparr>)" if "insert_nothing sport_id (\<lambda>_. True) (\<lambda>_. True) r (sports db) = Some t" for r t
    using inv table_ok_insert_nothing [OF catalog_invD(1) [OF inv] that] insert_nothing_keys [OF that] by (intro inv_sports) auto
  then show ?thesis using inv by (auto simp: upsert_sport_def intro!: exec_stmt_inv [where I = catalog_inv])
qed

lemma upsert_competition_inv:
  assumes inv: "catalog_inv db"
  shows "catalog_inv (snd (upsert_competition env e db))"
proof -
  have "catalog_inv (db\<lparr>competitions := t\<rparr>)" if
    "insert_nothing competition_id (\<lambda>_. True) (\<lambda>c. by_key sport_id (cm_sport_id c) (sports db) \<noteq> None) r (competitions db) = Some t" for r t
    using inv table_ok_insert_nothing [OF catalog_invD(2) [OF inv] that] insert_nothing_keys [OF that] catalog_invD(6) [OF inv]
    unfolding by_key_image by (intro inv_competitions) auto
  then show ?thesis using inv by (auto simp: upsert_competition_def intro!: exec_stmt_inv [where I = catalog_inv])
qed

lemma upsert_event_inv:
  assumes inv: "catalog_inv db"
  shows "catalog_inv (snd (upsert_event env e db))"
proof -
  have "catalog_inv (db\<lparr>events := t\<rparr>)" if
    u: "upsert_row event_id event_chk (\<lambda>r. by_key competition_id (ev_competition_id r) (competitions db) \<noteq> None) r f (events db) = Some t"
    and f: "\<And>x. event_id (f x) = event_id x" "\<And>x. ev_competition_id (f x) = ev_competition_id x" for r f t
    using inv table_ok_upsert [OF catalog_invD(3) [OF inv] u f(1)] upsert_row_keys [OF u f(1)] catalog_invD(7) [OF inv] f(2)
    unfolding by_key_image by (intro inv_events) auto
  then show ?thesis
    using inv by (auto simp: upsert_event_def bind_eq_Some_conv intro!: exec_stmt_inv [where I = catalog_inv])
qed

lemma upsert_market_inv:
  assumes inv: "catalog_inv db"
  shows "catalog_inv (snd (upsert_market env e db))"
proof -
  have "catalog_inv (db\<lparr>markets := t\<rparr>)" if
    u: "upsert_row mk_market_id market_chk (\<lambda>r. by_key event_id (mk_event_id r) (events db) \<noteq> None) r f (markets db) = Some t"
    and f: "\<And>x. mk_market_id (f x) = mk_market_id x" "\<And>x. mk_event_id (f x) = mk_event_id x" for r f t
    using inv table_ok_upsert [OF catalog_invD(4) [OF inv] u f(1)] upsert_row_keys [OF u f(1)] catalog_invD(8) [OF inv] f(2)
    unfolding by_key_image by (intro inv_markets) auto
  then show ?thesis
    using inv by (auto simp: upsert_market_def bind_eq_Some_conv intro!: exec_stmt_inv [where I = catalog_inv])
qed

lemma upsert_selection_inv:
  assumes inv: "catalog_inv db"
  shows "catalog_inv (snd (upsert_selection env e db))"
proof -
  have "catalog_inv (db\<lparr>selections := t\<rparr>)" if
    u: "upsert_row sl_selection_id selection_chk (\<lambda>r. by_key mk_market_id (sl_market_id r) (markets db) \<noteq> None) r f (selections db) = Some t"
    and f: "\<And>x. sl_selection_id (f x) = sl_selection_id x" "\<And>x. sl_market_id (f x) = sl_market_id x" for r f t
    using inv table_ok_upsert [OF catalog_invD(5) [OF inv] u f(1)] upsert_row_keys [OF u f(1)] catalog_invD(9) [OF inv] f(2)
    unfolding by_key_image by (intro inv_selections) auto
  then show ?thesis
    using inv by (auto simp: upsert_selection_def bind_eq_Some_conv intro!: exec_stmt_inv [where I = catalog_inv])
qed

lemma handleCatalogUpsert_inv: "catalog_inv db \<Longrightarrow> catalog_inv (snd (handleCatalogUpsert env e db))"
  unfolding handleCatalogUpsert_def
  by (erule run_stmts_inv [where I = catalog_inv])
    (auto intro: upsert_sport_inv upsert_competition_inv upsert_event_inv upsert_market_inv upsert_selection_inv)

lemma set_rows_image: "(\<And>x. key (f x) = key x) \<Longrightarrow> key ` set (set_rows p f t) = key ` set t"
  using keys_set_rows [of key f p t] by (metis list.set_map)

lemma handleGameState_inv:
  assumes inv: "catalog_inv db"
  shows "catalog_inv (snd (handleGameState env e db))"
proof -
  have "catalog_inv (db\<lparr>events := t\<rparr>)" if
    u: "update_rows event_chk p f (events db) = Some t"
    and f: "\<And>x. event_id (f x) = event_id x" "\<And>x. ev_competition_id (f x) = ev_competition_id x" for p f t
  proof (rule inv_events [OF inv table_ok_update [OF catalog_invD(3) [OF inv] u f(1)]])
    have t: "t = set_rows p f (events db)" using update_rows_SomeD [OF u] by blast
    show "event_id ` set (events db) \<subseteq> event_id ` set t" unfolding t set_rows_image [of event_id f, OF f(1)] by simp
    show "\<forall>e \<in> set t. ev_competition_id e \<in> competition_id ` set (competitions db)"
      using catalog_invD(7) [OF inv] f(2) by (auto simp: t set_rows_def)
  qed
  then show ?thesis
    using inv by (auto simp: handleGameState_def intro!: exec_stmt_inv [where I = catalog_inv])
qed

interpretation catalog: consumer "\<lambda>(hb, env). catalog_handle hb env" "\<lambda>st. catalog_inv (cat_db st)"
proof
  show "catalog_inv (cat_db (snd ((case x of (hb, env) \<Rightarrow> catalog_handle hb env) m st)))" if "catalog_inv (cat_db st)" for x m st
    using that handleCatalogUpsert_inv [of "cat_db st"] handleGameState_inv [of "cat_db st"]
    by (cases x) (auto simp: catalog_handle_def split: option.splits prod.splits, metis snd_conv)
qed

section \<open>Theorems\<close>

text \<open>The catalog stays consistent: over any claim of messages, whatever they contain, in whatever
  order, and with any failure of any statement (also between the statements of one upsert), keys stay
  unique, CHECK constraints hold, and every competition, event, market and selection refers to an
  existing parent.\<close>

theorem catalog_consistent:
  assumes "catalog_inv (cat_db st)"
  shows "catalog_inv (cat_db (fst (catalog_ConsumeClaim hb ev commit ms (st, c))))"
  using catalog.claim_inv [of st "\<lambda>m. (hb, ev m)" commit ms c] assms by (simp add: catalog_ConsumeClaim_def)

text \<open>What a feed never changes of a market and of a selection that exist.\<close>

definition market_fixed :: "market_row \<Rightarrow> string \<times> string \<times> time \<times> time option" where
  "market_fixed m = (mk_event_id m, mk_status m, opens_at m, closes_at m)"

definition selection_fixed :: "selection_row \<Rightarrow> string \<times> bool" where
  "selection_fixed s = (sl_market_id s, active s)"

definition keeps :: "catalog_db \<Rightarrow> catalog_db \<Rightarrow> bool" where
  "keeps db db' \<longleftrightarrow>
     (\<forall>k r. by_key mk_market_id k (markets db) = Some r \<longrightarrow>
        (\<exists>r'. by_key mk_market_id k (markets db') = Some r' \<and> market_fixed r' = market_fixed r)) \<and>
     (\<forall>k r. by_key sl_selection_id k (selections db) = Some r \<longrightarrow>
        (\<exists>r'. by_key sl_selection_id k (selections db') = Some r' \<and> selection_fixed r' = selection_fixed r))"

lemma keeps_refl [simp]: "keeps db db"
  by (simp add: keeps_def)

lemma keeps_trans: "keeps a b \<Longrightarrow> keeps b c \<Longrightarrow> keeps a c"
  unfolding keeps_def by metis

lemma keeps_same [simp]: "keeps db (db\<lparr>sports := a\<rparr>)" "keeps db (db\<lparr>competitions := b\<rparr>)" "keeps db (db\<lparr>events := c\<rparr>)"
  by (simp_all add: keeps_def)

lemma keeps_markets:
  assumes "upsert_row mk_market_id market_chk fk r f (markets db) = Some t" "catalog_inv db"
    and "\<And>x. mk_market_id (f x) = mk_market_id x" "\<And>x. market_fixed (f x) = market_fixed x"
  shows "keeps db (db\<lparr>markets := t\<rparr>)"
  using by_key_upsert [OF catalog_invD(4) [OF assms(2)] assms(1,3)] assms(4) by (auto simp: keeps_def)

lemma keeps_selections:
  assumes "upsert_row sl_selection_id selection_chk fk r f (selections db) = Some t" "catalog_inv db"
    and "\<And>x. sl_selection_id (f x) = sl_selection_id x" "\<And>x. selection_fixed (f x) = selection_fixed x"
  shows "keeps db (db\<lparr>selections := t\<rparr>)"
  using by_key_upsert [OF catalog_invD(5) [OF assms(2)] assms(1,3)] assms(4) by (auto simp: keeps_def)

lemma upsert_keeps:
  assumes "catalog_inv db"
  shows "keeps db (snd (upsert_sport env e db))" "keeps db (snd (upsert_competition env e db))"
    "keeps db (snd (upsert_event env e db))" "keeps db (snd (upsert_market env e db))" "keeps db (snd (upsert_selection env e db))"
    "keeps db (snd (handleGameState env e db))"
  using assms
  by (auto simp: upsert_sport_def upsert_competition_def upsert_event_def upsert_market_def upsert_selection_def handleGameState_def
      bind_eq_Some_conv intro!: exec_stmt_inv [where I = "keeps db"])
    (erule keeps_markets keeps_selections; simp add: market_fixed_def selection_fixed_def)+

lemma handleCatalogUpsert_keeps:
  assumes "catalog_inv db0" "keeps db db0"
  shows "keeps db (snd (handleCatalogUpsert env e db0))"
proof -
  have "catalog_inv (snd (handleCatalogUpsert env e db0)) \<and> keeps db (snd (handleCatalogUpsert env e db0))"
    unfolding handleCatalogUpsert_def using assms
    by (intro run_stmts_inv [where I = "\<lambda>d. catalog_inv d \<and> keeps db d"])
      (auto intro: upsert_sport_inv upsert_competition_inv upsert_event_inv upsert_market_inv upsert_selection_inv
        keeps_trans upsert_keeps)
  then show ?thesis ..
qed

interpretation feed_keeps: consumer "\<lambda>(hb, env). catalog_handle hb env" "\<lambda>st. catalog_inv (cat_db st) \<and> keeps db (cat_db st)" for db
proof
  show "catalog_inv (cat_db (snd ((case x of (hb, env) \<Rightarrow> catalog_handle hb env) m st))) \<and>
      keeps db (cat_db (snd ((case x of (hb, env) \<Rightarrow> catalog_handle hb env) m st)))"
    if "catalog_inv (cat_db st) \<and> keeps db (cat_db st)" for x m st
  proof -
    obtain hb env where x: "x = (hb, env)" by (cases x)
    have "keeps db (cat_db (snd (catalog_handle hb env m st)))"
      using that handleCatalogUpsert_keeps [of "cat_db st" db env] keeps_trans [OF _ upsert_keeps(6) [of "cat_db st" env]]
      by (auto simp: catalog_handle_def split: option.splits prod.splits, metis snd_conv)
    then show ?thesis using that catalog.handle_inv [of st x m] by (simp add: x)
  qed
qed

text \<open>The feed never reopens a market: over any claim of feed messages, a market that exists keeps
  its status, its event and its opening and closing times, and a selection keeps its market and
  whether it is active, so what the operator suspended or closed stays so.\<close>

theorem feed_never_reopens:
  assumes "catalog_inv (cat_db st)" "by_key mk_market_id k (markets (cat_db st)) = Some r"
    and "st' = fst (catalog_ConsumeClaim hb ev commit ms (st, c))"
  shows "\<exists>r'. by_key mk_market_id k (markets (cat_db st')) = Some r' \<and> mk_status r' = mk_status r \<and> mk_event_id r' = mk_event_id r \<and>
      opens_at r' = opens_at r \<and> closes_at r' = closes_at r \<and>
    (\<forall>i s. by_key sl_selection_id i (selections (cat_db st)) = Some s \<longrightarrow>
      (\<exists>s'. by_key sl_selection_id i (selections (cat_db st')) = Some s' \<and> active s' = active s \<and> sl_market_id s' = sl_market_id s))"
proof -
  have "keeps (cat_db st) (cat_db st')"
    using feed_keeps.claim_inv [of st "cat_db st" "\<lambda>m. (hb, ev m)" commit ms c] assms(1,3) by (simp add: catalog_ConsumeClaim_def)
  then show ?thesis using assms(2) by (fastforce simp: keeps_def market_fixed_def selection_fixed_def)
qed

lemma upsert_row_ok:
  assumes "table_ok key chk t" "chk r" "fk r" "\<And>x. chk x \<Longrightarrow> chk (f x)" "\<And>x. key (f x) = key x"
  obtains t' where "upsert_row key chk fk r f t = Some t'"
    "by_key key (key r) t' = Some (case by_key key (key r) t of None \<Rightarrow> r | Some x \<Rightarrow> f x)"
proof -
  have "\<exists>t'. upsert_row key chk fk r f t = Some t'"
    using assms(1-4) by (auto simp: upsert_row_def update_rows_def table_ok_def list_all_iff)
  then obtain t' where t': "upsert_row key chk fk r f t = Some t'" by blast
  then show thesis using that by_key_upsert [OF assms(1) t' assms(5)] by simp
qed

lemma insert_nothing_ok:
  assumes "chk r" "fk r"
  obtains t' where "insert_nothing key chk fk r t = Some t'" "by_key key (key r) t' \<noteq> None"
proof (cases "key r \<in> key ` set t")
  case True
  then show thesis using assms(1) by (intro that [of t]) (auto simp: insert_nothing_def by_key_None_iff)
next
  case False
  then show thesis using assms by (intro that [of "t @ [r]"]) (auto simp: insert_nothing_def by_key_None_iff)
qed

definition complete_upsert :: "NormalisedMarketEvent \<Rightarrow> bool" where
  "complete_upsert e \<longleftrightarrow> list_all (\<lambda>s. s \<noteq> []) [ne_SportID e, ne_SportName e, ne_CompetitionID e, ne_CompetitionName e, ne_EventID e, ne_EventName e,
     ne_MarketID e, ne_MarketName e, ne_SelectionID e, ne_SelectionName e]"

lemma upsert_sport_ok:
  assumes "ce_faults env = no_faults" "ne_SportID e \<noteq> []" "ne_SportName e \<noteq> []"
  obtains t where "upsert_sport env e db = (True, db\<lparr>sports := t\<rparr>)" "by_key sport_id (ne_SportID e) t \<noteq> None"
proof -
  obtain t where "insert_nothing sport_id (\<lambda>_. True) (\<lambda>_. True) \<lparr>sport_id = ne_SportID e, sp_name = ne_SportName e\<rparr> (sports db) = Some t"
    "by_key sport_id (ne_SportID e) t \<noteq> None"
    by (rule insert_nothing_ok [of "\<lambda>_. True" "\<lparr>sport_id = ne_SportID e, sp_name = ne_SportName e\<rparr>" "\<lambda>_. True" sport_id "sports db"]) simp_all
  then show thesis using assms by (intro that [of t]) (simp_all add: upsert_sport_def exec_stmt_def)
qed

lemma upsert_competition_ok:
  assumes "ce_faults env = no_faults" "ne_CompetitionID e \<noteq> []" "ne_CompetitionName e \<noteq> []" "by_key sport_id (ne_SportID e) (sports db) \<noteq> None"
  obtains t where "upsert_competition env e db = (True, db\<lparr>competitions := t\<rparr>)" "by_key competition_id (ne_CompetitionID e) t \<noteq> None"
proof -
  define c where "c = \<lparr>competition_id = ne_CompetitionID e, cm_sport_id = ne_SportID e, cm_name = ne_CompetitionName e, country = ne_Country e\<rparr>"
  obtain t where "insert_nothing competition_id (\<lambda>_. True) (\<lambda>c. by_key sport_id (cm_sport_id c) (sports db) \<noteq> None) c (competitions db) = Some t"
    "by_key competition_id (competition_id c) t \<noteq> None"
    by (rule insert_nothing_ok [of "\<lambda>_. True" c "\<lambda>c. by_key sport_id (cm_sport_id c) (sports db) \<noteq> None" competition_id "competitions db"])
      (use assms(4) in \<open>simp_all add: c_def\<close>)
  then show thesis using assms(1-3) by (intro that [of t]) (simp_all add: upsert_competition_def exec_stmt_def c_def)
qed

lemma upsert_event_ok:
  assumes "catalog_inv db" "ce_faults env = no_faults" "ne_EventID e \<noteq> []" "ne_EventName e \<noteq> []"
    and "pg_timestamp (ce_pg env) (ne_StartsAt e) = Some t0" "ne_EventStatus e \<in> {''SCHEDULED'', ''LIVE''}"
    and "by_key competition_id (ne_CompetitionID e) (competitions db) \<noteq> None"
  obtains t r where "upsert_event env e db = (True, db\<lparr>events := t\<rparr>)" "by_key event_id (ne_EventID e) t = Some r"
    "ev_name r = ne_EventName e" "starts_at r = t0" "ev_status r = ne_EventStatus e"
proof -
  define r0 where "r0 = \<lparr>event_id = ne_EventID e, ev_competition_id = ne_CompetitionID e, ev_name = ne_EventName e, starts_at = t0,
      ev_status = ne_EventStatus e, home_score = 0, away_score = 0, game_period = [], game_clock = [], ev_updated_at = ce_now env\<rparr>"
  define rf where "rf = (\<lambda>r :: event_row. r\<lparr>ev_name := ne_EventName e, starts_at := t0, ev_status := ne_EventStatus e, ev_updated_at := ce_now env\<rparr>)"
  obtain t where t: "upsert_row event_id event_chk (\<lambda>r. by_key competition_id (ev_competition_id r) (competitions db) \<noteq> None) r0 rf (events db) = Some t"
    "by_key event_id (event_id r0) t = Some (case by_key event_id (event_id r0) (events db) of None \<Rightarrow> r0 | Some x \<Rightarrow> rf x)"
    by (rule upsert_row_ok [OF catalog_invD(3) [OF assms(1)], of r0 "\<lambda>r. by_key competition_id (ev_competition_id r) (competitions db) \<noteq> None" rf])
      (use assms(6,7) in \<open>auto simp: r0_def rf_def event_chk_def in_int32_def\<close>)
  have "upsert_event env e db = (True, db\<lparr>events := t\<rparr>)"
    using t(1) assms(2-5) by (simp add: upsert_event_def exec_stmt_def r0_def rf_def)
  then show thesis using that t(2) by (auto simp: r0_def rf_def split: option.splits)
qed

lemma upsert_market_ok:
  assumes "catalog_inv db" "ce_faults env = no_faults" "ne_MarketID e \<noteq> []" "ne_MarketName e \<noteq> []"
    and "pg_timestamp (ce_pg env) (ne_ClosesAt e) = Some t1" "pg_numeric5 (ce_pg env) (ne_TargetValue e) = Some v" "\<bar>v\<bar> < 10 ^ 10"
    and "ne_MarketStatus e = ''OPEN''" "ne_MarketType e \<in> {''ML'', ''SPREAD'', ''TOTAL'', ''BINARY''}"
    and "by_key event_id (ne_EventID e) (events db) \<noteq> None"
  obtains t m where "upsert_market env e db = (True, db\<lparr>markets := t\<rparr>)" "by_key mk_market_id (ne_MarketID e) t = Some m"
    "mk_name m = ne_MarketName e" "market_type m = ne_MarketType e" "mk_target_value m = v" "is_main m = ne_IsMain e"
proof -
  define m0 where "m0 = \<lparr>mk_market_id = ne_MarketID e, mk_event_id = ne_EventID e, mk_name = ne_MarketName e, mk_status = ne_MarketStatus e,
      market_type = ne_MarketType e, mk_target_value = v, is_main = ne_IsMain e, opens_at = ce_now env, closes_at = Some t1,
      mk_updated_at = ce_now env\<rparr>"
  define mf where "mf = (\<lambda>r :: market_row. r\<lparr>mk_name := ne_MarketName e, market_type := ne_MarketType e, mk_target_value := v,
      is_main := ne_IsMain e, mk_updated_at := ce_now env\<rparr>)"
  obtain t where t: "upsert_row mk_market_id market_chk (\<lambda>r. by_key event_id (mk_event_id r) (events db) \<noteq> None) m0 mf (markets db) = Some t"
    "by_key mk_market_id (mk_market_id m0) t = Some (case by_key mk_market_id (mk_market_id m0) (markets db) of None \<Rightarrow> m0 | Some x \<Rightarrow> mf x)"
    by (rule upsert_row_ok [OF catalog_invD(4) [OF assms(1)], of m0 "\<lambda>r. by_key event_id (mk_event_id r) (events db) \<noteq> None" mf])
      (use assms(7-10) in \<open>auto simp: m0_def mf_def market_chk_def\<close>)
  have "upsert_market env e db = (True, db\<lparr>markets := t\<rparr>)"
    using t(1) assms(2-6) by (simp add: upsert_market_def exec_stmt_def m0_def mf_def)
  then show thesis using that t(2) by (auto simp: m0_def mf_def split: option.splits)
qed

lemma upsert_selection_ok:
  assumes "catalog_inv db" "ce_faults env = no_faults" "ne_SelectionID e \<noteq> []" "ne_SelectionName e \<noteq> []"
    and "pg_numeric5 (ce_pg env) (ne_SelTargetValue e) = Some w" "\<bar>w\<bar> < 10 ^ 10"
    and "pg_numeric5 (ce_pg env) (ne_FeedProbability e) = Some p" "0 \<le> p" "p \<le> 10 ^ 5"
    and "by_key mk_market_id (ne_MarketID e) (markets db) \<noteq> None"
  obtains t s where "upsert_selection env e db = (True, db\<lparr>selections := t\<rparr>)" "by_key sl_selection_id (ne_SelectionID e) t = Some s"
    "sl_name s = ne_SelectionName e" "feed_probability s = Some p" "sl_target_value s = w"
proof -
  define s0 where "s0 = \<lparr>sl_selection_id = ne_SelectionID e, sl_market_id = ne_MarketID e, sl_name = ne_SelectionName e, active = ne_SelActive e,
      sl_target_value = w, feed_probability = Some p\<rparr>"
  define sf where "sf = (\<lambda>r :: selection_row. r\<lparr>sl_name := ne_SelectionName e, sl_target_value := w, feed_probability := Some p\<rparr>)"
  obtain t where t: "upsert_row sl_selection_id selection_chk (\<lambda>r. by_key mk_market_id (sl_market_id r) (markets db) \<noteq> None) s0 sf (selections db) = Some t"
    "by_key sl_selection_id (sl_selection_id s0) t = Some (case by_key sl_selection_id (sl_selection_id s0) (selections db) of None \<Rightarrow> s0 | Some x \<Rightarrow> sf x)"
    by (rule upsert_row_ok [OF catalog_invD(5) [OF assms(1)], of s0 "\<lambda>r. by_key mk_market_id (sl_market_id r) (markets db) \<noteq> None" sf])
      (use assms(6,8-10) in \<open>auto simp: s0_def sf_def selection_chk_def\<close>)
  have "upsert_selection env e db = (True, db\<lparr>selections := t\<rparr>)"
    using t(1) assms(2-5,7) by (simp add: upsert_selection_def exec_stmt_def s0_def sf_def)
  then show thesis using that t(2) by (auto simp: s0_def sf_def split: option.splits)
qed

text \<open>C15. A complete event is stored whole: when no statement fails and PostgreSQL accepts its two
  timestamps and three numbers (with the probability between 0 and 1), a well-formed event with all
  of its identifiers and names succeeds, and afterwards the event has its name, start and status, the
  market its name, type, target and main flag, and the selection its name, target and feed
  probability, whatever else the catalog, which satisfies its constraints, held before.\<close>

theorem upsert_stored:
  assumes "catalog_inv db" "ce_faults env = no_faults" "complete_upsert e" "wf_event e"
    and "pg_timestamp (ce_pg env) (ne_StartsAt e) = Some t0" "pg_timestamp (ce_pg env) (ne_ClosesAt e) = Some t1"
    and "pg_numeric5 (ce_pg env) (ne_TargetValue e) = Some v" "\<bar>v\<bar> < 10 ^ 10"
    and "pg_numeric5 (ce_pg env) (ne_SelTargetValue e) = Some w" "\<bar>w\<bar> < 10 ^ 10"
    and "pg_numeric5 (ce_pg env) (ne_FeedProbability e) = Some p" "0 \<le> p" "p \<le> 10 ^ 5"
  shows "\<exists>db' r m s. handleCatalogUpsert env e db = (True, db') \<and>
    by_key event_id (ne_EventID e) (events db') = Some r \<and> ev_name r = ne_EventName e \<and> starts_at r = t0 \<and> ev_status r = ne_EventStatus e \<and>
    by_key mk_market_id (ne_MarketID e) (markets db') = Some m \<and> mk_name m = ne_MarketName e \<and> market_type m = ne_MarketType e \<and>
      mk_target_value m = v \<and> is_main m = ne_IsMain e \<and>
    by_key sl_selection_id (ne_SelectionID e) (selections db') = Some s \<and> sl_name s = ne_SelectionName e \<and>
      feed_probability s = Some p \<and> sl_target_value s = w"
proof -
  have ne: "ne_SportID e \<noteq> []" "ne_SportName e \<noteq> []" "ne_CompetitionID e \<noteq> []" "ne_CompetitionName e \<noteq> []" "ne_EventID e \<noteq> []"
    "ne_EventName e \<noteq> []" "ne_MarketID e \<noteq> []" "ne_MarketName e \<noteq> []" "ne_SelectionID e \<noteq> []" "ne_SelectionName e \<noteq> []"
    using assms(3) by (simp_all add: complete_upsert_def)
  have st: "ne_EventStatus e \<in> {''SCHEDULED'', ''LIVE''}" "ne_MarketStatus e = ''OPEN''"
    "ne_MarketType e \<in> {''ML'', ''SPREAD'', ''TOTAL'', ''BINARY''}"
    using assms(4) ne by (simp_all add: wf_event_def)
  obtain t1' where sp: "upsert_sport env e db = (True, db\<lparr>sports := t1'\<rparr>)" "by_key sport_id (ne_SportID e) t1' \<noteq> None"
    by (rule upsert_sport_ok [OF assms(2) ne(1,2), of db])
  define d1 where "d1 = db\<lparr>sports := t1'\<rparr>"
  have i1: "catalog_inv d1" using upsert_sport_inv [OF assms(1), of env e] sp by (simp add: d1_def)
  obtain t2 where cs: "upsert_competition env e d1 = (True, d1\<lparr>competitions := t2\<rparr>)" "by_key competition_id (ne_CompetitionID e) t2 \<noteq> None"
    using upsert_competition_ok [OF assms(2) ne(3,4), of d1] sp(2) by (auto simp: d1_def)
  define d2 where "d2 = d1\<lparr>competitions := t2\<rparr>"
  have i2: "catalog_inv d2" using upsert_competition_inv [OF i1, of env e] cs by (simp add: d2_def)
  obtain t3 r where ev: "upsert_event env e d2 = (True, d2\<lparr>events := t3\<rparr>)" "by_key event_id (ne_EventID e) t3 = Some r"
    "ev_name r = ne_EventName e" "starts_at r = t0" "ev_status r = ne_EventStatus e"
    using upsert_event_ok [OF i2 assms(2) ne(5,6) assms(5) st(1)] cs(2) by (auto simp: d2_def)
  define d3 where "d3 = d2\<lparr>events := t3\<rparr>"
  have i3: "catalog_inv d3" using upsert_event_inv [OF i2, of env e] ev by (simp add: d3_def)
  obtain t4 m where mk: "upsert_market env e d3 = (True, d3\<lparr>markets := t4\<rparr>)" "by_key mk_market_id (ne_MarketID e) t4 = Some m"
    "mk_name m = ne_MarketName e" "market_type m = ne_MarketType e" "mk_target_value m = v" "is_main m = ne_IsMain e"
    using upsert_market_ok [OF i3 assms(2) ne(7,8) assms(6-8) st(2,3)] ev(2) by (auto simp: d3_def)
  define d4 where "d4 = d3\<lparr>markets := t4\<rparr>"
  have i4: "catalog_inv d4" using upsert_market_inv [OF i3, of env e] mk by (simp add: d4_def)
  obtain t5 s where sl: "upsert_selection env e d4 = (True, d4\<lparr>selections := t5\<rparr>)" "by_key sl_selection_id (ne_SelectionID e) t5 = Some s"
    "sl_name s = ne_SelectionName e" "feed_probability s = Some p" "sl_target_value s = w"
    using upsert_selection_ok [OF i4 assms(2) ne(9,10) assms(9-13)] mk(2) by (auto simp: d4_def)
  have "handleCatalogUpsert env e db = (True, d4\<lparr>selections := t5\<rparr>)"
    by (simp add: handleCatalogUpsert_def sp(1) cs(1) ev(1) mk(1) sl(1) flip: d1_def d2_def d3_def d4_def)
  moreover have "events (d4\<lparr>selections := t5\<rparr>) = t3" "markets (d4\<lparr>selections := t5\<rparr>) = t4" by (simp_all add: d3_def d4_def)
  ultimately show ?thesis using ev(2-) mk(2-) sl(2-) by auto
qed

section \<open>The status cache\<close>

lemma status_key_inject [simp]: "status_key a = status_key b \<longleftrightarrow> a = b"
  by (simp add: status_key_def)

lemma warm_fold_other:
  "k \<notin> fst ` set pairs \<Longrightarrow>
     redis_get t (foldl (\<lambda>r (m, s). redis_set now (status_key m) s statusCacheTTL r) rdb pairs) (status_key k) = redis_get t rdb (status_key k)"
  by (induction pairs arbitrary: rdb) (auto simp: redis_simps)

lemma warm_fold_get:
  "distinct (map fst pairs) \<Longrightarrow> (k, s) \<in> set pairs \<Longrightarrow> t < now + statusCacheTTL \<Longrightarrow>
     redis_get t (foldl (\<lambda>r (m, s). redis_set now (status_key m) s statusCacheTTL r) rdb pairs) (status_key k) = Some s"
  by (induction pairs arbitrary: rdb) (auto simp: redis_simps warm_fold_other image_iff)

lemma warm_read_pairs:
  assumes "table_ok mk_market_id market_chk (markets db)" "warm_read False False (\<lambda>_. False) db = Some pairs"
  shows "distinct (map fst pairs)" "m \<in> set (markets db) \<Longrightarrow> mk_status m \<in> {''OPEN'', ''SUSPENDED''} \<Longrightarrow> (mk_market_id m, mk_status m) \<in> set pairs"
proof -
  have p: "pairs = map (\<lambda>m. (mk_market_id m, mk_status m)) (filter (\<lambda>m. mk_status m \<in> {''OPEN'', ''SUSPENDED''}) (markets db))"
    using assms(2) by (auto simp: warm_read_def)
  show "distinct (map fst pairs)"
    using assms(1) by (auto simp: p table_ok_def comp_def intro: distinct_map_filter)
  show "m \<in> set (markets db) \<Longrightarrow> mk_status m \<in> {''OPEN'', ''SUSPENDED''} \<Longrightarrow> (mk_market_id m, mk_status m) \<in> set pairs"
    unfolding p by auto
qed

lemma warm_sets:
  assumes "table_ok mk_market_id market_chk (markets db)" "by_key mk_market_id k (markets db) = Some m" "mk_status m \<in> {''OPEN'', ''SUSPENDED''}"
    and "warm_read False False (\<lambda>_. False) db = Some pairs" "t < now + statusCacheTTL"
  shows "redis_get t (warm_exec False now pairs rdb) (status_key k) = Some (mk_status m)"
proof -
  have m: "m \<in> set (markets db)" "mk_market_id m = k" using by_key_SomeD [OF assms(2)] by auto
  have "(k, mk_status m) \<in> set pairs" using warm_read_pairs(2) [OF assms(1,4) m(1) assms(3)] m(2) by simp
  then show ?thesis
    using warm_fold_get [OF warm_read_pairs(1) [OF assms(1,4)] _ assms(5)] by (auto simp: warm_exec_def)
qed

text \<open>The warmer keeps the cache filled: after a run without failures, and until the next one if
  that comes within five seconds, the cache answers the status of the table for every market that is
  open or suspended.\<close>

theorem warm_agrees:
  assumes "table_ok mk_market_id market_chk (markets (ms_db st))" "by_key mk_market_id k (markets (ms_db st)) = Some m"
    and "mk_status m \<in> {''OPEN'', ''SUSPENDED''}" "t < now + 5 * second"
  shows "redis_get t (redisMarket (warm False False (\<lambda>_. False) False now st)) (status_key k) = Some (mk_status m)"
proof -
  obtain pairs where p: "warm_read False False (\<lambda>_. False) (ms_db st) = Some pairs" by (simp add: warm_read_def)
  then show ?thesis using warm_sets [OF assms(1-3) p, of t now] assms(4) by (simp add: warm_def statusCacheTTL_def)
qed

lemma suspend_effect:
  assumes "table_ok mk_market_id market_chk (markets (ms_db st))" "by_key mk_market_id k (markets (ms_db st)) = Some m"
    and "market_chk (m\<lparr>mk_status := s, mk_updated_at := now\<rparr>)"
  shows "\<exists>st'. setMarketStatus no_faults now k s st = (True, st') \<and>
    by_key mk_market_id k (markets (ms_db st')) = Some (m\<lparr>mk_status := s, mk_updated_at := now\<rparr>) \<and>
    redisMarket st' = redis_set now (status_key k) s marketStatusTTL (redisMarket st)"
proof -
  have "update_rows market_chk (\<lambda>m. mk_market_id m = k) (\<lambda>m. m\<lparr>mk_status := s, mk_updated_at := now\<rparr>) (markets (ms_db st)) =
      Some (set_rows (\<lambda>m. mk_market_id m = k) (\<lambda>m. m\<lparr>mk_status := s, mk_updated_at := now\<rparr>) (markets (ms_db st)))"
    using assms by (simp add: update_rows_by_key)
  moreover have "by_key mk_market_id k (set_rows (\<lambda>m. mk_market_id m = k) (\<lambda>m. m\<lparr>mk_status := s, mk_updated_at := now\<rparr>) (markets (ms_db st))) =
      Some (m\<lparr>mk_status := s, mk_updated_at := now\<rparr>)"
    using assms(2) by (subst by_key_set_rows) simp_all
  ultimately show ?thesis by (simp add: setMarketStatus_def exec_stmt_def)
qed

text \<open>A suspension can be undone in the cache: when the warmer has read the table before a market
  is suspended and sends its pipeline after, the cache says that the market is open for the next five
  seconds, although the table says it is suspended and SuspendMarket returned without an error.\<close>

theorem warmer_overwrites_suspension:
  assumes "table_ok mk_market_id market_chk (markets (ms_db st))" "by_key mk_market_id k (markets (ms_db st)) = Some m"
    and "mk_status m = ''OPEN''" "warm_read False False (\<lambda>_. False) (ms_db st) = Some pairs" "t < t2 + 5 * second"
  shows "\<exists>st' m'. SuspendMarket no_faults t1 k st = (True, st') \<and> by_key mk_market_id k (markets (ms_db st')) = Some m' \<and>
    mk_status m' = ''SUSPENDED'' \<and> redis_get t (warm_exec False t2 pairs (redisMarket st')) (status_key k) = Some ''OPEN''"
proof -
  have "market_chk m" using table_ok_chk [OF assms(1,2)] .
  then have "market_chk (m\<lparr>mk_status := ''SUSPENDED'', mk_updated_at := t1\<rparr>)" by (simp add: market_chk_def)
  from suspend_effect [OF assms(1,2) this] show ?thesis
    using warm_sets [OF assms(1,2) _ assms(4), of t t2] assms(3,5) by (auto simp: SuspendMarket_def statusCacheTTL_def)
qed

section \<open>Witnesses\<close>

definition pg0 :: pg where
  "pg0 = \<lparr>pg_timestamp = (\<lambda>s. if s = [] then None else Some 77),
     pg_numeric5 = (\<lambda>x. if finite_f x \<and> \<bar>rv x\<bar> < 10 ^ 5 then Some (round_half_even (rv x * 10 ^ 5)) else None)\<rparr>"

definition cat_env0 :: cat_env where
  "cat_env0 = \<lparr>ce_now = 10, ce_faults = no_faults, ce_pg = pg0\<rparr>"

definition upsert0 :: NormalisedMarketEvent where
  "upsert0 = zero_event\<lparr>ne_EventType := ''catalog.upsert'', ne_SportID := ''basketball'', ne_SportName := ''Basketball'',
     ne_CompetitionID := ''nba'', ne_CompetitionName := ''NBA'', ne_EventID := ''e1'', ne_EventName := ''Nets @ Pistons'',
     ne_StartsAt := ''x'', ne_EventStatus := ''LIVE'', ne_MarketID := ''m1'', ne_MarketName := ''Winner'', ne_MarketType := ''ML'',
     ne_MarketStatus := ''OPEN'', ne_ClosesAt := ''x'', ne_SelectionID := ''m1-0'', ne_SelectionName := ''Nets'', ne_SelActive := True\<rparr>"

definition catalog0 :: catalog_db where
  "catalog0 = \<lparr>sports = [], competitions = [], events = [], markets = [], selections = []\<rparr>"

definition market1 :: market_row where
  "market1 = \<lparr>mk_market_id = ''m1'', mk_event_id = ''e1'', mk_name = ''Winner'', mk_status = ''OPEN'', market_type = ''ML'',
     mk_target_value = 0, is_main = True, opens_at = 1, closes_at = Some 77, mk_updated_at = 1\<rparr>"

definition catalog1 :: catalog_db where
  "catalog1 = \<lparr>sports = [\<lparr>sport_id = ''basketball'', sp_name = ''Basketball''\<rparr>],
     competitions = [\<lparr>competition_id = ''nba'', cm_sport_id = ''basketball'', cm_name = ''NBA'', country = ''US''\<rparr>],
     events = [\<lparr>event_id = ''e1'', ev_competition_id = ''nba'', ev_name = ''Nets @ Pistons'', starts_at = 77, ev_status = ''LIVE'',
       home_score = 0, away_score = 0, game_period = [], game_clock = [], ev_updated_at = 1\<rparr>],
     markets = [market1],
     selections = [\<lparr>sl_selection_id = ''m1-0'', sl_market_id = ''m1'', sl_name = ''Nets'', active = True, sl_target_value = 0,
       feed_probability = Some 50000\<rparr>]\<rparr>"

lemma catalog_inv0 [simp]: "catalog_inv catalog0"
  by (simp add: catalog_inv_def catalog0_def)

lemma catalog_inv1 [simp]: "catalog_inv catalog1"
  by (simp add: catalog_inv_def catalog1_def market1_def table_ok_def event_chk_def market_chk_def selection_chk_def in_int32_def)

lemma catalog1_market [simp]: "by_key mk_market_id ''m1'' (markets catalog1) = Some market1"
  by (simp add: catalog1_def by_key_def query_row_def market1_def)

definition upsert_msg :: ConsumerMessage where
  "upsert_msg = \<lparr>Topic = ''market-data-normalised'', Offset = 3, Value = marshal_event upsert0, Headers = []\<rparr>"

theorem catalog_consistent_witness:
  "catalog_inv (cat_db (fst (catalog_ConsumeClaim True (\<lambda>_. cat_env0) (\<lambda>off c. off + 1) [upsert_msg, upsert_msg]
     (\<lparr>cat_db = catalog1, broadcasts = []\<rparr>, 0 :: int))))"
  by (rule catalog_consistent) simp

theorem feed_never_reopens_witness:
  "\<exists>r'. by_key mk_market_id ''m1'' (markets (cat_db (fst (catalog_ConsumeClaim True (\<lambda>_. cat_env0) (\<lambda>off c. off + 1) [upsert_msg]
     (\<lparr>cat_db = catalog1, broadcasts = []\<rparr>, 0 :: int))))) = Some r' \<and> mk_status r' = ''OPEN''"
  using feed_never_reopens [of "\<lparr>cat_db = catalog1, broadcasts = []\<rparr>" "''m1''" market1, OF _ _ refl,
      of True "\<lambda>_. cat_env0" "\<lambda>off c. off + 1" "[upsert_msg]" "0 :: int"]
  by (auto simp: market1_def [THEN arg_cong [of _ _ mk_status]])

theorem upsert_stored_witness:
  "\<exists>db' s. handleCatalogUpsert cat_env0 upsert0 catalog0 = (True, db') \<and>
     by_key sl_selection_id ''m1-0'' (selections db') = Some s \<and> feed_probability s = Some 0"
proof -
  have "round_half_even 0 = 0" using round_half_even_of_int [of 0] by simp
  then show ?thesis
    using upsert_stored [of catalog0 cat_env0 upsert0 77 77 0 0 0]
    by (auto simp: cat_env0_def pg0_def upsert0_def zero_event_def complete_upsert_def wf_event_def)
qed

theorem warm_agrees_witness:
  "redis_get 2 (redisMarket (warm False False (\<lambda>_. False) False 1 \<lparr>ms_db = catalog1, redisMarket = Map.empty\<rparr>)) (status_key ''m1'') = Some ''OPEN''"
  using warm_agrees [of "\<lparr>ms_db = catalog1, redisMarket = Map.empty\<rparr>" "''m1''" market1 2 1] catalog_invD(4) [OF catalog_inv1]
  by (simp add: market1_def [THEN arg_cong [of _ _ mk_status]] second_def)

theorem warmer_overwrites_suspension_witness:
  "\<exists>st' m'. SuspendMarket no_faults 1 ''m1'' \<lparr>ms_db = catalog1, redisMarket = Map.empty\<rparr> = (True, st') \<and>
     by_key mk_market_id ''m1'' (markets (ms_db st')) = Some m' \<and> mk_status m' = ''SUSPENDED'' \<and>
     redis_get 3 (warm_exec False 2 [(''m1'', ''OPEN'')] (redisMarket st')) (status_key ''m1'') = Some ''OPEN''"
proof -
  have "warm_read False False (\<lambda>_. False) catalog1 = Some [(''m1'', ''OPEN'')]"
    by (simp add: warm_read_def catalog1_def market1_def)
  then show ?thesis
    using warmer_overwrites_suspension [of "\<lparr>ms_db = catalog1, redisMarket = Map.empty\<rparr>" "''m1''" market1 "[(''m1'', ''OPEN'')]" 3 2 1]
      catalog_invD(4) [OF catalog_inv1]
    by (simp add: market1_def [THEN arg_cong [of _ _ mk_status]] second_def)
qed

end
