(* ===== verification/OddsManagement.thy ===== *)
theory OddsManagement
  imports OddsMath Catalog
begin

text \<open>
  The Odds Management Service of \<^verbatim>\<open>src/internal/oddsmanagement/service.go\<close>: the consumer of
  the normalised feed and of the placed bets, the query that joins a market's selections with the
  sport and the state of the event in the catalog database, the writing of the odds history and the
  publication of \<^verbatim>\<open>odds-updated\<close>. The numbers come from \<open>OddsMath\<close>. How PostgreSQL
  rounds a float64 to a NUMERIC(10,4) column, its collation and which of several rows with the same
  \<^verbatim>\<open>updated_at\<close> it returns are parameters. A NUMERIC read into a float64 is the nearest one.

  Shown: what a successful and a failed handling leave in the table and in the log, that nothing is
  published without its row, and that the messages of the two subscribed topics are ignored.
\<close>

section \<open>State\<close>

record OddsUpdatedEvent =
  ou_MarketID :: string
  ou_SelectionID :: string
  ou_Decimal :: float64
  ou_American :: int
  ou_SourceEventOffset :: int
  ou_ComputedAt :: string

record odds_row =
  od_market_id :: string
  od_selection_id :: string
  offered_decimal :: int
  offered_american :: int
  source_offset :: int
  od_updated_at :: time

record odds_state =
  odds :: "odds_row tbl"
  odds_log :: "ProducerMessage list"

text \<open>The calls that can fail, per selection for the two that are made once for each.\<close>

datatype odds_call =
  QSelections | ScanSelection | RowsErr | QCurrent | InsOdds string | InsOddsAck string | Send string | SendAck string

record odds_env =
  oe_now :: time
  oe_faults :: "odds_call faults"
  oe_numeric4 :: "float64 \<Rightarrow> int option"
  oe_coll :: "string \<Rightarrow> int"
  oe_tie :: nat
  oe_libm :: libm

section \<open>Writing and publishing\<close>

definition odds_fields :: "OddsUpdatedEvent \<Rightarrow> struct_field list" where
  "odds_fields e =
     [str_field ''market_id'' (ou_MarketID e), str_field ''selection_id'' (ou_SelectionID e),
      val_field ''decimal'' (enc_float64 (ou_Decimal e)), int_field ''american'' (ou_American e),
      int_field ''src_offset'' (ou_SourceEventOffset e), str_field ''computed_at'' (ou_ComputedAt e)]"

definition odds_event :: "odds_env \<Rightarrow> string \<Rightarrow> string \<Rightarrow> float64 \<Rightarrow> int \<Rightarrow> int \<Rightarrow> OddsUpdatedEvent" where
  "odds_event env marketID selectionID decimal american sourceOffset =
     \<lparr>ou_MarketID = marketID, ou_SelectionID = selectionID, ou_Decimal = decimal, ou_American = american,
      ou_SourceEventOffset = sourceOffset, ou_ComputedAt = format_rfc3339 True (oe_now env)\<rparr>"

definition insert_odds :: "odds_env \<Rightarrow> string \<Rightarrow> string \<Rightarrow> float64 \<Rightarrow> int \<Rightarrow> int \<Rightarrow> odds_row tbl \<Rightarrow> odds_row tbl option" where
  "insert_odds env marketID selectionID decimal american sourceOffset t =
     (case oe_numeric4 env decimal of
        None \<Rightarrow> None
      | Some d \<Rightarrow>
          if in_int32 american
          then Some (t @ [\<lparr>od_market_id = marketID, od_selection_id = selectionID, offered_decimal = d,
                 offered_american = american, source_offset = sourceOffset, od_updated_at = oe_now env\<rparr>])
          else None)"

definition writeOddsAndPublish ::
    "odds_env \<Rightarrow> string \<Rightarrow> string \<Rightarrow> float64 \<Rightarrow> int \<Rightarrow> int \<Rightarrow> odds_state \<Rightarrow> bool \<times> odds_state" where
  "writeOddsAndPublish env marketID selectionID decimal american sourceOffset st =
     (case exec_stmt (oe_faults env) (InsOdds selectionID) (InsOddsAck selectionID)
             (insert_odds env marketID selectionID decimal american sourceOffset (odds st)) (\<lambda>t. st\<lparr>odds := t\<rparr>) st of
        (ok, st1) \<Rightarrow>
          if \<not> ok then (False, st1)
          else exec_stmt (oe_faults env) (Send selectionID) (SendAck selectionID)
                 (marshal_struct (odds_fields (odds_event env marketID selectionID decimal american sourceOffset)))
                 (\<lambda>data. st1\<lparr>odds_log := odds_log st1 @
                    [\<lparr>pm_Topic = ''odds-updated'', pm_Key = marketID, pm_Value = data, pm_Headers = []\<rparr>]\<rparr>) st1)"

section \<open>Feed events\<close>

record feed_msg =
  fm_EventType :: string
  fm_MarketID :: string

definition decode_feed :: "payload \<Rightarrow> feed_msg option" where
  "decode_feed p =
     Option.bind (dec_object p) (\<lambda>kvs.
     Option.bind (decode_field dec_string ''event_type'' [] kvs) (\<lambda>t.
     Option.bind (decode_field dec_string ''market_id'' [] kvs) (\<lambda>m.
     Some \<lparr>fm_EventType = t, fm_MarketID = m\<rparr>)))"

text \<open>One row of the join for a selection: its sport and the status of its event.\<close>

definition join_event :: "catalog_db \<Rightarrow> selection_row \<Rightarrow> (string \<times> string) option" where
  "join_event db sel =
     Option.bind (by_key mk_market_id (sl_market_id sel) (markets db)) (\<lambda>mkt.
     Option.bind (by_key event_id (mk_event_id mkt) (events db)) (\<lambda>ev.
     Option.bind (by_key competition_id (ev_competition_id ev) (competitions db)) (\<lambda>comp.
     Option.bind (by_key sport_id (cm_sport_id comp) (sports db)) (\<lambda>sp.
     Some (sport_id sp, ev_status ev)))))"

definition query_selections :: "odds_env \<Rightarrow> catalog_db \<Rightarrow> string \<Rightarrow> (SelectionInput \<times> string \<times> string) list" where
  "query_selections env db marketID =
     List.map_filter (\<lambda>sel. case feed_probability sel of
         None \<Rightarrow> None
       | Some p \<Rightarrow> map_option (\<lambda>(sport, status).
           (\<lparr>si_ID = sl_selection_id sel, si_FeedProbability = lit (of_int p / 10 ^ 5)\<rparr>, sport, status)) (join_event db sel))
       (sort_key (\<lambda>s. oe_coll env (sl_selection_id s)) (filter (\<lambda>s. sl_market_id s = marketID \<and> active s) (selections db)))"

definition vig_for :: "libm \<Rightarrow> string \<Rightarrow> string \<Rightarrow> float64" where
  "vig_for m sportID eventStatus =
     (if sportID = ''politics'' \<or> (sportID = ''basketball'' \<and> eventStatus = ''LIVE'') then vigDeltaWide m else vigDelta m)"

definition price_rows :: "libm \<Rightarrow> (SelectionInput \<times> string \<times> string) list \<Rightarrow> SelectionResult list" where
  "price_rows m rows =
     (if length rows \<noteq> 2 then []
      else if list_ex (\<lambda>r. feq (si_FeedProbability (fst r)) (Fin 0)) rows then []
      else ComputeMarketOdds m (map fst rows) (case last rows of (_, sportID, eventStatus) \<Rightarrow> vig_for m sportID eventStatus))"

definition handleNormalisedFeed :: "odds_env \<Rightarrow> catalog_db \<Rightarrow> ConsumerMessage \<Rightarrow> odds_state \<Rightarrow> bool \<times> odds_state" where
  "handleNormalisedFeed env db msg st =
     (case decode_feed (Value msg) of
        None \<Rightarrow> (False, st)
      | Some event \<Rightarrow>
          if fm_EventType event \<noteq> ''price.update'' then (True, st)
          else let rows = query_selections env db (fm_MarketID event)
               in if oe_faults env QSelections \<or> (rows \<noteq> [] \<and> oe_faults env ScanSelection) \<or> oe_faults env RowsErr then (False, st)
                  else run_stmts
                    (map (\<lambda>r. writeOddsAndPublish env (fm_MarketID event) (sr_ID r) (sr_Decimal r) (sr_American r) (Offset msg))
                      (filter (\<lambda>r. \<not> feq (sr_Decimal r) (Fin 0)) (price_rows (oe_libm env) rows))) st)"

section \<open>Placed bets\<close>

record bet_msg =
  bm_MarketID :: string
  bm_SelectionID :: string
  bm_StakeMinor :: int

definition decode_bet_msg :: "payload \<Rightarrow> bet_msg option" where
  "decode_bet_msg p =
     Option.bind (dec_object p) (\<lambda>kvs.
     Option.bind (decode_field dec_string ''market_id'' [] kvs) (\<lambda>m.
     Option.bind (decode_field dec_string ''selection_id'' [] kvs) (\<lambda>s.
     Option.bind (decode_field dec_int64 ''stake_minor'' 0 kvs) (\<lambda>k.
     Some \<lparr>bm_MarketID = m, bm_SelectionID = s, bm_StakeMinor = k\<rparr>))))"

definition current_odds :: "odds_env \<Rightarrow> string \<Rightarrow> string \<Rightarrow> odds_row tbl \<Rightarrow> odds_row option" where
  "current_odds env marketID selectionID t =
     (let rows = filter (\<lambda>r. od_market_id r = marketID \<and> od_selection_id r = selectionID) t;
          latest = filter (\<lambda>r. list_all (\<lambda>r'. od_updated_at r' \<le> od_updated_at r) rows) rows
      in if latest = [] then None else Some (latest ! (oe_tie env mod length latest)))"

definition handleBetPlaced :: "odds_env \<Rightarrow> ConsumerMessage \<Rightarrow> odds_state \<Rightarrow> bool \<times> odds_state" where
  "handleBetPlaced env msg st =
     (case decode_bet_msg (Value msg) of
        None \<Rightarrow> (False, st)
      | Some event \<Rightarrow>
          (case stmt (oe_faults env) QCurrent (current_odds env (bm_MarketID event) (bm_SelectionID event) (odds st)) of
             None \<Rightarrow> (True, st)
           | Some r \<Rightarrow>
               (let currentDecimal = lit (of_int (offered_decimal r) / 10 ^ 4);
                    newDecimal = adjustForLiability currentDecimal (bm_StakeMinor event)
                in if feq newDecimal currentDecimal then (True, st)
                   else writeOddsAndPublish env (bm_MarketID event) (bm_SelectionID event) newDecimal
                          (DecimalToAmerican newDecimal) (Offset msg) st)))"

section \<open>The consumer\<close>

definition handleEvent :: "odds_env \<times> catalog_db \<Rightarrow> ConsumerMessage \<Rightarrow> odds_state \<Rightarrow> bool \<times> odds_state" where
  "handleEvent ed msg st =
     (if Topic msg = ''market-data.normalised'' then handleNormalisedFeed (fst ed) (snd ed) msg st
      else if Topic msg = ''bet.placed'' then handleBetPlaced (fst ed) msg st
      else (True, st))"

definition odds_topics :: "string list" where
  "odds_topics = [''market-data-normalised'', ''bet-placed'']"

definition odds_ConsumeClaim :: "(ConsumerMessage \<Rightarrow> odds_env \<times> catalog_db) \<Rightarrow> (int \<Rightarrow> 'c \<Rightarrow> 'c) \<Rightarrow> ConsumerMessage list \<Rightarrow>
    odds_state \<times> 'c \<Rightarrow> odds_state \<times> 'c" where
  "odds_ConsumeClaim ev commit = consume_claim (\<lambda>m. handleEvent (ev m) m) commit"

section \<open>What a handling leaves\<close>

lemma ex2I: "P a b \<Longrightarrow> \<exists>x y. P x y"
  by blast

definition row_of :: "odds_env \<Rightarrow> OddsUpdatedEvent \<Rightarrow> odds_row" where
  "row_of env e =
     \<lparr>od_market_id = ou_MarketID e, od_selection_id = ou_SelectionID e, offered_decimal = the (oe_numeric4 env (ou_Decimal e)),
      offered_american = ou_American e, source_offset = ou_SourceEventOffset e, od_updated_at = oe_now env\<rparr>"

definition message_of :: "OddsUpdatedEvent \<Rightarrow> ProducerMessage" where
  "message_of e =
     \<lparr>pm_Topic = ''odds-updated'', pm_Key = ou_MarketID e, pm_Value = the (marshal_struct (odds_fields e)), pm_Headers = []\<rparr>"

text \<open>The state after the first \<open>k\<close> updates were written and the first \<open>n\<close> published.\<close>

definition after_updates :: "odds_env \<Rightarrow> OddsUpdatedEvent list \<Rightarrow> nat \<Rightarrow> nat \<Rightarrow> odds_state \<Rightarrow> odds_state" where
  "after_updates env es k n st =
     st\<lparr>odds := odds st @ map (row_of env) (take k es), odds_log := odds_log st @ map message_of (take n es)\<rparr>"

lemma after_updates_0 [simp]: "after_updates env es 0 0 st = st"
  by (simp add: after_updates_def)

lemma after_updates_Cons:
  "after_updates env es k n (after_updates env [e] (Suc 0) (Suc 0) st) = after_updates env (e # es) (Suc k) (Suc n) st"
  by (simp add: after_updates_def)

text \<open>The row comes first: a write that fails leaves nothing, the row alone, or both without telling.\<close>

lemma write_cases:
  assumes "e = odds_event env marketID selectionID decimal american off"
    and "writeOddsAndPublish env marketID selectionID decimal american off st = (ok, st')"
  shows "\<exists>k n. n \<le> k \<and> k \<le> 1 \<and> (ok \<longrightarrow> n = 1) \<and> st' = after_updates env [e] k n st"
proof -
  let ?I = "insert_odds env marketID selectionID decimal american off (odds st)"
  let ?M = "marshal_struct (odds_fields e)"
  have row: "t = odds st @ [row_of env e]" if "?I = Some t" for t
    using that by (auto simp: insert_odds_def row_of_def assms(1) odds_event_def split: option.splits if_splits)
  have msg: "message_of e = \<lparr>pm_Topic = ''odds-updated'', pm_Key = marketID, pm_Value = d, pm_Headers = []\<rparr>" if "?M = Some d" for d
    using that by (simp add: message_of_def assms(1) odds_event_def)
  consider "st' = st" "\<not> ok" | "st' = st\<lparr>odds := odds st @ [row_of env e]\<rparr>" "\<not> ok"
    | "st' = st\<lparr>odds := odds st @ [row_of env e], odds_log := odds_log st @ [message_of e]\<rparr>"
    using assms(2) by (auto simp: writeOddsAndPublish_def exec_stmt_def row msg assms(1) [symmetric] split: if_splits option.splits)
  then show ?thesis
  proof cases
    case 1
    then show ?thesis by (intro exI [of _ 0]) (simp add: after_updates_def)
  next
    case 2
    then show ?thesis by (intro ex2I [where a = 1 and b = 0]) (simp add: after_updates_def)
  next
    case 3
    then show ?thesis by (intro exI [of _ 1]) (simp add: after_updates_def)
  qed
qed

definition update_of :: "odds_env \<Rightarrow> string \<Rightarrow> int \<Rightarrow> SelectionResult \<Rightarrow> OddsUpdatedEvent" where
  "update_of env marketID off r = odds_event env marketID (sr_ID r) (sr_Decimal r) (sr_American r) off"

lemma write_all_cases:
  assumes "run_stmts (map (\<lambda>r. writeOddsAndPublish env marketID (sr_ID r) (sr_Decimal r) (sr_American r) off) rs) st = (ok, st')"
  shows "\<exists>k n. n \<le> k \<and> k \<le> Suc n \<and> k \<le> length rs \<and> (ok \<longrightarrow> n = length rs) \<and>
    st' = after_updates env (map (update_of env marketID off) rs) k n st"
  using assms
proof (induction rs arbitrary: st)
  case (Cons r rs)
  obtain ok1 st1 where w: "writeOddsAndPublish env marketID (sr_ID r) (sr_Decimal r) (sr_American r) off st = (ok1, st1)" by fastforce
  obtain k1 n1 where 1: "n1 \<le> k1" "k1 \<le> 1" "ok1 \<longrightarrow> n1 = 1" "st1 = after_updates env [update_of env marketID off r] k1 n1 st"
    using write_cases [OF update_of_def w] by blast
  show ?case
  proof (cases ok1)
    case True
    then have st1: "st1 = after_updates env [update_of env marketID off r] 1 1 st" using 1 by simp
    from Cons.prems True w have "run_stmts (map (\<lambda>r. writeOddsAndPublish env marketID (sr_ID r) (sr_Decimal r) (sr_American r) off) rs) st1 = (ok, st')"
      by simp
    from Cons.IH [OF this] obtain k n where "n \<le> k" "k \<le> Suc n" "k \<le> length rs" "ok \<longrightarrow> n = length rs"
      "st' = after_updates env (map (update_of env marketID off) rs) k n st1" by blast
    then show ?thesis by (intro ex2I [where a = "Suc k" and b = "Suc n"]) (simp add: st1 after_updates_Cons)
  next
    case False
    then have "st' = st1" "\<not> ok" using Cons.prems w by simp_all
    moreover have "after_updates env [update_of env marketID off r] k1 n1 st =
        after_updates env (map (update_of env marketID off) (r # rs)) k1 n1 st"
      using 1(1,2) by (cases k1; cases n1) (auto simp: after_updates_def)
    ultimately show ?thesis using 1 by (intro ex2I [where a = k1 and b = n1]) auto
  qed
qed simp

text \<open>What a price update of a market asks for: the updates of the selections that have a price.\<close>

definition market_updates :: "odds_env \<Rightarrow> catalog_db \<Rightarrow> string \<Rightarrow> int \<Rightarrow> OddsUpdatedEvent list" where
  "market_updates env db marketID off =
     map (update_of env marketID off)
       (filter (\<lambda>r. \<not> feq (sr_Decimal r) (Fin 0)) (price_rows (oe_libm env) (query_selections env db marketID)))"

lemma feed_cases:
  assumes "decode_feed (Value msg) = Some event" "fm_EventType event = ''price.update''"
    and "handleNormalisedFeed env db msg st = (ok, st')"
  shows "\<exists>k n. n \<le> k \<and> k \<le> Suc n \<and> k \<le> length (market_updates env db (fm_MarketID event) (Offset msg)) \<and>
    (ok \<longrightarrow> n = length (market_updates env db (fm_MarketID event) (Offset msg))) \<and>
    st' = after_updates env (market_updates env db (fm_MarketID event) (Offset msg)) k n st"
proof (cases "oe_faults env QSelections \<or> (query_selections env db (fm_MarketID event) \<noteq> [] \<and> oe_faults env ScanSelection) \<or> oe_faults env RowsErr")
  case True
  then have "st' = st" "\<not> ok" using assms by (auto simp: handleNormalisedFeed_def Let_def)
  then show ?thesis by (intro exI [of _ 0]) simp
next
  case False
  then have "run_stmts (map (\<lambda>r. writeOddsAndPublish env (fm_MarketID event) (sr_ID r) (sr_Decimal r) (sr_American r) (Offset msg))
      (filter (\<lambda>r. \<not> feq (sr_Decimal r) (Fin 0)) (price_rows (oe_libm env) (query_selections env db (fm_MarketID event))))) st = (ok, st')"
    using assms by (auto simp: handleNormalisedFeed_def Let_def)
  from write_all_cases [OF this] show ?thesis by (simp add: market_updates_def)
qed

text \<open>C18. The handler of a price update works in order: whatever fails, it writes the priced selections
  of the market one after the other, each row before its message; it returns without error only when
  all rows are written and all messages sent, and after an error the rows and the messages are those
  of a prefix of the selections, with at most one row more than messages.\<close>

theorem price_update_handled_whole:
  assumes "decode_feed (Value msg) = Some event" "fm_EventType event = ''price.update''"
    and "handleNormalisedFeed env db msg st = (ok, st')"
  shows "\<exists>k n. n \<le> k \<and> k \<le> Suc n \<and> k \<le> length (market_updates env db (fm_MarketID event) (Offset msg)) \<and>
    (ok \<longrightarrow> n = length (market_updates env db (fm_MarketID event) (Offset msg))) \<and>
    st' = after_updates env (market_updates env db (fm_MarketID event) (Offset msg)) k n st"
  using feed_cases [OF assms] .

section \<open>Subscription\<close>

lemma subscribed_ignored:
  assumes "Topic msg \<in> set odds_topics"
  shows "handleEvent ed msg st = (True, st)"
  using assms by (auto simp: handleEvent_def odds_topics_def)

text \<open>The service never updates odds: the consumer subscribes to market-data-normalised and
  bet-placed, but the handler selects on the names with a dot, so every message of the subscribed
  topics is committed and changes neither the table nor the log.\<close>

theorem odds_ignore_subscription:
  assumes "\<forall>msg \<in> set ms. Topic msg \<in> set odds_topics"
  shows "odds_ConsumeClaim ev commit ms (st, c) = (st, foldl (\<lambda>c msg. commit (Offset msg) c) c ms)"
  using assms unfolding odds_ConsumeClaim_def
  by (induction ms arbitrary: c) (simp_all add: subscribed_ignored)

section \<open>A fault-free handling\<close>

text \<open>A NUMERIC(10,4) column takes every float64 of at most 999999 in absolute value.\<close>

definition numeric4_ok :: "(float64 \<Rightarrow> int option) \<Rightarrow> bool" where
  "numeric4_ok num \<longleftrightarrow> (\<forall>x. finite_f x \<and> \<bar>rv x\<bar> \<le> 999999 \<longrightarrow> num x \<noteq> None)"

definition quotable :: "SelectionResult \<Rightarrow> bool" where
  "quotable r \<longleftrightarrow> finite_f (sr_Decimal r) \<and> 1 + 9 / 10 ^ 8 \<le> rv (sr_Decimal r) \<and> rv (sr_Decimal r) \<le> 999999 \<and>
     sr_American r = DecimalToAmerican (sr_Decimal r)"

lemma price_rows_quotable:
  assumes "libm_accurate m" "\<And>r. r \<in> set rows \<Longrightarrow> \<exists>p. 0 \<le> p \<and> p \<le> 10 ^ 5 \<and> si_FeedProbability (fst r) = lit (of_int p / 10 ^ 5)"
    and "r \<in> set (price_rows m rows)" "\<not> feq (sr_Decimal r) (Fin 0)"
  shows "quotable r"
proof -
  have two: "length rows = 2" "\<not> list_ex (\<lambda>r. feq (si_FeedProbability (fst r)) (Fin 0)) rows"
    using assms(3) by (auto simp: price_rows_def split: if_splits)
  then obtain a b where rows: "rows = [a, b]" by (auto simp: numeral_2_eq_2 length_Suc_conv)
  have fp: "feed_ok (fst r) \<and> 1 / 2 ^ 50 \<le> rv (si_FeedProbability (fst r))" if r: "r \<in> set rows" for r
  proof -
    obtain p where p: "0 \<le> p" "p \<le> 10 ^ 5" "si_FeedProbability (fst r) = lit (of_int p / 10 ^ 5)" using assms(2) [OF r] by blast
    note l = decimal_lit [OF p(1,2), folded p(3)]
    have "p \<noteq> 0"
    proof
      assume "p = 0"
      then have "feq (si_FeedProbability (fst r)) (Fin 0)" using p(3) l(1) lit_finite(2) [of 0] by (simp add: feq_finite)
      then show False using two(2) r by (auto simp: list_ex_iff)
    qed
    then have "1 / 10 ^ 5 \<le> real_of_int p / 10 ^ 5" using p(1) by simp
    moreover have "1 / 2 ^ 53 + 1 / 2 ^ 50 \<le> (1 / 10 ^ 5 :: real)" by simp
    ultimately have "1 / 2 ^ 50 \<le> rv (si_FeedProbability (fst r))" using l(2) by linarith
    then show ?thesis using l by (simp add: feed_ok_def)
  qed
  obtain sb sport status where b: "b = (sb, sport, status)" by (cases b)
  define delta where "delta = vig_for m sport status"
  have d: "delta \<in> {vigDelta m, vigDeltaWide m}" by (simp add: delta_def vig_for_def)
  have sum: "1 / 2 ^ 50 \<le> rv (si_FeedProbability (fst a)) + rv (si_FeedProbability (fst b))"
    using fp [of a] fp [of b] by (auto simp: rows feed_ok_def)
  obtain r0 r1 where c: "ComputeMarketOdds m [fst a, fst b] delta = [r0, r1]" "quote_ok (fst a) r0" "quote_ok (fst b) r1"
    using book_margin [OF assms(1) _ _ d sum] fp [of a] fp [of b] by (auto simp: rows)
  have "price_rows m rows = [r0, r1]" using two c(1) by (simp add: price_rows_def rows delta_def b)
  then have "quote_ok (fst a) r \<or> quote_ok (fst b) r" using assms(3) c(2,3) by auto
  then show ?thesis using assms(4) by (auto simp: quote_ok_def quotable_def feq_finite split: if_splits)
qed

lemma write_succeeds:
  assumes "oe_faults env = no_faults" "numeric4_ok (oe_numeric4 env)" "quotable r"
  shows "writeOddsAndPublish env marketID (sr_ID r) (sr_Decimal r) (sr_American r) off st =
    (True, after_updates env [update_of env marketID off r] 1 1 st)"
proof -
  have q: "finite_f (sr_Decimal r)" "\<bar>rv (sr_Decimal r)\<bar> \<le> 999999"
    using assms(3) by (auto simp: quotable_def abs_le_iff)
  obtain d where d: "oe_numeric4 env (sr_Decimal r) = Some d" using assms(2) q by (auto simp: numeric4_ok_def)
  have "\<bar>sr_American r\<bar> \<le> 2 * 10 ^ 9"
    using assms(3) DecimalToAmerican_bound [of "sr_Decimal r"] by (auto simp: quotable_def)
  then have "- (2 ^ 31) \<le> sr_American r \<and> sr_American r < 2 ^ 31" by (simp add: abs_le_iff)
  then have "in_int32 (sr_American r)" by (simp add: in_int32_def)
  moreover obtain j where "enc_float64 (sr_Decimal r) = Some j" using enc_float64_total [OF q(1)] by auto
  ultimately show ?thesis using assms(1) d
    by (simp add: writeOddsAndPublish_def exec_stmt_def insert_odds_def after_updates_def row_of_def message_of_def update_of_def
        odds_event_def marshal_struct_def odds_fields_def field_defs)
qed

lemma write_all_succeeds:
  assumes "oe_faults env = no_faults" "numeric4_ok (oe_numeric4 env)" "\<And>r. r \<in> set rs \<Longrightarrow> quotable r"
  shows "run_stmts (map (\<lambda>r. writeOddsAndPublish env marketID (sr_ID r) (sr_Decimal r) (sr_American r) off) rs) st =
    (True, after_updates env (map (update_of env marketID off) rs) (length rs) (length rs) st)"
  using assms(3)
  by (induction rs arbitrary: st) (simp_all add: write_succeeds [OF assms(1,2)] after_updates_Cons)

lemma query_selections_prob:
  assumes "catalog_inv db" "r \<in> set (query_selections env db marketID)"
  shows "\<exists>p. 0 \<le> p \<and> p \<le> 10 ^ 5 \<and> si_FeedProbability (fst r) = lit (of_int p / 10 ^ 5)"
proof -
  obtain sel p where sel: "sel \<in> set (selections db)" "feed_probability sel = Some p"
    "si_FeedProbability (fst r) = lit (of_int p / 10 ^ 5)"
    using assms(2) by (auto simp: query_selections_def List.map_filter_def split: option.splits)
  have "selection_chk sel" using assms(1) sel(1) by (auto simp: catalog_inv_def table_ok_def list_all_iff)
  then show ?thesis using sel(2,3) by (auto simp: selection_chk_def)
qed

text \<open>A price update is priced: without faults, over a catalog that satisfies its constraints, the
  handler returns without error, and each selection of the market that has a price gets its row and
  its message; no computed price overflows the columns of the table and none fails to marshal.\<close>

theorem feed_handled:
  assumes "decode_feed (Value msg) = Some event" "fm_EventType event = ''price.update''" "catalog_inv db"
    and "oe_faults env = no_faults" "numeric4_ok (oe_numeric4 env)" "libm_accurate (oe_libm env)"
  shows "handleNormalisedFeed env db msg st =
    (let es = market_updates env db (fm_MarketID event) (Offset msg) in (True, after_updates env es (length es) (length es) st))"
proof -
  let ?rs = "filter (\<lambda>r. \<not> feq (sr_Decimal r) (Fin 0)) (price_rows (oe_libm env) (query_selections env db (fm_MarketID event)))"
  have "quotable r" if "r \<in> set ?rs" for r
    using price_rows_quotable [OF assms(6) query_selections_prob [OF assms(3)]] that by auto
  then have "run_stmts (map (\<lambda>r. writeOddsAndPublish env (fm_MarketID event) (sr_ID r) (sr_Decimal r) (sr_American r) (Offset msg)) ?rs) st =
      (True, after_updates env (map (update_of env (fm_MarketID event) (Offset msg)) ?rs) (length ?rs) (length ?rs) st)"
    by (rule write_all_succeeds [OF assms(4,5)])
  then show ?thesis using assms(1,2,4) by (simp add: handleNormalisedFeed_def market_updates_def Let_def)
qed

section \<open>The invariant\<close>

definition publication_recorded :: "odds_row tbl \<Rightarrow> ProducerMessage \<Rightarrow> bool" where
  "publication_recorded t m \<longleftrightarrow>
     (\<exists>e. \<exists>r \<in> set t. m = message_of e \<and> od_market_id r = ou_MarketID e \<and> od_selection_id r = ou_SelectionID e \<and>
        offered_american r = ou_American e \<and> source_offset r = ou_SourceEventOffset e)"

definition odds_inv :: "odds_state \<Rightarrow> bool" where
  "odds_inv st \<longleftrightarrow> (\<forall>m \<in> set (odds_log st). publication_recorded (odds st) m)"

lemma publication_recorded_mono: "publication_recorded t m \<Longrightarrow> set t \<subseteq> set t' \<Longrightarrow> publication_recorded t' m"
  by (auto simp: publication_recorded_def)

lemma after_updates_inv:
  assumes "odds_inv st" "n \<le> k"
  shows "odds_inv (after_updates env es k n st)"
  unfolding odds_inv_def
proof
  fix m assume "m \<in> set (odds_log (after_updates env es k n st))"
  then consider "m \<in> set (odds_log st)" | e where "e \<in> set (take n es)" "m = message_of e"
    by (auto simp: after_updates_def)
  then show "publication_recorded (odds (after_updates env es k n st)) m"
  proof cases
    case 1
    then have "publication_recorded (odds st) m" using assms(1) by (simp add: odds_inv_def)
    then show ?thesis by (rule publication_recorded_mono) (auto simp: after_updates_def)
  next
    case 2
    then have "e \<in> set (take k es)" using set_take_subset_set_take [OF assms(2), of es] by blast
    then have "row_of env e \<in> set (odds (after_updates env es k n st))" by (simp add: after_updates_def)
    then show ?thesis using 2(2) unfolding publication_recorded_def by (intro exI [of _ e] bexI [of _ "row_of env e"]) (simp_all add: row_of_def)
  qed
qed

lemma feed_inv: "odds_inv st \<Longrightarrow> odds_inv (snd (handleNormalisedFeed env db msg st))"
proof -
  assume inv: "odds_inv st"
  obtain ok st' where h: "handleNormalisedFeed env db msg st = (ok, st')" by fastforce
  consider "st' = st" | event where "decode_feed (Value msg) = Some event" "fm_EventType event = ''price.update''"
    using h by (auto simp: handleNormalisedFeed_def split: option.splits if_splits)
  then show "odds_inv (snd (handleNormalisedFeed env db msg st))"
  proof cases
    case 2
    from feed_cases [OF this h] show ?thesis using after_updates_inv [OF inv] h by auto
  qed (use inv h in simp)
qed

lemma bet_inv: "odds_inv st \<Longrightarrow> odds_inv (snd (handleBetPlaced env msg st))"
proof -
  assume inv: "odds_inv st"
  obtain ok st' where h: "handleBetPlaced env msg st = (ok, st')" by fastforce
  then consider "st' = st" | mk s d a where "writeOddsAndPublish env mk s d a (Offset msg) st = (ok, st')"
    by (auto simp: handleBetPlaced_def Let_def split: option.splits if_splits)
  then show "odds_inv (snd (handleBetPlaced env msg st))"
  proof cases
    case 2
    from write_cases [OF refl this] show ?thesis using after_updates_inv [OF inv] h by auto
  qed (use inv h in simp)
qed

interpretation odds_consumer: consumer handleEvent odds_inv
  by unfold_locales (simp add: handleEvent_def feed_inv bet_inv)

text \<open>Nothing is published that the database does not know: in every state a claim of messages can
  leave, with any faults and any interleaving of feed events and bets, each message of the log is an
  odds-updated event whose market, selection, American odds and source offset are those of a row of
  the odds table.\<close>

theorem published_odds_recorded:
  assumes "odds_inv st"
  shows "odds_inv (fst (odds_ConsumeClaim ev commit ms (st, c)))"
  using odds_consumer.claim_inv [OF assms, of ev commit ms c] by (simp add: odds_ConsumeClaim_def)

section \<open>Witnesses\<close>

definition numeric4_round :: "float64 \<Rightarrow> int option" where
  "numeric4_round x = (if finite_f x \<and> \<bar>rv x\<bar> \<le> 999999 then Some (round_away (rv x * 10 ^ 4)) else None)"

definition odds_env0 :: odds_env where
  "odds_env0 = \<lparr>oe_now = 1, oe_faults = no_faults, oe_numeric4 = numeric4_round, oe_coll = (\<lambda>s. int (length s)), oe_tie = 0, oe_libm = rounded_libm\<rparr>"

definition odds_state0 :: odds_state where
  "odds_state0 = \<lparr>odds = [], odds_log = []\<rparr>"

definition price_msg :: "string \<Rightarrow> ConsumerMessage" where
  "price_msg topic = \<lparr>Topic = topic, Offset = 5, Value = Some (JObj [(''event_type'', JStr ''price.update''), (''market_id'', JStr ''m1'')]), Headers = []\<rparr>"

definition catalog2 :: catalog_db where
  "catalog2 = catalog1\<lparr>selections :=
     [\<lparr>sl_selection_id = ''m1-0'', sl_market_id = ''m1'', sl_name = ''Nets'', active = True, sl_target_value = 0, feed_probability = Some 50000\<rparr>,
      \<lparr>sl_selection_id = ''m1-1'', sl_market_id = ''m1'', sl_name = ''Pistons'', active = True, sl_target_value = 0, feed_probability = Some 50000\<rparr>]\<rparr>"

lemma catalog_inv2 [simp]: "catalog_inv catalog2"
  by (simp add: catalog2_def catalog_inv_def catalog1_def market1_def table_ok_def event_chk_def market_chk_def selection_chk_def in_int32_def)

lemma odds_env0_ok: "oe_faults odds_env0 = no_faults" "numeric4_ok (oe_numeric4 odds_env0)" "libm_accurate (oe_libm odds_env0)"
  using rounded_libm_accurate by (simp_all add: odds_env0_def numeric4_ok_def numeric4_round_def)

lemma price_msg_decodes: "decode_feed (Value (price_msg t)) = Some \<lparr>fm_EventType = ''price.update'', fm_MarketID = ''m1''\<rparr>"
  by (simp add: price_msg_def decode_feed_def dec_object_def dec_string_def fold_eq_def strings_ToLower_def lower_char_def)

lemma catalog2_rows:
  "query_selections odds_env0 catalog2 ''m1'' =
     [(\<lparr>si_ID = ''m1-0'', si_FeedProbability = lit (of_int 50000 / 10 ^ 5)\<rparr>, ''basketball'', ''LIVE''),
      (\<lparr>si_ID = ''m1-1'', si_FeedProbability = lit (of_int 50000 / 10 ^ 5)\<rparr>, ''basketball'', ''LIVE'')]"
  by (simp add: query_selections_def catalog2_def catalog1_def market1_def odds_env0_def join_event_def by_key_def query_row_def List.map_filter_def)

text \<open>The game is live basketball at even money, so both sides are quoted at -115.\<close>

lemma catalog2_quotes: "map sr_American (price_rows rounded_libm (query_selections odds_env0 catalog2 ''m1'')) = [- 115, - 115]"
proof -
  have half: "lit (of_int 50000 / 10 ^ 5) = Fin (1 / 2)"
  proof -
    have "fl (1 / 2) = 1 / 2" using representable_powi [of "- 1"] by (intro fl_exact) simp
    moreover have "(1::real) / 2 < 2 ^ 1024" "- (2 ^ 1024) < (1::real) / 2"
      using one_less_power [of "2::real" 1024] by simp_all
    ultimately show ?thesis by (simp add: lit_def rnd_def Let_def)
  qed
  show ?thesis
    unfolding catalog2_rows half
    using even_line [OF rounded_libm_accurate, of "\<lparr>si_ID = ''m1-0'', si_FeedProbability = Fin (1 / 2)\<rparr>" "\<lparr>si_ID = ''m1-1'', si_FeedProbability = Fin (1 / 2)\<rparr>"]
    by (simp add: price_rows_def feq_finite vig_for_def feed_ok_def)
qed

theorem feed_handled_witness:
  "\<exists>es. handleNormalisedFeed odds_env0 catalog2 (price_msg ''market-data.normalised'') odds_state0 =
     (True, after_updates odds_env0 es (length es) (length es) odds_state0)"
  using feed_handled [OF price_msg_decodes _ catalog_inv2 odds_env0_ok, of "''market-data.normalised''" odds_state0]
  by (auto simp: Let_def)

theorem price_update_handled_whole_witness:
  "\<exists>ok k n. n \<le> k \<and> k \<le> Suc n \<and>
     handleNormalisedFeed (odds_env0\<lparr>oe_faults := \<lambda>c. c = Send ''m1-1''\<rparr>) catalog2 (price_msg ''market-data-normalised'') odds_state0 =
       (ok, after_updates (odds_env0\<lparr>oe_faults := \<lambda>c. c = Send ''m1-1''\<rparr>)
          (market_updates (odds_env0\<lparr>oe_faults := \<lambda>c. c = Send ''m1-1''\<rparr>) catalog2 ''m1'' 5) k n odds_state0)"
proof -
  let ?env = "odds_env0\<lparr>oe_faults := \<lambda>c. c = Send ''m1-1''\<rparr>" and ?msg = "price_msg ''market-data-normalised''"
  obtain ok st' where h: "handleNormalisedFeed ?env catalog2 ?msg odds_state0 = (ok, st')" by fastforce
  have "Offset ?msg = 5" by (simp add: price_msg_def)
  with price_update_handled_whole [OF price_msg_decodes _ h] show ?thesis unfolding h by auto
qed

theorem odds_ignore_subscription_witness:
  "odds_ConsumeClaim (\<lambda>_. (odds_env0, catalog2)) (\<lambda>off c. off + 1) [price_msg ''market-data-normalised''] (odds_state0, 0) = (odds_state0, 6 :: int)"
  using odds_ignore_subscription [of "[price_msg ''market-data-normalised'']" "\<lambda>_. (odds_env0, catalog2)" "\<lambda>off c. off + 1" odds_state0 "0 :: int"]
  by (simp add: price_msg_def odds_topics_def)

theorem published_odds_recorded_witness:
  "odds_inv (fst (odds_ConsumeClaim (\<lambda>_. (odds_env0, catalog2)) (\<lambda>off c. off + 1) [price_msg ''market-data.normalised''] (odds_state0, 0 :: int)))"
  by (rule published_odds_recorded) (simp add: odds_inv_def odds_state0_def)

end
