(* ===== verification/OddsCache.thy ===== *)
theory OddsCache
  imports OddsManagement BetAcceptance
begin

text \<open>
  The odds cache updater of \<^verbatim>\<open>src/internal/odds/cache_updater.go\<close>, which copies every
  \<^verbatim>\<open>odds-updated\<close> event into the Redis instance that Bet Acceptance reads. The decoded event
  is the record of \<open>OddsManagement\<close>, the key is the one of \<open>BetAcceptance\<close>.

  Shown: the updater refines a board that holds the last odds of every selection, and the odds at
  which a bet is accepted are those that the odds service published.
\<close>

section \<open>The updater\<close>

definition decode_OddsUpdatedEvent :: "payload \<Rightarrow> OddsUpdatedEvent option" where
  "decode_OddsUpdatedEvent p =
     Option.bind (dec_object p) (\<lambda>kvs.
     Option.bind (decode_field dec_string ''market_id'' [] kvs) (\<lambda>m.
     Option.bind (decode_field dec_string ''selection_id'' [] kvs) (\<lambda>s.
     Option.bind (decode_field dec_float64 ''decimal'' (Fin 0) kvs) (\<lambda>d.
     Option.bind (decode_field dec_int64 ''american'' 0 kvs) (\<lambda>a.
     Option.bind (decode_field dec_int64 ''src_offset'' 0 kvs) (\<lambda>off.
     Option.bind (decode_field dec_string ''computed_at'' [] kvs) (\<lambda>c.
     Some \<lparr>ou_MarketID = m, ou_SelectionID = s, ou_Decimal = d, ou_American = a, ou_SourceEventOffset = off, ou_ComputedAt = c\<rparr>)))))))"

definition entry_fields :: "time \<Rightarrow> OddsUpdatedEvent \<Rightarrow> struct_field list" where
  "entry_fields now e =
     [val_field ''decimal'' (enc_float64 (ou_Decimal e)), int_field ''american'' (ou_American e),
      int_field ''src_offset'' (ou_SourceEventOffset e), str_field ''updated_at'' (format_rfc3339 True now)]"

definition OddsCacheTTL :: time where
  "OddsCacheTTL = 48 * 3600 * second"

datatype cache_call = CacheSet | CacheSetAck

type_synonym cache_env = "time \<times> cache_call faults"

definition handleMessage :: "cache_env \<Rightarrow> ConsumerMessage \<Rightarrow> payload redis \<Rightarrow> bool \<times> payload redis" where
  "handleMessage env msg rdb =
     (case decode_OddsUpdatedEvent (Value msg) of
        None \<Rightarrow> (False, rdb)
      | Some e \<Rightarrow>
          if ou_MarketID e = [] \<or> ou_SelectionID e = [] then (False, rdb)
          else exec_stmt (snd env) CacheSet CacheSetAck (marshal_struct (entry_fields (fst env) e))
                 (\<lambda>data. redis_set (fst env) (odds_key (ou_MarketID e) (ou_SelectionID e)) (Some data) OddsCacheTTL rdb) rdb)"

definition cache_ConsumeClaim :: "(ConsumerMessage \<Rightarrow> cache_env) \<Rightarrow> (int \<Rightarrow> 'c \<Rightarrow> 'c) \<Rightarrow> ConsumerMessage list \<Rightarrow>
    payload redis \<times> 'c \<Rightarrow> payload redis \<times> 'c" where
  "cache_ConsumeClaim ev commit = consume_claim (\<lambda>m. handleMessage (ev m) m) commit"

section \<open>Entries\<close>

definition odds_of :: "OddsUpdatedEvent \<Rightarrow> CachedOdds" where
  "odds_of e = \<lparr>Decimal = ou_Decimal e, American = ou_American e, SourceEventOffset = ou_SourceEventOffset e\<rparr>"

definition sound_event :: "OddsUpdatedEvent \<Rightarrow> bool" where
  "sound_event e \<longleftrightarrow> finite_f (ou_Decimal e) \<and> is_float64 (ou_Decimal e) \<and> in_int64 (ou_American e) \<and> in_int64 (ou_SourceEventOffset e)"

lemma sound_enc:
  assumes "sound_event e"
  obtains j where "enc_float64 (ou_Decimal e) = Some j" "j \<noteq> JNull" "dec_float64 j = Some (ou_Decimal e)"
proof -
  obtain j where j: "enc_float64 (ou_Decimal e) = Some j" using enc_float64_total assms by (auto simp: sound_event_def)
  then have "dec_float64 j = Some (ou_Decimal e)" using assms float64_json_roundtrip by (auto simp: sound_event_def)
  moreover then have "j \<noteq> JNull" by (auto simp: dec_float64_def)
  ultimately show thesis using j that by blast
qed

text \<open>What the updater stores is read back by Bet Acceptance as the odds of the event.\<close>

lemma entry_decodes:
  assumes "sound_event e"
  shows "\<exists>data. marshal_struct (entry_fields now e) = Some data \<and> decode_CachedOdds (Some data) = Some (odds_of e)"
proof -
  obtain j where j: "enc_float64 (ou_Decimal e) = Some j" "j \<noteq> JNull" "dec_float64 j = Some (ou_Decimal e)" using sound_enc [OF assms] .
  obtain kvs where kvs: "marshal_fields (entry_fields now e) = Some kvs" by (simp add: entry_fields_def field_defs j)
  have "distinct (map (strings_ToLower \<circ> fst) (entry_fields now e))"
    by (simp add: entry_fields_def field_defs strings_ToLower_def lower_char_def)
  note rt = decode_field_of [OF kvs this]
  have "decode_field dec_float64 ''decimal'' (Fin 0) kvs = Some (ou_Decimal e)"
    by (rule rt(3) [of _ j]) (simp_all add: entry_fields_def j)
  moreover have "decode_field dec_int64 ''american'' 0 kvs = Some (ou_American e)"
    "decode_field dec_int64 ''src_offset'' 0 kvs = Some (ou_SourceEventOffset e)"
    using assms by (intro rt(1); simp add: entry_fields_def sound_event_def)+
  ultimately show ?thesis
    by (simp add: marshal_struct_def kvs decode_CachedOdds_def dec_object_def odds_of_def)
qed

lemma published_decodes:
  assumes "sound_event e"
  shows "decode_OddsUpdatedEvent (Some (pm_Value (message_of e))) = Some e"
proof -
  obtain j where j: "enc_float64 (ou_Decimal e) = Some j" "j \<noteq> JNull" "dec_float64 j = Some (ou_Decimal e)" using sound_enc [OF assms] .
  obtain kvs where kvs: "marshal_fields (odds_fields e) = Some kvs" by (simp add: odds_fields_def field_defs j)
  have d: "distinct (map (strings_ToLower \<circ> fst) (odds_fields e))"
    by (simp add: odds_fields_def field_defs strings_ToLower_def lower_char_def)
  note rt = decode_field_of [OF kvs d] and rs = decode_marshalled [OF kvs d]
  have "decode_field dec_float64 ''decimal'' (Fin 0) kvs = Some (ou_Decimal e)"
    by (rule rt(3) [of _ j]) (simp_all add: odds_fields_def j)
  moreover have "decode_field dec_int64 ''american'' 0 kvs = Some (ou_American e)"
    "decode_field dec_int64 ''src_offset'' 0 kvs = Some (ou_SourceEventOffset e)"
    using assms by (intro rt(1); simp add: odds_fields_def sound_event_def)+
  moreover have "decode_field dec_string ''market_id'' [] kvs = Some (ou_MarketID e)"
    "decode_field dec_string ''selection_id'' [] kvs = Some (ou_SelectionID e)"
    "decode_field dec_string ''computed_at'' [] kvs = Some (ou_ComputedAt e)"
    by (intro rs(1); simp add: odds_fields_def)+
  ultimately show ?thesis
    by (simp add: message_of_def marshal_struct_def kvs decode_OddsUpdatedEvent_def dec_object_def)
qed

section \<open>Refinement of the board\<close>

text \<open>The board: per market and selection the odds of the last event and the time they expire. Markets
  with a colon in their identifier are left out, because the keys of the cache do not tell them
  apart.\<close>

type_synonym board = "string \<times> string \<rightharpoonup> CachedOdds \<times> time"

definition board_of :: "payload redis \<Rightarrow> board" where
  "board_of rdb = (\<lambda>(m, s). if CHR '':'' \<in> set m then None
     else Option.bind (rdb (odds_key m s)) (\<lambda>(raw, expiry). map_option (\<lambda>q. (q, expiry)) (decode_CachedOdds raw)))"

text \<open>One update of the board; a store that fails before Redis acts loses it.\<close>

definition board_step :: "cache_env \<Rightarrow> OddsUpdatedEvent \<Rightarrow> board \<Rightarrow> board" where
  "board_step env e b =
     (if snd env CacheSet then b
      else b((ou_MarketID e, ou_SelectionID e) \<mapsto> (odds_of e, fst env + OddsCacheTTL)))"

text \<open>Well-formed events of the topic.\<close>

definition odds_msg_ok :: "ConsumerMessage \<Rightarrow> OddsUpdatedEvent \<Rightarrow> bool" where
  "odds_msg_ok msg e \<longleftrightarrow> decode_OddsUpdatedEvent (Value msg) = Some e \<and> sound_event e \<and> ou_MarketID e \<noteq> [] \<and>
     ou_SelectionID e \<noteq> [] \<and> CHR '':'' \<notin> set (ou_MarketID e)"

lemma append_sep_inj:
  assumes "xs @ c # ys = xs' @ c # ys'" "c \<notin> set xs" "c \<notin> set xs'"
  shows "xs = xs' \<and> ys = ys'"
proof -
  have t: "takeWhile (\<lambda>x. x \<noteq> c) (zs @ c # ws) = zs" if "c \<notin> set zs" for zs ws
    using that by (subst takeWhile_append2) auto
  have "xs = xs'" using arg_cong [OF assms(1), of "takeWhile (\<lambda>x. x \<noteq> c)"] t assms(2,3) by simp
  then show ?thesis using assms(1) by simp
qed

lemma odds_key_inj:
  "CHR '':'' \<notin> set m \<Longrightarrow> CHR '':'' \<notin> set m' \<Longrightarrow> odds_key m s = odds_key m' s' \<longleftrightarrow> m = m' \<and> s = s'"
  using append_sep_inj [of m "CHR '':''" s m' s'] by (auto simp: odds_key_def)

lemma handleMessage_refines:
  assumes "odds_msg_ok msg e"
  shows "board_of (snd (handleMessage env msg rdb)) = board_step env e (board_of rdb)"
proof -
  obtain data where d: "marshal_struct (entry_fields (fst env) e) = Some data" "decode_CachedOdds (Some data) = Some (odds_of e)"
    using entry_decodes assms by (auto simp: odds_msg_ok_def)
  show ?thesis
  proof (cases "snd env CacheSet")
    case True
    then show ?thesis using assms by (simp add: handleMessage_def exec_stmt_def board_step_def odds_msg_ok_def)
  next
    case False
    let ?k = "odds_key (ou_MarketID e) (ou_SelectionID e)"
    have "snd (handleMessage env msg rdb) = rdb(?k \<mapsto> (Some data, fst env + OddsCacheTTL))"
      using False assms by (simp add: handleMessage_def exec_stmt_def odds_msg_ok_def d redis_set_def)
    moreover have "board_of (rdb(?k \<mapsto> (Some data, fst env + OddsCacheTTL))) p = board_step env e (board_of rdb) p" for p
      using False assms d(2) by (cases p) (auto simp: board_of_def board_step_def odds_key_inj odds_msg_ok_def)
    ultimately show ?thesis by presburger
  qed
qed

text \<open>C19. The cache is a faithful board: after any claim of well-formed odds events the cache, read the
  way Bet Acceptance reads it, holds for each selection exactly the odds of the last event of that
  selection that was stored, with their expiry, and redelivery or lost acknowledgements change
  nothing else; the updater refines the map update per event.\<close>

theorem cache_refines_board:
  assumes "\<And>msg. msg \<in> set ms \<Longrightarrow> odds_msg_ok msg (evt msg)"
  shows "board_of (fst (cache_ConsumeClaim ev commit ms (rdb, c))) = foldl (\<lambda>b msg. board_step (ev msg) (evt msg) b) (board_of rdb) ms"
  using assms unfolding cache_ConsumeClaim_def consume_claim_state
proof (induction ms arbitrary: rdb)
  case (Cons msg ms)
  then show ?case using handleMessage_refines [of msg "evt msg" "ev msg" rdb] by simp
qed simp

section \<open>From the odds service to the bet\<close>

lemma cached_odds_read:
  assumes "sound_event e" "ou_MarketID e \<noteq> []" "ou_SelectionID e \<noteq> []" "Value msg = Some (pm_Value (message_of e))"
    and "handleMessage (t, ft) msg rdb = (True, rdb')" "now < t + OddsCacheTTL"
  shows "\<exists>raw. redis_get now rdb' (odds_key (ou_MarketID e) (ou_SelectionID e)) = Some raw \<and> decode_CachedOdds raw = Some (odds_of e)"
proof -
  obtain data where d: "marshal_struct (entry_fields t e) = Some data" "decode_CachedOdds (Some data) = Some (odds_of e)"
    using entry_decodes [OF assms(1)] by blast
  have "rdb' = redis_set t (odds_key (ou_MarketID e) (ou_SelectionID e)) (Some data) OddsCacheTTL rdb"
    using assms(2-5) published_decodes [OF assms(1)] d(1) by (auto simp: handleMessage_def exec_stmt_def split: if_splits)
  then show ?thesis using d(2) assms(6) by (auto simp: redis_simps)
qed

lemma accepted_odds:
  assumes "PlaceBet ft cfg env wc req st = (Inr resp, st')" "\<not> is_replay ft env req st"
    and "redis_get (be_now env) (redisOdds st) (odds_key (pb_MarketID req) (pb_SelectionID req)) = Some raw"
    and "decode_CachedOdds raw = Some co"
  shows "pr_OddsDecimal resp = Decimal co \<and> pr_OddsAmerican resp = American co"
proof -
  obtain co1 rdb where c: "check_bet ft cfg (be_now env) wc req st = Inr co1"
    and k: "commit_bet ft env wc req co1 (st\<lparr>redisRateLimit := rdb\<rparr>) = (Inr resp, st')"
    using assms(1,2) by (rule PlaceBet_acceptedD)
  have "co1 = co" using c by (rule check_betD) (use assms(3,4) in auto)
  moreover have "pr_OddsDecimal resp = Decimal co1" "pr_OddsAmerican resp = American co1"
    using k by (cases rule: commit_bet_cases; simp)+
  ultimately show ?thesis by simp
qed

text \<open>A bet is struck at the published price: when the cache updater has stored an odds-updated
  event of the odds service, a bet on that selection that Bet Acceptance accepts within 48 hours, and
  before the entry is replaced, reports exactly the decimal and American odds of the event.\<close>

theorem bet_at_published_odds:
  assumes "sound_event e" "ou_MarketID e \<noteq> []" "ou_SelectionID e \<noteq> []" "Value msg = Some (pm_Value (message_of e))"
    and "handleMessage (t, cft) msg rdb = (True, redisOdds st)" "be_now env < t + OddsCacheTTL"
    and "PlaceBet ft cfg env wc req st = (Inr resp, st')" "\<not> is_replay ft env req st"
    and "pb_MarketID req = ou_MarketID e" "pb_SelectionID req = ou_SelectionID e"
  shows "pr_OddsDecimal resp = ou_Decimal e \<and> pr_OddsAmerican resp = ou_American e"
  using cached_odds_read [OF assms(1-6)] accepted_odds [OF assms(7,8)] assms(9,10) by (auto simp: odds_of_def)

section \<open>Witnesses\<close>

definition even_event :: OddsUpdatedEvent where
  "even_event = \<lparr>ou_MarketID = ''a'', ou_SelectionID = ''s1'', ou_Decimal = Fin 2, ou_American = 100, ou_SourceEventOffset = 3, ou_ComputedAt = ''''\<rparr>"

definition even_msg :: ConsumerMessage where
  "even_msg = \<lparr>Topic = ''odds-updated'', Offset = 8, Value = Some (pm_Value (message_of even_event)), Headers = []\<rparr>"

lemma even_event_sound: "sound_event even_event"
proof -
  have "fl 2 = 2" using fl_of_int [of 2] by simp
  moreover have "(2::real) < 2 ^ 1024" using power_strict_increasing [of 1 1024 "2::real"] by simp
  ultimately show ?thesis by (simp add: sound_event_def even_event_def is_float64_def in_int64_def)
qed

lemma even_msg_ok: "odds_msg_ok even_msg even_event"
  using published_decodes [OF even_event_sound] even_event_sound
  by (simp add: odds_msg_ok_def even_msg_def) (simp add: even_event_def)

theorem cache_refines_board_witness:
  "board_of (fst (cache_ConsumeClaim (\<lambda>_. (1, no_faults)) (\<lambda>off c. off + 1) [even_msg, even_msg] (Map.empty, 0 :: int))) (''a'', ''s1'') =
     Some (\<lparr>Decimal = Fin 2, American = 100, SourceEventOffset = 3\<rparr>, 1 + OddsCacheTTL)"
  using cache_refines_board [of "[even_msg, even_msg]" "\<lambda>_. even_event" "\<lambda>_. (1, no_faults)" "\<lambda>off c. off + 1" Map.empty "0 :: int"] even_msg_ok
  by (simp add: board_step_def odds_of_def) (simp add: even_event_def)

definition even_rdb :: "payload redis" where
  "even_rdb = snd (handleMessage (1, no_faults) even_msg Map.empty)"

lemma even_rdb_stored: "handleMessage (1, no_faults) even_msg Map.empty = (True, even_rdb)"
proof -
  obtain data where "marshal_struct (entry_fields 1 even_event) = Some data" using entry_decodes [OF even_event_sound] by blast
  then have "fst (handleMessage (1, no_faults) even_msg Map.empty)"
    using even_msg_ok by (simp add: handleMessage_def exec_stmt_def odds_msg_ok_def)
  then show ?thesis by (simp add: even_rdb_def prod_eq_iff)
qed

lemma even_rdb_read: "\<exists>raw. redis_get 10 even_rdb (odds_key ''a'' ''s1'') = Some raw \<and> decode_CachedOdds raw = Some even_odds"
  using cached_odds_read [OF even_event_sound _ _ _ even_rdb_stored, of 10]
  by (simp add: even_msg_def OddsCacheTTL_def second_def) (simp add: even_event_def odds_of_def even_odds_def)

lemma ann_placed_cached:
  "PlaceBet no_faults DefaultConfig ann_env (remote_wallet good_link) (ann_bet 2000) (ann_st\<lparr>redisOdds := even_rdb\<rparr>) =
     (Inr ann_resp, ann_st'\<lparr>redisOdds := even_rdb\<rparr>)"
proof -
  let ?st = "ann_st\<lparr>redisOdds := even_rdb\<rparr>"
  have d: "wc_DeductBalance (remote_wallet good_link) (deduct_request ann_env (ann_bet 2000)) wallet1 = (Inr ann_paid, ann_wallet)"
    by (simp add: ann_request remote_wallet_def good_link_def ann_deducted)
  have "commit_bet no_faults ann_env (remote_wallet good_link) (ann_bet 2000) even_odds ?st = (Inr ann_resp, ann_st'\<lparr>redisOdds := even_rdb\<rparr>)"
    unfolding commit_bet_def using d ann_payload
    by (simp add: ann_env_def ann_st_def ann_st'_def writeOutboxPending_def insert_row_def markOutboxReady_def
        set_rows_def ann_row_def outbox_row_def ann_resp_def even_odds_def ann_bet_def redis_set_def)
  moreover have "lag_step no_faults DefaultConfig ann_env (ann_bet 2000) (redisRateLimit ?st) = (True, redisRateLimit ?st)"
    by (rule lag_step_small) (simp add: ann_bet_def DefaultConfig_def)
  moreover have "redis_get 10 (redisRateLimit ?st) k = None" for k by (simp add: ann_st_def redis_get_def)
  moreover have "check_bet no_faults DefaultConfig 10 (remote_wallet good_link) (ann_bet 2000) ?st = Inr even_odds"
    using even_odds_valid [of 2000] ann_limits even_rdb_read
    by (auto simp: check_bet_def ann_bet_def [of 2000] ann_st_def redis_get_def second_def checkLimits_def wrap64_def split: option.splits)
  ultimately show ?thesis by (simp add: PlaceBet_def ann_env_def)
qed

theorem bet_at_published_odds_witness:
  "pr_OddsDecimal ann_resp = Fin 2 \<and> pr_OddsAmerican ann_resp = 100 \<and>
   PlaceBet no_faults DefaultConfig ann_env (remote_wallet good_link) (ann_bet 2000) (ann_st\<lparr>redisOdds := even_rdb\<rparr>) =
     (Inr ann_resp, ann_st'\<lparr>redisOdds := even_rdb\<rparr>)"
proof -
  have "\<not> is_replay no_faults ann_env (ann_bet 2000) (ann_st\<lparr>redisOdds := even_rdb\<rparr>)"
    by (simp add: is_replay_def ann_st_def redis_get_def)
  then have "pr_OddsDecimal ann_resp = ou_Decimal even_event \<and> pr_OddsAmerican ann_resp = ou_American even_event"
    by (rule bet_at_published_odds [OF even_event_sound, of even_msg 1 no_faults Map.empty, rotated 5, OF ann_placed_cached])
      (simp_all add: even_rdb_stored, simp_all add: even_event_def even_msg_def ann_env_def ann_bet_def OddsCacheTTL_def second_def)
  then show ?thesis using ann_placed_cached by (simp add: even_event_def)
qed

end
