(* ===== verification/Broadcaster.thy ===== *)
theory Broadcaster
  imports OddsCache
begin

text \<open>
  The WebSocket hub of \<^verbatim>\<open>src/internal/catalog/broadcaster.go\<close> and its feeder
  \<^verbatim>\<open>odds_consumer.go\<close>. The hub is concurrent: every client has a write goroutine, broadcasts
  come from two consumers, and removals come from the read loop of the connection, from the write
  goroutine and from a broadcast that finds a full buffer. The model is a step relation whose steps
  are the critical sections under the mutex and the single channel operations outside of it; what a
  goroutine still has to do is part of the state. Sending on a closed channel and closing a closed
  channel are panics of Go.

  Shown: buffers are bounded, no channel is closed twice, every connected client is served in order
  without loss, and a broadcast can send on a closed channel.
\<close>

section \<open>State\<close>

type_synonym conn = nat

record channel =
  buf :: "json list"
  closed :: bool

datatype pump = PumpRuns | PumpExits | PumpDone

datatype panic = SendOnClosed | CloseOfClosed

text \<open>\<open>channels\<close> are the client objects made so far, \<open>pumps\<close> their write goroutines, \<open>sending\<close> the
  broadcasts under way (the message and the clients of the snapshot not yet served), \<open>removing\<close> the
  calls of RemoveClient not yet at the lock, \<open>closing\<close> those past it that will close the channel.
  \<open>accepted\<close> and \<open>delivered\<close> record what was put into the buffer and what was written to the socket.\<close>

record hub =
  clients :: "conn list"
  channels :: "conn \<rightharpoonup> channel"
  pumps :: "conn \<Rightarrow> pump"
  sending :: "(json \<times> conn list) list"
  removing :: "conn list"
  closing :: "conn list"
  accepted :: "conn \<Rightarrow> json list"
  delivered :: "conn \<Rightarrow> json list"
  panicked :: "panic option"

definition clientSendBuf :: nat where
  "clientSendBuf = 64"

definition NewBroadcaster :: hub where
  "NewBroadcaster = \<lparr>clients = [], channels = Map.empty, pumps = (\<lambda>_. PumpDone), sending = [], removing = [], closing = [],
     accepted = (\<lambda>_. []), delivered = (\<lambda>_. []), panicked = None\<rparr>"

definition ClientCount :: "hub \<Rightarrow> nat" where
  "ClientCount h = length (clients h)"

section \<open>The atomic parts of the operations\<close>

definition AddClient :: "conn \<Rightarrow> hub \<Rightarrow> hub" where
  "AddClient c h = h\<lparr>clients := clients h @ [c], channels := (channels h)(c \<mapsto> \<lparr>buf = [], closed = False\<rparr>), pumps := (pumps h)(c := PumpRuns)\<rparr>"

text \<open>Broadcast copies the clients under the read lock, in the order of the map's iteration.\<close>

definition broadcast_begin :: "json \<Rightarrow> conn list \<Rightarrow> hub \<Rightarrow> hub" where
  "broadcast_begin msg order h = h\<lparr>sending := sending h @ [(msg, order)]\<rparr>"

text \<open>One turn of its loop, the select with a default.\<close>

definition broadcast_send :: "nat \<Rightarrow> hub \<Rightarrow> hub" where
  "broadcast_send i h =
     (case sending h ! i of
        (msg, []) \<Rightarrow> h\<lparr>sending := take i (sending h) @ drop (Suc i) (sending h)\<rparr>
      | (msg, c # cs) \<Rightarrow>
          (let h' = h\<lparr>sending := (sending h)[i := (msg, cs)]\<rparr>; ch = the (channels h c)
           in if closed ch then h'\<lparr>panicked := Some SendOnClosed\<rparr>
              else if length (buf ch) < clientSendBuf
              then h'\<lparr>channels := (channels h)(c \<mapsto> ch\<lparr>buf := buf ch @ [msg]\<rparr>), accepted := (accepted h)(c := accepted h c @ [msg])\<rparr>
              else h'\<lparr>removing := removing h @ [c]\<rparr>))"

text \<open>RemoveClient: the critical section, then the close of the channel when the client was there.\<close>

definition remove_locked :: "conn \<Rightarrow> hub \<Rightarrow> hub" where
  "remove_locked c h =
     (if c \<in> set (clients h) then h\<lparr>clients := remove1 c (clients h), closing := closing h @ [c]\<rparr> else h)"

definition remove_close :: "conn \<Rightarrow> hub \<Rightarrow> hub" where
  "remove_close c h =
     (let ch = the (channels h c); h' = h\<lparr>closing := remove1 c (closing h)\<rparr>
      in if closed ch then h'\<lparr>panicked := Some CloseOfClosed\<rparr> else h'\<lparr>channels := (channels h)(c \<mapsto> ch\<lparr>closed := True\<rparr>)\<rparr>)"

text \<open>One turn of writePump: a message is received and written, or the write fails, or the channel is
  closed and drained.\<close>

definition pump_turn :: "bool \<Rightarrow> conn \<Rightarrow> hub \<Rightarrow> hub" where
  "pump_turn write_ok c h =
     (let ch = the (channels h c)
      in case buf ch of
           [] \<Rightarrow> if closed ch then h\<lparr>pumps := (pumps h)(c := PumpExits)\<rparr> else h
         | msg # msgs \<Rightarrow>
             (let h' = h\<lparr>channels := (channels h)(c \<mapsto> ch\<lparr>buf := msgs\<rparr>)\<rparr>
              in if write_ok then h'\<lparr>delivered := (delivered h)(c := delivered h c @ [msg])\<rparr>
                 else h'\<lparr>pumps := (pumps h)(c := PumpExits)\<rparr>))"

section \<open>The hub as a step relation\<close>

inductive hub_step :: "hub \<Rightarrow> hub \<Rightarrow> bool" where
  step_add: "panicked h = None \<Longrightarrow> channels h c = None \<Longrightarrow> hub_step h (AddClient c h)"
| step_begin: "panicked h = None \<Longrightarrow> distinct order \<Longrightarrow> set order = set (clients h) \<Longrightarrow> hub_step h (broadcast_begin msg order h)"
| step_send: "panicked h = None \<Longrightarrow> i < length (sending h) \<Longrightarrow> hub_step h (broadcast_send i h)"
| step_remove: "panicked h = None \<Longrightarrow> c \<in> set (removing h) \<Longrightarrow> hub_step h (remove_locked c (h\<lparr>removing := remove1 c (removing h)\<rparr>))"
| step_disconnect: "panicked h = None \<Longrightarrow> channels h c \<noteq> None \<Longrightarrow> hub_step h (remove_locked c h)"
| step_close: "panicked h = None \<Longrightarrow> c \<in> set (closing h) \<Longrightarrow> hub_step h (remove_close c h)"
| step_pump: "panicked h = None \<Longrightarrow> pumps h c = PumpRuns \<Longrightarrow> channels h c \<noteq> None \<Longrightarrow> hub_step h (pump_turn write_ok c h)"
| step_pump_exit: "panicked h = None \<Longrightarrow> pumps h c = PumpExits \<Longrightarrow> hub_step h (remove_locked c (h\<lparr>pumps := (pumps h)(c := PumpDone)\<rparr>))"

inductive_cases hub_stepE: "hub_step h h'"

section \<open>Invariants\<close>

text \<open>Registered clients and clients about to be closed are different and have an open channel.\<close>

definition open_chan :: "hub \<Rightarrow> conn \<Rightarrow> bool" where
  "open_chan h c \<longleftrightarrow> (\<exists>ch. channels h c = Some ch \<and> \<not> closed ch)"

definition hub_wf :: "hub \<Rightarrow> bool" where
  "hub_wf h \<longleftrightarrow>
     distinct (clients h @ closing h) \<and> (\<forall>c \<in> set (clients h @ closing h). open_chan h c) \<and>
     (\<forall>p \<in> set (sending h). set (snd p) \<subseteq> dom (channels h)) \<and>
     (\<forall>ch \<in> ran (channels h). length (buf ch) \<le> clientSendBuf) \<and>
     panicked h \<noteq> Some CloseOfClosed"

text \<open>What a client got is a prefix of what was accepted for it, and with its buffer all of it as long
  as its write goroutine runs.\<close>

definition hub_fifo :: "hub \<Rightarrow> bool" where
  "hub_fifo h \<longleftrightarrow>
     (\<forall>c. (channels h c = None \<longrightarrow> accepted h c = [] \<and> delivered h c = []) \<and>
        (\<forall>ch. channels h c = Some ch \<and> pumps h c = PumpRuns \<longrightarrow> accepted h c = delivered h c @ buf ch) \<and>
        (\<exists>rest. accepted h c = delivered h c @ rest))"

lemma hub_fifoD:
  assumes "hub_fifo h"
  shows "channels h c = None \<Longrightarrow> accepted h c = [] \<and> delivered h c = []"
    and "channels h c = Some ch \<Longrightarrow> pumps h c = PumpRuns \<Longrightarrow> accepted h c = delivered h c @ buf ch"
    and "\<exists>rest. accepted h c = delivered h c @ rest"
  using assms by (auto simp: hub_fifo_def)

lemma hub_fifoI:
  assumes "\<And>c. channels h c = None \<Longrightarrow> accepted h c = [] \<and> delivered h c = []"
    and "\<And>c ch. channels h c = Some ch \<Longrightarrow> pumps h c = PumpRuns \<Longrightarrow> accepted h c = delivered h c @ buf ch"
    and "\<And>c. \<exists>rest. accepted h c = delivered h c @ rest"
  shows "hub_fifo h"
  using assms unfolding hub_fifo_def by blast

lemma hub_wfD:
  assumes "hub_wf h"
  shows "distinct (clients h @ closing h)" and "c \<in> set (clients h @ closing h) \<Longrightarrow> open_chan h c"
    and "p \<in> set (sending h) \<Longrightarrow> set (snd p) \<subseteq> dom (channels h)"
    and "channels h c = Some ch \<Longrightarrow> length (buf ch) \<le> clientSendBuf" and "panicked h \<noteq> Some CloseOfClosed"
  using assms by (auto simp: hub_wf_def intro: ranI)

lemma hub_wfI:
  assumes "distinct (clients h @ closing h)" "\<And>c. c \<in> set (clients h @ closing h) \<Longrightarrow> open_chan h c"
    and "\<And>p c. p \<in> set (sending h) \<Longrightarrow> c \<in> set (snd p) \<Longrightarrow> channels h c \<noteq> None"
    and "\<And>c ch. channels h c = Some ch \<Longrightarrow> length (buf ch) \<le> clientSendBuf" "panicked h \<noteq> Some CloseOfClosed"
  shows "hub_wf h"
  using assms unfolding hub_wf_def ran_def by blast

lemma remove_locked_simps [simp]:
  "channels (remove_locked c h) = channels h" "sending (remove_locked c h) = sending h" "pumps (remove_locked c h) = pumps h"
  "accepted (remove_locked c h) = accepted h" "delivered (remove_locked c h) = delivered h" "panicked (remove_locked c h) = panicked h"
  "open_chan (remove_locked c h) = open_chan h"
  by (simp_all add: remove_locked_def open_chan_def fun_eq_iff)

lemma remove_locked_set: "distinct (clients h @ closing h) \<Longrightarrow>
  distinct (clients (remove_locked c h) @ closing (remove_locked c h)) \<and>
  set (clients (remove_locked c h) @ closing (remove_locked c h)) = set (clients h @ closing h)"
  by (auto simp: remove_locked_def)

lemma remove_locked_wf: "hub_wf h \<Longrightarrow> hub_wf (remove_locked c h)"
  unfolding hub_wf_def using remove_locked_set [of h c] by simp

lemma remove_locked_fifo: "hub_fifo h \<Longrightarrow> hub_fifo (remove_locked c h)"
  unfolding hub_fifo_def by simp

lemma fresh_not_listed: "hub_wf h \<Longrightarrow> channels h c = None \<Longrightarrow> c \<notin> set (clients h) \<and> c \<notin> set (closing h)"
  using hub_wfD(2) [of h c] by (auto simp: open_chan_def)

lemma AddClient_wf:
  assumes "hub_wf h" "channels h c = None"
  shows "hub_wf (AddClient c h)"
proof (rule hub_wfI)
  show "distinct (clients (AddClient c h) @ closing (AddClient c h))"
    using hub_wfD(1) [OF assms(1)] fresh_not_listed [OF assms] by (simp add: AddClient_def)
  show "open_chan (AddClient c h) d" if "d \<in> set (clients (AddClient c h) @ closing (AddClient c h))" for d
    using hub_wfD(2) [OF assms(1), of d] that assms(2) by (auto simp: AddClient_def open_chan_def)
  show "channels (AddClient c h) d \<noteq> None" if "p \<in> set (sending (AddClient c h))" "d \<in> set (snd p)" for p d
    using hub_wfD(3) [OF assms(1), of p] that by (auto simp: AddClient_def)
  show "length (buf ch) \<le> clientSendBuf" if "channels (AddClient c h) d = Some ch" for d ch
    using hub_wfD(4) [OF assms(1), of d ch] that by (auto simp: AddClient_def split: if_splits)
  show "panicked (AddClient c h) \<noteq> Some CloseOfClosed" using hub_wfD(5) [OF assms(1)] by (simp add: AddClient_def)
qed

text \<open>An operation that replaces the channel of one client and leaves the lists alone.\<close>

lemma channel_update_wf:
  assumes "hub_wf h" "channels h c = Some ch" "closed ch' = closed ch" "length (buf ch') \<le> clientSendBuf"
    and "clients h' = clients h" "closing h' = closing h" "channels h' = (channels h)(c \<mapsto> ch')" "panicked h' = panicked h"
    and "\<And>p. p \<in> set (sending h') \<Longrightarrow> set (snd p) \<subseteq> dom (channels h)"
  shows "hub_wf h'"
proof (rule hub_wfI)
  show "distinct (clients h' @ closing h')" using hub_wfD(1) [OF assms(1)] assms(5,6) by simp
  show "open_chan h' d" if "d \<in> set (clients h' @ closing h')" for d
    using hub_wfD(2) [OF assms(1), of d] that assms(2,3,5-7) by (auto simp: open_chan_def)
  show "channels h' d \<noteq> None" if "p \<in> set (sending h')" "d \<in> set (snd p)" for p d
    using assms(9) [OF that(1)] that(2) assms(7) by auto
  show "length (buf x) \<le> clientSendBuf" if "channels h' d = Some x" for d x
    using hub_wfD(4) [OF assms(1), of d x] that assms(4,7) by (auto split: if_splits)
  show "panicked h' \<noteq> Some CloseOfClosed" using hub_wfD(5) [OF assms(1)] assms(8) by simp
qed

lemma remove_close_wf:
  assumes "hub_wf h" "c \<in> set (closing h)"
  shows "hub_wf (remove_close c h)"
proof -
  obtain ch where ch: "channels h c = Some ch" "\<not> closed ch" using hub_wfD(2) [OF assms(1), of c] assms(2) by (auto simp: open_chan_def)
  have d: "distinct (clients h)" "distinct (closing h)" "c \<notin> set (clients h)" "set (clients h) \<inter> set (closing h) = {}"
    using hub_wfD(1) [OF assms(1)] assms(2) by auto
  have r: "remove_close c h = h\<lparr>closing := remove1 c (closing h), channels := (channels h)(c \<mapsto> ch\<lparr>closed := True\<rparr>)\<rparr>"
    using ch by (simp add: remove_close_def Let_def)
  show ?thesis unfolding r
  proof (rule hub_wfI; simp)
    show "distinct (clients h) \<and> distinct (remove1 c (closing h)) \<and> set (clients h) \<inter> (set (remove1 c (closing h))) = {}"
      using d by (auto simp: set_remove1_eq)
    show "open_chan (h\<lparr>closing := remove1 c (closing h), channels := (channels h)(c \<mapsto> ch\<lparr>closed := True\<rparr>)\<rparr>) e"
      if "e \<in> set (clients h) \<or> e \<in> set (remove1 c (closing h))" for e
      using that d hub_wfD(2) [OF assms(1), of e] by (auto simp: open_chan_def set_remove1_eq)
    show "e \<noteq> c \<longrightarrow> (\<exists>y. channels h e = Some y)" if "p \<in> set (sending h)" "e \<in> set (snd p)" for p e
      using hub_wfD(3) [OF assms(1) that(1)] that(2) by auto
    show "length (buf x) \<le> clientSendBuf" if "(if e = c then Some (ch\<lparr>closed := True\<rparr>) else channels h e) = Some x" for e x
      using that hub_wfD(4) [OF assms(1)] ch(1) by (auto split: if_splits)
    show "panicked h \<noteq> Some CloseOfClosed" using hub_wfD(5) [OF assms(1)] .
  qed
qed

lemma pump_turn_wf:
  assumes "hub_wf h" "channels h c = Some ch"
  shows "hub_wf (pump_turn ok c h)"
proof (cases "buf ch")
  case Nil
  then show ?thesis using assms by (simp add: pump_turn_def hub_wf_def open_chan_def)
next
  case (Cons msg msgs)
  then have "length msgs \<le> clientSendBuf" using hub_wfD(4) [OF assms] by simp
  moreover have "sending (pump_turn ok c h) = sending h" using Cons assms(2) by (simp add: pump_turn_def Let_def)
  ultimately show ?thesis using assms Cons hub_wfD(3) [OF assms(1)]
    by (intro channel_update_wf [OF assms, of "ch\<lparr>buf := msgs\<rparr>"]) (simp_all add: pump_turn_def Let_def)
qed

lemma sending_upd: "p \<in> set ((sending h)[i := q]) \<Longrightarrow> p = q \<or> p \<in> set (sending h)"
  using set_update_subset_insert [of "sending h" i q] by blast

lemma broadcast_send_wf:
  assumes "hub_wf h" "i < length (sending h)"
  shows "hub_wf (broadcast_send i h)"
proof -
  obtain msg cs where s: "sending h ! i = (msg, cs)" by fastforce
  then have "(msg, cs) \<in> set (sending h)" using assms(2) by (metis nth_mem)
  then have cs: "set cs \<subseteq> dom (channels h)" using hub_wfD(3) [OF assms(1)] by fastforce
  show ?thesis
  proof (cases cs)
    case Nil
    then show ?thesis using assms(1) s
      by (auto simp: hub_wf_def open_chan_def broadcast_send_def dest: in_set_takeD in_set_dropD)
  next
    case (Cons c rest)
    then obtain ch where ch: "channels h c = Some ch" using cs by auto
    have snd: "set (snd p) \<subseteq> dom (channels h)" if "p \<in> set ((sending h)[i := (msg, rest)])" for p
      using sending_upd [OF that] hub_wfD(3) [OF assms(1), of p] cs Cons by auto
    show ?thesis
    proof (cases "\<not> closed ch \<and> length (buf ch) < clientSendBuf")
      case True
      then show ?thesis using s Cons ch snd
        by (intro channel_update_wf [OF assms(1) ch, of "ch\<lparr>buf := buf ch @ [msg]\<rparr>"]) (simp_all add: broadcast_send_def Let_def)
    next
      case False
      then show ?thesis using s Cons ch snd assms(1)
        by (auto simp: broadcast_send_def Let_def hub_wf_def open_chan_def)
    qed
  qed
qed

lemma hub_step_wf: "hub_step h h' \<Longrightarrow> hub_wf h \<Longrightarrow> hub_wf h'"
proof (induction rule: hub_step.induct)
  case (step_begin h order msg)
  then show ?case using hub_wfD(2) [of h]
    by (auto simp: broadcast_begin_def hub_wf_def open_chan_def)
next
  case (step_remove h c)
  then show ?case by (intro remove_locked_wf) (simp add: hub_wf_def open_chan_def)
next
  case (step_pump_exit h c)
  then show ?case by (intro remove_locked_wf) (simp add: hub_wf_def open_chan_def)
next
  case (step_pump h c ok)
  then show ?case using pump_turn_wf by blast
qed (simp_all add: AddClient_wf broadcast_send_wf remove_close_wf remove_locked_wf)

lemma broadcast_send_fifo:
  assumes "hub_fifo h" "hub_wf h" "i < length (sending h)"
  shows "hub_fifo (broadcast_send i h)"
proof -
  obtain msg cs where s: "sending h ! i = (msg, cs)" by fastforce
  then have "(msg, cs) \<in> set (sending h)" using assms(3) by (metis nth_mem)
  then have cs: "set cs \<subseteq> dom (channels h)" using hub_wfD(3) [OF assms(2)] by fastforce
  show ?thesis
  proof (cases cs)
    case Nil
    then show ?thesis using assms(1) s by (simp add: hub_fifo_def broadcast_send_def)
  next
    case (Cons c rest)
    then obtain ch where ch: "channels h c = Some ch" using cs by auto
    show ?thesis
    proof (cases "\<not> closed ch \<and> length (buf ch) < clientSendBuf")
      case False
      then show ?thesis using assms(1) s Cons ch by (auto simp: hub_fifo_def broadcast_send_def Let_def)
    next
      case True
      then have b: "broadcast_send i h = h\<lparr>sending := (sending h)[i := (msg, rest)],
          channels := (channels h)(c \<mapsto> ch\<lparr>buf := buf ch @ [msg]\<rparr>), accepted := (accepted h)(c := accepted h c @ [msg])\<rparr>"
        using s Cons ch by (simp add: broadcast_send_def Let_def)
      show ?thesis unfolding b
        using hub_fifoD [OF assms(1)] ch by (intro hub_fifoI) (auto split: if_splits, metis append_assoc)
    qed
  qed
qed

lemma pump_turn_fifo:
  assumes "hub_fifo h" "channels h c = Some ch" "pumps h c = PumpRuns"
  shows "hub_fifo (pump_turn ok c h)"
proof (cases "buf ch")
  case Nil
  then show ?thesis using hub_fifoD [OF assms(1)] assms(2,3) by (intro hub_fifoI) (auto simp: pump_turn_def split: if_splits)
next
  case (Cons msg msgs)
  have a: "accepted h c = delivered h c @ msg # msgs" using hub_fifoD(2) [OF assms] Cons by simp
  show ?thesis
  proof (cases ok)
    case True
    then have b: "pump_turn ok c h = h\<lparr>channels := (channels h)(c \<mapsto> ch\<lparr>buf := msgs\<rparr>), delivered := (delivered h)(c := delivered h c @ [msg])\<rparr>"
      using Cons assms(2) by (simp add: pump_turn_def Let_def)
    show ?thesis unfolding b using hub_fifoD [OF assms(1)] a by (intro hub_fifoI) (auto split: if_splits)
  next
    case False
    then have b: "pump_turn ok c h = h\<lparr>channels := (channels h)(c \<mapsto> ch\<lparr>buf := msgs\<rparr>), pumps := (pumps h)(c := PumpExits)\<rparr>"
      using Cons assms(2) by (simp add: pump_turn_def Let_def)
    show ?thesis unfolding b using hub_fifoD [OF assms(1)] by (intro hub_fifoI) (auto split: if_splits)
  qed
qed

lemma remove_close_fifo:
  assumes "hub_fifo h" "hub_wf h" "c \<in> set (closing h)"
  shows "hub_fifo (remove_close c h)"
proof -
  obtain ch where ch: "channels h c = Some ch" "\<not> closed ch" using hub_wfD(2) [OF assms(2), of c] assms(3) by (auto simp: open_chan_def)
  then have r: "remove_close c h = h\<lparr>closing := remove1 c (closing h), channels := (channels h)(c \<mapsto> ch\<lparr>closed := True\<rparr>)\<rparr>"
    by (simp add: remove_close_def Let_def)
  show ?thesis unfolding r using hub_fifoD [OF assms(1)] ch by (intro hub_fifoI) (auto split: if_splits)
qed

lemma hub_step_fifo: "hub_step h h' \<Longrightarrow> hub_wf h \<Longrightarrow> hub_fifo h \<Longrightarrow> hub_fifo h'"
proof (induction rule: hub_step.induct)
  case (step_add h c)
  then show ?case using hub_fifoD [OF step_add(4)] unfolding AddClient_def by (intro hub_fifoI) (auto split: if_splits)
next
  case (step_pump h c ok)
  then show ?case using pump_turn_fifo by blast
next
  case (step_pump_exit h c)
  then show ?case using hub_fifoD [OF step_pump_exit(4)] by (intro remove_locked_fifo hub_fifoI) (auto split: if_splits)
next
  case (step_remove h c)
  then show ?case by (intro remove_locked_fifo) (simp add: hub_fifo_def)
qed (simp_all add: broadcast_send_fifo remove_close_fifo remove_locked_fifo broadcast_begin_def, simp add: hub_fifo_def)

lemma hub_reach_inv: "reach hub_step NewBroadcaster h \<Longrightarrow> hub_wf h \<and> hub_fifo h"
proof (erule reach_invariant [where I = "\<lambda>h. hub_wf h \<and> hub_fifo h"])
  show "hub_wf NewBroadcaster \<and> hub_fifo NewBroadcaster"
    by (simp add: hub_wf_def hub_fifo_def NewBroadcaster_def)
qed (blast intro: hub_step_wf hub_step_fifo)

section \<open>What the hub guarantees\<close>

text \<open>C20. Clients of the hub are served in order and within bounds: in every state the goroutines can
  reach, in any interleaving, no buffer holds more than 64 messages, no channel is ever closed a
  second time, a registered client has an open channel, what was written to a client's socket is a
  prefix of what was accepted for it, and as long as its write goroutine runs nothing accepted is
  lost.\<close>

theorem hub_serves_in_order:
  assumes "reach hub_step NewBroadcaster h"
  shows "panicked h \<noteq> Some CloseOfClosed \<and> (\<forall>c \<in> set (clients h). open_chan h c) \<and>
    (\<forall>c ch. channels h c = Some ch \<longrightarrow> length (buf ch) \<le> 64 \<and> (\<exists>rest. accepted h c = delivered h c @ rest) \<and>
       (pumps h c = PumpRuns \<longrightarrow> accepted h c = delivered h c @ buf ch))"
proof -
  have w: "hub_wf h" and f: "hub_fifo h" using hub_reach_inv [OF assms] by simp_all
  show ?thesis using hub_wfD [OF w] hub_fifoD [OF f] by (simp add: clientSendBuf_def)
qed

definition hub_one :: hub where
  "hub_one = AddClient 7 NewBroadcaster"

definition hub_sent :: hub where
  "hub_sent = broadcast_send 0 (broadcast_begin (JInt 1) [7] hub_one)"

lemma hub_one_reach: "reach hub_step NewBroadcaster hub_one"
  unfolding hub_one_def by (rule reach_single) (simp add: hub_step.step_add NewBroadcaster_def)

lemma hub_begun_reach: "reach hub_step NewBroadcaster (broadcast_begin (JInt 1) [7] hub_one)"
  using hub_one_reach by (rule reach_step) (rule step_begin; simp add: hub_one_def AddClient_def NewBroadcaster_def)

theorem hub_serves_in_order_witness:
  "reach hub_step NewBroadcaster hub_sent \<and> accepted hub_sent 7 = [JInt 1] \<and>
   (\<exists>ch. channels hub_sent 7 = Some ch \<and> length (buf ch) \<le> 64 \<and> accepted hub_sent 7 = delivered hub_sent 7 @ buf ch)"
proof -
  have r: "reach hub_step NewBroadcaster hub_sent" unfolding hub_sent_def using hub_begun_reach
    by (rule reach_step) (rule step_send; simp add: broadcast_begin_def hub_one_def AddClient_def NewBroadcaster_def)
  have h: "accepted hub_sent 7 = [JInt 1]" "channels hub_sent 7 = Some \<lparr>buf = [JInt 1], closed = False\<rparr>" "pumps hub_sent 7 = PumpRuns"
    by (simp_all add: hub_sent_def broadcast_send_def broadcast_begin_def hub_one_def AddClient_def NewBroadcaster_def clientSendBuf_def)
  show ?thesis using hub_serves_in_order [OF r] r h by blast
qed

text \<open>A broadcast can crash the process: Broadcast copies the clients under the lock and sends after
  releasing it, RemoveClient closes the channel after releasing it too, so a client that disconnects
  between the copy and the send makes the send panic on a closed channel.\<close>

theorem broadcast_panics:
  "\<exists>h. reach hub_step NewBroadcaster h \<and> panicked h = Some SendOnClosed"
proof -
  let ?b = "broadcast_begin (JInt 1) [7] hub_one"
  let ?r = "remove_locked 7 ?b"
  let ?c = "remove_close 7 ?r"
  have "hub_step ?b ?r" by (rule step_disconnect) (simp_all add: broadcast_begin_def hub_one_def AddClient_def NewBroadcaster_def)
  moreover have "hub_step ?r ?c"
    by (rule step_close) (simp_all add: remove_locked_def broadcast_begin_def hub_one_def AddClient_def NewBroadcaster_def)
  moreover have "hub_step ?c (broadcast_send 0 ?c)"
    by (rule step_send) (simp_all add: remove_close_def remove_locked_def broadcast_begin_def hub_one_def AddClient_def NewBroadcaster_def)
  ultimately have "reach hub_step NewBroadcaster (broadcast_send 0 ?c)" using hub_begun_reach by (blast intro: reach_step)
  moreover have "panicked (broadcast_send 0 ?c) = Some SendOnClosed"
    by (simp add: broadcast_send_def remove_close_def remove_locked_def broadcast_begin_def hub_one_def AddClient_def NewBroadcaster_def Let_def)
  ultimately show ?thesis by blast
qed

section \<open>The feeder\<close>

text \<open>What \<^verbatim>\<open>ConsumeClaim\<close> of the odds consumer broadcasts for a message; it marks every
  message. The decoded event is that of the cache updater less the fields it does not use.\<close>

definition decode_ws_odds :: "payload \<Rightarrow> (string \<times> string \<times> float64 \<times> int) option" where
  "decode_ws_odds p =
     Option.bind (dec_object p) (\<lambda>kvs.
     Option.bind (decode_field dec_string ''market_id'' [] kvs) (\<lambda>m.
     Option.bind (decode_field dec_string ''selection_id'' [] kvs) (\<lambda>s.
     Option.bind (decode_field dec_float64 ''decimal'' (Fin 0) kvs) (\<lambda>d.
     Option.bind (decode_field dec_int64 ''american'' 0 kvs) (\<lambda>a. Some (m, s, d, a))))))"

definition oddsUpdateMsg :: "string \<Rightarrow> string \<Rightarrow> float64 \<Rightarrow> int \<Rightarrow> json option" where
  "oddsUpdateMsg marketID selectionID decimal american =
     marshal_struct [str_field ''type'' ''odds_update'', str_field ''market_id'' marketID,
       val_field ''selections'' (map_option (\<lambda>j. JArr [j]) (marshal_struct
         [str_field ''selection_id'' selectionID, val_field ''odds_decimal'' (enc_float64 decimal), int_field ''odds_american'' american]))]"

definition odds_ws_handle :: "hub \<Rightarrow> ConsumerMessage \<Rightarrow> json option" where
  "odds_ws_handle h msg =
     (case decode_ws_odds (Value msg) of
        None \<Rightarrow> None
      | Some (m, s, d, a) \<Rightarrow> if ClientCount h = 0 then None else oddsUpdateMsg m s d a)"

lemma published_ws:
  assumes "sound_event e" "Value msg = Some (pm_Value (message_of e))" "clients h \<noteq> []"
  shows "\<exists>j. enc_float64 (ou_Decimal e) = Some j \<and> odds_ws_handle h msg =
    Some (JObj [(''type'', JStr ''odds_update''), (''market_id'', JStr (ou_MarketID e)),
      (''selections'', JArr [JObj [(''selection_id'', JStr (ou_SelectionID e)), (''odds_decimal'', j), (''odds_american'', JInt (ou_American e))]])])"
proof -
  obtain j where j: "enc_float64 (ou_Decimal e) = Some j" using sound_enc [OF assms(1)] by blast
  have "decode_ws_odds (Value msg) = Some (ou_MarketID e, ou_SelectionID e, ou_Decimal e, ou_American e)"
    using published_decodes [OF assms(1)] assms(2) by (auto simp: decode_OddsUpdatedEvent_def decode_ws_odds_def bind_eq_Some_conv)
  then show ?thesis using j assms(3)
    by (simp add: odds_ws_handle_def ClientCount_def oddsUpdateMsg_def marshal_struct_def field_defs)
qed

end
