(* ===== verification/ConsumerRuns.thy ===== *)
theory ConsumerRuns
  imports Settlement BetHistory Broadcaster
begin

text \<open>
  The consumers as long-running programs: the loops \<^verbatim>\<open>Run\<close>, \<^verbatim>\<open>RunConsumer\<close>,
  \<^verbatim>\<open>ConsumeNormalisedFeed\<close> and \<^verbatim>\<open>ConsumeOddsUpdates\<close> of the six consumers over their handlers.
  A run is any sequence of calls of \<^verbatim>\<open>Consume\<close> on one partition: rebalances, errors, lost commits and
  therefore redelivery of any committed-but-one suffix, until the context is cancelled.

  Shown, for every run: nothing below the committed position is skipped, invariants of the services
  survive, a settlement is final, no lag means that nothing waits, and an accepted bet reports the
  last committed odds of its selection. The handlers of Bet History and Odds Management choose by the
  topic of a message, so their loops carry the subscription; with the one of the code they change
  nothing. The other handlers do not read the topic.
\<close>

section \<open>The loops\<close>

text \<open>A session claims only partitions of the subscribed topics: the log of another topic delivers
  nothing. \<open>history_group\<close> and \<open>odds_group\<close> are the loops over any subscription, \<open>history_Run\<close> and
  \<open>RunConsumer\<close> those of the code.\<close>

definition subscribed :: "string list \<Rightarrow> ConsumerMessage list \<Rightarrow> ConsumerMessage list" where
  "subscribed topics msgs = (if list_all (\<lambda>m. Topic m \<in> set topics) msgs then msgs else [])"

abbreviation history_handler :: "confirm_link \<times> wallet_db hist_env \<Rightarrow> wallet_db hist_state handler" where
  "history_handler \<equiv> (\<lambda>(l, env). history_handle (hist_on_wallet l env))"

definition history_group :: "string list \<Rightarrow> (int \<Rightarrow> 'c \<Rightarrow> 'c) \<Rightarrow> ('c \<Rightarrow> int) \<Rightarrow> ConsumerMessage list \<Rightarrow>
    (confirm_link \<times> wallet_db hist_env) group_call list \<Rightarrow> (wallet_db hist_state, 'c) group_state \<Rightarrow>
    bool \<times> (wallet_db hist_state, 'c) group_state" where
  "history_group topics commit position msgs = run_group history_handler commit position (subscribed topics msgs)"

definition history_Run :: "(int \<Rightarrow> 'c \<Rightarrow> 'c) \<Rightarrow> ('c \<Rightarrow> int) \<Rightarrow> ConsumerMessage list \<Rightarrow> (confirm_link \<times> wallet_db hist_env) group_call list \<Rightarrow>
    (wallet_db hist_state, 'c) group_state \<Rightarrow> bool \<times> (wallet_db hist_state, 'c) group_state" where
  "history_Run = history_group history_topics"

definition odds_group :: "string list \<Rightarrow> (int \<Rightarrow> 'c \<Rightarrow> 'c) \<Rightarrow> ('c \<Rightarrow> int) \<Rightarrow> ConsumerMessage list \<Rightarrow> (odds_env \<times> catalog_db) group_call list \<Rightarrow>
    (odds_state, 'c) group_state \<Rightarrow> bool \<times> (odds_state, 'c) group_state" where
  "odds_group topics commit position msgs = run_group handleEvent commit position (subscribed topics msgs)"

definition RunConsumer :: "(int \<Rightarrow> 'c \<Rightarrow> 'c) \<Rightarrow> ('c \<Rightarrow> int) \<Rightarrow> ConsumerMessage list \<Rightarrow> (odds_env \<times> catalog_db) group_call list \<Rightarrow>
    (odds_state, 'c) group_state \<Rightarrow> bool \<times> (odds_state, 'c) group_state" where
  "RunConsumer = odds_group odds_topics"

definition cache_Run :: "(int \<Rightarrow> 'c \<Rightarrow> 'c) \<Rightarrow> ('c \<Rightarrow> int) \<Rightarrow> ConsumerMessage list \<Rightarrow> cache_env group_call list \<Rightarrow>
    (payload redis, 'c) group_state \<Rightarrow> bool \<times> (payload redis, 'c) group_state" where
  "cache_Run = run_group handleMessage"

definition ConsumeNormalisedFeed :: "(int \<Rightarrow> 'c \<Rightarrow> 'c) \<Rightarrow> ('c \<Rightarrow> int) \<Rightarrow> ConsumerMessage list \<Rightarrow> (bool \<times> cat_env) group_call list \<Rightarrow>
    (catalog_state, 'c) group_state \<Rightarrow> bool \<times> (catalog_state, 'c) group_state" where
  "ConsumeNormalisedFeed = run_group (\<lambda>(has_broadcaster, env). catalog_handle has_broadcaster env)"

text \<open>The odds consumer of the catalog marks every message; its state is what it has broadcast.\<close>

definition ConsumeOddsUpdates :: "(int \<Rightarrow> 'c \<Rightarrow> 'c) \<Rightarrow> ('c \<Rightarrow> int) \<Rightarrow> ConsumerMessage list \<Rightarrow> hub group_call list \<Rightarrow>
    (json list, 'c) group_state \<Rightarrow> bool \<times> (json list, 'c) group_state" where
  "ConsumeOddsUpdates = run_group (\<lambda>h m sent. (True, sent @ (case odds_ws_handle h m of None \<Rightarrow> [] | Some j \<Rightarrow> [j])))"

definition settlement_Run :: "(int \<Rightarrow> 'c \<Rightarrow> 'c) \<Rightarrow> ('c \<Rightarrow> int) \<Rightarrow> ConsumerMessage list \<Rightarrow>
    ((string \<Rightarrow> credit_link) \<times> wallet_db settle_env) group_call list \<Rightarrow>
    (wallet_db settle_state, 'c) group_state \<Rightarrow> bool \<times> (wallet_db settle_state, 'c) group_state" where
  "settlement_Run = run_group (\<lambda>(links, env). handleResult (on_wallet links env))"

lemma delivered_iff: "m \<in> fst ` set (tr :: (ConsumerMessage \<times> bool) list) \<longleftrightarrow> (m, True) \<in> set tr \<or> (m, False) \<in> set tr"
proof
  assume "m \<in> fst ` set tr"
  then obtain ok where "(m, ok) \<in> set tr" by auto
  then show "(m, True) \<in> set tr \<or> (m, False) \<in> set tr" by (cases ok) auto
qed (auto intro: rev_image_eqI)

section \<open>The history keeps every bet\<close>

definition bet_good :: "ConsumerMessage \<Rightarrow> bool" where
  "bet_good m \<longleftrightarrow> Topic m = ''bet.placed'' \<and> placed_good m"

lemma update_bets_cases:
  assumes "update_bets env b f st = (ok, st')"
  obtains "st' = st" | bs where "update_rows bets_chk (\<lambda>r. bh_BetID r = b) f (bets st) = Some bs" "st' = st\<lparr>bets := bs\<rparr>"
proof (cases "stmt (he_faults env) UpdateBet (update_rows bets_chk (\<lambda>r. bh_BetID r = b) f (bets st))")
  case None
  then show thesis using assms by (intro that(1)) (simp add: update_bets_def del: stmt_eq_None)
next
  case (Some bs)
  then show thesis using assms by (intro that(2) [of bs]) (auto simp: update_bets_def stmt_def split: if_splits)
qed

text \<open>Settling and voiding keep the key of a bet and do not touch the wallet.\<close>

lemma history_updates:
  assumes "handleBetSettled env m st = (ok, st') \<or> handleBetVoided env m st = (ok, st')"
  shows "bets_key ` set (bets st') = bets_key ` set (bets st) \<and> hi_wallet st' = hi_wallet st \<and>
    (table_ok bets_key bets_chk (bets st) \<longrightarrow> table_ok bets_key bets_chk (bets st'))"
proof -
  consider "st' = st" | b f where "update_bets env b f st = (ok, st')" "\<And>r. bets_key (f r) = bets_key r"
    using assms by (auto simp: handleBetSettled_def handleBetVoided_def settle_record_def bets_key_def split: option.splits prod.splits)
  then show ?thesis
  proof cases
    case (2 b f)
    from 2(1) show ?thesis
    proof (cases rule: update_bets_cases)
      case u: (2 bs)
      have "bs = set_rows (\<lambda>r. bh_BetID r = b) f (bets st)" using update_rows_SomeD [OF u(1)] by blast
      then have "bets_key ` set bs = bets_key ` set (bets st)" using set_rows_image [of bets_key f] 2(2) by blast
      moreover have "table_ok bets_key bets_chk (bets st) \<longrightarrow> table_ok bets_key bets_chk bs"
        using table_ok_update [of bets_key bets_chk, OF _ u(1) 2(2)] by blast
      ultimately show ?thesis by (simp add: u(2))
    qed simp
  qed simp
qed

lemma history_handle_cases:
  obtains (placed) "Topic m = ''bet.placed''" "history_handle env m st = history_handleBetPlaced env m st"
  | (updated) ok st' where "history_handle env m st = (ok, st')" "Topic m \<noteq> ''bet.placed''"
      "bets_key ` set (bets st') = bets_key ` set (bets st)" "hi_wallet st' = hi_wallet st"
      "table_ok bets_key bets_chk (bets st) \<Longrightarrow> table_ok bets_key bets_chk (bets st')"
proof (cases "Topic m = ''bet.placed''")
  case False
  obtain ok st' where h: "history_handle env m st = (ok, st')" by fastforce
  then have "handleBetSettled env m st = (ok, st') \<or> handleBetVoided env m st = (ok, st') \<or> st' = st"
    using False by (auto simp: history_handle_def split: if_splits)
  then show thesis using history_updates [of env m st ok st'] False by (intro updated [OF h]) auto
qed (simp add: history_handle_def placed)

interpretation history: idempotent_consumer history_handler hist_inv hist_view placed_in bet_good
proof
  fix s :: "wallet_db hist_state" and e :: "confirm_link \<times> wallet_db hist_env" and m m' s'
  obtain l env where e: "e = (l, env)" by (cases e)
  show "hist_inv (snd (history_handler e m s))" if "hist_inv s"
    using that placed.handle_inv [of s "(l, env)" m]
    by (cases rule: history_handle_cases [of m "hist_on_wallet l env" s]) (auto simp: e hist_inv_def)
  show "placed_in m s'" if "hist_inv s" "bet_good m" "history_handler e m s = (True, s')"
    using that placed.handle_done [of s m "(l, env)" s'] by (auto simp: e bet_good_def history_handle_def)
  show "placed_in m (snd (history_handler e m' s))" if "hist_inv s" "placed_in m s"
    using that placed.effect_stays [of s m "(l, env)" m']
    by (cases rule: history_handle_cases [of m' "hist_on_wallet l env" s]) (auto simp: e placed_in_def split: option.splits)
  show "hist_view (snd (history_handler e m s)) = hist_view s" if "hist_inv s" "bet_good m" "placed_in m s"
    using that placed.handle_again [of s m "(l, env)"] by (auto simp: e bet_good_def history_handle_def)
qed

text \<open>A history that subscribes to bet.placed loses no bet: over any rebalances, errors, lost commits
  and redeliveries, each message below the committed position was delivered, and if it is a well-formed
  bet then the bet is in the table, unless a delivery of it failed. The subscription of the code does
  not deliver this topic (\<open>history_Run_idle\<close>).\<close>

lemma log_offsets_subscribed: "log_offsets msgs \<Longrightarrow> log_offsets (subscribed topics msgs)"
  by (simp add: subscribed_def log_offsets_def)

theorem history_group_keeps_bets:
  assumes "commit_documented commit position" "log_offsets msgs" "hist_inv (cg_state g)" "cg_trace g = []" "position (cg_commit g) = 0"
    and "history_group topics commit position msgs calls g = (returned, g')" "list_all (\<lambda>m. Topic m \<in> set topics) msgs"
  shows "hist_inv (cg_state g') \<and> (\<forall>i. int i < position (cg_commit g') \<longrightarrow> i < length msgs \<and>
    ((msgs ! i, True) \<in> set (cg_trace g') \<or> (msgs ! i, False) \<in> set (cg_trace g')) \<and>
    (bet_good (msgs ! i) \<longrightarrow> placed_in (msgs ! i) (cg_state g') \<or> (msgs ! i, False) \<in> set (cg_trace g')))"
proof -
  have g': "g' = snd (run_group history_handler commit position msgs calls g)"
    using assms(6,7) by (simp add: history_group_def subscribed_def)
  have "group_covers position msgs 0 g'" using run_group_covers [OF assms(1,2) _ assms(4)] assms(5) by (simp add: g')
  then have c: "i < length msgs \<and> ((msgs ! i, True) \<in> set (cg_trace g') \<or> (msgs ! i, False) \<in> set (cg_trace g'))"
    if "int i < position (cg_commit g')" for i
    using that by (simp add: group_covers_def delivered_iff)
  have "hist_inv (cg_state g')" unfolding g' by (rule history.group_inv [OF assms(3)])
  moreover have "\<forall>m. (m, True) \<in> set (cg_trace g') \<longrightarrow> bet_good m \<longrightarrow> placed_in m (cg_state g')"
    unfolding g' by (rule history.group_effects [OF assms(3,4)])
  ultimately show ?thesis using c by blast
qed

section \<open>The subscriptions of the code\<close>

lemma claim_idle:
  assumes "\<And>m s. m \<in> set ms \<Longrightarrow> handle m s = (True, s)"
  shows "fst (consume_claim handle commit ms (s, c)) = s"
  using assms by (induction ms arbitrary: s c) simp_all

lemma group_idle:
  fixes g :: "('s, 'c) group_state" and handle :: "'e \<Rightarrow> 's handler"
  assumes "\<And>e m s. m \<in> set msgs \<Longrightarrow> handle e m s = (True, s)"
  shows "cg_state (snd (run_group handle commit position msgs calls g)) = cg_state g"
proof (rule run_group_invariant [where I = "\<lambda>g'. cg_state g' = cg_state g"])
  fix h :: "('s, 'c) group_state" and call :: "'e group_call"
  have "fst (consume_claim (\<lambda>m. handle (gc_env call m) m) commit (take (gc_length call) (drop n msgs)) (cg_state h, cg_commit h)) = cg_state h" for n
    by (rule claim_idle) (meson assms in_set_dropD in_set_takeD)
  then show "cg_state h = cg_state g \<Longrightarrow> cg_state (Consume handle commit position msgs call h) = cg_state g"
    by (simp add: Consume_def Let_def)
qed simp

text \<open>With the topics of the code neither loop ever changes the state of its service.\<close>

theorem history_Run_idle: "cg_state (snd (history_Run commit position msgs calls g)) = cg_state g"
  unfolding history_Run_def history_group_def
  by (rule group_idle) (auto simp: subscribed_def history_topics_def history_handle_def list_all_iff split: if_splits)

theorem RunConsumer_idle: "cg_state (snd (RunConsumer commit position msgs calls g)) = cg_state g"
  unfolding RunConsumer_def odds_group_def
  by (rule group_idle) (auto simp: subscribed_def list_all_iff intro: subscribed_ignored split: if_splits)

section \<open>Invariants of the other services\<close>

lemma Consume_state: "cg_state (Consume handle commit position msgs call g) =
    foldl (\<lambda>s m. snd (handle (gc_env call m) m s)) (cg_state g) (take (gc_length call) (drop (nat (position (cg_commit g))) msgs))"
  by (simp add: Consume_def Let_def consume_claim_state)

text \<open>C32. A settlement is final: in every run of the Settlement consumer, however often results are
  delivered again and whatever fails, each bet has at most one settlement, a recorded settlement is
  never changed or removed, and the wallet moves only by its own operations.\<close>

theorem settlement_Run_final:
  fixes g :: "(wallet_db settle_state, 'a) group_state"
  assumes "settle_inv (cg_state g)" "settlement_Run commit position msgs calls g = (returned, g')"
  shows "settle_inv (cg_state g') \<and> distinct (map se_bet_id (settlements (cg_state g'))) \<and>
    (\<exists>new. settlements (cg_state g') = settlements (cg_state g) @ new) \<and>
    reach (wallet_step any_credit) (se_wallet (cg_state g)) (se_wallet (cg_state g'))"
proof -
  have "settles st (foldl (\<lambda>s m. snd ((case ev m of (links, env) \<Rightarrow> handleResult (on_wallet links env)) m s)) st ms)" for st ev ms
  proof (induction ms arbitrary: st)
    case (Cons m ms)
    obtain links env where e: "ev m = (links, env)" by (cases "ev m")
    show ?case using settles_trans [OF handleResult_settles Cons.IH] by (simp add: e)
  qed simp
  note claim = this
  have "settles (cg_state g) (cg_state (snd (settlement_Run commit position msgs calls g)))"
    unfolding settlement_Run_def
  proof (rule run_group_invariant [where I = "\<lambda>g'. settles (cg_state g) (cg_state g')"])
    fix h :: "(wallet_db settle_state, 'a) group_state" and call
    assume "settles (cg_state g) (cg_state h)"
    then show "settles (cg_state g) (cg_state (Consume (\<lambda>(links, env). handleResult (on_wallet links env)) commit position msgs call h))"
      unfolding Consume_state by (rule settles_trans [OF _ claim])
  qed simp
  then show ?thesis using assms by (auto simp: settles_def settle_inv_def table_ok_def)
qed

text \<open>C33. The catalog stays consistent in every run of its feed consumer, with any redelivery and any
  failure of any statement: keys stay unique, CHECK constraints and foreign keys hold, and no market
  or selection that exists changes its status, its parent or its activity.\<close>

theorem catalog_Run_consistent:
  assumes "catalog_inv (cat_db (cg_state g))" "ConsumeNormalisedFeed commit position msgs calls g = (returned, g')"
  shows "catalog_inv (cat_db (cg_state g')) \<and> keeps (cat_db (cg_state g)) (cat_db (cg_state g'))"
  using feed_keeps.group_inv [of g "cat_db (cg_state g)" commit position msgs calls] assms by (simp add: ConsumeNormalisedFeed_def)


section \<open>The lag check\<close>

text \<open>C35. No lag means that nothing waits: a lag check of Bet Acceptance that is not answered from the
  200 ms cache and finds no lag, on a broker that reports the end of the partition and the position
  that a run of the odds consumer has committed, both of the same moment, implies that at this moment
  every bet-placed message of the partition has been delivered to the odds consumer, and that the last
  one was handled without error. The run is over this one partition.\<close>

theorem no_lag_nothing_waits:
  assumes "commit_documented commit position" "log_offsets msgs" "cg_trace g = []" "position (cg_commit g) = 0"
    and "RunConsumer commit position msgs calls g = (returned, g')"
    and "GetOffset k part = Some (int (length msgs))" "ListConsumerGroupOffsets k part = Some (BlockOffset (position (cg_commit g')))"
    and "in_int64 (int (length msgs))" "redis_get now rdb (lag_key part) = None"
    and "fst (IsLagging ft now k part rdb) = (False, False)"
  shows "(\<forall>m \<in> set msgs. m \<in> fst ` set (cg_trace g')) \<and> (msgs \<noteq> [] \<longrightarrow> (last msgs, True) \<in> set (cg_trace g'))"
proof -
  let ?n = "int (length msgs)" and ?q = "position (cg_commit g')"
  define ms where "ms = subscribed odds_topics msgs"
  have g': "g' = snd (run_group handleEvent commit position ms calls g)" using assms(5) by (simp add: RunConsumer_def odds_group_def ms_def)
  have c: "group_covers position ms 0 g'"
    using run_group_covers [OF assms(1) log_offsets_subscribed [OF assms(2), of odds_topics, folded ms_def] _ assms(3)] assms(4) by (simp add: g')
  then have q: "0 \<le> ?q" "?q \<le> int (length ms)"
    unfolding group_covers_def by (simp, metis add.commute int_ops(2) linorder_not_le nat_0_le nat_less_iff of_nat_0_le_iff order_less_irrefl)
  moreover have l: "length ms \<le> length msgs" by (simp add: ms_def subscribed_def)
  ultimately have "wrap64 (?n - ?q) = ?n - ?q" using assms(8) by (intro wrap64_id) (simp add: in_int64_def)
  moreover have "wrap64 (?n - ?q) \<le> 0"
    using assms(6,7,9,10) by (auto simp: IsLagging_def fetchLag_def Let_def stmt_def split: if_splits)
  ultimately have e: "?q = ?n" "length ms = length msgs" using q l by simp_all
  then have "ms = msgs" by (auto simp: ms_def subscribed_def split: if_splits)
  then show ?thesis using c e by (auto simp: group_covers_def in_set_conv_nth last_conv_nth nat_diff_distrib')
qed

section \<open>The odds cache over redeliveries\<close>

lemma handleMessage_fold:
  assumes "\<And>m. m \<in> set ms \<Longrightarrow> odds_msg_ok m (evt m)"
  shows "board_of (foldl (\<lambda>s m. snd (handleMessage (ev m) m s)) rdb ms) = foldl (\<lambda>b m. board_step (ev m) (evt m) b) (board_of rdb) ms"
  using assms
proof (induction ms arbitrary: rdb)
  case (Cons m ms)
  then show ?case using handleMessage_refines [of m "evt m" "ev m" rdb] by simp
qed simp

definition sel_of :: "OddsUpdatedEvent \<Rightarrow> string \<times> string" where
  "sel_of e = (ou_MarketID e, ou_SelectionID e)"

text \<open>Messages of other selections leave the board of a selection alone; a delivery that is not reported
  as failed has stored its odds.\<close>

lemma board_untouched:
  "(\<And>m. m \<in> set ms \<Longrightarrow> sel_of (evt m) \<noteq> k) \<Longrightarrow> foldl (\<lambda>b m. board_step (ev m) (evt m) b) b ms k = b k"
  by (induction ms arbitrary: b) (auto simp: board_step_def sel_of_def)

lemma handled_stored:
  "(m, False) \<notin> set (claim_trace (\<lambda>m. handleMessage (ev m) m) ms rdb) \<Longrightarrow> m \<in> set ms \<Longrightarrow> odds_msg_ok m e \<Longrightarrow> \<not> snd (ev m) CacheSet"
proof (induction ms arbitrary: rdb)
  case (Cons m' ms)
  obtain ok rdb' where h: "handleMessage (ev m') m' rdb = (ok, rdb')" by fastforce
  show ?case
  proof (cases "m' = m")
    case True
    then have "ok" using Cons.prems(1) h by (cases ok) auto
    obtain data where "marshal_struct (entry_fields (fst (ev m)) e) = Some data"
      using entry_decodes [of e] Cons.prems(3) by (auto simp: odds_msg_ok_def)
    then show ?thesis using Cons.prems(3) h \<open>ok\<close> True by (auto simp: handleMessage_def exec_stmt_def odds_msg_ok_def split: if_splits)
  next
    case False
    then show ?thesis using Cons.IH [of rdb'] Cons.prems h by auto
  qed
qed simp

lemma board_last:
  assumes "j < length ms" "sel_of (evt (ms ! j)) = k" "\<And>i. j < i \<Longrightarrow> i < length ms \<Longrightarrow> sel_of (evt (ms ! i)) \<noteq> k"
    and "\<not> snd (ev (ms ! j)) CacheSet"
  shows "\<exists>t. foldl (\<lambda>b m. board_step (ev m) (evt m) b) b ms k = Some (odds_of (evt (ms ! j)), t)"
proof -
  have ms: "ms = take j ms @ ms ! j # drop (Suc j) ms" using assms(1) by (simp add: id_take_nth_drop)
  have "sel_of (evt m) \<noteq> k" if "m \<in> set (drop (Suc j) ms)" for m
  proof -
    obtain i where "i < length (drop (Suc j) ms)" "m = drop (Suc j) ms ! i" using \<open>m \<in> _\<close> by (metis in_set_conv_nth)
    then have "m = ms ! (Suc j + i)" "Suc j + i < length ms" by auto
    then show ?thesis using assms(3) [of "Suc j + i"] by simp
  qed
  then have "foldl (\<lambda>b m. board_step (ev m) (evt m) b) b ms k =
      board_step (ev (ms ! j)) (evt (ms ! j)) (foldl (\<lambda>b m. board_step (ev m) (evt m) b) b (take j ms)) k"
    by (subst ms) (simp add: board_untouched)
  then show ?thesis using assms(2,4) by (auto simp: board_step_def sel_of_def)
qed

text \<open>For the i-th message, the last of its selection: once it is committed, and if no delivery of it
  failed, the cache shows its odds.\<close>

definition cache_shows :: "(ConsumerMessage \<Rightarrow> OddsUpdatedEvent) \<Rightarrow> ('c \<Rightarrow> int) \<Rightarrow> ConsumerMessage list \<Rightarrow> nat \<Rightarrow> (payload redis, 'c) group_state \<Rightarrow> bool" where
  "cache_shows evt position msgs i g \<longleftrightarrow> 0 \<le> position (cg_commit g) \<and>
     (int i < position (cg_commit g) \<and> (msgs ! i, False) \<notin> set (cg_trace g) \<longrightarrow>
       (\<exists>t. board_of (cg_state g) (sel_of (evt (msgs ! i))) = Some (odds_of (evt (msgs ! i)), t)))"

lemma Consume_position:
  assumes "commit_documented commit position" "log_offsets msgs" "0 \<le> position (cg_commit g)"
  shows "position (cg_commit (Consume handle commit position msgs call g)) \<le>
    position (cg_commit g) + int (length (take (gc_length call) (drop (nat (position (cg_commit g))) msgs)))"
proof -
  let ?q = "nat (position (cg_commit g))" and ?h = "\<lambda>m. handle (gc_env call m) m"
  let ?ms = "take (gc_length call) (drop ?q msgs)"
  have off: "Offset m + 1 \<le> int ?q + int (length ?ms)" if m: "m \<in> set ?ms" for m
  proof -
    obtain i where i: "i < length ?ms" "m = ?ms ! i" using m by (metis in_set_conv_nth)
    then have "m = msgs ! (?q + i)" "?q + i < length msgs" by auto
    then have "Offset m = int (?q + i)" using assms(2) unfolding log_offsets_def by blast
    then show ?thesis using i(1) by linarith
  qed
  have "m \<in> set ?ms" if "(m, ok) \<in> set (claim_trace ?h (take (gc_kept call) ?ms) (cg_state g))" for m ok
  proof -
    have "m \<in> fst ` set (claim_trace ?h (take (gc_kept call) ?ms) (cg_state g))" using that by (rule rev_image_eqI) simp
    then have "m \<in> set (take (gc_kept call) ?ms)" by (simp only: flip: list.set_map) (simp only: claim_trace_messages)
    then show ?thesis by (rule in_set_takeD)
  qed
  then show ?thesis
    using claim_position_cases [OF assms(1), of ?h "take (gc_kept call) ?ms" "cg_state g" "cg_commit g"] off assms(3)
    by (fastforce simp: Consume_def Let_def)
qed

lemma Consume_shows:
  assumes "commit_documented commit position" "log_offsets msgs" "i < length msgs"
    and "\<And>m. m \<in> set msgs \<Longrightarrow> odds_msg_ok m (evt m)"
    and "\<And>j. i < j \<Longrightarrow> j < length msgs \<Longrightarrow> sel_of (evt (msgs ! j)) \<noteq> sel_of (evt (msgs ! i))"
    and "cache_shows evt position msgs i g"
  shows "cache_shows evt position msgs i (Consume handleMessage commit position msgs call g)"
proof -
  let ?g' = "Consume handleMessage commit position msgs call g" and ?q = "nat (position (cg_commit g))" and ?k = "sel_of (evt (msgs ! i))"
  let ?ms = "take (gc_length call) (drop ?q msgs)"
  have q: "0 \<le> position (cg_commit g)" using assms(6) by (simp add: cache_shows_def)
  have ok: "odds_msg_ok m (evt m)" if "m \<in> set ?ms" for m using that assms(4) by (meson in_set_dropD in_set_takeD)
  have b: "board_of (cg_state ?g') = foldl (\<lambda>b m. board_step (gc_env call m) (evt m) b) (board_of (cg_state g)) ?ms"
    using ok unfolding Consume_state by (rule handleMessage_fold)
  have later: "sel_of (evt (?ms ! j)) \<noteq> ?k" if "j < length ?ms" "i < ?q + j" for j
  proof -
    have "?ms ! j = msgs ! (?q + j)" "?q + j < length msgs" using that(1) by auto
    then show ?thesis using assms(5) [OF that(2)] by (simp only: not_False_eq_True)
  qed
  have nth: "?ms ! j = msgs ! (?q + j)" "?q + j < length msgs" if "j < length ?ms" for j using that by auto
  have "position (cg_commit g) \<le> position (cg_commit ?g')" using claim_position_mono [OF assms(1)] by (simp add: Consume_def Let_def)
  moreover have "\<exists>t. board_of (cg_state ?g') ?k = Some (odds_of (evt (msgs ! i)), t)"
    if c: "int i < position (cg_commit ?g')" "(msgs ! i, False) \<notin> set (cg_trace ?g')"
  proof (cases "i < ?q")
    case True
    have "sel_of (evt m) \<noteq> ?k" if m: "m \<in> set ?ms" for m
    proof -
      from m [unfolded in_set_conv_nth] obtain j where j: "j < length ?ms" "?ms ! j = m" by (elim exE conjE)
      show ?thesis unfolding j(2) [symmetric] by (rule later [OF j(1)]) (use True in linarith)
    qed
    then have "board_of (cg_state ?g') ?k = board_of (cg_state g) ?k" unfolding b by (rule board_untouched)
    moreover have "(msgs ! i, False) \<notin> set (cg_trace g)" using c(2) by (simp add: Consume_def Let_def)
    ultimately show ?thesis using assms(6) True by (simp add: cache_shows_def)
  next
    case False
    define j where "j = i - ?q"
    have "int i < position (cg_commit g) + int (length ?ms)"
      using c(1) Consume_position [OF assms(1,2) q, of handleMessage call] by linarith
    then have j1: "j < length ?ms" using False q unfolding j_def by linarith
    then have j: "j < length ?ms" "?ms ! j = msgs ! i" using nth(1) [of j] False by (simp_all add: j_def)
    have "\<not> snd (gc_env call (msgs ! i)) CacheSet"
    proof (rule handled_stored)
      show "(msgs ! i, False) \<notin> set (claim_trace (\<lambda>m. handleMessage (gc_env call m) m) ?ms (cg_state g))"
        using c(2) by (simp add: Consume_def Let_def)
      show "msgs ! i \<in> set ?ms" using j by (metis nth_mem)
      show "odds_msg_ok (msgs ! i) (evt (msgs ! i))" using assms(3,4) by simp
    qed
    moreover have "sel_of (evt (?ms ! j')) \<noteq> ?k" if "j < j'" "j' < length ?ms" for j'
      by (rule later [OF that(2)]) (use that(1) False in \<open>simp add: j_def\<close>)
    ultimately show ?thesis
      unfolding b using board_last [of j ?ms evt ?k "gc_env call" "board_of (cg_state g)"] j by simp
  qed
  ultimately show ?thesis using q by (simp add: cache_shows_def)
qed

lemma run_shows:
  assumes "commit_documented commit position" "log_offsets msgs" "position (cg_commit g) = 0" "i < length msgs"
    and "\<And>m. m \<in> set msgs \<Longrightarrow> odds_msg_ok m (evt m)"
    and "\<And>j. i < j \<Longrightarrow> j < length msgs \<Longrightarrow> sel_of (evt (msgs ! j)) \<noteq> sel_of (evt (msgs ! i))"
  shows "cache_shows evt position msgs i (snd (run_group handleMessage commit position msgs calls g))"
proof (rule run_group_invariant [where I = "cache_shows evt position msgs i"])
  show "cache_shows evt position msgs i g" using assms(3) by (simp add: cache_shows_def)
qed (rule Consume_shows [OF assms(1,2,4-6)])

lemma board_read:
  assumes "board_of rdb (m, s) = Some (q, t)" "redis_get now rdb (odds_key m s) = Some raw"
  shows "decode_CachedOdds raw = Some q"
  using assms by (auto simp: board_of_def redis_get_def bind_eq_Some_conv split: if_splits option.splits)

text \<open>C36. A bet is struck at the latest price: take any run of the cache updater over a log of
  well-formed odds events, with rebalances, lost commits, redeliveries and failing stores. Once the
  last event of a selection in the log is below the committed position, and if no delivery of that
  event failed, a bet on the selection that Bet Acceptance accepts from this cache, and that is not
  the replay of an earlier request, reports the decimal and American odds of that event, also when
  older events were delivered again after it. (A failed store is not retried once a later message is
  committed, so the condition on the event is needed; the events of other messages may fail.)\<close>

theorem bet_at_latest_odds:
  fixes g :: "(payload redis, 'c) group_state"
  assumes "commit_documented commit position" "log_offsets msgs" "position (cg_commit g) = 0"
    and "\<And>m. m \<in> set msgs \<Longrightarrow> odds_msg_ok m (evt m)"
    and "cache_Run commit position msgs calls g = (returned, g')" "i < length msgs" "int i < position (cg_commit g')"
    and "(msgs ! i, False) \<notin> set (cg_trace g')" "sel_of (evt (msgs ! i)) = (pb_MarketID req, pb_SelectionID req)"
    and "\<And>j. i < j \<Longrightarrow> j < length msgs \<Longrightarrow> sel_of (evt (msgs ! j)) \<noteq> (pb_MarketID req, pb_SelectionID req)"
    and "redisOdds st = cg_state g'" "PlaceBet ft cfg env wc req st = (Inr resp, st')" "\<not> is_replay ft env req st"
  shows "pr_OddsDecimal resp = ou_Decimal (evt (msgs ! i)) \<and> pr_OddsAmerican resp = ou_American (evt (msgs ! i))"
proof -
  have "cache_shows evt position msgs i g'"
    using run_shows [OF assms(1-3,6), of evt calls] assms(4,5,9,10) by (simp add: cache_Run_def)
  then obtain t where b: "board_of (redisOdds st) (pb_MarketID req, pb_SelectionID req) = Some (odds_of (evt (msgs ! i)), t)"
    using assms(7-9,11) by (auto simp: cache_shows_def)
  obtain raw where raw: "redis_get (be_now env) (redisOdds st) (odds_key (pb_MarketID req) (pb_SelectionID req)) = Some raw"
  proof -
    obtain co where "check_bet ft cfg (be_now env) wc req st = Inr co" using assms(12,13) by (rule PlaceBet_acceptedD)
    then show thesis by (rule check_betD) (auto intro: that)
  qed
  then have "decode_CachedOdds raw = Some (odds_of (evt (msgs ! i)))" using board_read [OF b] by simp
  from accepted_odds [OF assms(12,13) raw this] show ?thesis by (simp add: odds_of_def)
qed

section \<open>Witnesses\<close>

text \<open>A broker whose position is the committed offset; a call that delivers one message.\<close>

definition commit0 :: "int \<Rightarrow> int \<Rightarrow> int" where
  "commit0 off c = max c (off + 1)"

definition one_call :: "'e \<Rightarrow> nat \<Rightarrow> 'e group_call" where
  "one_call e kept = \<lparr>gc_length = 1, gc_env = (\<lambda>_. e), gc_kept = kept, gc_err = False, gc_cancelled = False, gc_cancelled_after = False\<rparr>"

definition group0 :: "'s \<Rightarrow> ('s, int) group_state" where
  "group0 s = \<lparr>cg_state = s, cg_commit = 0, cg_trace = []\<rparr>"

lemma commit0_documented: "commit_documented commit0 (\<lambda>c. c)"
  by (simp add: commit_documented_def commit0_def)

lemma log_offsets_one: "Offset m = 0 \<Longrightarrow> log_offsets [m]"
  by (simp add: log_offsets_def)

lemma one_call_run:
  assumes "handle e m s = (True, s')"
  shows "Consume handle commit0 (\<lambda>c. c) [m] (one_call e kept) (group0 s) =
    \<lparr>cg_state = s', cg_commit = (if kept = 0 then 0 else max 0 (Offset m + 1)), cg_trace = [(m, True)]\<rparr>"
  using assms by (cases kept) (auto simp: Consume_def one_call_def group0_def commit0_def)

text \<open>The first delivery of the bet is not committed, so the bet is delivered a second time.\<close>

theorem history_group_keeps_bets_witness:
  "\<exists>g'. history_group [''bet.placed''] commit0 (\<lambda>c. c) [march_msg []] [one_call (confirm0, hist_env0) 1] (group0 hist0) = (False, g') \<and>
     cg_commit g' = 1 \<and> placed_in (march_msg []) (cg_state g')"
proof -
  let ?m = "march_msg []"
  obtain st1 where h: "history_handleBetPlaced (hist_on_wallet confirm0 hist_env0) ?m hist0 = (True, st1)" using march_recorded by blast
  then have h': "history_handler (confirm0, hist_env0) ?m hist0 = (True, st1)" by (simp add: history_handle_def march_msg_def)
  let ?g = "\<lparr>cg_state = st1, cg_commit = 1 :: int, cg_trace = [(?m, True)]\<rparr>"
  have off: "Offset ?m = 0" by (simp add: march_msg_def)
  have r: "history_group [''bet.placed''] commit0 (\<lambda>c. c) [?m] [one_call (confirm0, hist_env0) 1] (group0 hist0) = (False, ?g)"
    using one_call_run [of history_handler, OF h', of 1] off by (simp add: history_group_def subscribed_def one_call_def) (simp add: march_msg_def)
  have "hist_inv hist0" by (simp add: hist_inv_def hist0_def)
  then have "placed_in ?m (cg_state ?g)"
    using history_group_keeps_bets [OF commit0_documented log_offsets_one [OF off] _ _ _ r, THEN conjunct2, THEN spec, of 0] march_good
    by (simp add: group0_def bet_good_def) (simp add: march_msg_def)
  then show ?thesis using r by auto
qed

theorem settlement_Run_final_witness:
  "distinct (map se_bet_id (settlements (cg_state (snd (settlement_Run commit0 (\<lambda>c. c) [result_msg\<lparr>Offset := 0\<rparr>]
     [one_call (\<lambda>_. good_credit 60, settle_env0 ''c1'') 0, one_call (\<lambda>_. good_credit 60, settle_env0 ''c1'') 1] (group0 settle0))))))"
  using settlement_Run_final [of "group0 settle0" commit0 "\<lambda>c. c" "[result_msg\<lparr>Offset := 0\<rparr>]"
      "[one_call (\<lambda>_. good_credit 60, settle_env0 ''c1'') 0, one_call (\<lambda>_. good_credit 60, settle_env0 ''c1'') 1]", OF _ prod.collapse [symmetric]]
  by (simp add: group0_def settle_inv_def settle0_def)

theorem catalog_Run_consistent_witness:
  "catalog_inv (cat_db (cg_state (snd (ConsumeNormalisedFeed commit0 (\<lambda>c. c) [upsert_msg\<lparr>Offset := 0\<rparr>]
     [one_call (True, cat_env0) 0, one_call (False, cat_env0) 1] (group0 \<lparr>cat_db = catalog1, broadcasts = []\<rparr>)))))"
  using catalog_Run_consistent [of "group0 \<lparr>cat_db = catalog1, broadcasts = []\<rparr>" commit0 "\<lambda>c. c" "[upsert_msg\<lparr>Offset := 0\<rparr>]"
      "[one_call (True, cat_env0) 0, one_call (False, cat_env0) 1]", OF _ prod.collapse [symmetric]]
  by (simp add: group0_def)


definition placed_msg :: ConsumerMessage where
  "placed_msg = \<lparr>Topic = ''bet-placed'', Offset = 0, Value = None, Headers = []\<rparr>"

theorem no_lag_nothing_waits_witness:
  "\<exists>g'. RunConsumer commit0 (\<lambda>c. c) [placed_msg] [one_call (odds_env0, catalog2) 1] (group0 odds_state0) = (False, g') \<and>
     fst (IsLagging no_faults 0 \<lparr>GetOffset = (\<lambda>_. Some 1), ListConsumerGroupOffsets = (\<lambda>_. Some (BlockOffset (cg_commit g')))\<rparr> 2 Map.empty) = (False, False) \<and>
     (placed_msg, True) \<in> set (cg_trace g')"
proof -
  have off: "Offset placed_msg = 0" by (simp add: placed_msg_def)
  have h: "handleEvent (odds_env0, catalog2) placed_msg odds_state0 = (True, odds_state0)"
    by (rule subscribed_ignored) (simp add: placed_msg_def odds_topics_def)
  let ?g = "\<lparr>cg_state = odds_state0, cg_commit = 1 :: int, cg_trace = [(placed_msg, True)]\<rparr>"
  let ?k = "\<lparr>GetOffset = (\<lambda>_. Some 1), ListConsumerGroupOffsets = (\<lambda>_. Some (BlockOffset 1))\<rparr>"
  have r: "RunConsumer commit0 (\<lambda>c. c) [placed_msg] [one_call (odds_env0, catalog2) 1] (group0 odds_state0) = (False, ?g)"
    using one_call_run [of handleEvent, OF h, of 1] off by (simp add: RunConsumer_def odds_group_def subscribed_def one_call_def) (simp add: placed_msg_def odds_topics_def)
  have lag: "fst (IsLagging no_faults 0 ?k 2 Map.empty) = (False, False)"
    by (simp add: IsLagging_def fetchLag_def redis_get_def wrap64_id in_int64_def)
  have "(placed_msg, True) \<in> set (cg_trace ?g)"
    using no_lag_nothing_waits [OF commit0_documented log_offsets_one [OF off] _ _ r, of ?k 2 0 Map.empty no_faults] lag
    by (simp add: group0_def redis_get_def in_int64_def)
  then show ?thesis using r lag by auto
qed

lemma handleMessage_again: "handleMessage env m (snd (handleMessage env m rdb)) = handleMessage env m rdb"
  by (simp add: handleMessage_def exec_stmt_def redis_set_def split: option.splits)

lemma handleMessage_Offset: "handleMessage env (m\<lparr>Offset := off\<rparr>) rdb = handleMessage env m rdb"
  by (simp add: handleMessage_def)

lemma even_again: "handleMessage (1, no_faults) (even_msg\<lparr>Offset := 0\<rparr>) even_rdb = (True, even_rdb)"
  using handleMessage_again [of "(1, no_faults)" even_msg Map.empty] even_rdb_stored by (simp add: handleMessage_Offset)

theorem bet_at_latest_odds_witness:
  "\<exists>g'. cache_Run commit0 (\<lambda>c. c) [even_msg\<lparr>Offset := 0\<rparr>] [one_call (1, no_faults) 0, one_call (1, no_faults) 1] (group0 Map.empty) = (False, g') \<and>
     cg_state g' = even_rdb \<and> length (cg_trace g') = 2 \<and> pr_OddsDecimal ann_resp = Fin 2 \<and> pr_OddsAmerican ann_resp = 100"
proof -
  let ?m = "even_msg\<lparr>Offset := 0\<rparr>"
  let ?g = "\<lparr>cg_state = even_rdb, cg_commit = 1 :: int, cg_trace = [(?m, True), (?m, True)]\<rparr>"
  have h: "handleMessage (1, no_faults) ?m Map.empty = (True, even_rdb)" using even_rdb_stored by (simp add: handleMessage_Offset)
  have ok: "odds_msg_ok ?m even_event" using even_msg_ok by (simp add: odds_msg_ok_def)
  have "Consume handleMessage commit0 (\<lambda>c. c) [?m] (one_call (1, no_faults) 1) \<lparr>cg_state = even_rdb, cg_commit = 0, cg_trace = [(?m, True)]\<rparr> = ?g"
    using even_again by (simp add: Consume_def one_call_def commit0_def)
  then have r: "cache_Run commit0 (\<lambda>c. c) [?m] [one_call (1, no_faults) 0, one_call (1, no_faults) 1] (group0 Map.empty) = (False, ?g)"
    using one_call_run [of handleMessage, OF h, of 0] by (simp add: cache_Run_def one_call_def)
  have n: "\<not> is_replay no_faults ann_env (ann_bet 2000) (ann_st\<lparr>redisOdds := even_rdb\<rparr>)"
    by (simp add: is_replay_def ann_st_def redis_get_def)
  have "pr_OddsDecimal ann_resp = ou_Decimal even_event \<and> pr_OddsAmerican ann_resp = ou_American even_event"
    using bet_at_latest_odds [OF commit0_documented log_offsets_one _ _ r _ _ _ _ _ _ ann_placed_cached n, of "\<lambda>_. even_event" 0] ok
    by (simp add: group0_def) (simp add: sel_of_def even_event_def ann_bet_def)
  then show ?thesis using r by (simp add: even_event_def)
qed

end
