(* ===== verification/Identity.thy ===== *)
theory Identity
  imports GoTime
begin

text \<open>
  The Identity service (\<^verbatim>\<open>src/internal/identity/service.go\<close>): accounts, credentials, JSON web
  tokens and Redis sessions. The state is the \<^verbatim>\<open>users\<close> table of db\_identity (primary key,
  unique email, CHECK on the KYC status) and the session cache.

  bcrypt and the JWT library are third-party code. They are parameters, the records \<open>bcrypt_lib\<close> and
  \<open>jwt_lib\<close>; what the service relies on of their documentation are the predicates \<open>bcrypt_documented\<close>
  and \<open>jwt_documented\<close>. \<open>verifies lib alg key tok c\<close> reads: \<open>tok\<close> is a compact serialisation with
  algorithm \<open>alg\<close> and claims \<open>c\<close> whose signature verifies under \<open>key\<close>. No claim is made that a
  signature cannot be forged.

  Shown: accounts are unique and stable in every run, registration and login give tokens that
  validate to the registered user exactly until they expire, and what \<open>ValidateToken\<close> and
  \<open>Register\<close> do on their error paths.
\<close>

section \<open>Parameters\<close>

text \<open>The JWT payload; numeric dates count seconds. The parser reads not-before although the service
  never sets it.\<close>

record Claims =
  cl_ExpiresAt :: "int option"
  cl_NotBefore :: "int option"
  cl_IssuedAt :: "int option"
  cl_Issuer :: string
  cl_UserID :: string
  cl_KYCStatus :: string
  cl_SessionID :: string

record bcrypt_lib =
  GenerateFromPassword :: "string \<Rightarrow> string \<Rightarrow> string option"
  CompareHashAndPassword :: "string \<Rightarrow> string \<Rightarrow> bool"

text \<open>The first argument of \<^verbatim>\<open>GenerateFromPassword\<close> is the salt it draws.\<close>

record jwt_lib =
  SignedString :: "string \<Rightarrow> string \<Rightarrow> Claims \<Rightarrow> string option"
  ParseWithClaims :: "time \<Rightarrow> (string \<Rightarrow> string option) \<Rightarrow> string \<Rightarrow> (Claims \<times> bool) option"
  verifies :: "string \<Rightarrow> string \<Rightarrow> string \<Rightarrow> Claims \<Rightarrow> bool"

definition bcrypt_documented :: "bcrypt_lib \<Rightarrow> bool" where
  "bcrypt_documented b \<longleftrightarrow>
     (\<forall>salt p. GenerateFromPassword b salt p = None \<longleftrightarrow> 72 < length p) \<and>
     (\<forall>salt p h. GenerateFromPassword b salt p = Some h \<longrightarrow> CompareHashAndPassword b h p)"

text \<open>The claims are in force: before the expiry, not before not-before, each where present.\<close>

definition in_force :: "time \<Rightarrow> Claims \<Rightarrow> bool" where
  "in_force now c \<longleftrightarrow>
     (case cl_ExpiresAt c of None \<Rightarrow> True | Some e \<Rightarrow> now < e * second) \<and>
     (case cl_NotBefore c of None \<Rightarrow> True | Some n \<Rightarrow> n * second \<le> now)"

definition jwt_documented :: "jwt_lib \<Rightarrow> bool" where
  "jwt_documented l \<longleftrightarrow>
     (\<forall>key c. \<exists>tok. SignedString l ''HS256'' key c = Some tok) \<and>
     (\<forall>alg key c tok. SignedString l alg key c = Some tok \<longrightarrow> verifies l alg key tok c) \<and>
     (\<forall>alg alg' key key' c c' tok. verifies l alg key tok c \<longrightarrow> verifies l alg' key' tok c' \<longrightarrow> alg = alg' \<and> c = c') \<and>
     (\<forall>now kf tok c v. ParseWithClaims l now kf tok = Some (c, v) \<longleftrightarrow>
        v \<and> in_force now c \<and> (\<exists>alg key. kf alg = Some key \<and> verifies l alg key tok c))"

section \<open>State\<close>

record user_row =
  u_id :: string
  u_email :: string
  u_password_hash :: string
  u_kyc_status :: string
  u_created_at :: time

record identity_st =
  users :: "user_row tbl"
  sessions :: "string redis"

record Service =
  jwtSecret :: string
  svc_bcrypt :: bcrypt_lib
  svc_jwt :: jwt_lib

datatype identity_call = InsertUser | InsertUserAck | SelectUser | SetSession | ExpireSession

text \<open>What the operation reads from outside: the clock, the failing calls, the row identifier the
  database draws, the salt and the random bytes (\<open>None\<close> when the generator fails).\<close>

record identity_env =
  ie_now :: time
  ie_faults :: "identity_call faults"
  ie_uuid :: string
  ie_salt :: string
  ie_rand :: "nat list option"

datatype identity_error =
  ErrHashPassword | ErrEmailTaken | ErrInsertUser | ErrSessionID | ErrSignJWT | ErrStoreSession
| ErrUserNotFound | ErrInvalidCredentials | ErrInvalidToken | ErrInvalidClaims

record Credentials =
  Email :: string
  Password :: string

record LoginResponse =
  AccessToken :: string
  lr_ExpiresAt :: time

definition sessionTTL :: time where
  "sessionTTL = 15 * 60 * second"

definition jwtTTL :: time where
  "jwtTTL = 3600 * second"

definition users_chk :: "user_row \<Rightarrow> bool" where
  "users_chk u \<longleftrightarrow> u_kyc_status u \<in> {''PENDING'', ''VERIFIED'', ''REJECTED''}"

definition insert_user :: "user_row \<Rightarrow> user_row tbl \<Rightarrow> user_row tbl option" where
  "insert_user u t = insert_row u_email users_chk (\<lambda>r. u_id r \<notin> set (map u_id t)) u t"

section \<open>Operations\<close>

definition hex_digit :: "nat \<Rightarrow> char" where
  "hex_digit n = ''0123456789abcdef'' ! (n mod 16)"

definition randomHex :: "nat \<Rightarrow> identity_env \<Rightarrow> string option" where
  "randomHex n env = map_option (\<lambda>bs. concat (map (\<lambda>b. [hex_digit (b div 16), hex_digit b]) (take n bs))) (ie_rand env)"

definition session_key :: "string \<Rightarrow> string" where
  "session_key sid = ''session:'' @ sid"

definition session_val :: "string \<Rightarrow> string \<Rightarrow> string" where
  "session_val userID kycStatus = userID @ ''|'' @ kycStatus"

text \<open>\<^verbatim>\<open>jwt.NewNumericDate\<close> truncates to the second.\<close>

definition new_claims :: "time \<Rightarrow> string \<Rightarrow> string \<Rightarrow> string \<Rightarrow> Claims" where
  "new_claims now userID kycStatus sessionID =
     \<lparr>cl_ExpiresAt = Some ((now + jwtTTL) div second), cl_NotBefore = None, cl_IssuedAt = Some (now div second),
      cl_Issuer = ''sportsbook'', cl_UserID = userID, cl_KYCStatus = kycStatus, cl_SessionID = sessionID\<rparr>"

text \<open>The second half that \<^verbatim>\<open>Register\<close> and \<^verbatim>\<open>Login\<close> share: session id, token, session.\<close>

definition issue ::
    "Service \<Rightarrow> identity_env \<Rightarrow> string \<Rightarrow> string \<Rightarrow> identity_st \<Rightarrow> (identity_error + LoginResponse) \<times> identity_st" where
  "issue svc env userID kycStatus st =
     (case randomHex 16 env of
        None \<Rightarrow> (Inl ErrSessionID, st)
      | Some sessionID \<Rightarrow>
          (case SignedString (svc_jwt svc) ''HS256'' (jwtSecret svc) (new_claims (ie_now env) userID kycStatus sessionID) of
             None \<Rightarrow> (Inl ErrSignJWT, st)
           | Some signed \<Rightarrow>
               if ie_faults env SetSession then (Inl ErrStoreSession, st)
               else (Inr \<lparr>AccessToken = signed, lr_ExpiresAt = ie_now env + jwtTTL\<rparr>,
                     st\<lparr>sessions := redis_set (ie_now env) (session_key sessionID) (session_val userID kycStatus) sessionTTL (sessions st)\<rparr>)))"

definition Register ::
    "Service \<Rightarrow> identity_env \<Rightarrow> Credentials \<Rightarrow> identity_st \<Rightarrow> (identity_error + LoginResponse) \<times> identity_st" where
  "Register svc env req st =
     (case GenerateFromPassword (svc_bcrypt svc) (ie_salt env) (Password req) of
        None \<Rightarrow> (Inl ErrHashPassword, st)
      | Some hash \<Rightarrow>
          if ie_faults env InsertUser then (Inl ErrInsertUser, st)
          else (case insert_user \<lparr>u_id = ie_uuid env, u_email = Email req, u_password_hash = hash,
                       u_kyc_status = ''PENDING'', u_created_at = ie_now env\<rparr> (users st) of
             None \<Rightarrow> (Inl ErrEmailTaken, st)
           | Some us \<Rightarrow>
               if ie_faults env InsertUserAck then (Inl ErrInsertUser, st\<lparr>users := us\<rparr>)
               else issue svc env (ie_uuid env) ''PENDING'' (st\<lparr>users := us\<rparr>)))"

definition Login ::
    "Service \<Rightarrow> identity_env \<Rightarrow> Credentials \<Rightarrow> identity_st \<Rightarrow> (identity_error + LoginResponse) \<times> identity_st" where
  "Login svc env req st =
     (case stmt (ie_faults env) SelectUser (by_key u_email (Email req) (users st)) of
        None \<Rightarrow> (Inl ErrUserNotFound, st)
      | Some u \<Rightarrow>
          if \<not> CompareHashAndPassword (svc_bcrypt svc) (u_password_hash u) (Password req) then (Inl ErrInvalidCredentials, st)
          else issue svc env (u_id u) (u_kyc_status u) st)"

text \<open>The key function: \<^verbatim>\<open>*jwt.SigningMethodHMAC\<close> is the type of the three HMAC methods.\<close>

definition hmac_methods :: "string set" where
  "hmac_methods = {''HS256'', ''HS384'', ''HS512''}"

definition hmac_key :: "Service \<Rightarrow> string \<Rightarrow> string option" where
  "hmac_key svc alg = (if alg \<in> hmac_methods then Some (jwtSecret svc) else None)"

definition ValidateToken :: "Service \<Rightarrow> time \<Rightarrow> string \<Rightarrow> identity_error + Claims" where
  "ValidateToken svc now tokenStr =
     (case ParseWithClaims (svc_jwt svc) now (hmac_key svc) tokenStr of
        None \<Rightarrow> Inl ErrInvalidToken
      | Some (claims, valid) \<Rightarrow> if \<not> valid then Inl ErrInvalidClaims else Inr claims)"

definition RefreshSession :: "identity_env \<Rightarrow> string \<Rightarrow> identity_st \<Rightarrow> bool \<times> identity_st" where
  "RefreshSession env sessionID st =
     (if ie_faults env ExpireSession then (False, st)
      else (True, st\<lparr>sessions := redis_expire (ie_now env) (session_key sessionID) sessionTTL (sessions st)\<rparr>))"

section \<open>Runs\<close>

text \<open>Any sequence of operations with any failures, and evictions of the session cache.\<close>

inductive identity_step :: "Service \<Rightarrow> identity_st \<Rightarrow> identity_st \<Rightarrow> bool" for svc where
  step_register: "identity_step svc st (snd (Register svc env req st))"
| step_login: "identity_step svc st (snd (Login svc env req st))"
| step_refresh: "identity_step svc st (snd (RefreshSession env sid st))"
| step_evict: "identity_step svc st (st\<lparr>sessions := redis_evict k (sessions st)\<rparr>)"

inductive_cases identity_stepE: "identity_step svc st st'"

definition account :: "string \<Rightarrow> identity_st \<Rightarrow> user_row option" where
  "account e st = by_key u_email e (users st)"

definition accounts_ok :: "identity_st \<Rightarrow> bool" where
  "accounts_ok st \<longleftrightarrow> table_ok u_email users_chk (users st) \<and> distinct (map u_id (users st))"

section \<open>Tokens\<close>

lemma jwt_signs: "jwt_documented l \<Longrightarrow> \<exists>tok. SignedString l ''HS256'' key c = Some tok"
  unfolding jwt_documented_def by (elim conjE allE)

lemma jwt_verifies: "jwt_documented l \<Longrightarrow> SignedString l alg key c = Some tok \<Longrightarrow> verifies l alg key tok c"
  unfolding jwt_documented_def by simp

lemma jwt_unique: "jwt_documented l \<Longrightarrow> verifies l alg key tok c \<Longrightarrow> verifies l alg' key' tok c' \<Longrightarrow> c' = c"
  unfolding jwt_documented_def by (elim conjE) metis

lemma jwt_parse:
  "jwt_documented l \<Longrightarrow> ParseWithClaims l now kf tok = Some (c, v) \<longleftrightarrow>
     v \<and> in_force now c \<and> (\<exists>alg key. kf alg = Some key \<and> verifies l alg key tok c)"
  unfolding jwt_documented_def by (elim conjE allE)

lemma hmac_key_Some: "hmac_key svc alg = Some key \<longleftrightarrow> alg \<in> hmac_methods \<and> key = jwtSecret svc"
  by (auto simp: hmac_key_def)

lemma HS256_hmac [simp]: "''HS256'' \<in> hmac_methods"
  by (simp add: hmac_methods_def)

text \<open>What the library's documentation gives the service: a token validates exactly when it carries
  an HMAC signature under the service's secret and its claims are in force.\<close>

lemma ValidateToken_iff:
  assumes "jwt_documented (svc_jwt svc)"
  shows "ValidateToken svc now tok = Inr c \<longleftrightarrow>
    in_force now c \<and> (\<exists>alg \<in> hmac_methods. verifies (svc_jwt svc) alg (jwtSecret svc) tok c)"
proof -
  have "ParseWithClaims (svc_jwt svc) now (hmac_key svc) tok = Some (c, v) \<longleftrightarrow>
      v \<and> in_force now c \<and> (\<exists>alg \<in> hmac_methods. verifies (svc_jwt svc) alg (jwtSecret svc) tok c)" for v
    unfolding jwt_parse [OF assms] hmac_key_Some by blast
  moreover have "ValidateToken svc now tok = Inr c \<longleftrightarrow> ParseWithClaims (svc_jwt svc) now (hmac_key svc) tok = Some (c, True)"
    by (auto simp: ValidateToken_def split: option.splits)
  ultimately show ?thesis by blast
qed

lemma issue_cases:
  assumes "issue svc env uid kyc st = (Inr r, st')"
  obtains sid where "randomHex 16 env = Some sid"
    "SignedString (svc_jwt svc) ''HS256'' (jwtSecret svc) (new_claims (ie_now env) uid kyc sid) = Some (AccessToken r)"
    "st' = st\<lparr>sessions := redis_set (ie_now env) (session_key sid) (session_val uid kyc) sessionTTL (sessions st)\<rparr>"
    "lr_ExpiresAt r = ie_now env + jwtTTL"
  using assms by (auto simp: issue_def split: option.splits if_splits)

lemma signed_validates:
  assumes "jwt_documented (svc_jwt svc)" "SignedString (svc_jwt svc) ''HS256'' (jwtSecret svc) c = Some tok"
  shows "ValidateToken svc now tok = (if in_force now c then Inr c else Inl ErrInvalidToken)"
proof -
  note v = jwt_verifies [OF assms]
  note u = jwt_unique [OF assms(1) v]
  show ?thesis
  proof (cases "in_force now c")
    case True
    then have "ValidateToken svc now tok = Inr c" unfolding ValidateToken_iff [OF assms(1)] using v HS256_hmac by blast
    then show ?thesis using True by simp
  next
    case False
    have "ParseWithClaims (svc_jwt svc) now (hmac_key svc) tok = None"
    proof (rule ccontr)
      assume "\<not> ?thesis"
      then obtain c' b where p: "ParseWithClaims (svc_jwt svc) now (hmac_key svc) tok = Some (c', b)" by auto
      then show False using u False unfolding jwt_parse [OF assms(1)] by blast
    qed
    then show ?thesis using False by (simp add: ValidateToken_def)
  qed
qed

lemma in_force_new [simp]:
  "in_force now (new_claims t uid kyc sid) \<longleftrightarrow> now < (t + jwtTTL) div second * second"
  by (simp add: in_force_def new_claims_def)

lemma new_claims_sel [simp]:
  "cl_UserID (new_claims t uid kyc sid) = uid" "cl_KYCStatus (new_claims t uid kyc sid) = kyc"
  "cl_SessionID (new_claims t uid kyc sid) = sid"
  by (simp_all add: new_claims_def)

text \<open>A token issued for a user names that user, for exactly an hour less the fraction of a second.\<close>

lemma issued_token:
  assumes "jwt_documented (svc_jwt svc)" "issue svc env uid kyc st = (Inr r, st')"
  shows "(\<exists>c. ValidateToken svc t (AccessToken r) = Inr c \<and> cl_UserID c = uid \<and> cl_KYCStatus c = kyc) \<longleftrightarrow>
    t < (ie_now env + jwtTTL) div second * second"
  using assms(2) by (elim issue_cases) (simp add: signed_validates [OF assms(1)])

lemma issue_total:
  assumes "jwt_documented (svc_jwt svc)" "ie_rand env \<noteq> None" "\<not> ie_faults env SetSession"
  shows "\<exists>r st'. issue svc env uid kyc st = (Inr r, st')"
proof -
  obtain sid where s: "randomHex 16 env = Some sid" using assms(2) by (auto simp: randomHex_def)
  obtain tok where "SignedString (svc_jwt svc) ''HS256'' (jwtSecret svc) (new_claims (ie_now env) uid kyc sid) = Some tok"
    using jwt_signs [OF assms(1)] by blast
  then show ?thesis using s assms(3) by (simp add: issue_def)
qed

section \<open>Accounts\<close>

lemma issue_users [simp]: "users (snd (issue svc env uid kyc st)) = users st"
  by (simp add: issue_def split: option.splits)

lemma Login_users [simp]: "users (snd (Login svc env req st)) = users st"
  by (simp add: Login_def split: option.splits)

lemma RefreshSession_users [simp]: "users (snd (RefreshSession env sid st)) = users st"
  by (simp add: RefreshSession_def)

lemma insert_user_Some:
  "insert_user u t = Some t' \<longleftrightarrow> t' = t @ [u] \<and> users_chk u \<and> u_email u \<notin> u_email ` set t \<and> u_id u \<notin> u_id ` set t"
  by (auto simp: insert_user_def insert_row_def)

lemma Register_users:
  "users (snd (Register svc env req st)) = users st \<or>
   (\<exists>u. insert_user u (users st) = Some (users (snd (Register svc env req st))))"
  by (auto simp: Register_def split: option.splits)

lemma accounts_ok_insert:
  assumes "accounts_ok st" "insert_user u (users st) = Some (users st')"
  shows "accounts_ok st'"
  using assms by (auto simp: accounts_ok_def insert_user_Some table_ok_def)

lemma identity_step_ok: "identity_step svc st st' \<Longrightarrow> accounts_ok st \<Longrightarrow> accounts_ok st'"
proof (erule identity_stepE)
  fix env req
  assume "accounts_ok st" "st' = snd (Register svc env req st)"
  then show "accounts_ok st'" using Register_users [of svc env req st] accounts_ok_insert [of st _ st']
    by (auto simp: accounts_ok_def)
qed (auto simp: accounts_ok_def)

lemma account_insert: "insert_user v (users st) = Some (users st') \<Longrightarrow> account e st = Some u \<Longrightarrow> account e st' = Some u"
  by (auto simp: account_def insert_user_Some by_key_append)

lemma account_step: "identity_step svc st st' \<Longrightarrow> account e st = Some u \<Longrightarrow> account e st' = Some u"
proof (erule identity_stepE)
  fix env req
  assume "account e st = Some u" "st' = snd (Register svc env req st)"
  then show "account e st' = Some u" using Register_users [of svc env req st] account_insert [of _ st st' e u]
    by (auto simp: account_def)
qed (auto simp: account_def)

lemma account_reach: "reach (identity_step svc) st st' \<Longrightarrow> account e st = Some u \<Longrightarrow> account e st' = Some u"
  by (induction rule: reach.induct) (auto intro: account_step)

lemma Register_cases:
  assumes "Register svc env req st = (Inr r, st')"
  obtains hash us where "GenerateFromPassword (svc_bcrypt svc) (ie_salt env) (Password req) = Some hash"
    "insert_user \<lparr>u_id = ie_uuid env, u_email = Email req, u_password_hash = hash, u_kyc_status = ''PENDING'', u_created_at = ie_now env\<rparr> (users st) = Some us"
    "issue svc env (ie_uuid env) ''PENDING'' (st\<lparr>users := us\<rparr>) = (Inr r, st')"
  using assms by (auto simp: Register_def split: option.splits if_splits)

lemma inserted_account:
  "insert_user u (users st) = Some us \<Longrightarrow> account (u_email u) (st\<lparr>users := us\<rparr>) = Some u"
proof -
  assume "insert_user u (users st) = Some us"
  moreover from this have "by_key u_email (u_email u) (users st) = None" by (simp add: insert_user_Some by_key_None_iff)
  ultimately show ?thesis by (simp add: account_def insert_user_Some by_key_append)
qed

lemma Register_account:
  assumes "Register svc env req st = (Inr r, st')"
  obtains u where "account (Email req) st' = Some u" "u_id u = ie_uuid env" "u_kyc_status u = ''PENDING''"
    "GenerateFromPassword (svc_bcrypt svc) (ie_salt env) (Password req) = Some (u_password_hash u)"
proof -
  from assms obtain hash us where h: "GenerateFromPassword (svc_bcrypt svc) (ie_salt env) (Password req) = Some hash"
    "insert_user \<lparr>u_id = ie_uuid env, u_email = Email req, u_password_hash = hash, u_kyc_status = ''PENDING'', u_created_at = ie_now env\<rparr> (users st) = Some us"
    and i: "issue svc env (ie_uuid env) ''PENDING'' (st\<lparr>users := us\<rparr>) = (Inr r, st')" by (rule Register_cases)
  have "users st' = us" using issue_users [of svc env "ie_uuid env" "''PENDING''" "st\<lparr>users := us\<rparr>"] i by simp
  then have "account (Email req) st' = Some \<lparr>u_id = ie_uuid env, u_email = Email req, u_password_hash = hash, u_kyc_status = ''PENDING'', u_created_at = ie_now env\<rparr>"
    using inserted_account [OF h(2)] by (simp add: account_def)
  then show ?thesis by (rule that) (simp_all add: h(1))
qed

section \<open>Sample libraries\<close>

text \<open>Concrete instances of the two parameters, which show that the documented behaviour can hold: a
  hash that is the password itself, and a token that spells out its algorithm, key and claims.\<close>

definition plain_bcrypt :: bcrypt_lib where
  "plain_bcrypt =
     \<lparr>GenerateFromPassword = (\<lambda>salt p. if 72 < length p then None else Some p), CompareHashAndPassword = (\<lambda>h p. h = p)\<rparr>"

fun put_field :: "string \<Rightarrow> string \<Rightarrow> string" where
  "put_field [] r = CHR ''|'' # r"
| "put_field (c # s) r = CHR ''.'' # c # put_field s r"

fun take_field :: "string \<Rightarrow> (string \<times> string) option" where
  "take_field (a # r) =
     (if a = CHR ''|'' then Some ([], r)
      else case r of [] \<Rightarrow> None | c # r' \<Rightarrow> map_option (\<lambda>(s, q). (c # s, q)) (take_field r'))"
| "take_field [] = None"

fun take_fields :: "nat \<Rightarrow> string \<Rightarrow> string list option" where
  "take_fields 0 r = Some []"
| "take_fields (Suc n) r =
     (case take_field r of None \<Rightarrow> None | Some (s, r') \<Rightarrow> map_option ((#) s) (take_fields n r'))"

definition put_date :: "int option \<Rightarrow> string" where
  "put_date d = (case d of None \<Rightarrow> [] | Some n \<Rightarrow> itoa n)"

definition spell_token :: "string \<Rightarrow> string \<Rightarrow> Claims \<Rightarrow> string" where
  "spell_token alg key c = foldr put_field
     [alg, key, put_date (cl_ExpiresAt c), put_date (cl_NotBefore c), put_date (cl_IssuedAt c),
      cl_Issuer c, cl_UserID c, cl_KYCStatus c, cl_SessionID c] []"

definition read_token :: "string \<Rightarrow> (string \<times> string \<times> Claims) option" where
  "read_token tok =
     (case take_fields 9 tok of
        Some [alg, key, e, n, i, iss, uid, kyc, sid] \<Rightarrow>
          Some (alg, key, \<lparr>cl_ExpiresAt = parse_signed e, cl_NotBefore = parse_signed n, cl_IssuedAt = parse_signed i,
            cl_Issuer = iss, cl_UserID = uid, cl_KYCStatus = kyc, cl_SessionID = sid\<rparr>)
      | _ \<Rightarrow> None)"

definition plain_jwt :: jwt_lib where
  "plain_jwt =
     \<lparr>SignedString = (\<lambda>alg key c. Some (spell_token alg key c)),
      ParseWithClaims = (\<lambda>now kf tok. case read_token tok of None \<Rightarrow> None
        | Some (alg, key, c) \<Rightarrow> if kf alg = Some key \<and> in_force now c then Some (c, True) else None),
      verifies = (\<lambda>alg key tok c. read_token tok = Some (alg, key, c))\<rparr>"

lemma take_put [simp]: "take_field (put_field s r) = Some (s, r)"
  by (induction s) simp_all

lemma parse_put_date [simp]: "parse_signed (put_date d) = d"
  by (simp add: put_date_def parse_signed_def [of "[]"] split: option.splits)

lemma read_spell [simp]: "read_token (spell_token alg key c) = Some (alg, key, c)"
  by (simp add: read_token_def spell_token_def eval_nat_numeral)

lemma plain_bcrypt_documented: "bcrypt_documented plain_bcrypt"
  by (auto simp: bcrypt_documented_def plain_bcrypt_def)

lemma plain_jwt_documented: "jwt_documented plain_jwt"
  unfolding jwt_documented_def
proof (intro conjI allI)
  fix now kf tok c v
  show "ParseWithClaims plain_jwt now kf tok = Some (c, v) \<longleftrightarrow>
      v \<and> in_force now c \<and> (\<exists>alg key. kf alg = Some key \<and> verifies plain_jwt alg key tok c)"
    by (auto simp: plain_jwt_def split: option.splits if_splits)
qed (auto simp: plain_jwt_def)

definition svc0 :: Service where
  "svc0 = \<lparr>jwtSecret = ''secret'', svc_bcrypt = plain_bcrypt, svc_jwt = plain_jwt\<rparr>"

lemma svc0_documented: "jwt_documented (svc_jwt svc0)" "bcrypt_documented (svc_bcrypt svc0)"
  by (simp_all add: svc0_def plain_jwt_documented plain_bcrypt_documented)

definition id_env :: "time \<Rightarrow> nat \<Rightarrow> identity_env" where
  "id_env now b = \<lparr>ie_now = now, ie_faults = no_faults, ie_uuid = ''u1'', ie_salt = [], ie_rand = Some [b]\<rparr>"

definition ann_creds :: Credentials where
  "ann_creds = \<lparr>Email = ''ann'', Password = ''correct horse''\<rparr>"

definition no_accounts :: identity_st where
  "no_accounts = \<lparr>users = [], sessions = Map.empty\<rparr>"

definition ann_session :: LoginResponse where
  "ann_session = \<lparr>AccessToken = spell_token ''HS256'' ''secret'' (new_claims 0 ''u1'' ''PENDING'' ''07''), lr_ExpiresAt = jwtTTL\<rparr>"

lemma ann_registers: "\<exists>st. Register svc0 (id_env 0 7) ann_creds no_accounts = (Inr ann_session, st)"
  by (simp add: Register_def issue_def svc0_def id_env_def ann_creds_def no_accounts_def plain_bcrypt_def plain_jwt_def
      insert_user_def insert_row_def users_chk_def randomHex_def hex_digit_def ann_session_def)

section \<open>Properties\<close>

text \<open>C23. Registration, login and validation fit together: once a registration succeeded, the same
  credentials log in after any further operations of the service, when no call of that login fails, and both the token of the
  registration and that of the login validate as the registered user exactly until the second in
  which their hour is over.\<close>

theorem registered_user_authenticates:
  assumes "jwt_documented (svc_jwt svc)" "bcrypt_documented (svc_bcrypt svc)"
    and "Register svc env req st = (Inr r, st1)" "reach (identity_step svc) st1 st2"
    and "ie_faults env2 = no_faults" "ie_rand env2 \<noteq> None"
  shows "\<exists>r2 st3. Login svc env2 req st2 = (Inr r2, st3) \<and>
    (\<forall>t. (\<exists>c. ValidateToken svc t (AccessToken r) = Inr c \<and> cl_UserID c = ie_uuid env \<and> cl_KYCStatus c = ''PENDING'') \<longleftrightarrow>
         t < (ie_now env + jwtTTL) div second * second) \<and>
    (\<forall>t. (\<exists>c. ValidateToken svc t (AccessToken r2) = Inr c \<and> cl_UserID c = ie_uuid env \<and> cl_KYCStatus c = ''PENDING'') \<longleftrightarrow>
         t < (ie_now env2 + jwtTTL) div second * second)"
proof -
  obtain u where u: "account (Email req) st1 = Some u" "u_id u = ie_uuid env" "u_kyc_status u = ''PENDING''"
    "GenerateFromPassword (svc_bcrypt svc) (ie_salt env) (Password req) = Some (u_password_hash u)"
    using assms(3) by (rule Register_account)
  have "CompareHashAndPassword (svc_bcrypt svc) (u_password_hash u) (Password req)"
    using assms(2) u(4) unfolding bcrypt_documented_def by blast
  moreover have "account (Email req) st2 = Some u" using assms(4) u(1) by (rule account_reach)
  ultimately have l: "Login svc env2 req st2 = issue svc env2 (ie_uuid env) ''PENDING'' st2"
    using assms(5) u(2,3) by (simp add: Login_def account_def)
  obtain r2 st3 where i: "issue svc env2 (ie_uuid env) ''PENDING'' st2 = (Inr r2, st3)"
    using issue_total [OF assms(1,6)] assms(5) by (metis (full_types))
  obtain us where j: "issue svc env (ie_uuid env) ''PENDING'' (st\<lparr>users := us\<rparr>) = (Inr r, st1)"
    using assms(3) by (rule Register_cases)
  show ?thesis
    by (intro exI conjI allI) (rule l [unfolded i], rule issued_token [OF assms(1) j], rule issued_token [OF assms(1) i])
qed

theorem registered_user_authenticates_witness:
  "\<exists>st1 r2 st3. Register svc0 (id_env 0 7) ann_creds no_accounts = (Inr ann_session, st1) \<and>
    Login svc0 (id_env (5 * second) 9) ann_creds st1 = (Inr r2, st3) \<and>
    (\<exists>c. ValidateToken svc0 (3604 * second) (AccessToken r2) = Inr c \<and> cl_UserID c = ''u1'') \<and>
    (\<nexists>c. ValidateToken svc0 (3604 * second) (AccessToken ann_session) = Inr c \<and> cl_UserID c = ''u1'' \<and> cl_KYCStatus c = ''PENDING'')"
proof -
  obtain st1 where r: "Register svc0 (id_env 0 7) ann_creds no_accounts = (Inr ann_session, st1)" using ann_registers by blast
  have e: "ie_faults (id_env (5 * second) 9) = no_faults" "ie_rand (id_env (5 * second) 9) \<noteq> None" by (simp_all add: id_env_def)
  have s: "ie_uuid (id_env 0 7) = ''u1''" "ie_now (id_env 0 7) = 0" "ie_now (id_env (5 * second) 9) = 5 * second"
    by (simp_all add: id_env_def)
  obtain r2 st3 where h: "Login svc0 (id_env (5 * second) 9) ann_creds st1 = (Inr r2, st3)"
    and t: "\<And>t. (\<exists>c. ValidateToken svc0 t (AccessToken ann_session) = Inr c \<and> cl_UserID c = ''u1'' \<and> cl_KYCStatus c = ''PENDING'') \<longleftrightarrow> t < jwtTTL div second * second"
    "\<And>t. (\<exists>c. ValidateToken svc0 t (AccessToken r2) = Inr c \<and> cl_UserID c = ''u1'' \<and> cl_KYCStatus c = ''PENDING'') \<longleftrightarrow> t < (5 * second + jwtTTL) div second * second"
    using registered_user_authenticates [OF svc0_documented r reach_refl e] unfolding s by auto
  have "\<not> 3604 * second < jwtTTL div second * second" "3604 * second < (5 * second + jwtTTL) div second * second"
    by (simp_all add: jwtTTL_def second_def)
  then show ?thesis using r h t by blast
qed

text \<open>Accounts are unique and stable: after any sequence of registrations, logins, refreshes and
  evictions with any failures, no two accounts share an email or an identifier, and an account once
  created keeps its identifier, password hash and KYC status.\<close>

theorem accounts_unique_and_stable:
  assumes "reach (identity_step svc) no_accounts st" "reach (identity_step svc) st st'" "account e st = Some u"
  shows "accounts_ok st' \<and> account e st' = Some u"
proof -
  have "reach (identity_step svc) no_accounts st'" using assms(2,1) by (rule reach_trans)
  then have "accounts_ok st'"
    by (rule reach_invariant) (simp add: accounts_ok_def no_accounts_def, blast intro: identity_step_ok)
  then show ?thesis using account_reach assms(2,3) by blast
qed

theorem accounts_unique_and_stable_witness:
  "let st1 = snd (Register svc0 (id_env 0 7) ann_creds no_accounts);
       st2 = snd (Register svc0 (id_env 1 8) (ann_creds\<lparr>Password := ''battery staple''\<rparr>) st1)
   in accounts_ok st2 \<and> map_option u_password_hash (account ''ann'' st2) = Some ''correct horse''"
proof -
  let ?s1 = "snd (Register svc0 (id_env 0 7) ann_creds no_accounts)"
  let ?s2 = "snd (Register svc0 (id_env 1 8) (ann_creds\<lparr>Password := ''battery staple''\<rparr>) ?s1)"
  have r: "reach (identity_step svc0) no_accounts ?s1" "reach (identity_step svc0) ?s1 ?s2"
    by (rule reach_single, rule step_register)+
  obtain st1 where s: "Register svc0 (id_env 0 7) ann_creds no_accounts = (Inr ann_session, st1)" using ann_registers by blast
  obtain u where u: "account (Email ann_creds) st1 = Some u"
    "GenerateFromPassword (svc_bcrypt svc0) (ie_salt (id_env 0 7)) (Password ann_creds) = Some (u_password_hash u)"
    using s by (rule Register_account)
  then have "account ''ann'' ?s1 = Some u" "u_password_hash u = ''correct horse''"
    using s by (simp_all add: ann_creds_def svc0_def plain_bcrypt_def)
  then show ?thesis using accounts_unique_and_stable [OF r, of "''ann''" u] by (simp add: Let_def)
qed

text \<open>A registration can fail and leave the account behind: when only the session cannot be
  stored, the caller gets an error but the account exists, so that repeating the registration is
  refused as a taken email, while the credentials do log in.\<close>

theorem failed_registration_keeps_account:
  assumes "jwt_documented (svc_jwt svc)" "bcrypt_documented (svc_bcrypt svc)" "length (Password req) \<le> 72"
    and "ie_faults env = (\<lambda>c. c = SetSession)" "ie_rand env \<noteq> None"
    and "Email req \<notin> u_email ` set (users st)" "ie_uuid env \<notin> u_id ` set (users st)"
    and "ie_faults env2 = no_faults" "ie_rand env2 \<noteq> None"
  shows "\<exists>st1. Register svc env req st = (Inl ErrStoreSession, st1) \<and>
    Register svc env2 req st1 = (Inl ErrEmailTaken, st1) \<and> (\<exists>r st2. Login svc env2 req st1 = (Inr r, st2))"
proof -
  have gen: "\<exists>h. GenerateFromPassword (svc_bcrypt svc) salt (Password req) = Some h" for salt
    using assms(2,3) unfolding bcrypt_documented_def by (metis linorder_not_less option.exhaust)
  obtain h where h: "GenerateFromPassword (svc_bcrypt svc) (ie_salt env) (Password req) = Some h" using gen by blast
  obtain h2 where h2: "GenerateFromPassword (svc_bcrypt svc) (ie_salt env2) (Password req) = Some h2" using gen by blast
  let ?u = "\<lparr>u_id = ie_uuid env, u_email = Email req, u_password_hash = h, u_kyc_status = ''PENDING'', u_created_at = ie_now env\<rparr>"
  let ?st = "st\<lparr>users := users st @ [?u]\<rparr>"
  obtain sid where sid: "randomHex 16 env = Some sid" using assms(5) by (auto simp: randomHex_def)
  have ins: "insert_user ?u (users st) = Some (users st @ [?u])" using assms(6,7) by (simp add: insert_user_Some users_chk_def)
  have "issue svc env (ie_uuid env) ''PENDING'' ?st = (Inl ErrStoreSession, ?st)"
    using jwt_signs [OF assms(1), of "jwtSecret svc" "new_claims (ie_now env) (ie_uuid env) ''PENDING'' sid"] assms(4) sid
    by (auto simp: issue_def)
  then have "Register svc env req st = (Inl ErrStoreSession, ?st)" using h ins assms(4) by (simp add: Register_def)
  moreover have "Register svc env2 req ?st = (Inl ErrEmailTaken, ?st)"
    using h2 assms(8) by (simp add: Register_def insert_user_def insert_row_def)
  moreover have "account (Email req) ?st = Some ?u" using inserted_account [OF ins] by simp
  then have "Login svc env2 req ?st = issue svc env2 (ie_uuid env) ''PENDING'' ?st"
    using assms(2,8) h unfolding bcrypt_documented_def by (simp add: Login_def account_def)
  ultimately show ?thesis using issue_total [OF assms(1,9), of "ie_uuid env" "''PENDING''" ?st] assms(8) by auto
qed

theorem failed_registration_keeps_account_witness:
  "\<exists>st1. Register svc0 (id_env 0 7\<lparr>ie_faults := (\<lambda>c. c = SetSession)\<rparr>) ann_creds no_accounts = (Inl ErrStoreSession, st1) \<and>
    Register svc0 (id_env 1 8) ann_creds st1 = (Inl ErrEmailTaken, st1) \<and> (\<exists>r st2. Login svc0 (id_env 1 8) ann_creds st1 = (Inr r, st2))"
  by (rule failed_registration_keeps_account [OF svc0_documented]) (simp_all add: ann_creds_def id_env_def no_accounts_def)

text \<open>A token outlives its session: between fifteen minutes after a login and the end of the hour
  the session is gone from the cache and the token still validates. The session is never consulted.\<close>

theorem token_outlives_session:
  assumes "jwt_documented (svc_jwt svc)" "Login svc env req st = (Inr r, st')"
    and "ie_now env + sessionTTL \<le> t" "t < (ie_now env + jwtTTL) div second * second"
  shows "\<exists>c. ValidateToken svc t (AccessToken r) = Inr c \<and> redis_get t (sessions st') (session_key (cl_SessionID c)) = None"
proof -
  obtain u :: user_row where i: "issue svc env (u_id u) (u_kyc_status u) st = (Inr r, st')"
    using assms(2) by (auto simp: Login_def split: option.splits if_splits)
  obtain sid where "SignedString (svc_jwt svc) ''HS256'' (jwtSecret svc) (new_claims (ie_now env) (u_id u) (u_kyc_status u) sid) = Some (AccessToken r)"
    "st' = st\<lparr>sessions := redis_set (ie_now env) (session_key sid) (session_val (u_id u) (u_kyc_status u)) sessionTTL (sessions st)\<rparr>"
    using i by (rule issue_cases)
  then show ?thesis using assms(3,4) signed_validates [OF assms(1)] by (simp add: redis_simps)
qed

theorem token_outlives_session_witness:
  "\<exists>st1 r2 st3 c. Register svc0 (id_env 0 7) ann_creds no_accounts = (Inr ann_session, st1) \<and>
    Login svc0 (id_env 0 9) ann_creds st1 = (Inr r2, st3) \<and>
    ValidateToken svc0 (1800 * second) (AccessToken r2) = Inr c \<and> redis_get (1800 * second) (sessions st3) (session_key (cl_SessionID c)) = None"
proof -
  obtain st1 where r: "Register svc0 (id_env 0 7) ann_creds no_accounts = (Inr ann_session, st1)" using ann_registers by blast
  have e: "ie_rand (id_env 0 9) \<noteq> None" "ie_faults (id_env 0 9) = no_faults" by (simp_all add: id_env_def)
  obtain u where u: "account (Email ann_creds) st1 = Some u"
    "GenerateFromPassword (svc_bcrypt svc0) (ie_salt (id_env 0 7)) (Password ann_creds) = Some (u_password_hash u)"
    using r by (rule Register_account)
  then have "Login svc0 (id_env 0 9) ann_creds st1 = issue svc0 (id_env 0 9) (u_id u) (u_kyc_status u) st1"
    using e by (simp add: Login_def account_def svc0_def plain_bcrypt_def ann_creds_def)
  then obtain r2 st3 where l: "Login svc0 (id_env 0 9) ann_creds st1 = (Inr r2, st3)"
    using issue_total [OF svc0_documented(1) e(1)] e(2) by (metis (full_types))
  have "ie_now (id_env 0 9) + sessionTTL \<le> 1800 * second" "1800 * second < (ie_now (id_env 0 9) + jwtTTL) div second * second"
    by (simp_all add: id_env_def sessionTTL_def jwtTTL_def second_def)
  from token_outlives_session [OF svc0_documented(1) l this] show ?thesis using r l by blast
qed

end
