(* ===== verification/HttpApi.thy ===== *)
theory HttpApi
  imports Identity BetHistory
begin

text \<open>
  The HTTP endpoints of the service processes under \<^verbatim>\<open>src/cmd/\<close>: login and registration
  (identity), placing a bet (betacceptance), balance, deposit and withdrawal (cashier) and the list
  of a user's bets (bethistory), each behind the token check of its process.

  A request is its headers and its body, a response a status code and a JSON body; \<^verbatim>\<open>http.Error\<close>
  and the JSON encoder are the only writers, and the encoder writes the keys of a map in order. A
  body that is not JSON is \<open>None\<close>. Routing, timeouts and shutdown of the servers are not modelled.

  Shown: every endpoint acts for the user of a valid token and ignores an \<^verbatim>\<open>X-User-ID\<close> header of
  the caller, no request moves another user's money, amounts in dollars and cents are converted
  exactly and never move money the wrong way, and the list of bets is the user's newest fifty.
\<close>

section \<open>Requests and responses\<close>

record http_request =
  rq_headers :: "(string \<times> string) list"
  rq_body :: payload

record http_response =
  rs_code :: int
  rs_body :: "json option"

text \<open>\<^verbatim>\<open>Header.Get\<close> and \<^verbatim>\<open>Header.Set\<close>; header names compare without regard to case.\<close>

definition header_Get :: "string \<Rightarrow> (string \<times> string) list \<Rightarrow> string" where
  "header_Get k h = (case find (\<lambda>p. fold_eq (fst p) k) h of None \<Rightarrow> [] | Some p \<Rightarrow> snd p)"

definition header_Set :: "string \<Rightarrow> string \<Rightarrow> (string \<times> string) list \<Rightarrow> (string \<times> string) list" where
  "header_Set k v h = (k, v) # filter (\<lambda>p. \<not> fold_eq (fst p) k) h"

definition http_Error :: "string \<Rightarrow> int \<Rightarrow> http_response" where
  "http_Error msg sc = \<lparr>rs_code = sc, rs_body = Some (JObj [(''error'', JStr msg)])\<rparr>"

definition json_reply :: "int \<Rightarrow> json option \<Rightarrow> http_response" where
  "json_reply sc body = \<lparr>rs_code = sc, rs_body = body\<rparr>"

text \<open>A panic in a handler aborts the connection: no response.\<close>

definition http_abort :: http_response where
  "http_abort = \<lparr>rs_code = 0, rs_body = None\<rparr>"

type_synonym 's handler = "http_request \<Rightarrow> 's \<Rightarrow> http_response \<times> 's"

section \<open>The token check\<close>

definition bearer_token :: "http_request \<Rightarrow> string option" where
  "bearer_token rq =
     (let auth = header_Get ''Authorization'' (rq_headers rq)
      in if strings_HasPrefix auth ''Bearer '' then Some (strings_TrimPrefix auth ''Bearer '') else None)"

text \<open>The middleware of betacceptance and that of bethistory are the same code.\<close>

definition jwtMiddleware :: "Service \<Rightarrow> time \<Rightarrow> 's handler \<Rightarrow> 's handler" where
  "jwtMiddleware svc now next rq st =
     (case bearer_token rq of
        None \<Rightarrow> (http_Error ''missing authorization'' 401, st)
      | Some tok \<Rightarrow>
          (case ValidateToken svc now tok of
             Inl _ \<Rightarrow> (http_Error ''invalid token'' 401, st)
           | Inr claims \<Rightarrow> next (rq\<lparr>rq_headers := header_Set ''X-User-ID'' (cl_UserID claims) (rq_headers rq)\<rparr>) st))"

definition cashier_jwtMw :: "Service \<Rightarrow> time \<Rightarrow> (Claims \<Rightarrow> 's handler) \<Rightarrow> 's handler" where
  "cashier_jwtMw svc now next rq st =
     (case bearer_token rq of
        None \<Rightarrow> (http_Error ''UNAUTHORIZED'' 401, st)
      | Some tok \<Rightarrow>
          (case ValidateToken svc now tok of
             Inl _ \<Rightarrow> (http_Error ''UNAUTHORIZED'' 401, st)
           | Inr claims \<Rightarrow> next claims rq st))"

section \<open>Identity\<close>

definition minPasswordLen :: nat where
  "minPasswordLen = 8"

definition decode_creds :: "payload \<Rightarrow> Credentials option" where
  "decode_creds p =
     Option.bind (dec_object p) (\<lambda>kvs.
     Option.bind (decode_field dec_string ''email'' [] kvs) (\<lambda>e.
     Option.bind (decode_field dec_string ''password'' [] kvs) (\<lambda>pw.
     Some \<lparr>Email = e, Password = pw\<rparr>)))"

definition token_reply :: "int \<Rightarrow> LoginResponse \<Rightarrow> http_response" where
  "token_reply sc r =
     json_reply sc (Some (JObj [(''access_token'', JStr (AccessToken r)), (''expires_at'', JStr (format_rfc3339 False (lr_ExpiresAt r)))]))"

definition login_endpoint :: "Service \<Rightarrow> identity_env \<Rightarrow> identity_st handler" where
  "login_endpoint svc env rq st =
     (case decode_creds (rq_body rq) of
        None \<Rightarrow> (http_Error ''invalid body'' 400, st)
      | Some req \<Rightarrow>
          (case Login svc env req st of
             (Inl _, st') \<Rightarrow> (http_Error ''invalid credentials'' 401, st')
           | (Inr r, st') \<Rightarrow> (token_reply 200 r, st')))"

definition register_endpoint :: "Service \<Rightarrow> identity_env \<Rightarrow> identity_st handler" where
  "register_endpoint svc env rq st =
     (case decode_creds (rq_body rq) of
        None \<Rightarrow> (http_Error ''invalid body'' 400, st)
      | Some req \<Rightarrow>
          if Email req = [] \<or> length (Password req) < minPasswordLen
          then (http_Error ''email required and password must be at least 8 characters'' 400, st)
          else (case Register svc env req st of
             (Inl e, st') \<Rightarrow>
               (if e = ErrEmailTaken then http_Error ''email already registered'' 409 else http_Error ''internal error'' 500, st')
           | (Inr r, st') \<Rightarrow> (token_reply 201 r, st')))"

section \<open>Placing a bet\<close>

record httpError =
  hte_code :: int
  hte_Error :: string
  hte_Message :: string

text \<open>The text of an error (\<^verbatim>\<open>err.Error()\<close>) is an argument: the errors of the bet flow carry none.\<close>

definition mapBetFlowError :: "(bet_error \<Rightarrow> string) \<Rightarrow> bet_error \<Rightarrow> httpError" where
  "mapBetFlowError txt_of err =
     (case err of
        ErrMarketNotOpen \<Rightarrow> \<lparr>hte_code = 409, hte_Error = ''MARKET_NOT_OPEN'', hte_Message = []\<rparr>
      | ErrOddsMoved \<Rightarrow> \<lparr>hte_code = 409, hte_Error = ''ODDS_CHANGED'', hte_Message = txt_of err\<rparr>
      | ErrLimitExceeded \<Rightarrow> \<lparr>hte_code = 422, hte_Error = ''LIMIT_EXCEEDED'', hte_Message = txt_of err\<rparr>
      | ErrOddsNotSettled \<Rightarrow> \<lparr>hte_code = 409, hte_Error = ''ODDS_NOT_SETTLED'', hte_Message = []\<rparr>
      | ErrInsufficientFunds \<Rightarrow> \<lparr>hte_code = 402, hte_Error = ''INSUFFICIENT_FUNDS'', hte_Message = []\<rparr>
      | _ \<Rightarrow> \<lparr>hte_code = 500, hte_Error = ''INTERNAL_ERROR'', hte_Message = []\<rparr>)"

definition error_json :: "httpError \<Rightarrow> json" where
  "error_json e = JObj ((''error'', JStr (hte_Error e)) # (if hte_Message e = [] then [] else [(''message'', JStr (hte_Message e))]))"

definition decode_bet :: "string \<Rightarrow> string \<Rightarrow> payload \<Rightarrow> PlaceBetRequest option" where
  "decode_bet idemKey userID p =
     Option.bind (dec_object p) (\<lambda>kvs.
     Option.bind (decode_field dec_string ''market_id'' [] kvs) (\<lambda>m.
     Option.bind (decode_field dec_string ''market_name'' [] kvs) (\<lambda>mn.
     Option.bind (decode_field dec_string ''selection_id'' [] kvs) (\<lambda>s.
     Option.bind (decode_field dec_string ''selection_name'' [] kvs) (\<lambda>sn.
     Option.bind (decode_field dec_float64 ''odds_decimal'' (Fin 0) kvs) (\<lambda>d.
     Option.bind (decode_field dec_int64 ''odds_american'' 0 kvs) (\<lambda>a.
     Option.bind (decode_field dec_int64 ''stake_minor'' 0 kvs) (\<lambda>st.
     Option.bind (decode_field dec_string ''currency'' [] kvs) (\<lambda>cur.
     Some \<lparr>IdempotencyKey = idemKey, pb_UserID = userID, pb_MarketID = m, MarketName = mn, pb_SelectionID = s,
           SelectionName = sn, RequestedOddsDecimal = d, RequestedOddsAmerican = a, pb_StakeMinor = st, pb_Currency = cur\<rparr>)))))))))"

definition bet_json :: "PlaceBetResponse \<Rightarrow> json option" where
  "bet_json r =
     map_option (\<lambda>d. JObj
       [(''bet_id'', JStr (BetID r)), (''currency'', JStr (pr_Currency r)), (''odds_american'', JInt (pr_OddsAmerican r)),
        (''odds_decimal'', d), (''placed_at'', JStr (format_rfc3339 True (PlacedAt r))), (''stake'', JInt (pr_Stake r)),
        (''status'', JStr (pr_Status r))]) (enc_float64 (pr_OddsDecimal r))"

record 'w bet_server =
  bs_faults :: "bet_call faults"
  bs_cfg :: Config
  bs_env :: bet_env
  bs_wallet :: "'w wallet_client"
  bs_text :: "bet_error \<Rightarrow> string"

definition makePlaceBetHandler :: "'w bet_server \<Rightarrow> 'w bet_state handler" where
  "makePlaceBetHandler srv rq st =
     (let userID = header_Get ''X-User-ID'' (rq_headers rq); idemKey = header_Get ''Idempotency-Key'' (rq_headers rq) in
      if userID = [] then (http_Error ''missing X-User-ID'' 401, st)
      else if idemKey = [] then (http_Error ''Idempotency-Key header required'' 400, st)
      else (case decode_bet idemKey userID (rq_body rq) of
         None \<Rightarrow> (http_Error ''invalid request body'' 400, st)
       | Some req \<Rightarrow>
           (case PlaceBet (bs_faults srv) (bs_cfg srv) (bs_env srv) (bs_wallet srv) req st of
              (Inl err, st') \<Rightarrow>
                (let e = mapBetFlowError (bs_text srv) err in json_reply (hte_code e) (Some (error_json e)), st')
            | (Inr resp, st') \<Rightarrow> (json_reply 200 (bet_json resp), st'))))"

definition bet_endpoint :: "Service \<Rightarrow> time \<Rightarrow> 'w bet_server \<Rightarrow> 'w bet_state handler" where
  "bet_endpoint svc now srv = jwtMiddleware svc now (makePlaceBetHandler srv)"

section \<open>The cashier\<close>

text \<open>The wallet client of the cashier, over a network that may lose a request or its reply; \<open>ci_txID\<close>
  is the fresh transaction identifier.\<close>

record cashier_io =
  ci_lost :: bool
  ci_reply_lost :: bool
  ci_wallet :: "wallet_call faults"
  ci_now :: time
  ci_txID :: string

definition wallet_call_rpc :: "cashier_io \<Rightarrow> (wallet_db \<Rightarrow> (grpc_status + 'a) \<times> wallet_db) \<Rightarrow> wallet_db \<Rightarrow> (grpc_status + 'a) \<times> wallet_db" where
  "wallet_call_rpc io rpc db =
     (if ci_lost io then (Inl (Status Unavailable ''transport''), db)
      else case rpc db of (r, db') \<Rightarrow> (if ci_reply_lost io then Inl (Status Unavailable ''transport'') else r, db'))"

definition balance_handler :: "cashier_io \<Rightarrow> string \<Rightarrow> wallet_db handler" where
  "balance_handler io userID rq db =
     (case wallet_call_rpc io (\<lambda>db. (GetBalance (ci_wallet io) userID db, db)) db of
        (Inl _, db') \<Rightarrow> (http_Error ''INTERNAL'' 500, db')
      | (Inr r, db') \<Rightarrow>
          (json_reply 200 (Some (JObj [(''available_minor'', JInt (amount_minor (gb_Available r))), (''currency'', JStr (currency (gb_Available r)))])), db'))"

definition balance_endpoint :: "Service \<Rightarrow> time \<Rightarrow> cashier_io \<Rightarrow> wallet_db handler" where
  "balance_endpoint svc now io = cashier_jwtMw svc now (\<lambda>claims. balance_handler io (cl_UserID claims))"

definition decode_cash :: "payload \<Rightarrow> (float64 \<times> string) option" where
  "decode_cash p =
     Option.bind (dec_object p) (\<lambda>kvs.
     Option.bind (decode_field dec_float64 ''amount_dollars'' (Fin 0) kvs) (\<lambda>d.
     Option.bind (decode_field dec_string ''payment_method'' [] kvs) (\<lambda>pm. Some (d, pm))))"

definition amountMinor :: "float64 \<Rightarrow> int" where
  "amountMinor dollars = int64_of_float (math_Round (fmul dollars (Fin 100)))"

definition cash_request :: "cashier_io \<Rightarrow> string \<Rightarrow> float64 \<Rightarrow> string \<Rightarrow> CashierRequest" where
  "cash_request io userID dollars pm =
     \<lparr>cas_TransactionId = ci_txID io, cas_UserId = userID,
      cas_Amount = Some \<lparr>amount_minor = amountMinor dollars, currency = ''USD''\<rparr>, cas_PaymentMethod = pm\<rparr>"

text \<open>\<^verbatim>\<open>String()\<close> of the generated enum: the name of the value in the proto file.\<close>

definition LedgerEntryStatus_String :: "LedgerEntryStatus \<Rightarrow> string" where
  "LedgerEntryStatus_String s =
     (case s of
        LEDGER_ENTRY_STATUS_UNSPECIFIED \<Rightarrow> ''LEDGER_ENTRY_STATUS_UNSPECIFIED''
      | LEDGER_ENTRY_STATUS_PENDING_CONFIRMATION \<Rightarrow> ''LEDGER_ENTRY_STATUS_PENDING_CONFIRMATION''
      | LEDGER_ENTRY_STATUS_CONFIRMED \<Rightarrow> ''LEDGER_ENTRY_STATUS_CONFIRMED''
      | LEDGER_ENTRY_STATUS_FAILED \<Rightarrow> ''LEDGER_ENTRY_STATUS_FAILED'')"

definition cash_reply :: "TransactionResponse \<Rightarrow> http_response" where
  "cash_reply r =
     (case AvailableAfter r of
        None \<Rightarrow> http_abort
      | Some m \<Rightarrow> json_reply 200 (Some (JObj
          [(''available_after'', JInt (amount_minor m)), (''currency'', JStr (currency m)),
           (''status'', JStr (LedgerEntryStatus_String (resp_Status r))), (''transaction_id'', JStr (resp_TransactionId r))])))"

definition deposit_handler :: "cashier_io \<Rightarrow> string \<Rightarrow> wallet_db handler" where
  "deposit_handler io userID rq db =
     (case decode_cash (rq_body rq) of
        None \<Rightarrow> (http_Error ''INVALID_REQUEST'' 400, db)
      | Some (dollars, pm) \<Rightarrow>
          if fle dollars (Fin 0) then (http_Error ''INVALID_REQUEST'' 400, db)
          else (case wallet_call_rpc io (Deposit (ci_wallet io) (ci_now io) (cash_request io userID dollars pm)) db of
             (Inl _, db') \<Rightarrow> (http_Error ''INTERNAL'' 500, db')
           | (Inr r, db') \<Rightarrow> (cash_reply r, db')))"

definition deposit_endpoint :: "Service \<Rightarrow> time \<Rightarrow> cashier_io \<Rightarrow> wallet_db handler" where
  "deposit_endpoint svc now io = cashier_jwtMw svc now (\<lambda>claims. deposit_handler io (cl_UserID claims))"

definition withdraw_handler :: "cashier_io \<Rightarrow> string \<Rightarrow> wallet_db handler" where
  "withdraw_handler io userID rq db =
     (case decode_cash (rq_body rq) of
        None \<Rightarrow> (http_Error ''INVALID_REQUEST'' 400, db)
      | Some (dollars, pm) \<Rightarrow>
          if fle dollars (Fin 0) then (http_Error ''INVALID_REQUEST'' 400, db)
          else (case wallet_call_rpc io (Withdraw (ci_wallet io) (ci_now io) (cash_request io userID dollars pm)) db of
             (Inl e, db') \<Rightarrow>
               (if code e = FailedPrecondition then http_Error ''INSUFFICIENT_FUNDS'' 402 else http_Error ''INTERNAL'' 500, db')
           | (Inr r, db') \<Rightarrow> (cash_reply r, db')))"

definition withdraw_endpoint :: "Service \<Rightarrow> time \<Rightarrow> cashier_io \<Rightarrow> wallet_db handler" where
  "withdraw_endpoint svc now io = cashier_jwtMw svc now (\<lambda>claims. withdraw_handler io (cl_UserID claims))"

section \<open>My bets\<close>

text \<open>\<open>mb_query_fails\<close>: the query fails; \<open>mb_scan_fails\<close>: the scan of a row fails and the row is skipped;
  \<open>mb_break\<close>: the result set ends early, which the handler does not notice; \<open>mb_numeric\<close> is the
  driver's conversion of NUMERIC(10,4), in units of 0.0001, to float64.\<close>

record bets_io =
  mb_query_fails :: bool
  mb_scan_fails :: "BetRecord \<Rightarrow> bool"
  mb_break :: "nat option"
  mb_numeric :: "int \<Rightarrow> float64"

text \<open>Rows of equal instants come in insertion order.\<close>

definition my_bets_query :: "string \<Rightarrow> BetRecord tbl \<Rightarrow> BetRecord list" where
  "my_bets_query userID t = take 50 (sort_key (\<lambda>r. - bh_PlacedAt r) (filter (\<lambda>r. bh_UserID r = userID) t))"

definition my_bet_json :: "bets_io \<Rightarrow> BetRecord \<Rightarrow> json option" where
  "my_bet_json io r =
     map_option (\<lambda>d. JObj
       ([(''bet_id'', JStr (bh_BetID r)), (''currency'', JStr (bh_Currency r)), (''market_id'', JStr (bh_MarketID r)),
         (''market_name'', JStr (bh_MarketName r)), (''odds_american'', JInt (bh_OddsAmerican r)), (''odds_decimal'', d)] @
        (case bh_PayoutMinor r of None \<Rightarrow> [] | Some p \<Rightarrow> [(''payout_minor'', JInt p)]) @
        [(''placed_at'', JStr (format_rfc3339 False (bh_PlacedAt r))), (''selection_id'', JStr (bh_SelectionID r)),
         (''selection_name'', JStr (bh_SelectionName r))] @
        (case bh_SettledAt r of None \<Rightarrow> [] | Some t \<Rightarrow> [(''settled_at'', JStr (format_rfc3339 False t))]) @
        [(''stake_minor'', JInt (bh_StakeMinor r)), (''status'', JStr (bh_Status r))]))
     (enc_float64 (mb_numeric io (bh_OddsDecimal r)))"

fun all_json :: "json option list \<Rightarrow> json list option" where
  "all_json [] = Some []"
| "all_json (j # js) = Option.bind j (\<lambda>x. map_option ((#) x) (all_json js))"

definition my_bets_handler :: "bets_io \<Rightarrow> BetRecord tbl handler" where
  "my_bets_handler io rq t =
     (let userID = header_Get ''X-User-ID'' (rq_headers rq);
          rows = my_bets_query userID t;
          seen = filter (\<lambda>r. \<not> mb_scan_fails io r) (case mb_break io of None \<Rightarrow> rows | Some n \<Rightarrow> take n rows)
      in if mb_query_fails io then (http_Error ''internal error'' 500, t)
         else (json_reply 200 (map_option (\<lambda>js. JObj [(''bets'', JArr js)]) (all_json (map (my_bet_json io) seen))), t))"

definition my_bets_endpoint :: "Service \<Rightarrow> time \<Rightarrow> bets_io \<Rightarrow> BetRecord tbl handler" where
  "my_bets_endpoint svc now io = jwtMiddleware svc now (my_bets_handler io)"

section \<open>The contract of an endpoint behind the token check\<close>

lemma fold_eq_sym: "fold_eq a b \<longleftrightarrow> fold_eq b a"
  by (auto simp: fold_eq_def)

lemma fold_eq_trans: "fold_eq a b \<Longrightarrow> fold_eq b c \<Longrightarrow> fold_eq a c"
  by (simp add: fold_eq_def)

lemma header_Get_Set_same [simp]: "header_Get k (header_Set k v h) = v"
  by (simp add: header_Get_def header_Set_def)

lemma header_Get_Set_other: "\<not> fold_eq k k' \<Longrightarrow> header_Get k' (header_Set k v h) = header_Get k' h"
proof -
  assume n: "\<not> fold_eq k k'"
  then have "find (\<lambda>p. fold_eq (fst p) k') (filter (\<lambda>p. \<not> fold_eq (fst p) k) h) = find (\<lambda>p. fold_eq (fst p) k') h"
    by (induction h) (auto simp: fold_eq_def)
  then show ?thesis using n by (simp add: header_Get_def header_Set_def)
qed

lemma header_Set_Set [simp]: "header_Set k v (header_Set k w h) = header_Set k v h"
  by (simp add: header_Set_def)

definition with_user :: "string \<Rightarrow> http_request \<Rightarrow> http_request" where
  "with_user u rq = rq\<lparr>rq_headers := header_Set ''X-User-ID'' u (rq_headers rq)\<rparr>"

definition authenticated :: "Service \<Rightarrow> time \<Rightarrow> http_request \<Rightarrow> string option" where
  "authenticated svc now rq =
     Option.bind (bearer_token rq) (\<lambda>tok. case ValidateToken svc now tok of Inl _ \<Rightarrow> None | Inr c \<Rightarrow> Some (cl_UserID c))"

lemma user_header_distinct: "\<not> fold_eq ''X-User-ID'' ''Authorization''" "\<not> fold_eq ''X-User-ID'' ''Idempotency-Key''"
  by code_simp+

lemma with_user_simps [simp]:
  "bearer_token (with_user u rq) = bearer_token rq" "rq_body (with_user u rq) = rq_body rq"
  "with_user v (with_user u rq) = with_user v rq" "header_Get ''X-User-ID'' (rq_headers (with_user u rq)) = u"
  "header_Get ''Idempotency-Key'' (rq_headers (with_user u rq)) = header_Get ''Idempotency-Key'' (rq_headers rq)"
  by (simp_all add: bearer_token_def with_user_def header_Get_Set_other user_header_distinct)

lemma authenticated_with_user [simp]: "authenticated svc now (with_user u rq) = authenticated svc now rq"
  by (simp add: authenticated_def)

text \<open>What each process promises of a protected endpoint: it refuses a request without a valid token,
  and otherwise does \<open>act\<close> for the token's user, whatever the caller put in \<^verbatim>\<open>X-User-ID\<close>.\<close>

locale guarded_endpoint =
  fixes svc :: Service and now :: time and endpoint :: "'s handler" and act :: "string \<Rightarrow> 's handler"
  assumes refuses: "authenticated svc now rq = None \<Longrightarrow> \<exists>m. endpoint rq st = (http_Error m 401, st)"
    and admits: "authenticated svc now rq = Some u \<Longrightarrow> endpoint rq st = act u rq st"
    and refuses_same: "authenticated svc now rq = None \<Longrightarrow> endpoint (with_user x rq) st = endpoint rq st"
    and ignores_header: "act u (with_user x rq) st = act u rq st"
begin

lemma forged_header: "endpoint (with_user x rq) st = endpoint rq st"
  by (cases "authenticated svc now rq") (simp_all add: refuses_same admits ignores_header)

lemma needs_token:
  assumes "endpoint rq st = (resp, st')" "st' \<noteq> st \<or> rs_code resp \<noteq> 401"
  obtains u where "authenticated svc now rq = Some u" "act u rq st = (resp, st')"
proof (cases "authenticated svc now rq")
  case None
  then show ?thesis using refuses [OF None, of st] assms by (auto simp: http_Error_def)
next
  case (Some u)
  then show ?thesis using admits [OF Some, of st] assms(1) that by simp
qed

end

lemma authenticated_Some:
  assumes "authenticated svc now rq = Some u"
  obtains tok c where "bearer_token rq = Some tok" "ValidateToken svc now tok = Inr c" "u = cl_UserID c"
  using assms unfolding authenticated_def by (cases "bearer_token rq") (auto split: sum.splits)

lemma authenticated_None:
  assumes "authenticated svc now rq = None"
  obtains "bearer_token rq = None" | tok e where "bearer_token rq = Some tok" "ValidateToken svc now tok = Inl e"
  using assms unfolding authenticated_def by (cases "bearer_token rq") (auto split: sum.splits)

lemma jwtMiddleware_admits:
  "authenticated svc now rq = Some u \<Longrightarrow> jwtMiddleware svc now h rq st = h (with_user u rq) st"
  by (erule authenticated_Some) (simp add: jwtMiddleware_def with_user_def)

lemma jwtMiddleware_refuses:
  assumes "authenticated svc now rq = None"
  shows "\<exists>m. jwtMiddleware svc now h rq st = (http_Error m 401, st)"
    and "jwtMiddleware svc now h (with_user x rq) st = jwtMiddleware svc now h rq st"
  using assms by (auto simp: jwtMiddleware_def elim!: authenticated_None)

lemma guarded_middleware: "guarded_endpoint svc now (jwtMiddleware svc now h) (\<lambda>u rq. h (with_user u rq))"
  by unfold_locales (simp_all add: jwtMiddleware_admits jwtMiddleware_refuses)

lemma cashier_admits:
  "authenticated svc now rq = Some u \<Longrightarrow> \<exists>c. cl_UserID c = u \<and> cashier_jwtMw svc now h rq st = h c rq st"
  by (erule authenticated_Some) (auto simp: cashier_jwtMw_def)

lemma cashier_refuses:
  "authenticated svc now rq = None \<Longrightarrow> cashier_jwtMw svc now h rq st = (http_Error ''UNAUTHORIZED'' 401, st)"
  by (auto simp: cashier_jwtMw_def elim!: authenticated_None)

lemma guarded_cashier:
  assumes "\<And>c rq st. h c rq st = g (cl_UserID c) rq st" "\<And>u x rq st. g u (with_user x rq) st = g u rq st"
  shows "guarded_endpoint svc now (cashier_jwtMw svc now h) g"
proof
  show "cashier_jwtMw svc now h rq st = g u rq st" if "authenticated svc now rq = Some u" for rq u st
    using cashier_admits [OF that, of h st] assms(1) by auto
qed (auto simp: cashier_refuses assms(2))

text \<open>The five protected endpoints keep the contract.\<close>

interpretation bet_api: guarded_endpoint svc now "bet_endpoint svc now srv" "\<lambda>u rq. makePlaceBetHandler srv (with_user u rq)"
  for svc now srv
  unfolding bet_endpoint_def by (rule guarded_middleware)

interpretation bets_api: guarded_endpoint svc now "my_bets_endpoint svc now io" "\<lambda>u rq. my_bets_handler io (with_user u rq)"
  for svc now io
  unfolding my_bets_endpoint_def by (rule guarded_middleware)

interpretation balance_api: guarded_endpoint svc now "balance_endpoint svc now bio" "balance_handler bio" for svc now bio
  unfolding balance_endpoint_def by (rule guarded_cashier) (simp_all add: balance_handler_def)

interpretation deposit_api: guarded_endpoint svc now "deposit_endpoint svc now dio" "deposit_handler dio" for svc now dio
  unfolding deposit_endpoint_def by (rule guarded_cashier) (simp_all add: deposit_handler_def)

interpretation withdraw_api: guarded_endpoint svc now "withdraw_endpoint svc now wio" "withdraw_handler wio" for svc now wio
  unfolding withdraw_endpoint_def by (rule guarded_cashier) (simp_all add: withdraw_handler_def)

section \<open>The money a request moves\<close>

text \<open>A deposit or withdrawal RPC posts one entry for its user or changes nothing.\<close>

lemma cashier_rpc_cases:
  assumes "cashier_rpc tx ft req db = (r, db')" "db' \<noteq> db"
  obtains m a where "cas_Amount req = Some m" "tx req (amount_minor m) db = Inr (db', a)"
  using assms by (auto simp: cashier_rpc_def elim!: run_tx_cases split: option.splits if_splits)

lemma Deposit_posts:
  assumes "wallet_inv db" "Deposit ft now req db = (r, db')" "db' \<noteq> db"
  obtains m cur where "cas_Amount req = Some m" "0 \<le> amount_minor m"
    "posts (cashier_entry now ''CREDIT_DEPOSIT'' req (amount_minor m) cur) db db'"
proof -
  obtain m a where m: "cas_Amount req = Some m" and tx: "deposit_tx ft now req (amount_minor m) db = Inr (db', a)"
    using assms(2,3) unfolding Deposit_def by (rule cashier_rpc_cases)
  show ?thesis using deposit_posts(1,2) [OF assms(1) tx] m that by blast
qed

lemma Withdraw_posts:
  assumes "wallet_inv db" "Withdraw ft now req db = (r, db')" "db' \<noteq> db"
  obtains m cur where "cas_Amount req = Some m" "amount_minor m \<le> avail_of db (cas_UserId req)"
    "posts (cashier_entry now ''DEBIT_WITHDRAWAL'' req (amount_minor m) cur) db db'"
proof -
  obtain m a where m: "cas_Amount req = Some m" and tx: "withdraw_tx ft now req (amount_minor m) db = Inr (db', a)"
    using assms(2,3) unfolding Withdraw_def by (rule cashier_rpc_cases)
  show ?thesis using withdraw_posts [OF assms(1) tx] m that by blast
qed

lemma cash_entry_effects [simp]:
  "avail_effect (cashier_entry now ''CREDIT_DEPOSIT'' req x cur) = x" "avail_effect (cashier_entry now ''DEBIT_WITHDRAWAL'' req x cur) = - x"
  "flight_effect (cashier_entry now ''CREDIT_DEPOSIT'' req x cur) = 0" "flight_effect (cashier_entry now ''DEBIT_WITHDRAWAL'' req x cur) = 0"
  "le_user_id (cashier_entry now ty req x cur) = cas_UserId req"
  by (simp_all add: cashier_entry_def avail_effect_def flight_effect_def)

lemma avail_range: "wallet_inv db \<Longrightarrow> 0 \<le> avail_of db u \<and> avail_of db u < 2 ^ 63"
  using balance_of_chk [of db u] by (auto simp: avail_of_def bal_chk_def in_int64_def split: option.splits)

text \<open>A positive number of dollars converts to a non-negative amount, or overflows to the least one.\<close>

lemma amountMinor_cases:
  assumes "finite_f d" "\<not> fle d (Fin 0)"
  shows "0 \<le> amountMinor d \<or> amountMinor d = - (2 ^ 63)"
proof -
  obtain x where x: "d = Fin x" "0 < x"
    using assms by (cases d) (auto simp: fle_def flt_def feq_def fkey_def)
  have "fmul d (Fin 100) = rnd False (x * 100)" using x by (simp add: fmul_def signbit_def is_inf_def)
  moreover have "rnd False (x * 100) = PosInf \<or> rnd False (x * 100) = Fin (fl (x * 100))"
    using x fl_nonneg [of "x * 100"] by (auto simp: rnd_def Let_def)
  ultimately show ?thesis
    using fl_nonneg [of "x * 100"] x
    by (auto simp: amountMinor_def math_Round_def int64_of_float_def round_away_def)
qed

lemma wallet_call_rpc_cases:
  assumes "wallet_call_rpc io rpc db = (r, db')" "db' \<noteq> db"
  obtains r' where "rpc db = (r', db')"
  using assms by (auto simp: wallet_call_rpc_def split: if_splits prod.splits)

lemma decode_field_all:
  "decode_field dec n d kvs = Some x \<Longrightarrow> (\<forall>v y. dec v = Some y \<longrightarrow> P y) \<Longrightarrow> P d \<Longrightarrow> P x"
  by (induction dec n d kvs rule: decode_field.induct) (auto split: if_splits option.splits)

lemma decode_cash_finite: "decode_cash p = Some (d, pm) \<Longrightarrow> finite_f d"
  unfolding decode_cash_def bind_eq_Some_conv
  by (elim exE conjE) (use decode_field_all [of dec_float64 _ _ _ _ finite_f] dec_float64_is in simp)

definition moves :: "(int \<Rightarrow> bool) \<Rightarrow> string \<Rightarrow> wallet_db \<Rightarrow> wallet_db \<Rightarrow> bool" where
  "moves p u db db' \<longleftrightarrow> wallet_inv db' \<and> (\<exists>x. p x \<and>
     (\<forall>v. avail_of db' v = avail_of db v + (if v = u then x else 0))) \<and> (\<forall>v. flight_of db' v = flight_of db v)"

lemma moves_up:
  assumes "moves (\<lambda>x. 0 \<le> x) u db db'"
  shows "wallet_inv db' \<and> avail_of db v \<le> avail_of db' v \<and> flight_of db' v = flight_of db v \<and>
    (avail_of db' v \<noteq> avail_of db v \<longrightarrow> v = u)"
  using assms by (auto simp: moves_def dest!: spec [of _ v] split: if_splits)

lemma moves_down:
  assumes "moves (\<lambda>x. x \<le> 0) u db db'"
  shows "wallet_inv db' \<and> avail_of db' v \<le> avail_of db v \<and> flight_of db' v = flight_of db v \<and>
    (avail_of db' v \<noteq> avail_of db v \<longrightarrow> v = u)"
  using assms by (auto simp: moves_def dest!: spec [of _ v] split: if_splits)

lemma deposit_handler_call:
  assumes "deposit_handler io u rq db = (resp, db')" "db' \<noteq> db"
  obtains d pm r where "decode_cash (rq_body rq) = Some (d, pm)" "\<not> fle d (Fin 0)"
    "wallet_call_rpc io (Deposit (ci_wallet io) (ci_now io) (cash_request io u d pm)) db = (r, db')"
proof (cases "decode_cash (rq_body rq)")
  case None
  then show ?thesis using assms by (simp add: deposit_handler_def)
next
  case (Some p)
  obtain d pm where p: "p = (d, pm)" by (cases p)
  then show ?thesis using assms Some that [of d pm]
    by (cases "wallet_call_rpc io (Deposit (ci_wallet io) (ci_now io) (cash_request io u d pm)) db")
      (auto simp: deposit_handler_def split: if_splits sum.splits)
qed

lemma deposit_handler_moves:
  assumes "wallet_inv db" "deposit_handler io u rq db = (resp, db')" "db' \<noteq> db"
  shows "moves (\<lambda>x. 0 \<le> x) u db db'"
proof -
  obtain d pm r where "wallet_call_rpc io (Deposit (ci_wallet io) (ci_now io) (cash_request io u d pm)) db = (r, db')"
    using assms(2,3) by (rule deposit_handler_call)
  then obtain r' where "Deposit (ci_wallet io) (ci_now io) (cash_request io u d pm) db = (r', db')"
    using assms(3) by (rule wallet_call_rpc_cases)
  then obtain m :: money and cur where "0 \<le> amount_minor m"
    "posts (cashier_entry (ci_now io) ''CREDIT_DEPOSIT'' (cash_request io u d pm) (amount_minor m) cur) db db'"
    by (rule Deposit_posts [OF assms(1) _ assms(3)])
  then show ?thesis by (auto simp: moves_def posts_def cash_request_def)
qed

lemma withdraw_handler_call:
  assumes "withdraw_handler io u rq db = (resp, db')" "db' \<noteq> db"
  obtains d pm r where "decode_cash (rq_body rq) = Some (d, pm)" "\<not> fle d (Fin 0)"
    "wallet_call_rpc io (Withdraw (ci_wallet io) (ci_now io) (cash_request io u d pm)) db = (r, db')"
proof (cases "decode_cash (rq_body rq)")
  case None
  then show ?thesis using assms by (simp add: withdraw_handler_def)
next
  case (Some p)
  obtain d pm where p: "p = (d, pm)" by (cases p)
  then show ?thesis using assms Some that [of d pm]
    by (cases "wallet_call_rpc io (Withdraw (ci_wallet io) (ci_now io) (cash_request io u d pm)) db")
      (auto simp: withdraw_handler_def split: if_splits sum.splits)
qed

lemma withdraw_handler_moves:
  assumes "wallet_inv db" "withdraw_handler io u rq db = (resp, db')" "db' \<noteq> db"
  shows "moves (\<lambda>x. x \<le> 0) u db db'"
proof -
  obtain d pm r where d: "decode_cash (rq_body rq) = Some (d, pm)" "\<not> fle d (Fin 0)"
    and c: "wallet_call_rpc io (Withdraw (ci_wallet io) (ci_now io) (cash_request io u d pm)) db = (r, db')"
    using assms(2,3) by (rule withdraw_handler_call)
  from c assms(3) obtain r' where "Withdraw (ci_wallet io) (ci_now io) (cash_request io u d pm) db = (r', db')"
    by (rule wallet_call_rpc_cases)
  then obtain m cur where m: "cas_Amount (cash_request io u d pm) = Some m"
    and p: "posts (cashier_entry (ci_now io) ''DEBIT_WITHDRAWAL'' (cash_request io u d pm) (amount_minor m) cur) db db'"
    by (rule Withdraw_posts [OF assms(1) _ assms(3)])
  have inv: "wallet_inv db'" and a: "avail_of db' v = avail_of db v + (if v = u then - amount_minor m else 0)"
    and f: "flight_of db' v = flight_of db v" for v
    using p by (auto simp: posts_def cash_request_def)
  have "amount_minor m = amountMinor d" using m by (auto simp: cash_request_def)
  moreover have "avail_of db u - amount_minor m < 2 ^ 63" using a [of u] avail_range [OF inv, of u] by simp
  ultimately have "0 \<le> amount_minor m"
    using amountMinor_cases [OF decode_cash_finite [OF d(1)] d(2)] avail_range [OF assms(1), of u] by auto
  then show ?thesis using inv a f unfolding moves_def by (intro conjI exI [of _ "- amount_minor m"]) auto
qed

text \<open>A bet moves money from available to in flight, for its user only.\<close>

lemma DeductBalance_frame:
  assumes "wallet_inv db" "DeductBalance ft now req db = (r, db')"
  shows "wallet_inv db' \<and> (\<forall>v. v \<noteq> ded_UserId req \<longrightarrow> avail_of db' v = avail_of db v \<and> flight_of db' v = flight_of db v)"
proof (cases "db' = db")
  case False
  then obtain a where "deduct_tx ft now req db = Inr (db', a)"
    using assms(2) by (auto simp: DeductBalance_def elim!: run_tx_cases split: option.splits if_splits)
  then have "posts (deduct_entry now req) db db'" by (rule deduct_posts(1) [OF assms(1)])
  then show ?thesis by (auto simp: posts_def deduct_entry_def)
qed (use assms(1) in simp)

lemma remote_deduct_frame:
  assumes "wallet_inv db" "wc_DeductBalance (remote_wallet l) req db = (r, db')"
  shows "wallet_inv db' \<and> (\<forall>v. v \<noteq> ded_UserId req \<longrightarrow> avail_of db' v = avail_of db v \<and> flight_of db' v = flight_of db v)"
proof (cases "net l DeductLost")
  case False
  then have "DeductBalance (wdb l) (wnow l) req db = (fst (DeductBalance (wdb l) (wnow l) req db), db')"
    using assms(2) by (simp add: remote_wallet_def split: prod.splits)
  then show ?thesis by (rule DeductBalance_frame [OF assms(1)])
qed (use assms in \<open>simp add: remote_wallet_def\<close>)

lemma PlaceBet_frame:
  assumes "wallet_inv (wallet st)" "PlaceBet ft cfg env (remote_wallet l) req st = (res, st')"
  shows "wallet_inv (wallet st') \<and> (\<forall>v. v \<noteq> pb_UserID req \<longrightarrow>
    avail_of (wallet st') v = avail_of (wallet st) v \<and> flight_of (wallet st') v = flight_of (wallet st) v)"
  using assms(2)
proof (cases rule: PlaceBet_cases)
  case (committed odds rdb)
  have d: "ded_UserId (deduct_request env req) = pb_UserID req" by (simp add: deduct_request_def)
  from committed(3) show ?thesis
    by (cases rule: commit_bet_cases) (use assms(1) remote_deduct_frame [OF assms(1), of l "deduct_request env req"] d in auto)
qed (use assms(1) in auto)

lemma mapBetFlowError_code: "hte_code (mapBetFlowError txt_of e) \<in> {402, 409, 422, 500}"
  by (cases e) (simp_all add: mapBetFlowError_def)

lemma mapBetFlowError_refuses [simp]: "hte_code (mapBetFlowError txt_of e) \<noteq> 200"
  using mapBetFlowError_code [of txt_of e] by auto

lemma decode_bet_user: "decode_bet k u p = Some req \<Longrightarrow> pb_UserID req = u \<and> IdempotencyKey req = k"
  unfolding decode_bet_def bind_eq_Some_conv by (elim exE conjE) auto

lemma bet_handler_call:
  assumes "makePlaceBetHandler srv (with_user u rq) st = (resp, st')" "st' \<noteq> st \<or> rs_code resp = 200"
  obtains req res where "pb_UserID req = u" "u \<noteq> []"
    "PlaceBet (bs_faults srv) (bs_cfg srv) (bs_env srv) (bs_wallet srv) req st = (res, st')" "rs_code resp = 200 \<longleftrightarrow> (\<exists>r. res = Inr r)"
proof -
  let ?k = "header_Get ''Idempotency-Key'' (rq_headers rq)"
  have u: "u \<noteq> []" "?k \<noteq> []" "decode_bet ?k u (rq_body rq) \<noteq> None"
    using assms by (auto simp: makePlaceBetHandler_def Let_def http_Error_def split: if_splits option.splits)
  then obtain req where d: "decode_bet ?k u (rq_body rq) = Some req" by blast
  obtain res st2 where p: "PlaceBet (bs_faults srv) (bs_cfg srv) (bs_env srv) (bs_wallet srv) req st = (res, st2)"
    by (cases "PlaceBet (bs_faults srv) (bs_cfg srv) (bs_env srv) (bs_wallet srv) req st")
  have "st2 = st'" "rs_code resp = 200 \<longleftrightarrow> (\<exists>r. res = Inr r)"
    using assms(1) u d p
    by (auto simp: makePlaceBetHandler_def Let_def json_reply_def split: sum.splits)
  then show ?thesis using that decode_bet_user [OF d] u(1) p by blast
qed

section \<open>Dollars and cents\<close>

lemma unit_roundoff: "(2::real) powi (- 53) = 1 / 9007199254740992"
  by (simp add: power_int_minus)

lemma normal_range: "(2::real) powi (- 1022) \<le> 1 / 100" "(10::real) ^ 16 \<le> 2 powi 1000"
proof -
  have "(2::real) powi (- 1022) \<le> 2 powi (- 7)" by (rule two_powi_mono) simp
  then show "(2::real) powi (- 1022) \<le> 1 / 100" by (simp add: power_int_minus)
  have "(2::real) powi 60 \<le> 2 powi 1000" by (rule two_powi_mono) simp
  then show "(10::real) ^ 16 \<le> 2 powi 1000" by simp
qed

text \<open>The float64 nearest to a number of cents, in dollars, times 100 and rounded, is that number.\<close>

lemma amountMinor_cents:
  assumes "1 \<le> n" "n \<le> 10 ^ 15"
  shows "amountMinor (lit (of_int n / 100)) = n"
proof -
  define x where "x = real_of_int n / 100"
  have "real_of_int n \<le> of_int (10 ^ 15)" using assms(2) by (simp only: of_int_le_iff)
  then have n: "1 \<le> real_of_int n" "real_of_int n \<le> 1000000000000000" using assms(1) by simp_all
  then have x: "1 / 100 \<le> x" "x \<le> 10000000000000" by (simp_all add: x_def)
  note t = normal_range
  have "2 powi (- 1022) \<le> \<bar>x\<bar>" using t(1) x(1) by linarith
  from fl_rel_error [OF this] have fx: "\<bar>fl x - x\<bar> \<le> x / 9007199254740992" using x(1) unfolding unit_roundoff by simp
  define y where "y = fl x * 100"
  have yn: "\<bar>y - of_int n\<bar> \<le> of_int n / 9007199254740992" using fx unfolding y_def x_def by linarith
  then have y: "1 / 100 \<le> y" "y \<le> 2 * of_int n" using n by linarith+
  have "2 powi (- 1022) \<le> \<bar>y\<bar>" using t(1) y(1) by linarith
  from fl_rel_error [OF this] have fy: "\<bar>fl y - y\<bar> \<le> y / 9007199254740992" using y(1) unfolding unit_roundoff by simp
  have close: "\<bar>fl y - of_int n\<bar> < 1 / 2" using fy yn y(2) n(2) by linarith
  have "\<bar>x\<bar> \<le> 2 powi 1000" using t(2) x by simp
  note lx = lit_finite [OF this]
  have "\<bar>rv (lit x) * rv (Fin 100)\<bar> \<le> 2 powi 1000" using t(2) y n lx(2) by (simp add: y_def)
  then have m: "finite_f (fmul (lit x) (Fin 100))" "rv (fmul (lit x) (Fin 100)) = fl y"
    using fmul_finite [of "lit x" "Fin 100"] lx by (simp_all add: y_def)
  have "\<bar>n\<bar> < 2 ^ 60" using assms by simp
  then show ?thesis unfolding amountMinor_def x_def [symmetric] using int64_of_Round [OF m(1)] close m(2) by simp
qed

lemma deposit_tx_succeeds:
  assumes "wallet_inv db" "entry_of db (cas_TransactionId req) = None" "0 \<le> x" "avail_of db (cas_UserId req) + x < 2 ^ 63"
  shows "\<exists>db' r. deposit_tx no_faults now req x db = Inr (db', r)"
proof -
  let ?u = "cas_UserId req"
  let ?r = "\<lparr>bal_user_id = ?u, available_minor = x, bets_in_flight_minor = 0, bal_currency = ''USD'', bal_updated_at = now\<rparr>"
  let ?f = "\<lambda>r. r\<lparr>available_minor := available_minor r + x, bal_updated_at := now\<rparr>"
  have tb: "table_ok bal_user_id bal_chk (balances db)" using assms(1) by (simp add: wallet_inv_def)
  have x: "x < 2 ^ 63" using assms(4) avail_range [OF assms(1), of ?u] by linarith
  then have i: "in_int64 x" using assms(3) by (simp add: in_int64_def)
  have chk: "bal_chk ?r" using assms(3) i by (simp add: bal_chk_def in_int64_def)
  have "\<exists>bs. upsert_row bal_user_id bal_chk (\<lambda>_. True) ?r ?f (balances db) = Some bs"
  proof (cases "balance_of db ?u")
    case None
    then show ?thesis using chk by (auto simp: upsert_row_def balance_of_def by_key_None_iff)
  next
    case (Some b)
    then have b: "by_key bal_user_id ?u (balances db) = Some b" by (simp add: balance_of_def)
    have "bal_chk (?f b)" using balance_of_chk [OF assms(1) Some] assms(3,4) Some
      by (auto simp: bal_chk_def in_int64_def avail_of_def)
    then have "update_rows bal_chk (\<lambda>r. bal_user_id r = ?u) ?f (balances db) \<noteq> None"
      using update_rows_by_key [OF tb b, of bal_chk ?f] by auto
    moreover have "?u \<in> set (map bal_user_id (balances db))" using by_key_SomeD [OF b] by force
    ultimately show ?thesis using chk by (auto simp: upsert_row_def)
  qed
  then obtain bs where bs: "upsert_row bal_user_id bal_chk (\<lambda>_. True) ?r ?f (balances db) = Some bs" by blast
  obtain b where b: "by_key bal_user_id ?u bs = Some b" using by_key_upsert [OF tb bs, of ?u] by simp
  have lims: "\<exists>l. insert_nothing lim_user_id limits_chk (\<lambda>_. True) (default_limits ?u) (user_limits db) = Some l"
    by (simp add: insert_nothing_def limits_chk_def default_limits_def in_int64_def)
  have "?u \<in> set (map bal_user_id bs)" using upsert_keys [OF bs] by simp
  then have "\<exists>ls. insert_row transaction_id ledger_chk (\<lambda>r. le_user_id r \<in> set (map bal_user_id bs))
      (cashier_entry now ''CREDIT_DEPOSIT'' req x (bal_currency b)) (ledger_entries db) = Some ls"
    using assms(2) i by (simp add: insert_row_iff entry_of_def ledger_chk_def cashier_entry_def)
  then show ?thesis using lims bs b by (auto simp: deposit_tx_def Let_def)
qed

lemma withdraw_tx_outcome:
  assumes "wallet_inv db" "entry_of db (cas_TransactionId req) = None" "0 \<le> x" "balance_of db (cas_UserId req) = Some b"
  shows "if x \<le> available_minor b then \<exists>db' r. withdraw_tx no_faults now req x db = Inr (db', r)
    else withdraw_tx no_faults now req x db = Inl (Status FailedPrecondition ''INSUFFICIENT_FUNDS'')"
proof (cases "x \<le> available_minor b")
  case True
  let ?u = "cas_UserId req"
  let ?f = "\<lambda>r. r\<lparr>available_minor := available_minor r - x, bal_updated_at := now\<rparr>"
  let ?bs = "set_rows (\<lambda>r. bal_user_id r = ?u) ?f (balances db)"
  have tb: "table_ok bal_user_id bal_chk (balances db)" using assms(1) by (simp add: wallet_inv_def)
  have b: "by_key bal_user_id ?u (balances db) = Some b" using assms(4) by (simp add: balance_of_def)
  have c: "bal_chk b" by (rule balance_of_chk [OF assms(1,4)])
  then have "bal_chk (?f b)" using True assms(3) by (auto simp: bal_chk_def in_int64_def)
  then have upd: "update_rows bal_chk (\<lambda>r. bal_user_id r = ?u) ?f (balances db) = Some ?bs"
    using update_rows_by_key [OF tb b, of bal_chk ?f] by simp
  have b': "by_key bal_user_id ?u ?bs = Some (?f b)" using b by (simp add: by_key_set_rows)
  then have "?u \<in> set (map bal_user_id ?bs)" using by_key_SomeD [OF b'] by force
  moreover have "in_int64 x" using c True assms(3) by (auto simp: bal_chk_def in_int64_def)
  ultimately have "\<exists>ls. insert_row transaction_id ledger_chk (\<lambda>r. le_user_id r \<in> set (map bal_user_id ?bs))
      (cashier_entry now ''DEBIT_WITHDRAWAL'' req x (bal_currency b)) (ledger_entries db) = Some ls"
    using assms(2) by (simp add: insert_row_iff entry_of_def ledger_chk_def cashier_entry_def del: set_map)
  then show ?thesis using True upd b' assms(4) by (auto simp: withdraw_tx_def Let_def)
qed (use assms(4) in \<open>simp add: withdraw_tx_def Let_def\<close>)

section \<open>Properties\<close>

text \<open>C24. A bet is placed only for the user of a valid token: an X-User-ID header of the caller has
  no effect, a request that is answered with 200 or changes anything carries a bearer token that
  validates and runs the bet flow for the token's user, and no other user's money moves.\<close>

theorem bets_only_for_token_user:
  assumes "wallet_inv (wallet st)" "bs_wallet srv = remote_wallet l" "bet_endpoint svc now srv rq st = (resp, st')"
  shows "bet_endpoint svc now srv (with_user x rq) st = (resp, st') \<and>
    (st' \<noteq> st \<or> rs_code resp = 200 \<longrightarrow>
      (\<exists>tok c req res. bearer_token rq = Some tok \<and> ValidateToken svc now tok = Inr c \<and> pb_UserID req = cl_UserID c \<and>
         PlaceBet (bs_faults srv) (bs_cfg srv) (bs_env srv) (bs_wallet srv) req st = (res, st'))) \<and>
    (\<forall>v. authenticated svc now rq \<noteq> Some v \<longrightarrow>
      avail_of (wallet st') v = avail_of (wallet st) v \<and> flight_of (wallet st') v = flight_of (wallet st) v)"
proof -
  have f: "bet_endpoint svc now srv (with_user x rq) st = (resp, st')" by (simp add: bet_api.forged_header assms(3))
  show ?thesis
  proof (cases "st' \<noteq> st \<or> rs_code resp = 200")
    case True
    then obtain u where u: "authenticated svc now rq = Some u" "makePlaceBetHandler srv (with_user u rq) st = (resp, st')"
      using bet_api.needs_token [OF assms(3)] by auto
    obtain req res where p: "pb_UserID req = u" "PlaceBet (bs_faults srv) (bs_cfg srv) (bs_env srv) (bs_wallet srv) req st = (res, st')"
      using u(2) True by (rule bet_handler_call)
    obtain tok c where "bearer_token rq = Some tok" "ValidateToken svc now tok = Inr c" "u = cl_UserID c"
      using u(1) by (rule authenticated_Some)
    moreover have "\<forall>v. v \<noteq> u \<longrightarrow> avail_of (wallet st') v = avail_of (wallet st) v \<and> flight_of (wallet st') v = flight_of (wallet st) v"
      using PlaceBet_frame [OF assms(1) p(2) [unfolded assms(2)]] p(1) by simp
    ultimately have "\<exists>tok c req res. bearer_token rq = Some tok \<and> ValidateToken svc now tok = Inr c \<and> pb_UserID req = cl_UserID c \<and>
         PlaceBet (bs_faults srv) (bs_cfg srv) (bs_env srv) (bs_wallet srv) req st = (res, st')"
      "\<forall>v. authenticated svc now rq \<noteq> Some v \<longrightarrow> avail_of (wallet st') v = avail_of (wallet st) v \<and> flight_of (wallet st') v = flight_of (wallet st) v"
      using u(1) p by auto
    then show ?thesis using f by simp
  qed (use f in auto)
qed

text \<open>C25. The cashier moves money only the right way and only for the token's user: whatever number
  the body holds, also one whose cents overflow, a deposit never lowers a balance, a withdrawal never
  raises one, neither touches bets in flight or another user, and balances stay within their bounds.\<close>

theorem cashier_moves_right_way:
  assumes "wallet_inv db" "deposit_endpoint svc now io rq db = (resp, db1)" "withdraw_endpoint svc now io' rq' db = (resp', db2)"
  shows "wallet_inv db1 \<and> wallet_inv db2 \<and> avail_of db v \<le> avail_of db1 v \<and> avail_of db2 v \<le> avail_of db v \<and>
    flight_of db1 v = flight_of db v \<and> flight_of db2 v = flight_of db v \<and>
    (avail_of db1 v \<noteq> avail_of db v \<longrightarrow> authenticated svc now rq = Some v) \<and>
    (avail_of db2 v \<noteq> avail_of db v \<longrightarrow> authenticated svc now rq' = Some v)"
proof -
  have d: "\<exists>u. authenticated svc now rq = Some u \<and> moves (\<lambda>x. 0 \<le> x) u db db1" if "db1 \<noteq> db"
    using deposit_api.needs_token [OF assms(2)] deposit_handler_moves [OF assms(1)] that by metis
  have w: "\<exists>u. authenticated svc now rq' = Some u \<and> moves (\<lambda>x. x \<le> 0) u db db2" if "db2 \<noteq> db"
    using withdraw_api.needs_token [OF assms(3)] withdraw_handler_moves [OF assms(1)] that by metis
  have "wallet_inv db1 \<and> avail_of db v \<le> avail_of db1 v \<and> flight_of db1 v = flight_of db v \<and>
      (avail_of db1 v \<noteq> avail_of db v \<longrightarrow> authenticated svc now rq = Some v)"
    using d moves_up [of _ db db1 v] assms(1) by (cases "db1 = db") auto
  moreover have "wallet_inv db2 \<and> avail_of db2 v \<le> avail_of db v \<and> flight_of db2 v = flight_of db v \<and>
      (avail_of db2 v \<noteq> avail_of db v \<longrightarrow> authenticated svc now rq' = Some v)"
    using w moves_down [of _ db db2 v] assms(1) by (cases "db2 = db") auto
  ultimately show ?thesis by blast
qed

lemma good_wallet_call:
  assumes "\<not> ci_lost io" "\<not> ci_reply_lost io"
  shows "wallet_call_rpc io rpc db = rpc db"
  using assms by (simp add: wallet_call_rpc_def split: prod.splits)

lemma cents_positive: "1 \<le> n \<Longrightarrow> n \<le> 10 ^ 15 \<Longrightarrow> \<not> fle (lit (of_int n / 100)) (Fin 0)"
proof
  assume n: "1 \<le> n" "n \<le> 10 ^ 15" and "fle (lit (of_int n / 100)) (Fin 0)"
  moreover have "real_of_int n \<le> of_int (10 ^ 15)" using n(2) by (simp only: of_int_le_iff)
  then have "\<bar>real_of_int n / 100\<bar> \<le> 2 powi 1000" using n(1) normal_range(2) by simp
  note l = lit_finite [OF this]
  have "fl (1 / 128) = 1 / 128"
    using fl_fl [of "2 powi (- 7)"] fl_ge_rep [OF representable_powi [of "- 7"], of "1 / 128"]
      fl_le_rep [OF representable_powi [of "- 7"], of "1 / 128"] by (simp add: power_int_minus)
  moreover have "fl (1 / 128) \<le> fl (of_int n / 100)" by (rule fl_mono) (use n(1) in simp)
  ultimately show False using l by (simp add: fle_finite)
qed

lemma deposit_cents:
  assumes "wallet_inv db" "1 \<le> n" "n \<le> 10 ^ 15" "authenticated svc now rq = Some u" "u \<noteq> []"
    and "decode_cash (rq_body rq) = Some (lit (of_int n / 100), pm)"
    and "\<not> ci_lost io" "\<not> ci_reply_lost io" "ci_wallet io = no_faults" "ci_txID io \<noteq> []" "entry_of db (ci_txID io) = None"
    and "avail_of db u + n < 2 ^ 63"
  shows "\<exists>resp db'. deposit_endpoint svc now io rq db = (resp, db') \<and> rs_code resp = 200 \<and> avail_of db' u = avail_of db u + n"
proof -
  let ?q = "cash_request io u (lit (of_int n / 100)) pm"
  have q: "cas_Amount ?q = Some \<lparr>amount_minor = n, currency = ''USD''\<rparr>" "cas_UserId ?q = u" "cas_TransactionId ?q = ci_txID io"
    by (simp_all add: cash_request_def amountMinor_cents [OF assms(2,3)])
  note g = assms(6) cents_positive [OF assms(2,3)] good_wallet_call [OF assms(7,8)]
  have fresh: "entry_of db (cas_TransactionId ?q) = None" using assms(11) q by simp
  obtain db' r where tx: "deposit_tx no_faults (ci_now io) ?q n db = Inr (db', r)"
    using deposit_tx_succeeds [OF assms(1) fresh, of n "ci_now io"] q assms(2,12) by auto
  then have "Deposit no_faults (ci_now io) ?q db = (Inr r, db')"
    using q assms(5,10,11) by (simp add: Deposit_def cashier_rpc_def run_tx_def)
  then have "deposit_endpoint svc now io rq db = (cash_reply r, db')"
    using assms(9) by (simp add: g deposit_api.admits [OF assms(4)] deposit_handler_def)
  moreover have "rs_code (cash_reply r) = 200" using deposit_posts(3) [OF assms(1) tx] by (auto simp: cash_reply_def json_reply_def)
  moreover have "avail_of db' u = avail_of db u + n" using deposit_posts(1) [OF assms(1) tx] q by (auto simp: posts_def)
  ultimately show ?thesis by blast
qed

lemma withdraw_cents:
  assumes "wallet_inv db" "1 \<le> n" "n \<le> 10 ^ 15" "authenticated svc now rq = Some u" "u \<noteq> []"
    and "decode_cash (rq_body rq) = Some (lit (of_int n / 100), pm)"
    and "\<not> ci_lost io" "\<not> ci_reply_lost io" "ci_wallet io = no_faults" "ci_txID io \<noteq> []" "entry_of db (ci_txID io) = None"
    and "balance_of db u \<noteq> None"
  shows "\<exists>resp db'. withdraw_endpoint svc now io rq db = (resp, db') \<and>
      (if n \<le> avail_of db u then rs_code resp = 200 \<and> avail_of db' u = avail_of db u - n else rs_code resp = 402 \<and> db' = db)"
proof -
  let ?q = "cash_request io u (lit (of_int n / 100)) pm"
  have q: "cas_Amount ?q = Some \<lparr>amount_minor = n, currency = ''USD''\<rparr>" "cas_UserId ?q = u" "cas_TransactionId ?q = ci_txID io"
    by (simp_all add: cash_request_def amountMinor_cents [OF assms(2,3)])
  note g = assms(6) cents_positive [OF assms(2,3)] good_wallet_call [OF assms(7,8)]
  have fresh: "entry_of db (cas_TransactionId ?q) = None" using assms(11) q by simp
  obtain b where b: "balance_of db u = Some b" using assms(12) by blast
  then have a: "avail_of db u = available_minor b" by (simp add: avail_of_def)
  have w: "withdraw_endpoint svc now io rq db = (case Withdraw no_faults (ci_now io) ?q db of
       (Inl e, db') \<Rightarrow> (if code e = FailedPrecondition then http_Error ''INSUFFICIENT_FUNDS'' 402 else http_Error ''INTERNAL'' 500, db')
     | (Inr r, db') \<Rightarrow> (cash_reply r, db'))"
    using assms(9) by (simp add: g withdraw_api.admits [OF assms(4)] withdraw_handler_def)
  have rpc: "Withdraw no_faults (ci_now io) ?q db = run_tx no_faults db (withdraw_tx no_faults (ci_now io) ?q n db)"
    using q assms(5,10,11) by (simp add: Withdraw_def cashier_rpc_def)
  show ?thesis
  proof (cases "n \<le> avail_of db u")
    case True
    then obtain db' r where tx: "withdraw_tx no_faults (ci_now io) ?q n db = Inr (db', r)"
      using withdraw_tx_outcome [OF assms(1) fresh, of n b "ci_now io"] q a b assms(2) by auto
    moreover have "AvailableAfter r \<noteq> None" using tx by (auto simp: withdraw_tx_def Let_def)
    moreover have "avail_of db' u = avail_of db u - n" using withdraw_posts(1) [OF assms(1) tx] q by (auto simp: posts_def)
    ultimately show ?thesis using w rpc True by (auto simp: run_tx_def cash_reply_def json_reply_def)
  next
    case False
    then show ?thesis using withdraw_tx_outcome [OF assms(1) fresh, of n b "ci_now io"] q a b assms(2) w rpc
      by (simp add: run_tx_def http_Error_def)
  qed
qed

text \<open>C26. Amounts in dollars are exact to the cent: for any whole number of cents up to ten trillion
  dollars, written as the nearest float64 number of dollars in a request with a valid token, and when
  the transaction identifier is new and nothing fails, a deposit that keeps the balance within int64 is
  answered with 200 and adds exactly that many cents, a withdrawal from an existing account that covers
  it is answered with 200 and takes exactly that many, and from one that does not it is answered with
  402 and changes nothing.\<close>

theorem cents_are_exact:
  assumes "wallet_inv db" "1 \<le> n" "n \<le> 10 ^ 15" "authenticated svc now rq = Some u" "u \<noteq> []"
    and "decode_cash (rq_body rq) = Some (lit (of_int n / 100), pm)"
    and "\<not> ci_lost io" "\<not> ci_reply_lost io" "ci_wallet io = no_faults" "ci_txID io \<noteq> []" "entry_of db (ci_txID io) = None"
  shows "(avail_of db u + n < 2 ^ 63 \<longrightarrow> (\<exists>resp db'. deposit_endpoint svc now io rq db = (resp, db') \<and>
      rs_code resp = 200 \<and> avail_of db' u = avail_of db u + n)) \<and>
    (balance_of db u \<noteq> None \<longrightarrow> (\<exists>resp db'. withdraw_endpoint svc now io rq db = (resp, db') \<and>
      (if n \<le> avail_of db u then rs_code resp = 200 \<and> avail_of db' u = avail_of db u - n
       else rs_code resp = 402 \<and> db' = db)))"
  using deposit_cents [OF assms] withdraw_cents [OF assms] by blast

lemma all_json_total: "(\<And>r. r \<in> set rs \<Longrightarrow> f r \<noteq> None) \<Longrightarrow> \<exists>js. all_json (map f rs) = Some js"
proof (induction rs)
  case (Cons a rs)
  then obtain j js where "f a = Some j" "all_json (map f rs) = Some js" by fastforce
  then show ?case by simp
qed simp

lemma my_bet_json_total: "finite_f (mb_numeric io (bh_OddsDecimal r)) \<Longrightarrow> my_bet_json io r \<noteq> None"
  using enc_float64_total by (simp add: my_bet_json_def)

lemma take_sorted_newest:
  fixes f :: "'a \<Rightarrow> int"
  assumes "r \<in> set xs" "r \<notin> set (take n (sort_key f xs))" "b \<in> set (take n (sort_key f xs))"
  shows "f b \<le> f r"
proof -
  let ?s = "sort_key f xs"
  have "sorted (map f (take n ?s) @ map f (drop n ?s))" using sorted_sort_key [of f xs] by (simp flip: map_append)
  moreover have "r \<in> set (take n ?s) \<union> set (drop n ?s)" using assms(1) by (simp flip: set_append)
  ultimately show ?thesis using assms(2,3) by (auto simp: sorted_append)
qed

text \<open>C27. The list of bets is the user's own and the newest fifty: when the query and its rows are read and
  the stored odds are finite numbers, the answer to a request with a valid token lists, newest first, at most fifty bets, all of them of the token's
  user and all of the user's bets if there are no more, and no bet left out is newer than one shown.\<close>

theorem my_bets_newest_fifty:
  assumes "authenticated svc now rq = Some u" "\<not> mb_query_fails io" "mb_scan_fails io = (\<lambda>_. False)" "mb_break io = None"
    and "\<And>k. finite_f (mb_numeric io k)"
  shows "\<exists>bs js. my_bets_endpoint svc now io rq t = (json_reply 200 (Some (JObj [(''bets'', JArr js)])), t) \<and>
    all_json (map (my_bet_json io) bs) = Some js \<and>
    length bs = min 50 (length (filter (\<lambda>r. bh_UserID r = u) t)) \<and> (\<forall>b \<in> set bs. b \<in> set t \<and> bh_UserID b = u) \<and>
    sorted_wrt (\<lambda>a b. bh_PlacedAt b \<le> bh_PlacedAt a) bs \<and>
    (\<forall>r \<in> set t. bh_UserID r = u \<longrightarrow> r \<in> set bs \<or> (\<forall>b \<in> set bs. bh_PlacedAt r \<le> bh_PlacedAt b))"
proof -
  let ?own = "filter (\<lambda>r. bh_UserID r = u) t" and ?bs = "my_bets_query u t"
  have q: "?bs = take 50 (sort_key (\<lambda>r. - bh_PlacedAt r) ?own)" by (simp add: my_bets_query_def)
  obtain js where js: "all_json (map (my_bet_json io) ?bs) = Some js"
    using all_json_total [of ?bs "my_bet_json io"] my_bet_json_total assms(5) by blast
  then have "my_bets_endpoint svc now io rq t = (json_reply 200 (Some (JObj [(''bets'', JArr js)])), t)"
    using assms(2-4) by (simp add: bets_api.admits [OF assms(1)] my_bets_handler_def Let_def)
  moreover have "length ?bs = min 50 (length ?own)" by (simp add: q min.commute)
  moreover have "\<forall>b \<in> set ?bs. b \<in> set t \<and> bh_UserID b = u" by (auto simp: q dest: in_set_takeD)
  moreover have "sorted_wrt (\<lambda>a b. bh_PlacedAt b \<le> bh_PlacedAt a) ?bs"
    using sorted_wrt_take [of "\<lambda>a b. - bh_PlacedAt a \<le> - bh_PlacedAt b" "sort_key (\<lambda>r. - bh_PlacedAt r) ?own" 50]
      sorted_sort_key [of "\<lambda>r. - bh_PlacedAt r" ?own] by (simp add: q sorted_map)
  moreover have newest: "bh_PlacedAt r \<le> bh_PlacedAt b" if "r \<in> set t" "bh_UserID r = u" "r \<notin> set ?bs" "b \<in> set ?bs" for r b
    using take_sorted_newest [of r ?own 50 "\<lambda>r. - bh_PlacedAt r" b] that by (simp add: q)
  have "\<forall>r \<in> set t. bh_UserID r = u \<longrightarrow> r \<in> set ?bs \<or> (\<forall>b \<in> set ?bs. bh_PlacedAt r \<le> bh_PlacedAt b)"
    using newest by blast
  ultimately show ?thesis using js by blast
qed

section \<open>Witnesses\<close>

definition ann_token :: string where
  "ann_token = spell_token ''HS256'' ''secret'' (new_claims 0 ''ann'' ''PENDING'' ''07'')"

definition ann_rq :: "payload \<Rightarrow> http_request" where
  "ann_rq body = \<lparr>rq_headers = [(''Authorization'', ''Bearer '' @ ann_token), (''Idempotency-Key'', ''k1'')], rq_body = body\<rparr>"

lemma ann_bearer: "bearer_token (ann_rq b) = Some ann_token"
  by (simp add: bearer_token_def ann_rq_def header_Get_def Let_def strings_HasPrefix_def strings_TrimPrefix_def)

lemma ann_authenticated: "authenticated svc0 10 (ann_rq b) = Some ''ann''"
proof -
  have "SignedString (svc_jwt svc0) ''HS256'' (jwtSecret svc0) (new_claims 0 ''ann'' ''PENDING'' ''07'') = Some ann_token"
    by (simp add: svc0_def plain_jwt_def ann_token_def)
  from signed_validates [OF svc0_documented(1) this, of 10] show ?thesis
    by (simp add: authenticated_def ann_bearer jwtTTL_def second_def)
qed

definition ann_bet_body :: json where
  "ann_bet_body = JObj
     [(''market_id'', JStr ''a''), (''market_name'', JStr ''A''), (''selection_id'', JStr ''s1''), (''selection_name'', JStr ''S''),
      (''odds_decimal'', JInt 2), (''odds_american'', JInt 100), (''stake_minor'', JInt 2000), (''currency'', JStr ''USD'')]"

definition bet_srv :: "wallet_db bet_server" where
  "bet_srv = \<lparr>bs_faults = no_faults, bs_cfg = DefaultConfig, bs_env = ann_env, bs_wallet = remote_wallet good_link, bs_text = (\<lambda>_. [])\<rparr>"

lemma ann_bet_decoded: "decode_bet ''k1'' ''ann'' (Some ann_bet_body) = Some (ann_bet 2000)"
  by (simp add: decode_bet_def ann_bet_body_def json_simps fold_eq_def strings_ToLower_def lower_char_def ann_bet_def
      dec_float64_def fin2 in_int64_def)

lemma ann_bet_served: "bet_endpoint svc0 10 bet_srv (ann_rq (Some ann_bet_body)) ann_st = (json_reply 200 (bet_json ann_resp), ann_st')"
proof -
  have k: "header_Get ''Idempotency-Key'' (rq_headers (ann_rq b)) = ''k1''" for b
    by (simp add: ann_rq_def header_Get_def fold_eq_def strings_ToLower_def lower_char_def)
  have b: "rq_body (ann_rq b) = b" for b by (simp add: ann_rq_def)
  show ?thesis using ann_bet_decoded ann_placed
    by (simp add: bet_api.admits [OF ann_authenticated] makePlaceBetHandler_def Let_def k b bet_srv_def)
qed

theorem bets_only_for_token_user_witness:
  "bet_endpoint svc0 10 bet_srv (with_user ''bob'' (ann_rq (Some ann_bet_body))) ann_st = (json_reply 200 (bet_json ann_resp), ann_st') \<and>
   avail_of (wallet ann_st') ''bob'' = avail_of (wallet ann_st) ''bob''"
proof -
  have "wallet_inv (wallet ann_st)" "bs_wallet bet_srv = remote_wallet good_link" by (simp_all add: ann_st_def bet_srv_def)
  from bets_only_for_token_user [OF this ann_bet_served, of "''bob''"] show ?thesis by (simp add: ann_authenticated)
qed

definition cash_body :: "int \<Rightarrow> json" where
  "cash_body n = JObj [(''amount_dollars'', JDec (lit (of_int n / 100))), (''payment_method'', JStr ''card'')]"

definition cash_io :: cashier_io where
  "cash_io = \<lparr>ci_lost = False, ci_reply_lost = False, ci_wallet = no_faults, ci_now = 10, ci_txID = ''tx9''\<rparr>"

lemma cash_decoded:
  assumes "1 \<le> n" "n \<le> 10 ^ 15"
  shows "decode_cash (rq_body (ann_rq (Some (cash_body n)))) = Some (lit (of_int n / 100), ''card'')"
proof -
  have "real_of_int n \<le> of_int (10 ^ 15)" using assms(2) by (simp only: of_int_le_iff)
  then have "finite_f (lit (of_int n / 100))" using lit_finite(1) [of "of_int n / 100"] assms(1) normal_range(2) by simp
  then show ?thesis
    by (simp add: decode_cash_def cash_body_def ann_rq_def json_simps fold_eq_def strings_ToLower_def lower_char_def dec_float64_def)
qed

lemma wallet1_ann: "avail_of wallet1 ''ann'' = 5000" "balance_of wallet1 ''ann'' \<noteq> None" "entry_of wallet1 ''tx9'' = None"
  by code_simp+

theorem cents_are_exact_witness:
  "(\<exists>resp db'. deposit_endpoint svc0 10 cash_io (ann_rq (Some (cash_body 1999))) wallet1 = (resp, db') \<and> rs_code resp = 200 \<and> avail_of db' ''ann'' = 6999) \<and>
   (\<exists>resp db'. withdraw_endpoint svc0 10 cash_io (ann_rq (Some (cash_body 1999))) wallet1 = (resp, db') \<and> rs_code resp = 200 \<and> avail_of db' ''ann'' = 3001)"
  using cents_are_exact [OF wallet12_inv(1) _ _ ann_authenticated _ cash_decoded, of 1999 cash_io] wallet1_ann
  by (simp add: cash_io_def)

theorem cashier_moves_right_way_witness:
  "let rq = ann_rq (Some (JObj [(''amount_dollars'', JDec (Fin (2 ^ 70)))]))
   in 5000 \<le> avail_of (snd (deposit_endpoint svc0 10 cash_io rq wallet1)) ''ann'' \<and>
      avail_of (snd (withdraw_endpoint svc0 10 cash_io rq wallet1)) ''ann'' \<le> 5000"
proof -
  let ?rq = "ann_rq (Some (JObj [(''amount_dollars'', JDec (Fin (2 ^ 70)))]))"
  obtain r1 d1 where d: "deposit_endpoint svc0 10 cash_io ?rq wallet1 = (r1, d1)" by (cases "deposit_endpoint svc0 10 cash_io ?rq wallet1")
  obtain r2 d2 where w: "withdraw_endpoint svc0 10 cash_io ?rq wallet1 = (r2, d2)" by (cases "withdraw_endpoint svc0 10 cash_io ?rq wallet1")
  show ?thesis using cashier_moves_right_way [OF wallet12_inv(1) d w, of "''ann''"] wallet1_ann(1) d w by (simp add: Let_def)
qed

definition my_row :: "string \<Rightarrow> string \<Rightarrow> time \<Rightarrow> BetRecord" where
  "my_row b u t = \<lparr>bh_BetID = b, bh_UserID = u, bh_MarketID = ''a'', bh_MarketName = ''A'', bh_SelectionID = ''s1'', bh_SelectionName = ''S'',
     bh_OddsDecimal = 20000, bh_OddsAmerican = 100, bh_StakeMinor = 2000, bh_Currency = ''USD'', bh_Status = ''PLACED'', bh_PlacedAt = t,
     bh_SettledAt = None, bh_PayoutMinor = None\<rparr>"

definition bets_io0 :: bets_io where
  "bets_io0 = \<lparr>mb_query_fails = False, mb_scan_fails = (\<lambda>_. False), mb_break = None, mb_numeric = (\<lambda>_. Fin 2)\<rparr>"

theorem my_bets_newest_fifty_witness:
  "\<exists>(bs :: BetRecord list) js. my_bets_endpoint svc0 10 bets_io0 (ann_rq None) [my_row ''b1'' ''ann'' march, my_row ''b2'' ''bob'' march] =
     (json_reply 200 (Some (JObj [(''bets'', JArr js)])), [my_row ''b1'' ''ann'' march, my_row ''b2'' ''bob'' march]) \<and>
     length bs = 1 \<and> (\<forall>b \<in> set bs. bh_UserID b = ''ann'')"
proof -
  let ?t = "[my_row ''b1'' ''ann'' march, my_row ''b2'' ''bob'' march]"
  have io: "\<not> mb_query_fails bets_io0" "mb_scan_fails bets_io0 = (\<lambda>_. False)" "mb_break bets_io0 = None" "\<And>k. finite_f (mb_numeric bets_io0 k)"
    by (simp_all add: bets_io0_def)
  have "length (filter (\<lambda>r. bh_UserID r = ''ann'') ?t) = 1" by (simp add: my_row_def)
  then obtain bs js where "my_bets_endpoint svc0 10 bets_io0 (ann_rq None) ?t = (json_reply 200 (Some (JObj [(''bets'', JArr js)])), ?t)"
    "length bs = min 50 1" "\<forall>b \<in> set bs. b \<in> set ?t \<and> bh_UserID b = ''ann''"
    using my_bets_newest_fifty [OF ann_authenticated io, of None ?t] by (elim exE conjE) simp
  then show ?thesis by (intro exI [of _ bs] exI [of _ js]) simp
qed

end
