(* ===== verification/CatalogHTTP.thy ===== *)
theory CatalogHTTP
  imports Broadcaster "HOL-Library.Product_Lexorder"
begin

text \<open>
  The REST snapshot of \<^verbatim>\<open>src/internal/catalog/http.go\<close>: the query over events, markets and
  selections, the loop that groups its rows with three maps and two order lists, the lookup of the
  odds in Redis, and the assembly of the response; the WebSocket handler sends the same snapshot and
  then registers with the hub of \<open>Broadcaster\<close>. The text form of a timestamp and the collation of the
  database are parameters.

  Shown: the grouping loop computes the snapshot a reference definition describes, and the odds in it
  are those an accepted bet on the selection reports.
\<close>

section \<open>Responses\<close>

record selectionResp =
  sp_SelectionID :: string
  sp_Name :: string
  sp_TargetValue :: float64
  sp_OddsDecimal :: float64
  sp_OddsAmerican :: int

record marketResp =
  mp_MarketID :: string
  mp_Name :: string
  mp_Status :: string
  mp_MarketType :: string
  mp_TargetValue :: float64
  mp_IsMain :: bool
  mp_Selections :: "selectionResp list"

record eventResp =
  ep_EventID :: string
  ep_CompetitionID :: string
  ep_Name :: string
  ep_StartsAt :: string
  ep_Status :: string
  ep_HomeScore :: int
  ep_AwayScore :: int
  ep_GamePeriod :: string
  ep_GameClock :: string
  ep_Markets :: "marketResp list"

section \<open>The query\<close>

type_synonym catalog_row = "event_row \<times> market_row \<times> selection_row"

datatype http_call = QEvents | MGet

record http_env =
  he_now :: time
  he_faults :: "http_call faults"
  he_coll :: "string \<Rightarrow> int"
  he_time_text :: "time \<Rightarrow> string"
  he_scan_fails :: "catalog_row \<Rightarrow> bool"
  he_break :: "nat option"

definition order_key :: "http_env \<Rightarrow> catalog_row \<Rightarrow> int \<times> int \<times> int \<times> int \<times> int \<times> int \<times> int" where
  "order_key env row =
     (case row of (e, m, s) \<Rightarrow>
        (if ev_status e = ''LIVE'' then 0 else 1, starts_at e, he_coll env (event_id e), if is_main m then 0 else 1,
         he_coll env (market_type m), mk_target_value m, he_coll env (sl_selection_id s)))"

definition snapshot_rows :: "http_env \<Rightarrow> catalog_db \<Rightarrow> catalog_row list" where
  "snapshot_rows env db =
     sort_key (order_key env)
       [(e, m, s). e \<leftarrow> events db, m \<leftarrow> markets db, s \<leftarrow> selections db,
          mk_event_id m = event_id e \<and> sl_market_id s = mk_market_id m \<and>
          ev_status e \<in> {''SCHEDULED'', ''LIVE''} \<and> mk_status m = ''OPEN'' \<and> active s]"

text \<open>The rows the loop sees: those before the stream breaks, if it does, that scan.\<close>

definition scanned_rows :: "http_env \<Rightarrow> catalog_db \<Rightarrow> catalog_row list" where
  "scanned_rows env db =
     filter (\<lambda>r. \<not> he_scan_fails env r)
       (case he_break env of None \<Rightarrow> snapshot_rows env db | Some n \<Rightarrow> take n (snapshot_rows env db))"

section \<open>Grouping\<close>

record snap =
  eventMap :: "string \<rightharpoonup> eventResp"
  marketMap :: "string \<rightharpoonup> marketResp"
  marketEvent :: "string \<rightharpoonup> string"
  eventOrder :: "string list"
  marketOrder :: "string list"
  selKeys :: "(string \<times> string) list"

definition event_resp :: "http_env \<Rightarrow> event_row \<Rightarrow> eventResp" where
  "event_resp env e =
     \<lparr>ep_EventID = event_id e, ep_CompetitionID = ev_competition_id e, ep_Name = ev_name e, ep_StartsAt = he_time_text env (starts_at e),
      ep_Status = ev_status e, ep_HomeScore = home_score e, ep_AwayScore = away_score e, ep_GamePeriod = game_period e,
      ep_GameClock = game_clock e, ep_Markets = []\<rparr>"

definition market_resp :: "market_row \<Rightarrow> marketResp" where
  "market_resp m =
     \<lparr>mp_MarketID = mk_market_id m, mp_Name = mk_name m, mp_Status = mk_status m, mp_MarketType = market_type m,
      mp_TargetValue = lit (of_int (mk_target_value m) / 10 ^ 5), mp_IsMain = is_main m, mp_Selections = []\<rparr>"

definition selection_resp :: "selection_row \<Rightarrow> selectionResp" where
  "selection_resp s =
     \<lparr>sp_SelectionID = sl_selection_id s, sp_Name = sl_name s, sp_TargetValue = lit (of_int (sl_target_value s) / 10 ^ 5),
      sp_OddsDecimal = Fin 0, sp_OddsAmerican = 0\<rparr>"

definition snap_row :: "http_env \<Rightarrow> snap \<Rightarrow> catalog_row \<Rightarrow> snap" where
  "snap_row env st row =
     (case row of (e, m, s) \<Rightarrow>
        let eID = event_id e; mID = mk_market_id m;
            st1 = (if eventMap st eID = None
                   then st\<lparr>eventMap := (eventMap st)(eID \<mapsto> event_resp env e), eventOrder := eventOrder st @ [eID]\<rparr> else st);
            st2 = (if marketMap st1 mID = None
                   then st1\<lparr>marketMap := (marketMap st1)(mID \<mapsto> market_resp m), marketEvent := (marketEvent st1)(mID \<mapsto> eID),
                         marketOrder := marketOrder st1 @ [mID]\<rparr> else st1);
            mk = the (marketMap st2 mID)
        in st2\<lparr>marketMap := (marketMap st2)(mID \<mapsto> mk\<lparr>mp_Selections := mp_Selections mk @ [selection_resp s]\<rparr>),
               selKeys := selKeys st2 @ [(mID, sl_selection_id s)]\<rparr>)"

definition empty_snap :: snap where
  "empty_snap = \<lparr>eventMap = Map.empty, marketMap = Map.empty, marketEvent = Map.empty, eventOrder = [], marketOrder = [], selKeys = []\<rparr>"

section \<open>Odds\<close>

definition decode_oddsVal :: "payload \<Rightarrow> (float64 \<times> int) option" where
  "decode_oddsVal p =
     Option.bind (dec_object p) (\<lambda>kvs.
     Option.bind (decode_field dec_float64 ''decimal'' (Fin 0) kvs) (\<lambda>d.
     Option.bind (decode_field dec_int64 ''american'' 0 kvs) (\<lambda>a. Some (d, a))))"

definition sel_key :: "string \<Rightarrow> string \<Rightarrow> string" where
  "sel_key m s = m @ '':'' @ s"

definition fetchOdds :: "http_env \<Rightarrow> payload redis \<Rightarrow> (string \<times> string) list \<Rightarrow> string \<rightharpoonup> float64 \<times> int" where
  "fetchOdds env rdb keys =
     (if keys = [] \<or> he_faults env MGet then Map.empty
      else foldl (\<lambda>res (m, s). case redis_get (he_now env) rdb (odds_key m s) of
                      None \<Rightarrow> res
                    | Some raw \<Rightarrow> (case decode_oddsVal raw of None \<Rightarrow> res | Some o1 \<Rightarrow> res(sel_key m s \<mapsto> o1)))
             Map.empty keys)"

definition inject_odds :: "(string \<rightharpoonup> float64 \<times> int) \<Rightarrow> marketResp \<Rightarrow> marketResp" where
  "inject_odds oddsMap mk =
     mk\<lparr>mp_Selections := map (\<lambda>s. case oddsMap (sel_key (mp_MarketID mk) (sp_SelectionID s)) of
            None \<Rightarrow> s | Some (d, a) \<Rightarrow> s\<lparr>sp_OddsDecimal := d, sp_OddsAmerican := a\<rparr>) (mp_Selections mk)\<rparr>"

section \<open>Assembly\<close>

definition add_market :: "snap \<Rightarrow> (string \<rightharpoonup> marketResp) \<Rightarrow> (string \<rightharpoonup> eventResp) \<Rightarrow> string \<Rightarrow> (string \<rightharpoonup> eventResp)" where
  "add_market st mks evs mID =
     (let eID = the (marketEvent st mID); ev = the (evs eID)
      in evs(eID \<mapsto> ev\<lparr>ep_Markets := ep_Markets ev @ [the (mks mID)]\<rparr>))"

definition assemble :: "snap \<Rightarrow> (string \<rightharpoonup> marketResp) \<Rightarrow> eventResp list" where
  "assemble st mks = map (\<lambda>eID. the (foldl (add_market st mks) (eventMap st) (marketOrder st) eID)) (eventOrder st)"

definition buildEventsSnapshot :: "http_env \<Rightarrow> catalog_db \<Rightarrow> payload redis \<Rightarrow> eventResp list option" where
  "buildEventsSnapshot env db rdb =
     (if he_faults env QEvents then None
      else let st = foldl (snap_row env) empty_snap (scanned_rows env db);
               oddsMap = fetchOdds env rdb (selKeys st)
           in Some (assemble st (\<lambda>mID. map_option (inject_odds oddsMap) (marketMap st mID))))"

section \<open>The handlers\<close>

text \<open>The status and, for a success, what is encoded as the body.\<close>

definition handleGetEvents :: "http_env \<Rightarrow> catalog_db \<Rightarrow> payload redis \<Rightarrow> int \<times> eventResp list option" where
  "handleGetEvents env db rdb =
     (case buildEventsSnapshot env db rdb of None \<Rightarrow> (500, None) | Some evs \<Rightarrow> (200, Some evs))"

text \<open>The handler of \<^verbatim>\<open>/ws\<close> up to its read loop: the snapshot it sent, if it did, and the hub.
  Leaving the read loop is \<open>remove_locked\<close> and \<open>remove_close\<close>.\<close>

definition handleWS :: "http_env \<Rightarrow> catalog_db \<Rightarrow> payload redis \<Rightarrow> bool \<Rightarrow> bool \<Rightarrow> conn \<Rightarrow> hub \<Rightarrow> eventResp list option \<times> hub" where
  "handleWS env db rdb upgraded sent c h =
     (if \<not> upgraded then (None, h)
      else case buildEventsSnapshot env db rdb of
        None \<Rightarrow> (None, h)
      | Some evs \<Rightarrow> if sent then (Some evs, AddClient c h) else (None, h))"

section \<open>The reference snapshot\<close>

definition row_eid :: "catalog_row \<Rightarrow> string" where
  "row_eid r = event_id (fst r)"

definition row_mid :: "catalog_row \<Rightarrow> string" where
  "row_mid r = mk_market_id (fst (snd r))"

definition row_sid :: "catalog_row \<Rightarrow> string" where
  "row_sid r = sl_selection_id (snd (snd r))"

text \<open>The different values of a list in the order of their first occurrence.\<close>

definition firsts :: "'a list \<Rightarrow> 'a list" where
  "firsts xs = foldl (\<lambda>ys x. if x \<in> set ys then ys else ys @ [x]) [] xs"

lemma firsts_snoc: "firsts (xs @ [x]) = (if x \<in> set (firsts xs) then firsts xs else firsts xs @ [x])"
  by (simp add: firsts_def)

lemma set_firsts [simp]: "set (firsts xs) = set xs"
proof (induction xs rule: rev_induct)
  case (snoc x xs)
  then show ?case by (auto simp: firsts_snoc)
qed (simp add: firsts_def)

lemma distinct_firsts [simp]: "distinct (firsts xs)"
proof (induction xs rule: rev_induct)
  case (snoc x xs)
  then show ?case by (auto simp: firsts_snoc)
qed (simp add: firsts_def)

definition cached_price :: "http_env \<Rightarrow> payload redis \<Rightarrow> string \<Rightarrow> string \<Rightarrow> (float64 \<times> int) option" where
  "cached_price env rdb m s =
     (if he_faults env MGet then None else Option.bind (redis_get (he_now env) rdb (odds_key m s)) decode_oddsVal)"

definition selection_view :: "http_env \<Rightarrow> payload redis \<Rightarrow> catalog_row \<Rightarrow> selectionResp" where
  "selection_view env rdb r =
     (case cached_price env rdb (row_mid r) (row_sid r) of
        None \<Rightarrow> selection_resp (snd (snd r))
      | Some (d, a) \<Rightarrow> (selection_resp (snd (snd r)))\<lparr>sp_OddsDecimal := d, sp_OddsAmerican := a\<rparr>)"

definition rows_of_market :: "string \<Rightarrow> catalog_row list \<Rightarrow> catalog_row list" where
  "rows_of_market mID rows = filter (\<lambda>r. row_mid r = mID) rows"

definition market_view :: "http_env \<Rightarrow> payload redis \<Rightarrow> catalog_row list \<Rightarrow> string \<Rightarrow> marketResp" where
  "market_view env rdb rows mID =
     (market_resp (fst (snd (hd (rows_of_market mID rows)))))\<lparr>mp_Selections := map (selection_view env rdb) (rows_of_market mID rows)\<rparr>"

definition event_view :: "http_env \<Rightarrow> payload redis \<Rightarrow> catalog_row list \<Rightarrow> string \<Rightarrow> eventResp" where
  "event_view env rdb rows eID =
     (event_resp env (fst (hd (filter (\<lambda>r. row_eid r = eID) rows))))\<lparr>ep_Markets := map (market_view env rdb rows)
        (filter (\<lambda>mID. row_eid (hd (rows_of_market mID rows)) = eID) (firsts (map row_mid rows)))\<rparr>"

definition snapshot_view :: "http_env \<Rightarrow> payload redis \<Rightarrow> catalog_row list \<Rightarrow> eventResp list" where
  "snapshot_view env rdb rows = map (event_view env rdb rows) (firsts (map row_eid rows))"

section \<open>The loop computes it\<close>

text \<open>The state of the loop after some rows.\<close>

definition snap_of :: "http_env \<Rightarrow> catalog_row list \<Rightarrow> snap" where
  "snap_of env rows =
     \<lparr>eventMap = (\<lambda>eID. if eID \<in> row_eid ` set rows then Some (event_resp env (fst (hd (filter (\<lambda>r. row_eid r = eID) rows)))) else None),
      marketMap = (\<lambda>mID. if mID \<in> row_mid ` set rows
         then Some ((market_resp (fst (snd (hd (rows_of_market mID rows)))))\<lparr>mp_Selections := map (selection_resp \<circ> snd \<circ> snd) (rows_of_market mID rows)\<rparr>)
         else None),
      marketEvent = (\<lambda>mID. if mID \<in> row_mid ` set rows then Some (row_eid (hd (rows_of_market mID rows))) else None),
      eventOrder = firsts (map row_eid rows), marketOrder = firsts (map row_mid rows),
      selKeys = map (\<lambda>r. (row_mid r, row_sid r)) rows\<rparr>"

lemma filter_none: "k \<notin> f ` set xs \<Longrightarrow> filter (\<lambda>x. f x = k) xs = []"
  by (auto simp: filter_empty_conv)

lemma filter_some: "k \<in> f ` set xs \<Longrightarrow> filter (\<lambda>x. f x = k) xs \<noteq> []"
  by (auto simp: filter_empty_conv)

lemma snap_row_of: "snap_row env (snap_of env rows) r = snap_of env (rows @ [r])"
proof -
  obtain e m s where r: "r = (e, m, s)" by (cases r)
  have ids: "row_eid r = event_id e" "row_mid r = mk_market_id m" "row_sid r = sl_selection_id s"
    by (simp_all add: r row_eid_def row_mid_def row_sid_def)
  show ?thesis
    by (cases "event_id e \<in> row_eid ` set rows"; cases "mk_market_id m \<in> row_mid ` set rows")
      (simp_all add: r snap_row_def snap_of_def Let_def firsts_snoc rows_of_market_def fun_eq_iff filter_none filter_some
        row_eid_def [of "(e, m, s)"] row_mid_def [of "(e, m, s)"] row_sid_def [of "(e, m, s)"] market_resp_def)
qed

lemma snap_loop: "foldl (snap_row env) empty_snap rows = snap_of env rows"
proof (induction rows rule: rev_induct)
  case Nil
  show ?case by (simp add: empty_snap_def snap_of_def firsts_def)
qed (simp add: snap_row_of)

lemma add_markets:
  assumes "\<And>mID. mID \<in> set ms \<Longrightarrow> evs (the (marketEvent st mID)) \<noteq> None"
  shows "foldl (add_market st mks) evs ms eID =
    map_option (\<lambda>ev. ev\<lparr>ep_Markets := ep_Markets ev @ map (\<lambda>mID. the (mks mID)) (filter (\<lambda>mID. the (marketEvent st mID) = eID) ms)\<rparr>) (evs eID)"
  using assms
proof (induction ms arbitrary: evs)
  case Nil
  then show ?case by (cases "evs eID") auto
next
  case (Cons m ms)
  let ?e = "the (marketEvent st m)"
  obtain ev where ev: "evs ?e = Some ev" using Cons.prems [of m] by auto
  have a: "add_market st mks evs m = evs(?e \<mapsto> ev\<lparr>ep_Markets := ep_Markets ev @ [the (mks m)]\<rparr>)" by (simp add: add_market_def ev Let_def)
  have "foldl (add_market st mks) (add_market st mks evs m) ms eID =
      map_option (\<lambda>ev. ev\<lparr>ep_Markets := ep_Markets ev @ map (\<lambda>mID. the (mks mID)) (filter (\<lambda>mID. the (marketEvent st mID) = eID) ms)\<rparr>)
        (add_market st mks evs m eID)"
    using Cons.prems by (intro Cons.IH) (simp add: a)
  then show ?case using ev by (cases "?e = eID") (simp_all add: a)
qed

text \<open>The map of odds holds, for the keys that were asked for, what Redis answers.\<close>

lemma odds_key_sel_key: "odds_key m s = ''odds:'' @ sel_key m s"
  by (simp add: odds_key_def sel_key_def)

lemma fetchOdds_at:
  assumes "(m, s) \<in> set keys"
  shows "fetchOdds env rdb keys (sel_key m s) = cached_price env rdb m s"
proof (cases "he_faults env MGet")
  case False
  define val where "val k = Option.bind (redis_get (he_now env) rdb (''odds:'' @ k)) decode_oddsVal" for k
  let ?upd = "\<lambda>res (m, s). case redis_get (he_now env) rdb (odds_key m s) of None \<Rightarrow> res
    | Some raw \<Rightarrow> (case decode_oddsVal raw of None \<Rightarrow> res | Some o1 \<Rightarrow> res(sel_key m s \<mapsto> o1))"
  have upd: "?upd res (a, b) k = (if k = sel_key a b \<and> val k \<noteq> None then val k else res k)" for res a b k
    by (auto simp: val_def odds_key_sel_key split: option.splits)
  have "foldl ?upd Map.empty ks k = (if k \<in> (\<lambda>(a, b). sel_key a b) ` set ks then val k else None)" for ks k
  proof (induction ks rule: rev_induct)
    case (snoc x ks)
    obtain a b where x: "x = (a, b)" by (cases x)
    show ?case using snoc.IH upd [of "foldl ?upd Map.empty ks" a b k] by (cases "val k") (auto simp: x)
  qed simp
  then have "foldl ?upd Map.empty keys (sel_key m s) = val (sel_key m s)" using assms by force
  then show ?thesis using False assms by (auto simp: fetchOdds_def cached_price_def val_def odds_key_sel_key)
qed (simp add: fetchOdds_def cached_price_def)

lemma inject_view:
  assumes "mID \<in> row_mid ` set rows" "marketMap (snap_of env rows) mID = Some mk"
  shows "inject_odds (fetchOdds env rdb (selKeys (snap_of env rows))) mk = market_view env rdb rows mID"
proof -
  let ?rs = "rows_of_market mID rows" and ?F = "fetchOdds env rdb (selKeys (snap_of env rows))"
  have mk: "mk = (market_resp (fst (snd (hd ?rs))))\<lparr>mp_Selections := map (selection_resp \<circ> snd \<circ> snd) ?rs\<rparr>"
    using assms by (simp add: snap_of_def)
  have "?rs \<noteq> []" using filter_some [OF assms(1)] by (simp add: rows_of_market_def)
  then have "hd ?rs \<in> set ?rs" by simp
  then have m: "mp_MarketID mk = mID" by (simp add: mk market_resp_def rows_of_market_def row_mid_def)
  have "(case ?F (sel_key mID (sp_SelectionID (selection_resp (snd (snd r))))) of None \<Rightarrow> selection_resp (snd (snd r))
      | Some (d, a) \<Rightarrow> (selection_resp (snd (snd r)))\<lparr>sp_OddsDecimal := d, sp_OddsAmerican := a\<rparr>) = selection_view env rdb r"
    if "r \<in> set ?rs" for r
  proof -
    have r: "row_mid r = mID" "r \<in> set rows" using that by (auto simp: rows_of_market_def)
    have "(mID, row_sid r) \<in> set (selKeys (snap_of env rows))" using r by (auto simp: snap_of_def)
    from fetchOdds_at [OF this] show ?thesis by (simp add: selection_view_def selection_resp_def row_sid_def r(1))
  qed
  then show ?thesis unfolding inject_odds_def m market_view_def by (simp add: mk comp_def)
qed

lemma snapshot_assembled:
  "assemble (snap_of env rows) (\<lambda>mID. map_option (inject_odds (fetchOdds env rdb (selKeys (snap_of env rows)))) (marketMap (snap_of env rows) mID)) =
     snapshot_view env rdb rows"
proof -
  let ?st = "snap_of env rows"
  let ?mks = "\<lambda>mID. map_option (inject_odds (fetchOdds env rdb (selKeys ?st))) (marketMap ?st mID)"
  have ord: "marketOrder ?st = firsts (map row_mid rows)" "eventOrder ?st = firsts (map row_eid rows)" by (simp_all add: snap_of_def)
  have me: "marketEvent ?st mID = Some (row_eid (hd (rows_of_market mID rows)))"
    and mv: "the (?mks mID) = market_view env rdb rows mID"
    and ev: "eventMap ?st (row_eid (hd (rows_of_market mID rows))) \<noteq> None" if mem: "mID \<in> row_mid ` set rows" for mID
  proof -
    show "marketEvent ?st mID = Some (row_eid (hd (rows_of_market mID rows)))" using mem by (simp add: snap_of_def)
    obtain mk where mk: "marketMap ?st mID = Some mk" using mem by (simp add: snap_of_def)
    then show "the (?mks mID) = market_view env rdb rows mID" using inject_view [OF mem mk] by simp
    have "rows_of_market mID rows \<noteq> []" using filter_some [OF mem] by (simp add: rows_of_market_def)
    then have "hd (rows_of_market mID rows) \<in> set rows" using hd_in_set [of "rows_of_market mID rows"] by (auto simp: rows_of_market_def)
    then show "eventMap ?st (row_eid (hd (rows_of_market mID rows))) \<noteq> None" by (simp add: snap_of_def)
  qed
  have "the (foldl (add_market ?st ?mks) (eventMap ?st) (firsts (map row_mid rows)) eID) = event_view env rdb rows eID"
    if "eID \<in> set (firsts (map row_eid rows))" for eID
  proof -
    have e: "eventMap ?st eID = Some (event_resp env (fst (hd (filter (\<lambda>r. row_eid r = eID) rows))))" using that by (simp add: snap_of_def)
    have f: "foldl (add_market ?st ?mks) (eventMap ?st) (firsts (map row_mid rows)) eID =
        map_option (\<lambda>ev. ev\<lparr>ep_Markets := ep_Markets ev @ map (\<lambda>mID. the (?mks mID))
          (filter (\<lambda>mID. the (marketEvent ?st mID) = eID) (firsts (map row_mid rows)))\<rparr>) (eventMap ?st eID)"
      using me ev by (intro add_markets) auto
    have g: "map (\<lambda>mID. the (?mks mID)) (filter (\<lambda>mID. the (marketEvent ?st mID) = eID) (firsts (map row_mid rows))) =
        map (market_view env rdb rows) (filter (\<lambda>mID. row_eid (hd (rows_of_market mID rows)) = eID) (firsts (map row_mid rows)))"
      using me mv by (intro map_cong filter_cong) auto
    show ?thesis unfolding f g by (simp add: e event_view_def event_resp_def)
  qed
  then show ?thesis unfolding assemble_def snapshot_view_def ord by (intro map_cong) auto
qed

text \<open>C21. The snapshot is what the catalog says: the single pass over the joined rows, with its three maps
  and two order lists, computes exactly the reference snapshot: each event of the rows once, in the
  order of the query, with its markets once each in that order, each with the selections of its rows
  and their cached odds (zero where there are none); an error of the query is the only failure.\<close>

theorem snapshot_equals_view:
  "buildEventsSnapshot env db rdb =
     (if he_faults env QEvents then None else Some (snapshot_view env rdb (scanned_rows env db)))"
  by (simp add: buildEventsSnapshot_def Let_def snap_loop snapshot_assembled)

lemma oddsVal_of_cached: "decode_CachedOdds raw = Some co \<Longrightarrow> decode_oddsVal raw = Some (Decimal co, American co)"
  by (auto simp: decode_CachedOdds_def decode_oddsVal_def bind_eq_Some_conv)

lemma scanned_mem:
  assumes "he_break env = None" "\<And>r. \<not> he_scan_fails env r"
  shows "(e, m, s) \<in> set (scanned_rows env db) \<longleftrightarrow>
    e \<in> set (events db) \<and> m \<in> set (markets db) \<and> s \<in> set (selections db) \<and> mk_event_id m = event_id e \<and>
    sl_market_id s = mk_market_id m \<and> ev_status e \<in> {''SCHEDULED'', ''LIVE''} \<and> mk_status m = ''OPEN'' \<and> active s"
  using assms by (auto simp: scanned_rows_def snapshot_rows_def)

lemma market_in_view:
  assumes "catalog_inv db" "(e, m, s) \<in> set (scanned_rows env db)" "rows = scanned_rows env db"
    and "he_break env = None" "\<And>r. \<not> he_scan_fails env r"
  shows "\<exists>ev \<in> set (snapshot_view env rdb rows). ep_EventID ev = event_id e \<and>
    (\<exists>mk \<in> set (ep_Markets ev). mp_MarketID mk = mk_market_id m \<and> selection_view env rdb (e, m, s) \<in> set (mp_Selections mk))"
proof -
  let ?r = "(e, m, s)"
  have r: "?r \<in> set rows" "row_eid ?r = event_id e" "row_mid ?r = mk_market_id m"
    using assms(2,3) by (simp_all add: row_eid_def row_mid_def)
  let ?ms = "rows_of_market (mk_market_id m) rows"
  have ms: "?r \<in> set ?ms" using r by (simp add: rows_of_market_def)
  then have hd: "hd ?ms \<in> set ?ms" by (metis hd_in_set list.set_cases list.distinct(1))
  obtain e1 m1 s1 where h: "hd ?ms = (e1, m1, s1)" by (cases "hd ?ms")
  have h1: "(e1, m1, s1) \<in> set rows" "mk_market_id m1 = mk_market_id m" 
    using hd [unfolded h] by (simp_all add: rows_of_market_def row_mid_def)
  have mm: "m \<in> set (markets db)" "mk_event_id m = event_id e" "m1 \<in> set (markets db)" "mk_event_id m1 = event_id e1"
    using assms(2) h1(1) scanned_mem [OF assms(4,5)] by (auto simp: assms(3))
  have "m1 = m"
  proof -
    have "distinct (map mk_market_id (markets db))" using assms(1) by (simp add: catalog_inv_def table_ok_def)
    then show ?thesis using mm(1,3) h1(2) by (metis distinct_map inj_onD)
  qed
  then have e1: "row_eid (hd ?ms) = event_id e" using mm by (simp add: h row_eid_def)
  have he: "event_id (fst (hd (filter (\<lambda>x. row_eid x = event_id e) rows))) = event_id e"
  proof -
    have "filter (\<lambda>x. row_eid x = event_id e) rows \<noteq> []" using r by (auto simp: filter_empty_conv)
    then have "hd (filter (\<lambda>x. row_eid x = event_id e) rows) \<in> set (filter (\<lambda>x. row_eid x = event_id e) rows)" by (rule hd_in_set)
    then show ?thesis by (simp add: row_eid_def)
  qed
  let ?ev = "event_view env rdb rows (event_id e)" and ?mk = "market_view env rdb rows (mk_market_id m)"
  have "?ev \<in> set (snapshot_view env rdb rows)" using r by (force simp: snapshot_view_def)
  moreover have "ep_EventID ?ev = event_id e" using he by (simp add: event_view_def event_resp_def)
  moreover have "?mk \<in> set (ep_Markets ?ev)" using r e1 by (force simp: event_view_def)
  moreover have "mp_MarketID ?mk = mk_market_id m" using h1(2) by (simp add: market_view_def market_resp_def h)
  moreover have "selection_view env rdb ?r \<in> set (mp_Selections ?mk)" using ms by (simp add: market_view_def)
  ultimately show ?thesis by blast
qed

text \<open>Over a catalog that satisfies its constraints, every active selection of an open market of a
  scheduled or live event is in the snapshot, under its event and its market, and shows its cached
  odds.\<close>

lemma snapshot_shows_cached_odds:
  assumes "catalog_inv db" "he_faults env = no_faults" "he_break env = None" "he_scan_fails env = (\<lambda>_. False)"
    and "e \<in> set (events db)" "m \<in> set (markets db)" "s \<in> set (selections db)" "mk_event_id m = event_id e" "sl_market_id s = mk_market_id m"
    and "ev_status e \<in> {''SCHEDULED'', ''LIVE''}" "mk_status m = ''OPEN''" "active s"
    and "redis_get (he_now env) rdb (odds_key (mk_market_id m) (sl_selection_id s)) = Some raw" "decode_CachedOdds raw = Some co"
  shows "\<exists>evs. handleGetEvents env db rdb = (200, Some evs) \<and>
    (\<exists>ev \<in> set evs. ep_EventID ev = event_id e \<and>
      (\<exists>mk \<in> set (ep_Markets ev). mp_MarketID mk = mk_market_id m \<and>
        (\<exists>sel \<in> set (mp_Selections mk). sp_SelectionID sel = sl_selection_id s \<and>
           sp_OddsDecimal sel = Decimal co \<and> sp_OddsAmerican sel = American co)))"
proof -
  have sc: "\<And>r. \<not> he_scan_fails env r" using assms(4) by simp
  have mem: "(e, m, s) \<in> set (scanned_rows env db)" using scanned_mem [OF assms(3) sc] assms(5-12) by blast
  have "cached_price env rdb (row_mid (e, m, s)) (row_sid (e, m, s)) = Some (Decimal co, American co)"
    using assms(2,13) oddsVal_of_cached [OF assms(14)] by (simp add: cached_price_def row_mid_def row_sid_def)
  then have "sp_SelectionID (selection_view env rdb (e, m, s)) = sl_selection_id s"
    "sp_OddsDecimal (selection_view env rdb (e, m, s)) = Decimal co" "sp_OddsAmerican (selection_view env rdb (e, m, s)) = American co"
    by (simp_all add: selection_view_def selection_resp_def)
  moreover have "handleGetEvents env db rdb = (200, Some (snapshot_view env rdb (scanned_rows env db)))"
    using assms(2) by (simp add: handleGetEvents_def buildEventsSnapshot_def Let_def snap_loop snapshot_assembled)
  ultimately show ?thesis using market_in_view [OF assms(1) mem refl assms(3) sc, of rdb] by blast
qed

definition http_env0 :: http_env where
  "http_env0 = \<lparr>he_now = 1, he_faults = no_faults, he_coll = (\<lambda>s. int (length s)), he_time_text = (\<lambda>_. []), he_scan_fails = (\<lambda>_. False), he_break = None\<rparr>"

lemma redis_get_earlier: "redis_get now rdb k = Some v \<Longrightarrow> t \<le> now \<Longrightarrow> redis_get t rdb k = Some v"
  by (auto simp: redis_get_def split: option.splits if_splits)

text \<open>C22. The price shown is the price taken: when Bet Acceptance accepts a bet, not the replay of an
  earlier one, on an active selection of an open market of a scheduled or live event, then a fault-free
  snapshot made from the same odds cache no later than the bet shows this selection under its event and
  its market with exactly the decimal and American odds that the bet is accepted at. The catalog
  satisfies its constraints; the query and every row are read.\<close>

theorem snapshot_shows_bet_odds:
  assumes "catalog_inv db" "he_faults henv = no_faults" "he_break henv = None" "he_scan_fails henv = (\<lambda>_. False)"
    and "e \<in> set (events db)" "m \<in> set (markets db)" "s \<in> set (selections db)" "mk_event_id m = event_id e" "sl_market_id s = mk_market_id m"
    and "ev_status e \<in> {''SCHEDULED'', ''LIVE''}" "mk_status m = ''OPEN''" "active s"
    and "PlaceBet ft cfg env wc req st = (Inr resp, st')" "\<not> is_replay ft env req st"
    and "pb_MarketID req = mk_market_id m" "pb_SelectionID req = sl_selection_id s" "he_now henv \<le> be_now env"
  shows "\<exists>evs. handleGetEvents henv db (redisOdds st) = (200, Some evs) \<and>
    (\<exists>ev \<in> set evs. ep_EventID ev = event_id e \<and>
      (\<exists>mk \<in> set (ep_Markets ev). mp_MarketID mk = mk_market_id m \<and>
        (\<exists>sel \<in> set (mp_Selections mk). sp_SelectionID sel = sl_selection_id s \<and>
           sp_OddsDecimal sel = pr_OddsDecimal resp \<and> sp_OddsAmerican sel = pr_OddsAmerican resp)))"
proof -
  obtain co where "check_bet ft cfg (be_now env) wc req st = Inr co" using assms(13,14) by (rule PlaceBet_acceptedD)
  then obtain raw where raw: "redis_get (be_now env) (redisOdds st) (odds_key (pb_MarketID req) (pb_SelectionID req)) = Some raw"
    "decode_CachedOdds raw = Some co"
    by (rule check_betD) (auto intro: that)
  have "redis_get (he_now henv) (redisOdds st) (odds_key (mk_market_id m) (sl_selection_id s)) = Some raw"
    using redis_get_earlier [OF raw(1) assms(17)] assms(15,16) by simp
  from snapshot_shows_cached_odds [OF assms(1-12) this raw(2)] accepted_odds [OF assms(13,14) raw]
  show ?thesis by simp
qed

text \<open>A catalog with the selection that Ann bets on.\<close>

definition ann_market :: market_row where
  "ann_market = market1\<lparr>mk_market_id := ''a''\<rparr>"

definition ann_selection :: selection_row where
  "ann_selection = \<lparr>sl_selection_id = ''s1'', sl_market_id = ''a'', sl_name = ''Nets'', active = True, sl_target_value = 0,
     feed_probability = Some 50000\<rparr>"

definition ann_catalog :: catalog_db where
  "ann_catalog = catalog1\<lparr>markets := [ann_market], selections := [ann_selection]\<rparr>"

theorem snapshot_shows_bet_odds_witness:
  "PlaceBet no_faults DefaultConfig ann_env (remote_wallet good_link) (ann_bet 2000) (ann_st\<lparr>redisOdds := even_rdb\<rparr>) =
     (Inr ann_resp, ann_st'\<lparr>redisOdds := even_rdb\<rparr>) \<and>
   (\<exists>evs. handleGetEvents http_env0 ann_catalog even_rdb = (200, Some evs) \<and>
     (\<exists>ev \<in> set evs. ep_EventID ev = ''e1'' \<and> (\<exists>mk \<in> set (ep_Markets ev). mp_MarketID mk = ''a'' \<and> (\<exists>sel \<in> set (mp_Selections mk).
        sp_SelectionID sel = ''s1'' \<and> sp_OddsDecimal sel = pr_OddsDecimal ann_resp \<and> sp_OddsAmerican sel = pr_OddsAmerican ann_resp))))"
proof -
  let ?e = "hd (events catalog1)"
  have inv: "catalog_inv ann_catalog"
    by (simp add: catalog_inv_def ann_catalog_def ann_market_def ann_selection_def catalog1_def market1_def table_ok_def event_chk_def
        market_chk_def selection_chk_def in_int32_def)
  have n: "\<not> is_replay no_faults ann_env (ann_bet 2000) (ann_st\<lparr>redisOdds := even_rdb\<rparr>)"
    by (simp add: is_replay_def ann_st_def redis_get_def)
  have ids: "event_id ?e = ''e1''" "ev_status ?e = ''LIVE''" "mk_market_id ann_market = ''a''" "sl_selection_id ann_selection = ''s1''"
    "pb_MarketID (ann_bet 2000) = ''a''" "pb_SelectionID (ann_bet 2000) = ''s1''"
    by (simp_all add: catalog1_def ann_market_def ann_selection_def ann_bet_def)
  have "\<exists>evs. handleGetEvents http_env0 ann_catalog (redisOdds (ann_st\<lparr>redisOdds := even_rdb\<rparr>)) = (200, Some evs) \<and>
     (\<exists>ev \<in> set evs. ep_EventID ev = event_id ?e \<and> (\<exists>mk \<in> set (ep_Markets ev). mp_MarketID mk = mk_market_id ann_market \<and>
       (\<exists>sel \<in> set (mp_Selections mk). sp_SelectionID sel = sl_selection_id ann_selection \<and>
          sp_OddsDecimal sel = pr_OddsDecimal ann_resp \<and> sp_OddsAmerican sel = pr_OddsAmerican ann_resp)))"
    by (rule snapshot_shows_bet_odds [OF inv _ _ _ _ _ _ _ _ _ _ _ ann_placed_cached n])
      (simp_all add: ids, simp_all add: http_env0_def ann_env_def ann_catalog_def catalog1_def ann_market_def ann_selection_def market1_def)
  then show ?thesis unfolding ids using ann_placed_cached by simp
qed

end
