(* ===== verification/Shutdown.thy ===== *)
theory Shutdown
  imports Processes
begin

text \<open>
  The end of the HTTP processes as a step relation over all interleavings of the requests, the
  goroutine that calls \<^verbatim>\<open>Shutdown\<close>, and \<^verbatim>\<open>main\<close>.

  \<^verbatim>\<open>net/http\<close>: \<^verbatim>\<open>Shutdown\<close> closes the listener at once, so that \<^verbatim>\<open>ListenAndServe\<close> returns at once, and
  then waits for the requests in flight until its context ends. In Bet Acceptance, Bet History and
  Identity a goroutine calls it and \<^verbatim>\<open>run\<close> returns when \<^verbatim>\<open>ListenAndServe\<close> does; in the cashier \<^verbatim>\<open>main\<close>
  itself calls it. The process ends with \<^verbatim>\<open>main\<close>, whatever goroutines are still running.

  Shown: the first three processes can end with a request in flight, before any of the ten seconds
  of the shutdown has passed, but not within a database transaction; the cashier, which calls
  \<^verbatim>\<open>Shutdown\<close> in \<^verbatim>\<open>main\<close>, exits with code 0 only after a \<^verbatim>\<open>Shutdown\<close> that has waited for every request it
  accepted or for its deadline. A listener that fails ends the cashier with code 1 at any time.
\<close>

section \<open>Requests\<close>

text \<open>A request has a number and may hold a connection of the pool.\<close>

record server =
  accepting :: bool
  requests :: "(nat \<times> bool) list"
  answered :: "nat list"
  next_request :: nat
  signalled :: bool
  clock :: time

inductive request_step :: "bool \<Rightarrow> 'a server_scheme \<Rightarrow> 'a server_scheme \<Rightarrow> bool" for pool_open where
  accepts: "accepting s \<Longrightarrow> request_step pool_open s (s\<lparr>requests := (next_request s, False) # requests s, next_request := Suc (next_request s)\<rparr>)"
| acquires: "pool_open \<Longrightarrow> (n, False) \<in> set (requests s) \<Longrightarrow> request_step pool_open s (s\<lparr>requests := (n, True) # remove1 (n, False) (requests s)\<rparr>)"
| releases: "(n, True) \<in> set (requests s) \<Longrightarrow> request_step pool_open s (s\<lparr>requests := (n, False) # remove1 (n, True) (requests s)\<rparr>)"
| answers: "(n, False) \<in> set (requests s) \<Longrightarrow> request_step pool_open s (s\<lparr>requests := remove1 (n, False) (requests s), answered := n # answered s\<rparr>)"

inductive_cases request_stepE: "request_step pool_open s s'"

definition shutdown_timeout :: time where
  "shutdown_timeout = 10 * second"

section \<open>A goroutine shuts down\<close>

datatype closer = Idle | Draining time | Drained
datatype main_at = Serving | Deferred "resource list" | Exited

record http_process = server +
  closer_at :: closer
  main_at :: main_at

definition no_holder :: "'a server_scheme \<Rightarrow> bool" where
  "no_holder s \<longleftrightarrow> (\<forall>r \<in> set (requests s). \<not> snd r)"

definition is_pool :: "resource \<Rightarrow> bool" where
  "is_pool r \<longleftrightarrow> (\<exists>url. r = PgPool url)"

definition pool_open :: "http_process \<Rightarrow> bool" where
  "pool_open p = (case main_at p of Serving \<Rightarrow> True | Deferred rs \<Rightarrow> list_ex is_pool rs | Exited \<Rightarrow> False)"

text \<open>\<open>ready r p\<close> says that \<^verbatim>\<open>Close\<close> of \<open>r\<close> can return; \<open>closes\<close> are the deferred calls in the order in which
  they run.\<close>

inductive http_step :: "(resource \<Rightarrow> http_process \<Rightarrow> bool) \<Rightarrow> resource list \<Rightarrow> http_process \<Rightarrow> http_process \<Rightarrow> bool" for ready closes where
  request: "main_at p \<noteq> Exited \<Longrightarrow> request_step (pool_open p) p p' \<Longrightarrow> http_step ready closes p p'"
| signal: "http_step ready closes p (p\<lparr>signalled := True\<rparr>)"
| time_passes: "0 \<le> dt \<Longrightarrow> http_step ready closes p (p\<lparr>clock := clock p + dt\<rparr>)"
| shutdown: "main_at p \<noteq> Exited \<Longrightarrow> signalled p \<Longrightarrow> closer_at p = Idle \<Longrightarrow>
    http_step ready closes p (p\<lparr>accepting := False, closer_at := Draining (clock p + shutdown_timeout)\<rparr>)"
| drained: "main_at p \<noteq> Exited \<Longrightarrow> closer_at p = Draining d \<Longrightarrow> requests p = [] \<or> d \<le> clock p \<Longrightarrow> http_step ready closes p (p\<lparr>closer_at := Drained\<rparr>)"
| serve_fails: "main_at p = Serving \<Longrightarrow> http_step ready closes p (p\<lparr>accepting := False, main_at := Deferred closes\<rparr>)"
| serve_returns: "main_at p = Serving \<Longrightarrow> \<not> accepting p \<Longrightarrow> http_step ready closes p (p\<lparr>main_at := Deferred closes\<rparr>)"
| deferred: "main_at p = Deferred (r # rs) \<Longrightarrow> ready r p \<Longrightarrow> http_step ready closes p (p\<lparr>main_at := Deferred rs\<rparr>)"
| exits: "main_at p = Deferred [] \<Longrightarrow> http_step ready closes p (p\<lparr>main_at := Exited\<rparr>)"

inductive_cases http_stepE: "http_step ready closes p p'"

definition http_start :: http_process where
  "http_start = \<lparr>accepting = True, requests = [], answered = [], next_request = 0, signalled = False, clock = 0,
     closer_at = Idle, main_at = Serving\<rparr>"

text \<open>The deferred calls of the three processes.\<close>

definition deferred_of :: "process \<Rightarrow> getenv \<Rightarrow> resource list" where
  "deferred_of p getenv = rev (filter has_defer (needs p getenv))"

text \<open>Documented: closing the pool waits until all its connections are returned; nothing else waits for
  a request that holds no connection.\<close>

definition pool_waits :: "(resource \<Rightarrow> http_process \<Rightarrow> bool) \<Rightarrow> bool" where
  "pool_waits ready \<longleftrightarrow> (\<forall>r p. is_pool r \<longrightarrow> ready r p \<longrightarrow> no_holder p)"

definition closes_return :: "(resource \<Rightarrow> http_process \<Rightarrow> bool) \<Rightarrow> bool" where
  "closes_return ready \<longleftrightarrow> (\<forall>r p. no_holder p \<longrightarrow> ready r p)"

lemma no_holder_simps [simp]:
  "no_holder (s\<lparr>signalled := b\<rparr>) = no_holder s" "no_holder (s\<lparr>clock := t\<rparr>) = no_holder s" "no_holder (s\<lparr>accepting := b\<rparr>) = no_holder s"
  "no_holder (p\<lparr>closer_at := c\<rparr>) = no_holder p" "no_holder (p\<lparr>main_at := m\<rparr>) = no_holder p"
  by (simp_all add: no_holder_def)

lemma request_step_frame:
  fixes p p' :: http_process
  assumes "request_step b p p'"
  shows "main_at p' = main_at p \<and> closer_at p' = closer_at p \<and> (\<not> b \<longrightarrow> no_holder p \<longrightarrow> no_holder p')"
  using assms by (auto simp: no_holder_def elim!: request_stepE dest: notin_set_remove1 set_remove1_subset [THEN subsetD])

lemma http_no_holder:
  assumes "pool_waits ready" "list_ex is_pool closes" "reach (http_step ready closes) http_start p"
  shows "pool_open p \<or> no_holder p"
  using assms(3)
proof (rule reach_invariant)
  fix u v assume i: "pool_open u \<or> no_holder u" and s: "http_step ready closes u v"
  from s show "pool_open v \<or> no_holder v"
  proof (cases rule: http_step.cases)
    case request
    then show ?thesis using i request_step_frame [OF request(2)] by (auto simp: pool_open_def)
  next
    case (deferred r rs)
    then show ?thesis using i assms(1) by (auto simp: pool_open_def pool_waits_def)
  qed (use i assms(2) in \<open>auto simp: pool_open_def split: main_at.splits\<close>)
qed (simp add: pool_open_def http_start_def)

lemma deferred_has_pool:
  assumes "p \<in> {BetAcceptanceP, BetHistoryP, IdentityP}"
  shows "list_ex is_pool (deferred_of p getenv)"
  using assms by (auto simp: deferred_of_def needs_def Let_def is_pool_def)

text \<open>No process ends within a transaction: Bet Acceptance, Bet History and Identity, in every
  interleaving of requests, signal, shutdown and deferred calls, end only when no request holds a
  database connection, because closing the pool waits for it.\<close>

theorem exit_outside_transactions:
  assumes "pool_waits ready" "p \<in> {BetAcceptanceP, BetHistoryP, IdentityP}"
    and "reach (http_step ready (deferred_of p getenv)) http_start s" "main_at s = Exited"
  shows "\<forall>(n, holds) \<in> set (requests s). \<not> holds"
  using http_no_holder [OF assms(1) deferred_has_pool [OF assms(2)] assms(3)] assms(4)
  by (auto simp: pool_open_def no_holder_def)

lemma deferred_run:
  assumes "closes_return ready" "no_holder p"
  shows "reach (http_step ready closes) (p\<lparr>main_at := Deferred rs\<rparr>) (p\<lparr>main_at := Exited\<rparr>)"
proof (induction rs)
  case Nil
  show ?case by (rule reach_single) (use http_step.exits [of "p\<lparr>main_at := Deferred []\<rparr>" ready closes] in simp)
next
  case (Cons r rs)
  have "http_step ready closes (p\<lparr>main_at := Deferred (r # rs)\<rparr>) (p\<lparr>main_at := Deferred rs\<rparr>)"
    using http_step.deferred [of "p\<lparr>main_at := Deferred (r # rs)\<rparr>" r rs ready closes] assms by (simp add: closes_return_def)
  then show ?case using reach_trans [OF Cons.IH reach_single] by blast
qed

text \<open>The three processes do not wait for the shutdown they have started: the process can end with a
  request in flight that is never answered, when none of the ten seconds has passed.\<close>

theorem exit_drops_requests:
  assumes "closes_return ready"
  shows "\<exists>s. reach (http_step ready closes) http_start s \<and> main_at s = Exited \<and> clock s = 0 \<and>
    next_request s = 1 \<and> requests s = [(0, False)] \<and> answered s = []"
proof -
  define s1 where "s1 = http_start\<lparr>requests := [(0, False)], next_request := 1\<rparr>"
  define s2 where "s2 = s1\<lparr>signalled := True\<rparr>"
  define s3 where "s3 = s2\<lparr>accepting := False, closer_at := Draining shutdown_timeout\<rparr>"
  note defs = s1_def s2_def s3_def http_start_def
  have "request_step True http_start s1"
    using request_step.accepts [of http_start True] by (simp add: defs)
  then have "http_step ready closes http_start s1"
    by (intro http_step.request) (simp_all add: pool_open_def http_start_def)
  moreover have "http_step ready closes s1 s2" unfolding s2_def by (rule http_step.signal)
  moreover have "http_step ready closes s2 s3"
    using http_step.shutdown [of s2 ready closes] by (simp add: defs)
  moreover have "http_step ready closes s3 (s3\<lparr>main_at := Deferred closes\<rparr>)"
    by (rule http_step.serve_returns) (simp_all add: defs)
  moreover have "reach (http_step ready closes) (s3\<lparr>main_at := Deferred closes\<rparr>) (s3\<lparr>main_at := Exited\<rparr>)"
    by (rule deferred_run [OF assms]) (simp add: defs no_holder_def)
  ultimately have "reach (http_step ready closes) http_start (s3\<lparr>main_at := Exited\<rparr>)"
    by (meson reach_refl reach_step reach_trans)
  then show ?thesis by (intro exI [of _ "s3\<lparr>main_at := Exited\<rparr>"]) (simp add: defs)
qed

section \<open>The cashier\<close>

datatype cashier_pc = Waiting | InShutdown time | Finished int

record cashier_process = server +
  cashier_at :: cashier_pc
  deadline :: "time option"

inductive cashier_step :: "cashier_process \<Rightarrow> cashier_process \<Rightarrow> bool" where
  request: "(\<And>c. cashier_at p \<noteq> Finished c) \<Longrightarrow> request_step False p p' \<Longrightarrow> cashier_step p p'"
| signal: "cashier_step p (p\<lparr>signalled := True\<rparr>)"
| time_passes: "0 \<le> dt \<Longrightarrow> cashier_step p (p\<lparr>clock := clock p + dt\<rparr>)"
| listen_fails: "accepting p \<Longrightarrow> cashier_at p = Waiting \<Longrightarrow> cashier_step p (p\<lparr>cashier_at := Finished 1\<rparr>)"
| shutdown: "cashier_at p = Waiting \<Longrightarrow> signalled p \<Longrightarrow>
    cashier_step p (p\<lparr>accepting := False, cashier_at := InShutdown (clock p + shutdown_timeout), deadline := Some (clock p + shutdown_timeout)\<rparr>)"
| stops: "cashier_at p = InShutdown d \<Longrightarrow> requests p = [] \<or> d \<le> clock p \<Longrightarrow> cashier_step p (p\<lparr>cashier_at := Finished 0\<rparr>)"

inductive_cases cashier_stepE: "cashier_step p p'"

definition cashier_start :: cashier_process where
  "cashier_start = \<lparr>accepting = True, requests = [], answered = [], next_request = 0, signalled = False, clock = 0,
     cashier_at = Waiting, deadline = None\<rparr>"

definition accounted :: "'a server_scheme \<Rightarrow> bool" where
  "accounted s \<longleftrightarrow> fst ` set (requests s) \<union> set (answered s) = {..< next_request s}"

definition cashier_inv :: "cashier_process \<Rightarrow> bool" where
  "cashier_inv p \<longleftrightarrow> accounted p \<and> (\<forall>d. cashier_at p = InShutdown d \<longrightarrow> signalled p \<and> deadline p = Some d) \<and>
     (cashier_at p = Finished 0 \<longrightarrow> signalled p \<and> (requests p = [] \<or> (\<exists>d. deadline p = Some d \<and> d \<le> clock p)))"

lemma remove1_keys: "x \<in> set xs \<Longrightarrow> insert (fst x) (fst ` set (remove1 x xs)) = fst ` set xs"
  by (induction xs) auto

lemma request_step_accounted:
  assumes "request_step b s s'" "accounted s"
  shows "accounted s'"
  using assms(1)
proof (cases rule: request_step.cases)
  case accepts
  then show ?thesis using assms(2) by (simp add: accounted_def lessThan_Suc)
next
  case (acquires n)
  then show ?thesis using assms(2) remove1_keys [OF acquires(3)] by (simp add: accounted_def)
next
  case (releases n)
  then show ?thesis using assms(2) remove1_keys [OF releases(2)] by (simp add: accounted_def)
next
  case (answers n)
  have "fst ` set (remove1 (n, False) (requests s)) \<union> insert n (set (answered s)) = fst ` set (requests s) \<union> set (answered s)"
    using remove1_keys [OF answers(2)] by auto
  then show ?thesis using assms(2) answers(1) by (simp add: accounted_def)
qed

lemma request_step_cashier:
  fixes p p' :: cashier_process
  assumes "request_step b p p'"
  shows "cashier_at p' = cashier_at p \<and> deadline p' = deadline p \<and> signalled p' = signalled p"
  using assms by (auto elim!: request_stepE)

lemma cashier_reach_inv:
  assumes "reach cashier_step cashier_start p"
  shows "cashier_inv p"
  using assms
proof (rule reach_invariant)
  fix u v assume i: "cashier_inv u" and s: "cashier_step u v"
  from s show "cashier_inv v"
  proof (cases rule: cashier_step.cases)
    case request
    then show ?thesis using i request_step_cashier [OF request(2)] request_step_accounted [OF request(2)] by (auto simp: cashier_inv_def)
  qed (use i in \<open>auto simp: cashier_inv_def accounted_def\<close>)
qed (simp add: cashier_inv_def cashier_start_def accounted_def)

text \<open>The cashier exits with code 0 only after a signal and with every request it ever accepted answered,
  or after the deadline of the shutdown. That \<^verbatim>\<open>Shutdown\<close> waits is the documented behaviour of
  \<^verbatim>\<open>net/http\<close>, taken as the guard of the step; what the code adds is that \<^verbatim>\<open>main\<close> calls it.\<close>

theorem cashier_drains:
  assumes "reach cashier_step cashier_start p" "cashier_at p = Finished 0"
  shows "signalled p \<and> (set (answered p) = {..< next_request p} \<or> (\<exists>d. deadline p = Some d \<and> d \<le> clock p))"
  using cashier_reach_inv [OF assms(1)] assms(2) by (auto simp: cashier_inv_def accounted_def)

section \<open>Witnesses\<close>

definition pool_ready :: "resource \<Rightarrow> http_process \<Rightarrow> bool" where
  "pool_ready r p \<longleftrightarrow> (is_pool r \<longrightarrow> no_holder p)"

lemma pool_ready_documented: "pool_waits pool_ready" "closes_return pool_ready"
  by (simp_all add: pool_waits_def closes_return_def pool_ready_def)

theorem exit_outside_transactions_witness:
  "\<exists>s. reach (http_step pool_ready (deferred_of BetAcceptanceP unset)) http_start s \<and> main_at s = Exited \<and>
     requests s = [(0, False)] \<and> (\<forall>(n, holds) \<in> set (requests s). \<not> holds)"
proof -
  obtain s where s: "reach (http_step pool_ready (deferred_of BetAcceptanceP unset)) http_start s" "main_at s = Exited" "requests s = [(0, False)]"
    using exit_drops_requests [OF pool_ready_documented(2)] by blast
  moreover have "\<forall>(n, holds) \<in> set (requests s). \<not> holds"
    by (rule exit_outside_transactions [OF pool_ready_documented(1) _ s(1,2)]) simp
  ultimately show ?thesis by blast
qed

theorem cashier_drains_witness:
  "\<exists>p. reach cashier_step cashier_start p \<and> cashier_at p = Finished 0 \<and> next_request p = 1 \<and> clock p = 0 \<and> 0 \<in> set (answered p)"
proof -
  define s1 where "s1 = cashier_start\<lparr>requests := [(0, False)], next_request := 1\<rparr>"
  define s2 where "s2 = s1\<lparr>signalled := True\<rparr>"
  define s3 where "s3 = s2\<lparr>accepting := False, cashier_at := InShutdown shutdown_timeout, deadline := Some shutdown_timeout\<rparr>"
  define s4 where "s4 = s3\<lparr>requests := [], answered := [0]\<rparr>"
  note defs = s1_def s2_def s3_def s4_def cashier_start_def
  have "request_step False cashier_start s1" using request_step.accepts [of cashier_start False] by (simp add: defs)
  then have "cashier_step cashier_start s1" by (intro cashier_step.request) (simp_all add: cashier_start_def)
  moreover have "cashier_step s1 s2" unfolding s2_def by (rule cashier_step.signal)
  moreover have "cashier_step s2 s3" using cashier_step.shutdown [of s2] by (simp add: defs)
  moreover have "request_step False s3 s4" using request_step.answers [of 0 s3 False] by (simp add: defs)
  then have "cashier_step s3 s4" by (intro cashier_step.request) (simp_all add: defs)
  moreover have "cashier_step s4 (s4\<lparr>cashier_at := Finished 0\<rparr>)"
    by (rule cashier_step.stops [of _ shutdown_timeout]) (simp_all add: defs)
  ultimately have r: "reach cashier_step cashier_start (s4\<lparr>cashier_at := Finished 0\<rparr>)" by (meson reach_refl reach_step)
  have "set (answered (s4\<lparr>cashier_at := Finished 0\<rparr>)) = {..< 1} \<or> shutdown_timeout \<le> 0"
    using cashier_drains [OF r] by (simp add: defs)
  then have "0 \<in> set (answered (s4\<lparr>cashier_at := Finished 0\<rparr>))" by (auto simp: shutdown_timeout_def second_def)
  then show ?thesis using r by (intro exI [of _ "s4\<lparr>cashier_at := Finished 0\<rparr>"]) (simp add: defs)
qed

end
