(* ===== verification/Tickers.thy ===== *)
theory Tickers
  imports Catalog BetAcceptance
begin

text \<open>
  The two loops driven by a ticker whose ticks matter to each other: \<^verbatim>\<open>OutboxRelay.Run\<close> and
  \<^verbatim>\<open>StatusCacheWarmer.Run\<close>. A run is the sequence of what happens: the ticks with what fails in them,
  and what other parts of the program change in between; it ends with the cancellation.

  Shown: after any failures, enough ticks without one publish every ready row; the status of an open
  or suspended market stays readable for five seconds after a warm that worked, whatever fails in the
  ticks that follow, so that with ticks every three seconds it is never missing.
\<close>

section \<open>The loops\<close>

text \<open>\<^verbatim>\<open>select\<close> between the cancellation and the tick; the result is whether the loop has returned.\<close>

datatype 'e loop_event = Cancelled | Tick 'e

fun relay_Run :: "(bool \<times> (string \<Rightarrow> relay_call faults) \<times> time) loop_event list \<Rightarrow>
    OutboxRow tbl \<times> ProducerMessage list \<Rightarrow> bool \<times> OutboxRow tbl \<times> ProducerMessage list" where
  "relay_Run [] s = (False, s)"
| "relay_Run (Cancelled # evs) s = (True, s)"
| "relay_Run (Tick (fetch_fails, ft, now) # evs) s = relay_Run evs (publishBatch fetch_fails ft now s)"

text \<open>What happens while the warmer runs: a warm, or another state of the tables and the cache.\<close>

datatype market_event = Warmed time bool bool "market_row \<Rightarrow> bool" bool | Changed market_state

fun warmer_Run :: "market_event list \<Rightarrow> market_state \<Rightarrow> market_state" where
  "warmer_Run [] st = st"
| "warmer_Run (Warmed now query_fails rows_err scan_fails exec_fails # evs) st =
     warmer_Run evs (warm query_fails rows_err scan_fails exec_fails now st)"
| "warmer_Run (Changed st' # evs) st = warmer_Run evs st'"

section \<open>The relay recovers\<close>

lemma publishBatch_distinct:
  assumes "distinct (map ob_ID (fst s))"
  shows "distinct (map ob_ID (fst (publishBatch fetch_fails ft now s)))"
proof (cases fetch_fails)
  case False
  obtain t msgs where s: "s = (t, msgs)" by (cases s)
  obtain t' msgs' where p: "publishBatch False ft now (t, msgs) = (t', msgs')" by fastforce
  then have "t' = map (\<lambda>r. if r \<in> set (fetchReady 100 t) \<and> (\<forall>c. \<not> ft (ob_ID r) c) then published now r else r) t"
    using publishBatch_spec [of t ft now msgs t' msgs'] assms s by simp
  then have "map ob_ID t' = map ob_ID t" by (simp add: published_def comp_def if_distrib cong: if_cong)
  then show ?thesis using assms p False s by simp
qed (use assms in \<open>simp add: publishBatch_def split: prod.splits\<close>)

definition good_tick :: "time \<Rightarrow> (bool \<times> (string \<Rightarrow> relay_call faults) \<times> time) loop_event" where
  "good_tick now = Tick (False, \<lambda>_. no_faults, now)"

lemma good_ticks: "relay_Run (replicate n (good_tick now)) s = (False, drain n now s)"
  by (induction n arbitrary: s) (simp_all add: good_tick_def drain_def funpow_swap1)

lemma relay_Run_append: "relay_Run (map Tick es @ evs) s = relay_Run evs (foldl (\<lambda>s (f, ft, now). publishBatch f ft now s) s es)"
  by (induction es arbitrary: s) (auto split: prod.splits)

text \<open>C39. The relay recovers from any failures: whatever fails in the ticks before, n ticks without a
  failure publish every row that is then ready, each exactly once, as soon as 100 n is at least their
  number.\<close>

theorem relay_Run_recovers:
  assumes "distinct (map ob_ID t)" "relay_Run (map Tick es) (t, msgs) = (False, t1, msgs1)" "length (ready_rows t1) \<le> 100 * n"
    and "relay_Run (map Tick es @ replicate n (good_tick now)) (t, msgs) = (returned, t2, msgs2)"
  shows "ready_rows t2 = [] \<and> mset msgs2 = mset msgs1 + mset (map outbox_message (ready_rows t1))"
proof -
  have "distinct (map ob_ID (fst (foldl (\<lambda>s (f, ft, now). publishBatch f ft now s) s es)))" if "distinct (map ob_ID (fst s))" for s
    using that
  proof (induction es arbitrary: s)
    case (Cons e es)
    obtain f ft now where "e = (f, ft, now)" by (cases e)
    then show ?case using Cons.IH [OF publishBatch_distinct [OF Cons.prems]] by simp
  qed simp
  moreover have f: "foldl (\<lambda>s (f, ft, now). publishBatch f ft now s) (t, msgs) es = (t1, msgs1)"
    using assms(2) relay_Run_append [of es "[]"] by simp
  ultimately have "distinct (map ob_ID t1)" using assms(1) by (metis fst_conv)
  moreover have "drain n now (t1, msgs1) = (t2, msgs2)" using assms(4) unfolding relay_Run_append f good_ticks by simp
  ultimately show ?thesis using outbox_drains assms(3) by blast
qed

section \<open>The status stays in the cache\<close>

lemma warm_fold_entry:
  assumes "\<forall>(k', s') \<in> set pairs. k' = k \<longrightarrow> s' = s" "rdb (status_key k) = Some (s, e)" "b \<le> e" "b \<le> now + statusCacheTTL"
  shows "\<exists>e'. foldl (\<lambda>r (m, s). redis_set now (status_key m) s statusCacheTTL r) rdb pairs (status_key k) = Some (s, e') \<and> b \<le> e'"
  using assms
proof (induction pairs arbitrary: rdb e)
  case (Cons p pairs)
  obtain k' s' where p: "p = (k', s')" by (cases p)
  let ?rdb = "redis_set now (status_key k') s' statusCacheTTL rdb"
  have "\<exists>e1. ?rdb (status_key k) = Some (s, e1) \<and> b \<le> e1" using Cons.prems by (auto simp: p redis_set_def)
  then show ?case using Cons.IH [of ?rdb] Cons.prems(1,4) by (auto simp: p)
qed simp

definition cached_until :: "string \<Rightarrow> string \<Rightarrow> time \<Rightarrow> market_state \<Rightarrow> bool" where
  "cached_until k s b st \<longleftrightarrow> table_ok mk_market_id market_chk (markets (ms_db st)) \<and>
     (\<exists>m. by_key mk_market_id k (markets (ms_db st)) = Some m \<and> mk_status m = s) \<and>
     (\<exists>e. Catalog.redisMarket st (status_key k) = Some (s, e) \<and> b \<le> e)"

lemma warm_db [simp]: "ms_db (warm q r f x now st) = ms_db st"
  by (simp add: warm_def split: option.splits)

lemma warm_keeps:
  assumes "cached_until k s b st" "b \<le> now + statusCacheTTL"
  shows "cached_until k s b (warm q r f x now st)"
proof (cases "warm_read q r f (ms_db st)")
  case (Some pairs)
  from assms(1) obtain m e where m: "table_ok mk_market_id market_chk (markets (ms_db st))" "by_key mk_market_id k (markets (ms_db st)) = Some m"
      "mk_status m = s" and e: "Catalog.redisMarket st (status_key k) = Some (s, e)" "b \<le> e"
    by (auto simp: cached_until_def)
  have "m' = m" if "m' \<in> set (markets (ms_db st))" "mk_market_id m' = k" for m'
    using that by_key_SomeD [OF m(2)] m(1) by (auto simp: table_ok_def distinct_map dest: inj_onD)
  then have "\<forall>(k', s') \<in> set pairs. k' = k \<longrightarrow> s' = s" using Some m(3) by (auto simp: warm_read_def split: if_splits)
  from warm_fold_entry [of pairs k s "Catalog.redisMarket st" e b now, OF this e assms(2)]
  have "\<exists>e'. Catalog.redisMarket (warm q r f x now st) (status_key k) = Some (s, e') \<and> b \<le> e'"
    using e by (auto simp: warm_def Some warm_exec_def)
  then show ?thesis using m by (auto simp: cached_until_def)
next
  case None
  then show ?thesis using assms(1) by (simp add: warm_def)
qed

text \<open>Other parts leave the market alone: its row keeps the status and its cache entry is not touched.\<close>

definition leaves_alone :: "string \<Rightarrow> market_state \<Rightarrow> market_state \<Rightarrow> bool" where
  "leaves_alone k st st' \<longleftrightarrow> table_ok mk_market_id market_chk (markets (ms_db st')) \<and>
     map_option mk_status (by_key mk_market_id k (markets (ms_db st'))) = map_option mk_status (by_key mk_market_id k (markets (ms_db st))) \<and>
     Catalog.redisMarket st' (status_key k) = Catalog.redisMarket st (status_key k)"

fun undisturbed :: "string \<Rightarrow> time \<Rightarrow> market_event list \<Rightarrow> market_state \<Rightarrow> bool" where
  "undisturbed k t0 [] st = True"
| "undisturbed k t0 (Warmed now q r f x # evs) st \<longleftrightarrow> t0 \<le> now \<and> undisturbed k t0 evs (warm q r f x now st)"
| "undisturbed k t0 (Changed st' # evs) st \<longleftrightarrow> leaves_alone k st st' \<and> undisturbed k t0 evs st'"

lemma warmer_keeps:
  assumes "cached_until k s b st" "b \<le> t0 + statusCacheTTL" "undisturbed k t0 evs st"
  shows "cached_until k s b (warmer_Run evs st)"
  using assms
proof (induction k t0 evs st rule: undisturbed.induct)
  case (2 k t0 now q r f x evs st)
  then show ?case using warm_keeps [of k s b st now q r f x] by simp
next
  case (3 k t0 st' evs st)
  then have "cached_until k s b st'" by (auto simp: cached_until_def leaves_alone_def)
  then show ?case using 3 by simp
qed simp

text \<open>The status of a market stays readable: after a warm that worked, and for the five seconds its
  entries live, the cache answers the status of the market's row, whatever fails in the warms that
  follow and whatever else changes, as long as nothing else writes this market's status.\<close>

theorem status_stays_cached:
  assumes "table_ok mk_market_id market_chk (markets (ms_db st))" "by_key mk_market_id k (markets (ms_db st)) = Some m"
    and "mk_status m \<in> {''OPEN'', ''SUSPENDED''}" "undisturbed k t0 (Warmed t0 False False (\<lambda>_. False) False # evs) st"
    and "t < t0 + 5 * second"
  shows "redis_get t (Catalog.redisMarket (warmer_Run (Warmed t0 False False (\<lambda>_. False) False # evs) st)) (status_key k) = Some (mk_status m)"
proof -
  let ?st1 = "warm False False (\<lambda>_. False) False t0 st"
  have "redis_get (t0 + 5 * second - 1) (Catalog.redisMarket ?st1) (status_key k) = Some (mk_status m)"
    using warm_sets [OF assms(1-3)] by (auto simp: warm_def warm_read_def statusCacheTTL_def second_def)
  then have "cached_until k (mk_status m) (t0 + 5 * second) ?st1"
    using assms(1,2) by (auto simp: cached_until_def redis_get_def split: option.splits if_splits)
  then have "cached_until k (mk_status m) (t0 + 5 * second) (warmer_Run evs ?st1)"
    using assms(4) by (intro warmer_keeps) (simp_all add: statusCacheTTL_def)
  then show ?thesis using assms(5) by (auto simp: cached_until_def redis_get_def)
qed

text \<open>C40. An open market takes bets: while the warmer works within every five seconds, a bet on an open
  market is not refused for the status of the market, unless the read of the cache fails.\<close>

theorem open_market_takes_bets:
  assumes "table_ok mk_market_id market_chk (markets (ms_db cst))" "by_key mk_market_id (pb_MarketID req) (markets (ms_db cst)) = Some m"
    and "mk_status m = ''OPEN''" "undisturbed (pb_MarketID req) t0 (Warmed t0 False False (\<lambda>_. False) False # evs) cst"
    and "BetAcceptance.redisMarket st = Catalog.redisMarket (warmer_Run (Warmed t0 False False (\<lambda>_. False) False # evs) cst)"
    and "be_now env < t0 + 5 * second" "\<not> bft MarketGet"
  shows "fst (PlaceBet bft cfg env wc req st) \<notin> {Inl ErrMarketNotOpen, Inl MarketStatusCacheMiss}"
proof -
  have "redis_get (be_now env) (BetAcceptance.redisMarket st) (market_key (pb_MarketID req)) = Some ''OPEN''"
    using status_stays_cached [OF assms(1,2) _ assms(4,6)] assms(3,5) by (simp add: status_key_def market_key_def)
  then have "check_bet bft cfg (be_now env) wc req st \<notin> {Inl ErrMarketNotOpen, Inl MarketStatusCacheMiss}"
    using assms(7) by (auto simp: check_bet_def stmt_def sbind_def ok_or_def guard_or_def validateOdds_def checkLimits_def Let_def split: sum.splits option.splits if_splits)
  moreover have "fst (commit_bet bft env wc req o' st') \<notin> {Inl ErrMarketNotOpen, Inl MarketStatusCacheMiss}" for o' st'
    by (auto simp: commit_bet_def Let_def split: option.splits prod.splits sum.splits if_splits)
  ultimately show ?thesis by (auto simp: PlaceBet_def split: option.splits sum.splits prod.splits)
qed

section \<open>Witnesses\<close>

text \<open>The produce of a row fails in the first tick.\<close>

theorem relay_Run_recovers_witness:
  "\<exists>t2 msgs2. relay_Run (map Tick [(False, \<lambda>_ c. c = SendFails, 20)] @ replicate 1 (good_tick 20)) ([ann_row], []) = (False, t2, msgs2) \<and>
     ready_rows t2 = [] \<and> mset msgs2 = {#outbox_message ann_row#}"
proof -
  have f: "fetchReady 100 [ann_row] = [ann_row]" by (simp add: fetchReady_def ann_row_def)
  let ?es = "[(False, \<lambda>_ c. c = SendFails, 20)] :: (bool \<times> (string \<Rightarrow> relay_call faults) \<times> time) list"
  have e: "relay_Run (map Tick ?es) ([ann_row], []) = (False, [ann_row], [])" by (simp add: publishBatch_def publish_def f)
  obtain b t2 m2 where r: "relay_Run (map Tick ?es @ replicate 1 (good_tick 20)) ([ann_row], []) = (b, t2, m2)" by (metis prod_cases3)
  have "b = False" using r unfolding relay_Run_append good_ticks by simp
  moreover have "ready_rows [ann_row] = [ann_row]" by (simp add: ready_rows_def ann_row_def)
  moreover have "ready_rows t2 = [] \<and> mset m2 = mset [] + mset (map outbox_message (ready_rows [ann_row]))"
    by (rule relay_Run_recovers [OF _ e _ r]) (simp_all add: \<open>ready_rows [ann_row] = [ann_row]\<close>)
  ultimately show ?thesis using r by (intro exI [of _ t2] exI [of _ m2]) simp
qed

text \<open>The second warm, three seconds later, cannot read the table.\<close>

theorem open_market_takes_bets_witness:
  "\<exists>st. fst (PlaceBet no_faults DefaultConfig ann_env (remote_wallet good_link) ((ann_bet 2000)\<lparr>pb_MarketID := ''m1''\<rparr>) st)
     \<notin> {Inl ErrMarketNotOpen, Inl MarketStatusCacheMiss}"
proof -
  define cst where "cst = \<lparr>ms_db = catalog1, redisMarket = Map.empty\<rparr>"
  let ?req = "(ann_bet 2000)\<lparr>pb_MarketID := ''m1''\<rparr>" and ?evs = "[Warmed (be_now ann_env + 3 * second) True False (\<lambda>_. False) False]"
  let ?st = "ann_st\<lparr>BetAcceptance.redisMarket := Catalog.redisMarket (warmer_Run (Warmed (be_now ann_env) False False (\<lambda>_. False) False # ?evs) cst)\<rparr>"
  have "fst (PlaceBet no_faults DefaultConfig ann_env (remote_wallet good_link) ?req ?st) \<notin> {Inl ErrMarketNotOpen, Inl MarketStatusCacheMiss}"
    by (rule open_market_takes_bets [of cst _ market1 "be_now ann_env" ?evs])
      (use catalog_invD(4) [OF catalog_inv1] in \<open>simp_all add: cst_def second_def market1_def [THEN arg_cong [of _ _ mk_status]]\<close>)
  then show ?thesis by blast
qed

end
