(* ===== verification/Spec2Isabelle.thy ===== *)
theory Spec2Isabelle
  imports MarketData ConsumerRuns Shutdown Tickers
begin

text \<open>
  \<^bold>\<open>A verification development for the sportsbook platform of \<^verbatim>\<open>src/\<close>\<close>

  \<^bold>\<open>The program.\<close> The platform is a set of Go services around PostgreSQL databases, Redis caches and
  Kafka topics. The market data process (\<^verbatim>\<open>cmd/marketdata\<close>, \<^verbatim>\<open>internal/marketdata\<close>,
  \<^verbatim>\<open>internal/polymarket\<close>) takes events from Polymarket, from score boards and from sockets,
  normalises them and publishes them. The catalog service (\<^verbatim>\<open>internal/catalog\<close>) stores sports,
  events, markets and selections, caches market statuses and serves clients over HTTP and WebSocket.
  Odds Management (\<^verbatim>\<open>internal/oddsmanagement\<close>) computes odds with a margin and publishes them, the
  cache updater (\<^verbatim>\<open>internal/odds\<close>) writes them to Redis. Bet Acceptance
  (\<^verbatim>\<open>internal/betacceptance\<close>) checks market, odds, limits and lag, debits the stake through the wallet
  (\<^verbatim>\<open>internal/wallet\<close>) and publishes the bet through an outbox. Bet History
  (\<^verbatim>\<open>internal/bethistory\<close>) records bets and settlements, Settlement (\<^verbatim>\<open>internal/settlement\<close>) pays
  them, Identity (\<^verbatim>\<open>internal/identity\<close>) issues tokens, and the processes under \<^verbatim>\<open>cmd\<close> put HTTP
  endpoints in front.

  \<^bold>\<open>Modelling.\<close> An operation is a function from its environment (clock, identifiers it draws, failing
  calls) and the state to a result and the new state. A table is a list of rows with the schema's
  keys, CHECK constraints, foreign keys and column ranges; a transaction is one step; every database,
  Redis, Kafka and RPC call may fail by a fault, also after its effect when only the acknowledgement
  is lost. Redis entries carry their expiry. Instants are integers in nanoseconds, int64 values are
  integers with wrap-around written out, hashes are words, float64 values are reals with the
  IEEE rounding, infinities, NaN and the negative zero (\<open>Float64\<close>). JSON is a datatype with the
  decoding rules of encoding/json; the syntax of JSON text is not modelled. Goroutines are step
  relations, and what is shown of them holds in every interleaving.

  \<^bold>\<open>Theories and the files they model.\<close>
  \<^item> \<open>Prelude\<close>, \<open>Float64\<close>, \<open>GoStrings\<close>, \<open>GoTime\<close>, \<open>Json\<close>, \<open>Kafka\<close>: tables, Redis, reachability,
    float64, strings and strconv, RFC 3339, JSON, and the consumer loop: a partition claim, and the
    loop of \<^verbatim>\<open>Consume\<close> calls over it with rebalances, lost commits and redelivery (the locales
    \<open>consumer\<close> and \<open>idempotent_consumer\<close>, interpreted by every consumer).
  \<^item> \<open>Wallet\<close> (\<^verbatim>\<open>wallet/service.go\<close>): the RPCs, the reconciliation job; schema invariant,
    append-only ledger, double entry, conservation of money, at most once, atomic errors.
  \<^item> \<open>BetAcceptance\<close> (\<^verbatim>\<open>bet_flow.go\<close>, \<^verbatim>\<open>lag_checker.go\<close>, \<^verbatim>\<open>outbox.go\<close>): the bet flow over the
    locale \<open>wallet_contract\<close>, interpreted by the wallet over a lossy network; what acceptance and
    rejection mean, every published bet is funded, the outbox drains.
  \<^item> \<open>Settlement\<close>, \<open>BetHistory\<close> (\<^verbatim>\<open>settlement/consumer.go\<close>, \<^verbatim>\<open>bethistory/consumer.go\<close>): settlements
    are final, bounds of the payout, redelivery is harmless, the bet.placed event is read as it was
    written; with the topics of its subscription the history records nothing.
  \<^item> \<open>Matching\<close> (\<^verbatim>\<open>event_matcher.go\<close>, \<^verbatim>\<open>token_registry.go\<close>), \<open>MarketEvents\<close> (\<^verbatim>\<open>ingestion.go\<close>,
    \<^verbatim>\<open>composite_normaliser.go\<close>), \<open>ScoreFeeds\<close> (NBA, NCAA, NHL and Polymarket scores), \<open>Polymarket\<close>
    (client, polling feed, order-book feed, normalisers), \<open>FeedSockets\<close> (the socket loops),
    \<open>MarketData\<close> (\<^verbatim>\<open>cmd/marketdata/main.go\<close>: all feeds and consumers of the process over their
    shared state): the word search against its specification, round trip of events, every published
    event fits the catalog (the locale \<open>normaliser_contract\<close>), termination of the paged fetch,
    ordered delivery, every message of the topic comes from an event that a poll accepted.
  \<^item> \<open>Catalog\<close> (\<^verbatim>\<open>catalog/consumer.go\<close>, \<^verbatim>\<open>service.go\<close>, \<^verbatim>\<open>status_cache.go\<close>), \<open>Broadcaster\<close>
    (\<^verbatim>\<open>broadcaster.go\<close>, \<^verbatim>\<open>odds_consumer.go\<close>), \<open>CatalogHTTP\<close> (\<^verbatim>\<open>http.go\<close>): consistency of the
    tables, the feed never reopens a market, ordered and bounded delivery to clients, the snapshot
    equals a declarative view and shows the odds a bet is taken at.
  \<^item> \<open>OddsMath\<close>, \<open>OddsManagement\<close> (\<^verbatim>\<open>oddsmanagement/service.go\<close>), \<open>OddsCache\<close>
    (\<^verbatim>\<open>odds/cache_updater.go\<close>): the book always has a margin, American odds survive conversion,
    the handlers write each row before its message and whole unless something fails, the cache
    refines a map from selections to their last odds; with the topics of its subscription the service
    computes no odds.
  \<^item> \<open>Identity\<close> (\<^verbatim>\<open>identity/service.go\<close>), \<open>HttpApi\<close> (the handlers of \<^verbatim>\<open>cmd/identity\<close>,
    \<^verbatim>\<open>cmd/betacceptance\<close>, \<^verbatim>\<open>cmd/cashier\<close>, \<^verbatim>\<open>cmd/bethistory\<close>): accounts and tokens, the locale
    \<open>guarded_endpoint\<close> of the endpoints behind the token check, money and cents.
  \<^item> \<open>ConsumerRuns\<close> (the \<^verbatim>\<open>Run\<close> loops of the six consumers): in every run, over any redelivery, nothing
    below the committed offset is skipped, settlements are final, catalog and odds tables keep their
    invariants, no lag means that nothing waits, and a bet is struck at the latest odds of the log. The
    loops of Bet History and Odds Management carry their subscription; for other subscriptions what
    their handlers promise is shown separately. A run is over one partition and one member.
  \<^item> \<open>Processes\<close> (\<^verbatim>\<open>cmd/*/main.go\<close> and the constructors they call), \<open>Shutdown\<close> (the end of the HTTP
    processes): environment and default addresses, what a process opens and closes on every path,
    exit codes, routes and the shared token secret; a step relation of requests, signal and shutdown.
  \<^item> \<open>Tickers\<close> (the ticker loops of \<^verbatim>\<open>outbox.go\<close> and \<^verbatim>\<open>status_cache.go\<close>): the relay recovers from any
    failures, the status of an open market stays cached while the warmer works, so bets are taken.
  \<^item> This theory: properties that span components.

  \<^bold>\<open>Parameters.\<close> Third-party code enters as arguments with its documented behaviour as a hypothesis:
  math.Log and math.Exp within one unit in the last place (\<open>libm_accurate\<close>), bcrypt and the JWT
  library (\<open>bcrypt_documented\<close>, \<open>jwt_documented\<close>), PostgreSQL's reading of timestamps and decimals,
  the Kafka admin API, the position a group has after committing (\<open>commit_documented\<close>), closing a
  connection pool (\<open>pool_waits\<close>), HTTP responses. Each hypothesis has a concrete instance in a witness.

  \<^bold>\<open>Bounds and fuel.\<close> No definition has fuel: loops are structural or have a measure, and the paged
  fetch, which need not return, is a partial function with its termination characterised. The ranges
  in theorems are those of the code: int64 columns, the 32, 64 and 128 slots of channels, fifty listed
  bets, one hundred rows of a poll; amounts of money are exact up to ten trillion dollars because
  the product with 100 then rounds to the nearest cent.

  \<^bold>\<open>Not modelled.\<close> Logging, timeouts of servers and dials, the insides of the libraries (the gRPC
  servers and their graceful stop, group coordination in Kafka, WebSocket framing), the tickers of
  the polling feeds (a poll at any time is a step of the market data process), the TypeScript frontend, and the code generated from the proto files
  beyond the message types and getters used.
\<close>

section \<open>Properties that span components\<close>

text \<open>C28. A suspended or closed market takes no bets: once the catalog service reports the suspension
  or closing of a market, then for the five seconds the cached status lives a bet on it that is not
  a repetition of an accepted one is refused, whatever else fails, and neither the wallet nor the
  outbox changes.\<close>

theorem suspended_market_takes_no_bets:
  assumes "SuspendMarket ft t m cst = (True, cst1) \<or> CloseMarket ft t m cst = (True, cst1)"
    and "BetAcceptance.redisMarket st = Catalog.redisMarket cst1" "pb_MarketID req = m"
    and "be_now env < t + marketStatusTTL" "\<not> is_replay bft env req st"
  shows "\<exists>e. PlaceBet bft cfg env wc req st = (Inl e, st) \<and> e \<in> {ErrMarketNotOpen, MarketStatusCacheMiss}"
proof -
  obtain s where s: "s \<noteq> ''OPEN''" "setMarketStatus ft t m s cst = (True, cst1)"
    using assms(1) unfolding SuspendMarket_def CloseMarket_def by (elim disjE) (rule that [rotated], assumption, simp)+
  have "redis_get (be_now env) (Catalog.redisMarket cst1) (status_key m) = Some s"
    using s(2) assms(4) by (auto simp: setMarketStatus_def redis_simps split: prod.splits if_splits)
  then have "redis_get (be_now env) (BetAcceptance.redisMarket st) (market_key (pb_MarketID req)) = Some s"
    using assms(2,3) by (simp add: status_key_def market_key_def)
  then have "check_bet bft cfg (be_now env) wc req st = Inl (if bft MarketGet then MarketStatusCacheMiss else ErrMarketNotOpen)"
    using s(1) by (simp add: check_bet_def stmt_def)
  then show ?thesis using assms(5) by (auto simp: PlaceBet_def is_replay_def stmt_def split: option.splits)
qed

definition open_catalog :: market_state where
  "open_catalog = \<lparr>ms_db = catalog2, redisMarket = Map.empty\<rparr>"

definition suspended :: market_state where
  "suspended = snd (SuspendMarket no_faults 9 ''a'' open_catalog)"

theorem suspended_market_takes_no_bets_witness:
  "\<exists>e. PlaceBet no_faults DefaultConfig ann_env (remote_wallet good_link) (ann_bet 2000)
      (ann_st\<lparr>BetAcceptance.redisMarket := Catalog.redisMarket suspended\<rparr>) =
    (Inl e, ann_st\<lparr>BetAcceptance.redisMarket := Catalog.redisMarket suspended\<rparr>) \<and> e \<in> {ErrMarketNotOpen, MarketStatusCacheMiss}"
proof -
  have "fst (SuspendMarket no_faults 9 ''a'' open_catalog)"
    by code_simp
  then have "SuspendMarket no_faults 9 ''a'' open_catalog = (True, suspended)" by (simp add: suspended_def prod_eq_iff)
  then show ?thesis
    by (intro suspended_market_takes_no_bets [OF disjI1])
      (auto simp: ann_bet_def ann_env_def marketStatusTTL_def second_def is_replay_def ann_st_def redis_simps)
qed

text \<open>C29. From registration to money: the token of a successful registration, sent within its hour to
  the cashier with an amount in cents, funds the wallet account of the new user with exactly that
  amount when nothing fails, although that account did not exist before.\<close>

theorem new_user_funds_account:
  assumes "jwt_documented (svc_jwt svc)" "Register svc env req st = (Inr r, st1)" "ie_uuid env \<noteq> []"
    and "now < (ie_now env + jwtTTL) div second * second" "bearer_token rq = Some (AccessToken r)"
    and "wallet_inv db" "balance_of db (ie_uuid env) = None"
    and "1 \<le> n" "n \<le> 10 ^ 15" "decode_cash (rq_body rq) = Some (lit (of_int n / 100), pm)"
    and "\<not> ci_lost io" "\<not> ci_reply_lost io" "ci_wallet io = no_faults" "ci_txID io \<noteq> []" "entry_of db (ci_txID io) = None"
  shows "\<exists>resp db'. deposit_endpoint svc now io rq db = (resp, db') \<and> rs_code resp = 200 \<and> avail_of db' (ie_uuid env) = n"
proof -
  obtain us where i: "issue svc env (ie_uuid env) ''PENDING'' (st\<lparr>users := us\<rparr>) = (Inr r, st1)"
    using assms(2) by (rule Register_cases)
  obtain c where "ValidateToken svc now (AccessToken r) = Inr c" "cl_UserID c = ie_uuid env"
    using issued_token [OF assms(1) i, of now] assms(4) by blast
  then have a: "authenticated svc now rq = Some (ie_uuid env)" using assms(5) by (simp add: authenticated_def)
  have z: "avail_of db (ie_uuid env) = 0" using assms(7) by (simp add: avail_of_def)
  then have "avail_of db (ie_uuid env) + n < 2 ^ 63" using assms(9) by simp
  from deposit_cents [OF assms(6,8,9) a assms(3,10-15) this] show ?thesis by (simp add: z)
qed

definition funding_rq :: http_request where
  "funding_rq = \<lparr>rq_headers = [(''Authorization'', ''Bearer '' @ AccessToken ann_session)], rq_body = Some (cash_body 2500)\<rparr>"

theorem new_user_funds_account_witness:
  "\<exists>st1 resp db'. Register svc0 (id_env 0 7) ann_creds no_accounts = (Inr ann_session, st1) \<and>
    deposit_endpoint svc0 10 cash_io funding_rq empty_wallet = (resp, db') \<and> rs_code resp = 200 \<and> avail_of db' ''u1'' = 2500"
proof -
  obtain st1 where r: "Register svc0 (id_env 0 7) ann_creds no_accounts = (Inr ann_session, st1)" using ann_registers by blast
  have b: "bearer_token funding_rq = Some (AccessToken ann_session)"
    by (simp add: bearer_token_def funding_rq_def header_Get_def Let_def strings_HasPrefix_def strings_TrimPrefix_def)
  have d: "decode_cash (rq_body funding_rq) = Some (lit (of_int 2500 / 100), ''card'')"
    using cash_decoded [of 2500] by (simp add: funding_rq_def ann_rq_def)
  have u: "ie_uuid (id_env 0 7) = ''u1''" "ie_now (id_env 0 7) = 0" by (simp_all add: id_env_def)
  have "\<exists>resp db'. deposit_endpoint svc0 10 cash_io funding_rq empty_wallet = (resp, db') \<and> rs_code resp = 200 \<and> avail_of db' (ie_uuid (id_env 0 7)) = 2500"
    by (rule new_user_funds_account [OF svc0_documented(1) r _ _ b _ _ _ _ d])
      (simp_all add: u jwtTTL_def second_def cash_io_def empty_wallet_def balance_of_def entry_of_def by_key_Nil wallet_inv_def)
  then show ?thesis using r u by auto
qed

end
